(* ===== verification/Prelude.thy ===== *)
theory Prelude
  imports Main "HOL-Library.Word"
begin

text \<open>
  Shared vocabulary of the development: machine-word type names, the collections that carry the
  component proofs, decimal rendering as \<open>std::to_string\<close> and stream insertion produce it, the
  little-endian byte loops that the record codecs use, \<open>atoi\<close>, and a few list facts.
\<close>

unbundle bit_operations_syntax

named_theorems byte_simps \<open>reading bytes back from an updated byte array\<close>
named_theorems step_defs \<open>definitions of the operations a state machine is made of\<close>
named_theorems frame_simps \<open>fields an operation leaves unchanged\<close>

type_synonym u8 = "8 word"
type_synonym u16 = "16 word"
type_synonym u32 = "32 word"
type_synonym u64 = "64 word"
type_synonym bytes = "u8 list"

subsection \<open>Decimal rendering\<close>

definition digit_char :: "nat \<Rightarrow> char" where
  "digit_char d = char_of (48 + d)"

fun dec_nat :: "nat \<Rightarrow> string" where
  "dec_nat n = (if n < 10 then [digit_char n] else dec_nat (n div 10) @ [digit_char (n mod 10)])"

declare dec_nat.simps [simp del]

definition dec_int :: "int \<Rightarrow> string" where
  "dec_int i = (if i < 0 then CHR ''-'' # dec_nat (nat (- i)) else dec_nat (nat i))"

definition is_digit :: "char \<Rightarrow> bool" where
  "is_digit c \<longleftrightarrow> 48 \<le> (of_char c :: nat) \<and> (of_char c :: nat) \<le> 57"

definition digit_val :: "char \<Rightarrow> nat" where
  "digit_val c = of_char c - 48"

definition digits_val :: "string \<Rightarrow> nat" where
  "digits_val s = foldl (\<lambda>a c. a * 10 + digit_val c) 0 s"

lemma of_char_digit_char: "d < 10 \<Longrightarrow> (of_char (digit_char d) :: nat) = 48 + d"
  by (simp add: digit_char_def)

lemma is_digit_digit_char [simp]: "d < 10 \<Longrightarrow> is_digit (digit_char d)"
  by (simp add: is_digit_def of_char_digit_char)

lemma digit_val_digit_char [simp]: "d < 10 \<Longrightarrow> digit_val (digit_char d) = d"
  by (simp add: digit_val_def of_char_digit_char)

lemma dec_nat_digits: "list_all is_digit (dec_nat n)"
proof (induction n rule: dec_nat.induct)
  case (1 n)
  then show ?case by (cases "n < 10") (simp_all add: dec_nat.simps [of n])
qed

lemma dec_nat_not_Nil [simp]: "dec_nat n \<noteq> []"
  by (simp add: dec_nat.simps [of n])

lemma digits_val_dec_nat [simp]: "digits_val (dec_nat n) = n"
proof (induction n rule: dec_nat.induct)
  case (1 n)
  then show ?case by (cases "n < 10") (simp_all add: dec_nat.simps [of n] digits_val_def)
qed

lemma dec_nat_inj [simp]: "dec_nat m = dec_nat n \<longleftrightarrow> m = n"
  by (metis digits_val_dec_nat)

lemma dec_nat_hd_digit: "is_digit (hd (dec_nat n))"
  using dec_nat_digits [of n] dec_nat_not_Nil [of n] by (cases "dec_nat n") auto

lemma dec_nat_no_minus: "dec_nat n \<noteq> CHR ''-'' # s"
  using dec_nat_hd_digit [of n] by (auto simp: is_digit_def)

lemma dec_int_inj: "dec_int i = dec_int j \<Longrightarrow> i = j"
  using dec_nat_no_minus [of "nat i"] dec_nat_no_minus [of "nat j"]
  by (auto simp: dec_int_def nat_eq_iff split: if_splits dest: sym)

definition is_space :: "char \<Rightarrow> bool" where
  "is_space ch \<longleftrightarrow> ch \<in> {CHR '' '', CHR 0x09, CHR 0x0A, CHR 0x0B, CHR 0x0C, CHR 0x0D}"

text \<open>\<open>atoi\<close> on values an \<open>int\<close> can hold.\<close>

definition atoi :: "string \<Rightarrow> int" where
  "atoi str =
     (case dropWhile is_space str of
        [] \<Rightarrow> 0
      | ch # cs \<Rightarrow>
          let digits = (\<lambda>cs. int (digits_val (takeWhile is_digit cs)))
          in if ch = CHR ''-'' then - digits cs else if ch = CHR ''+'' then digits cs else digits (ch # cs))"

subsection \<open>Byte loops\<close>

text \<open>The byte a little-endian store puts at position \<open>i\<close> of a value.\<close>

definition le_byte :: "u64 \<Rightarrow> nat \<Rightarrow> u8" where
  "le_byte v i = ucast (drop_bit (8 * i) v)"

text \<open>The loop \<open>record[offset + i] = value >> (8 * i)\<close> for \<open>i = 0 .. size - 1\<close>.\<close>

primrec put_bytes :: "bytes \<Rightarrow> nat \<Rightarrow> u64 \<Rightarrow> nat \<Rightarrow> bytes" where
  "put_bytes buf off v 0 = buf"
| "put_bytes buf off v (Suc n) = (put_bytes buf off v n)[off + n := le_byte v n]"

text \<open>The loop \<open>value |= uint64_t(record[offset + i]) << (8 * i)\<close>.\<close>

primrec get_bytes :: "bytes \<Rightarrow> nat \<Rightarrow> nat \<Rightarrow> u64" where
  "get_bytes buf off 0 = 0"
| "get_bytes buf off (Suc n) = get_bytes buf off n OR push_bit (8 * n) (ucast (buf ! (off + n)))"

lemma length_put_bytes [simp, byte_simps]: "length (put_bytes buf off v n) = length buf"
  by (induction n) auto

lemma nth_put_bytes [byte_simps]:
  "off + n \<le> length buf \<Longrightarrow>
   put_bytes buf off v n ! k = (if off \<le> k \<and> k < off + n then le_byte v (k - off) else buf ! k)"
  by (induction n) (auto simp: nth_list_update)

lemma get_bytes_le_byte:
  "(\<And>i. i < n \<Longrightarrow> buf ! (off + i) = le_byte v i) \<Longrightarrow> get_bytes buf off n = take_bit (8 * n) v"
proof (induction n)
  case 0
  show ?case by simp
next
  case (Suc n)
  then have "get_bytes buf off (Suc n) =
      take_bit (8 * n) v OR push_bit (8 * n) (ucast (le_byte v n))"
    by simp
  also have "\<dots> = take_bit (8 * Suc n) v"
    by (rule bit_eqI) (auto simp: le_byte_def bit_simps)
  finally show ?case .
qed

lemma get_put_same:
  "off + n \<le> length buf \<Longrightarrow> get_bytes (put_bytes buf off v n) off n = take_bit (8 * n) v"
  by (rule get_bytes_le_byte) (simp add: nth_put_bytes)

lemma get_bytes_cong:
  "(\<And>i. i < n \<Longrightarrow> buf ! (off + i) = buf' ! (off + i)) \<Longrightarrow> get_bytes buf off n = get_bytes buf' off n"
  by (induction n) auto

lemma get_put_other:
  assumes "off' + m \<le> length buf" and "off + n \<le> off' \<or> off' + m \<le> off"
  shows "get_bytes (put_bytes buf off' v m) off n = get_bytes buf off n"
  using assms by (intro get_bytes_cong) (auto simp: nth_put_bytes)

lemma take_put_bytes:
  "k \<le> off \<Longrightarrow> take k (put_bytes buf off v n) = take k buf"
  by (induction n) auto

lemma bit_get_bytes:
  "n \<le> 8 \<Longrightarrow> bit (get_bytes buf off n) k \<longleftrightarrow> k < 8 * n \<and> bit (buf ! (off + k div 8)) (k mod 8)"
proof (induction n)
  case 0
  show ?case by simp
next
  case (Suc n)
  consider "k < 8 * n" | "8 * n \<le> k" "k < 8 * Suc n" | "8 * Suc n \<le> k" by linarith
  then show ?case
  proof cases
    case 2
    then obtain j where j: "k = 8 * n + j" "j < 8"
      by (metis add_diff_inverse_nat linorder_not_less mult_Suc_right nat_add_left_cancel_less add.commute)
    with Suc show ?thesis by (auto simp: bit_simps)
  qed (use Suc in \<open>auto simp: bit_simps dest: bit_imp_le_length\<close>)
qed

lemma le_byte_get_bytes: "i < n \<Longrightarrow> n \<le> 8 \<Longrightarrow> le_byte (get_bytes buf off n) i = buf ! (off + i)"
  by (rule bit_eqI) (auto simp: le_byte_def bit_simps bit_get_bytes)

lemma le_byte_get_at:
  "off \<le> i \<Longrightarrow> i < off + n \<Longrightarrow> n \<le> 8 \<Longrightarrow> le_byte (get_bytes buf off n) (i - off) = buf ! i"
  by (simp add: le_byte_get_bytes)

lemma map_le_byte_get_bytes:
  "length xs = n \<Longrightarrow> n \<le> 8 \<Longrightarrow> map (le_byte (get_bytes xs 0 n)) [0..<n] = xs"
  by (rule nth_equalityI) (simp_all add: le_byte_get_bytes)

text \<open>\<open>htobe32\<close>, \<open>be32toh\<close> and their 64-bit kin on a little-endian machine: the bytes reversed.\<close>

definition bswap :: "nat \<Rightarrow> u64 \<Rightarrow> u64" where
  "bswap n v = get_bytes (rev (map (le_byte v) [0..<n])) 0 n"

lemma bswap_bswap: "n \<le> 8 \<Longrightarrow> bswap n (bswap n v) = take_bit (8 * n) v"
proof -
  assume n: "n \<le> 8"
  have "map (le_byte (bswap n v)) [0..<n] = rev (map (le_byte v) [0..<n])"
    using n unfolding bswap_def by (intro map_le_byte_get_bytes) simp_all
  then have "bswap n (bswap n v) = get_bytes (map (le_byte v) [0..<n]) 0 n"
    by (simp add: bswap_def)
  then show ?thesis
    by (simp add: get_bytes_le_byte)
qed

text \<open>\<open>memcpy(buf + off, xs.data(), xs.size())\<close> inside an array.\<close>

definition put_list :: "bytes \<Rightarrow> nat \<Rightarrow> bytes \<Rightarrow> bytes" where
  "put_list buf off xs = take off buf @ xs @ drop (off + length xs) buf"

lemma length_put_list [simp]: "off + length xs \<le> length buf \<Longrightarrow> length (put_list buf off xs) = length buf"
  by (simp add: put_list_def)

lemma nth_put_list:
  "off + length xs \<le> length buf \<Longrightarrow>
   put_list buf off xs ! k = (if off \<le> k \<and> k < off + length xs then xs ! (k - off) else buf ! k)"
  by (auto simp: put_list_def nth_append)

lemma get_bytes_put_list:
  "off + length xs \<le> length buf \<Longrightarrow> k + n \<le> off \<Longrightarrow> get_bytes (put_list buf off xs) k n = get_bytes buf k n"
  by (rule get_bytes_cong) (simp add: nth_put_list)

subsection \<open>Conversions between word lengths\<close>

lemma ucast_u8_u32 [simp]: "(ucast (ucast (b :: u8) :: u32) :: u8) = b"
  by (rule bit_eqI) (auto simp: bit_simps dest: bit_imp_le_length)

lemma ucast_u32_u64 [simp]: "(ucast (ucast (b :: u32) :: u64) :: u32) = b"
  by (rule bit_eqI) (auto simp: bit_simps dest: bit_imp_le_length)

lemma ucast_u8_u32_inj: "(ucast (b :: u8) :: u32) = ucast c \<longleftrightarrow> b = c"
  by (metis ucast_u8_u32)

lemma ucast_u32_u64_inj: "(ucast (b :: u32) :: u64) = ucast c \<longleftrightarrow> b = c"
  by (metis ucast_u32_u64)

lemma take_bit_ucast_u32: "take_bit 32 (ucast (x :: u32) :: u64) = ucast x"
  by (rule bit_eqI) (auto simp: bit_simps dest: bit_imp_le_length)

lemma take_bit_scast_u32: "take_bit 32 (scast (x :: u32) :: u64) = ucast x"
proof (rule bit_eqI)
  fix n
  assume "possible_bit TYPE(u64) n"
  consider "n < 31" | "n = 31" | "31 < n" by linarith
  then show "bit (take_bit 32 (scast x :: u64)) n \<longleftrightarrow> bit (ucast x :: u64) n"
    by cases (auto simp: bit_simps min_def dest: bit_imp_le_length)
qed

lemma take_bit_64_u64: "take_bit 64 (x :: u64) = x"
  by (rule bit_eqI) (auto simp: bit_simps dest: bit_imp_le_length)

lemma xor_cancel_right: "(v :: 'a::len word) XOR x = w XOR x \<longleftrightarrow> v = w"
  by (auto simp: bit_eq_iff bit_xor_iff)

lemma xor_cancel_left: "x XOR (v :: 'a::len word) = x XOR w \<longleftrightarrow> v = w"
  by (auto simp: bit_eq_iff bit_xor_iff)

end
