(* ===== verification/Lockout_Store.thy ===== *)
theory Lockout_Store
  imports Prelude
begin

text \<open>
  The persistent lockout record of the fingerprint bridge,
  \<^verbatim>\<open>src/bridges/fingerprint/LockoutStore.h\<close>: the 32-byte record with its CRC-32, and \<open>load\<close> and
  \<open>save\<close> over a directory of files.

  The directory is the map \<open>files\<close>. System calls draw their outcome from the finite list
  \<open>script\<close> (an error number, a short transfer, or plain success) and succeed once it is used up,
  so every run in which the retry loops of the code end is a run of the model. \<open>hist\<close> records
  every directory content that was visible in between, newest first: these are the contents a
  process that dies half-way leaves behind.
\<close>

subsection \<open>State, record layout and checksum\<close>

record lstate =
  s_failed :: u32
  s_failedTimed :: u32
  s_deadlineMs :: u64

definition empty_state :: lstate where
  "empty_state = \<lparr>s_failed = 0, s_failedTimed = 0, s_deadlineMs = 0\<rparr>"

definition kMagic :: u32 where
  "kMagic = 0x314c5046"

definition kMarkerMagic :: u32 where
  "kMarkerMagic = 0x314d5046"

definition kPendingMagic :: u32 where
  "kPendingMagic = 0x31575046"

definition crc_bit :: "u32 \<Rightarrow> u32" where
  "crc_bit v = drop_bit 1 v XOR (0xedb88320 AND (0 - (v AND 1)))"

definition crc_byte :: "u32 \<Rightarrow> u8 \<Rightarrow> u32" where
  "crc_byte v b = (crc_bit ^^ 8) (v XOR ucast b)"

definition crc :: "bytes \<Rightarrow> u32" where
  "crc r = NOT (foldl crc_byte 0xffffffff (take 28 r))"

definition encode :: "u32 \<Rightarrow> lstate \<Rightarrow> u32 \<Rightarrow> bytes" where
  "encode userId st magic =
     (let r0 = replicate 32 0;
          r1 = put_bytes r0 0 (ucast magic) 4;
          r2 = put_bytes r1 4 1 4;
          r3 = put_bytes r2 8 (scast userId) 4;
          r4 = put_bytes r3 12 (ucast (s_failed st)) 4;
          r5 = put_bytes r4 16 (ucast (s_failedTimed st)) 4;
          r6 = put_bytes r5 20 (s_deadlineMs st) 8
      in put_bytes r6 28 (ucast (crc r6)) 4)"

definition decode :: "u32 \<Rightarrow> bytes \<Rightarrow> lstate option" where
  "decode userId r =
     (if get_bytes r 0 4 \<noteq> ucast kMagic \<or> get_bytes r 4 4 \<noteq> 1 \<or>
         get_bytes r 8 4 \<noteq> ucast userId \<or> get_bytes r 28 4 \<noteq> ucast (crc r) then None
      else
        let failed = (ucast (get_bytes r 12 4) :: u32);
            failedTimed = (ucast (get_bytes r 16 4) :: u32);
            deadline = get_bytes r 20 8
        in if failed > 20 \<or> failedTimed > 5 \<or> failedTimed > failed \<or>
              deadline > 0x7fffffffffffffff \<or>
              (deadline \<noteq> 0 \<and> (failedTimed \<noteq> 5 \<or> failed \<ge> 20)) \<or>
              (deadline = 0 \<and> failedTimed \<ge> 5) then None
           else Some \<lparr>s_failed = failed, s_failedTimed = failedTimed, s_deadlineMs = deadline\<rparr>)"

text \<open>The states \<open>decode\<close> accepts.\<close>

definition valid_state :: "lstate \<Rightarrow> bool" where
  "valid_state st \<longleftrightarrow>
     s_failed st \<le> 20 \<and> s_failedTimed st \<le> 5 \<and> s_failedTimed st \<le> s_failed st \<and>
     s_deadlineMs st \<le> 0x7fffffffffffffff \<and>
     (s_deadlineMs st \<noteq> 0 \<longrightarrow> s_failedTimed st = 5 \<and> s_failed st < 20) \<and>
     (s_deadlineMs st = 0 \<longrightarrow> s_failedTimed st < 5)"

subsection \<open>Files\<close>

datatype sysres = Done | Fail nat | Short nat

type_synonym directory = "string \<Rightarrow> bytes option"

record disk =
  files :: directory
  script :: "sysres list"
  hist :: "directory list"

definition ENOENT :: nat where
  "ENOENT = 2"

definition EINTR :: nat where
  "EINTR = 4"

definition EIO :: nat where
  "EIO = 5"

fun pop_res :: "sysres list \<Rightarrow> sysres \<times> sysres list" where
  "pop_res [] = (Done, [])"
| "pop_res (r # rs) = (r, rs)"

text \<open>
  A system call that only succeeds or fails: the error number it sets, if any. Error numbers are
  positive.
\<close>

definition sys_call :: "disk \<Rightarrow> nat option \<times> disk" where
  "sys_call w =
     (case pop_res (script w) of
        (Fail e, rs) \<Rightarrow> (Some (max 1 e), w\<lparr>script := rs\<rparr>)
      | (_, rs) \<Rightarrow> (None, w\<lparr>script := rs\<rparr>))"

definition set_files :: "directory \<Rightarrow> disk \<Rightarrow> disk" where
  "set_files d w = w\<lparr>files := d, hist := d # hist w\<rparr>"

definition openDirectory :: "disk \<Rightarrow> bool \<times> disk" where
  "openDirectory w = (case sys_call w of (e, w') \<Rightarrow> (e = None, w'))"

fun read_count :: "sysres \<Rightarrow> nat \<Rightarrow> nat \<Rightarrow> nat" where
  "read_count (Short n) avail want = min (Suc n) (min avail want)"
| "read_count _ avail want = min avail want"

lemma pop_res_eq:
  "pop_res rs = (r, rs') \<longleftrightarrow> rs = r # rs' \<or> rs = [] \<and> r = Done \<and> rs' = []"
  "(r, rs') = pop_res rs \<longleftrightarrow> rs = r # rs' \<or> rs = [] \<and> r = Done \<and> rs' = []"
  by (cases rs; auto)+

text \<open>\<open>while (used < record.size())\<close> of \<open>readRecord\<close>: the bytes transferred when it stops.\<close>

function read_loop :: "bytes \<Rightarrow> nat \<Rightarrow> sysres list \<Rightarrow> nat \<times> sysres list" where
  "read_loop c used rs =
     (if used < 32 then
        (case pop_res rs of
           (Fail e, rs') \<Rightarrow> if e = EINTR then read_loop c used rs' else (used, rs')
         | (r, rs') \<Rightarrow>
             let count = read_count r (length c - used) (32 - used)
             in if count = 0 then (used, rs') else read_loop c (used + count) rs')
      else (used, rs))"
  by pat_completeness auto
termination
  by (relation "measure (\<lambda>(c, used, rs). length rs + (32 - used))")
    (auto simp: pop_res_eq)

declare read_loop.simps [simp del]

text \<open>\<open>do trailing = read(fd, &extra, 1) while interrupted\<close>.\<close>

fun trailing_read :: "bytes \<Rightarrow> nat \<Rightarrow> sysres list \<Rightarrow> int \<times> sysres list" where
  "trailing_read c used [] = (if used < length c then 1 else 0, [])"
| "trailing_read c used (Fail e # rs) = (if e = EINTR then trailing_read c used rs else (-1, rs))"
| "trailing_read c used (_ # rs) = (if used < length c then 1 else 0, rs)"

text \<open>
  \<open>openat(dir, name, O_RDONLY ...)\<close>: the error number or the file's bytes. The kernel reports
  \<open>ENOENT\<close> for missing names only, so a scripted \<open>ENOENT\<close> on an existing name is not taken.
\<close>

definition open_read :: "string \<Rightarrow> disk \<Rightarrow> (nat + bytes) \<times> disk" where
  "open_read name w =
     (case sys_call w of (e, w') \<Rightarrow>
        (case (files w name, e) of
           (Some c, None) \<Rightarrow> (Inr c, w')
         | (Some c, Some n) \<Rightarrow> (if n = ENOENT then Inr c else Inl n, w')
         | (None, None) \<Rightarrow> (Inl ENOENT, w')
         | (None, Some n) \<Rightarrow> (Inl n, w')))"

text \<open>The error number (0 for success) and the bytes read.\<close>

definition readRecord :: "string \<Rightarrow> disk \<Rightarrow> nat \<times> bytes \<times> disk" where
  "readRecord name w =
     (case open_read name w of
        (Inl e, w') \<Rightarrow> (e, [], w')
      | (Inr c, w') \<Rightarrow>
          (case read_loop c 0 (script w') of (used, rs) \<Rightarrow>
             (case trailing_read c used rs of (trailing, rs') \<Rightarrow>
                (if used = 32 \<and> trailing = 0 then 0 else EIO, take used c, w'\<lparr>script := rs'\<rparr>))))"

fun write_count :: "sysres \<Rightarrow> nat \<Rightarrow> nat" where
  "write_count (Short n) want = min n want"
| "write_count _ want = want"

text \<open>\<open>while (used < record.size())\<close> of \<open>writeRecord\<close>, appending to the temporary file.\<close>

function write_loop :: "bytes \<Rightarrow> string \<Rightarrow> nat \<Rightarrow> disk \<Rightarrow> nat \<times> disk" where
  "write_loop r temporary used w =
     (if used < 32 then
        (case pop_res (script w) of
           (Fail e, rs) \<Rightarrow>
             if e = EINTR then write_loop r temporary used (w\<lparr>script := rs\<rparr>)
             else (used, w\<lparr>script := rs\<rparr>)
         | (q, rs) \<Rightarrow>
             let count = write_count q (32 - used)
             in if count = 0 then (used, w\<lparr>script := rs\<rparr>)
                else write_loop r temporary (used + count)
                  (set_files ((files w)(temporary \<mapsto> take (used + count) r)) (w\<lparr>script := rs\<rparr>)))
      else (used, w))"
  by pat_completeness auto
termination
  by (relation "measure (\<lambda>(r, t, used, w). length (script w) + (32 - used))")
    (auto simp: set_files_def pop_res_eq)

declare write_loop.simps [simp del]

text \<open>The part of \<open>writeRecord\<close> after the write loop: synchronise, close, rename, synchronise.\<close>

definition write_commit :: "string \<Rightarrow> string \<Rightarrow> nat \<Rightarrow> disk \<Rightarrow> bool \<times> disk" where
  "write_commit name temporary used w =
     (let (ok, w1) = (if used = 32 then (case sys_call w of (e, w') \<Rightarrow> (e = None, w')) else (False, w));
          (closed, w2) = sys_call w1;
          ok' = (ok \<and> closed = None);
          (ok'', w3) =
            (if ok' then
               (case sys_call w2 of
                  (Some e, w') \<Rightarrow> (False, w')
                | (None, w') \<Rightarrow>
                    (let w'' = set_files ((files w')(name := files w' temporary, temporary := None)) w'
                     in case sys_call w'' of (e, u) \<Rightarrow> (e = None, u)))
             else (False, w2))
      in if ok'' then (True, w3)
         else (case sys_call w3 of
                 (Some e, w') \<Rightarrow> (False, w')
               | (None, w') \<Rightarrow> (False, set_files ((files w')(temporary := None)) w')))"

definition writeRecord :: "string \<Rightarrow> bytes \<Rightarrow> disk \<Rightarrow> bool \<times> disk" where
  "writeRecord name r w =
     (let temporary = name @ ''.tmp'' in
      case sys_call w of
        (Some e, w1) \<Rightarrow> (False, w1)
      | (None, w1) \<Rightarrow>
          (let w2 = set_files ((files w1)(temporary \<mapsto> [])) w1
           in case write_loop r temporary 0 w2 of (used, w3) \<Rightarrow> write_commit name temporary used w3))"

subsection \<open>The store's operations\<close>

definition seen_name :: "u32 \<Rightarrow> string" where
  "seen_name userId = dec_int (sint userId) @ ''.seen''"

definition lockout_name :: "u32 \<Rightarrow> string" where
  "lockout_name userId = dec_int (sint userId) @ ''.lockout''"

definition load :: "u32 \<Rightarrow> disk \<Rightarrow> lstate option \<times> disk" where
  "load userId w =
     (case openDirectory w of
        (False, w1) \<Rightarrow> (None, w1)
      | (True, w1) \<Rightarrow>
          let expected = encode userId empty_state kMarkerMagic;
              (markerResult, marker, w2) = readRecord (seen_name userId) w1;
              (recordResult, rcd, w3) = readRecord (lockout_name userId) w2
          in if markerResult = ENOENT \<and> recordResult = ENOENT then
               (case writeRecord (seen_name userId) expected w3 of
                  (False, w4) \<Rightarrow> (None, w4)
                | (True, w4) \<Rightarrow>
                    (case writeRecord (lockout_name userId) (encode userId empty_state kMagic) w4 of
                       (ok, w5) \<Rightarrow> (if ok then Some empty_state else None, w5)))
             else if recordResult = 0 then
               (case decode userId rcd of
                  None \<Rightarrow> (None, w3)
                | Some st \<Rightarrow>
                    (if (markerResult = 0 \<and> marker = expected) \<or> s_failed st = 20 then Some st
                     else None, w3))
             else (None, w3))"

definition save :: "u32 \<Rightarrow> lstate \<Rightarrow> disk \<Rightarrow> bool \<times> disk" where
  "save userId st w =
     (case openDirectory w of
        (False, w1) \<Rightarrow> (False, w1)
      | (True, w1) \<Rightarrow>
          (case writeRecord (seen_name userId) (encode userId empty_state kPendingMagic) w1 of
             (False, w2) \<Rightarrow> (False, w2)
           | (True, w2) \<Rightarrow>
               (case writeRecord (lockout_name userId) (encode userId st kMagic) w2 of
                  (False, w3) \<Rightarrow> (False, w3)
                | (True, w3) \<Rightarrow>
                    writeRecord (seen_name userId) (encode userId empty_state kMarkerMagic) w3)))"

subsection \<open>The checksum\<close>

lemma crc_bit_alt: "crc_bit v = drop_bit 1 v XOR (if bit v 0 then 0xedb88320 else 0)"
  by (simp add: crc_bit_def and_one_eq mod_2_eq_odd bit_0)

lemma bit_31_crc_bit: "bit (crc_bit v) 31 \<longleftrightarrow> bit v 0"
proof -
  have "\<not> bit (drop_bit 1 v) 31"
    by (auto simp: bit_drop_bit_eq dest: bit_imp_le_length)
  moreover have "bit (0xedb88320 :: u32) 31"
    by simp
  ultimately show ?thesis
    by (simp add: crc_bit_alt bit_xor_iff)
qed

lemma crc_bit_inj: "inj crc_bit"
proof (rule injI)
  fix v w
  assume eq: "crc_bit v = crc_bit w"
  then have low: "bit v 0 \<longleftrightarrow> bit w 0"
    by (metis bit_31_crc_bit)
  from eq low have up: "drop_bit 1 v = drop_bit 1 w"
    by (simp add: crc_bit_alt xor_cancel_right)
  show "v = w"
  proof (rule bit_eqI)
    fix n
    show "bit v n \<longleftrightarrow> bit w n"
    proof (cases n)
      case 0
      with low show ?thesis by simp
    next
      case (Suc m)
      have "bit (drop_bit 1 v) m \<longleftrightarrow> bit (drop_bit 1 w) m"
        using up by simp
      with Suc show ?thesis by (simp add: bit_drop_bit_eq)
    qed
  qed
qed

lemma crc_byte_inj: "crc_byte v b = crc_byte w b \<longleftrightarrow> v = w"
  using inj_eq [OF inj_fn [OF crc_bit_inj, of 8]] by (simp add: crc_byte_def xor_cancel_right)

lemma crc_byte_inj_byte: "crc_byte v b = crc_byte v c \<longleftrightarrow> b = c"
  using inj_eq [OF inj_fn [OF crc_bit_inj, of 8]]
  by (simp add: crc_byte_def xor_cancel_left ucast_u8_u32_inj)

lemma foldl_crc_inj: "foldl crc_byte v bs = foldl crc_byte w bs \<longleftrightarrow> v = w"
  by (induction bs arbitrary: v w) (simp_all add: crc_byte_inj)

lemma foldl_crc_update:
  assumes "i < length bs" "bs ! i \<noteq> x"
  shows "foldl crc_byte v (bs[i := x]) \<noteq> foldl crc_byte v bs"
proof -
  have "foldl crc_byte v bs = foldl crc_byte v (take i bs @ bs ! i # drop (Suc i) bs)"
    using assms(1) by (simp add: id_take_nth_drop [symmetric])
  with assms show ?thesis
    by (simp add: upd_conv_take_nth_drop foldl_crc_inj crc_byte_inj_byte)
qed

lemma crc_cong: "take 28 r = take 28 r' \<Longrightarrow> crc r = crc r'"
  by (simp add: crc_def)

lemma crc_update:
  assumes "i < 28" "i < length r" "r ! i \<noteq> x"
  shows "crc (r[i := x]) \<noteq> crc r"
  using foldl_crc_update [of i "take 28 r" x "0xffffffff"] assms
  by (simp add: crc_def take_update_swap)

subsection \<open>The record codec\<close>

definition fields :: "u32 \<Rightarrow> lstate \<Rightarrow> u32 \<Rightarrow> bytes" where
  "fields userId st magic = put_bytes (put_bytes (put_bytes (put_bytes (put_bytes (put_bytes
     (replicate 32 0) 0 (ucast magic) 4) 4 1 4) 8 (scast userId) 4) 12 (ucast (s_failed st)) 4)
     16 (ucast (s_failedTimed st)) 4) 20 (s_deadlineMs st) 8"

lemma encode_fields: "encode u st m = put_bytes (fields u st m) 28 (ucast (crc (fields u st m))) 4"
  by (simp add: encode_def fields_def Let_def)

lemma length_encode [simp]: "length (encode u st m) = 32"
  by (simp add: encode_def Let_def)

lemma get_encode:
  "get_bytes (encode u st m) 0 4 = ucast m"
  "get_bytes (encode u st m) 4 4 = 1"
  "get_bytes (encode u st m) 8 4 = ucast u"
  "get_bytes (encode u st m) 12 4 = ucast (s_failed st)"
  "get_bytes (encode u st m) 16 4 = ucast (s_failedTimed st)"
  "get_bytes (encode u st m) 20 8 = s_deadlineMs st"
  "get_bytes (encode u st m) 28 4 = ucast (crc (encode u st m))"
proof -
  have "crc (encode u st m) = crc (fields u st m)"
    by (rule crc_cong) (simp add: encode_fields take_put_bytes)
  then show "get_bytes (encode u st m) 28 4 = ucast (crc (encode u st m))"
    by (simp add: encode_fields get_put_same take_bit_ucast_u32 fields_def)
qed (simp_all add: encode_fields fields_def get_put_other get_put_same
       take_bit_ucast_u32 take_bit_scast_u32 take_bit_64_u64)

lemma decode_encode:
  "decode u (encode u' st m) =
     (if u' = u \<and> m = kMagic \<and> valid_state st then Some st else None)"
  by (auto simp: decode_def get_encode valid_state_def ucast_u32_u64_inj linorder_not_less Let_def)

lemma corrupt_checked:
  assumes "length r = 32" "get_bytes r 28 4 = ucast (crc r)" "i < 32" "r ! i \<noteq> x"
  shows "get_bytes (r[i := x]) 28 4 \<noteq> ucast (crc (r[i := x]))"
proof (cases "i < 28")
  case True
  then have "get_bytes (r[i := x]) 28 4 = get_bytes r 28 4"
    by (intro get_bytes_cong) simp
  moreover have "crc (r[i := x]) \<noteq> crc r"
    using True assms by (intro crc_update) auto
  ultimately show ?thesis using assms(2) by (simp add: ucast_u32_u64_inj)
next
  case False
  then have "crc (r[i := x]) = crc r"
    by (intro crc_cong) simp
  moreover have "get_bytes (r[i := x]) 28 4 \<noteq> get_bytes r 28 4"
  proof
    assume "get_bytes (r[i := x]) 28 4 = get_bytes r 28 4"
    moreover have "i - 28 < 4" using False assms(3) by simp
    ultimately have "r[i := x] ! (28 + (i - 28)) = r ! (28 + (i - 28))"
      using le_byte_get_bytes [of "i - 28" 4 r 28] le_byte_get_bytes [of "i - 28" 4 "r[i := x]" 28]
      by simp
    with False assms show False by simp
  qed
  ultimately show ?thesis using assms(2) by simp
qed

lemma decode_corrupt:
  assumes "i < 32" "encode u st m ! i \<noteq> x"
  shows "decode u' ((encode u st m)[i := x]) = None"
  using corrupt_checked [OF length_encode get_encode(7) assms] by (simp add: decode_def)

subsection \<open>What the file operations change\<close>

lemma sys_call_frame [frame_simps]:
  "files (snd (sys_call w)) = files w" "hist (snd (sys_call w)) = hist w"
  by (simp_all add: sys_call_def split: prod.split sysres.split)

lemma sys_call_clean [simp]: "script w = [] \<Longrightarrow> sys_call w = (None, w)"
  by (simp add: sys_call_def)

text \<open>
  \<open>only t d0 d\<close>: \<open>d\<close> differs from \<open>d0\<close> at the name \<open>t\<close> at most. \<open>evolved name r d0 d\<close>: \<open>name\<close> holds
  what it held or the new record \<open>r\<close>, and only the temporary name may differ besides.
\<close>

definition only :: "string \<Rightarrow> directory \<Rightarrow> directory \<Rightarrow> bool" where
  "only t d0 d \<longleftrightarrow> (\<forall>n. n \<noteq> t \<longrightarrow> d n = d0 n)"

definition evolved :: "string \<Rightarrow> bytes \<Rightarrow> directory \<Rightarrow> directory \<Rightarrow> bool" where
  "evolved name r d0 d \<longleftrightarrow>
     (d name = d0 name \<or> d name = Some r) \<and> (\<forall>n. n \<noteq> name \<and> n \<noteq> name @ ''.tmp'' \<longrightarrow> d n = d0 n)"

text \<open>Every directory content that became visible between \<open>w\<close> and \<open>w'\<close>, and the last, satisfies \<open>P\<close>.\<close>

definition visits :: "(directory \<Rightarrow> bool) \<Rightarrow> disk \<Rightarrow> disk \<Rightarrow> bool" where
  "visits P w w' \<longleftrightarrow> set (hist w') \<subseteq> set (hist w) \<union> Collect P \<and> P (files w')"

lemma visits_refl: "P (files w) \<Longrightarrow> visits P w w"
  by (simp add: visits_def)

lemma visits_trans: "visits P u v \<Longrightarrow> visits Q v w \<Longrightarrow> (\<And>d. P d \<Longrightarrow> R d) \<Longrightarrow> (\<And>d. Q d \<Longrightarrow> R d) \<Longrightarrow> visits R u w"
  by (auto simp: visits_def)

lemma visits_sys_call: "visits P w (snd (sys_call v)) \<longleftrightarrow> visits P w v"
  by (simp add: visits_def frame_simps)

lemma visits_script: "visits P w (v\<lparr>script := rs\<rparr>) \<longleftrightarrow> visits P w v"
  by (simp add: visits_def)

lemma visits_set_files: "visits P w (set_files d v) \<longleftrightarrow> set (hist v) \<subseteq> set (hist w) \<union> Collect P \<and> P d"
  by (auto simp: visits_def set_files_def)

lemma visits_set_files_I: "visits P w v \<Longrightarrow> P d \<Longrightarrow> visits P w (set_files d v)"
  by (auto simp: visits_def set_files_def)

lemma files_set_files [simp]: "files (set_files d w) = d"
  by (simp add: set_files_def)

lemma write_loop_visits:
  assumes "write_loop r t used w = (used', w')" "files w t = Some (take used r)" "used \<le> 32"
  shows "visits (only t (files w)) w w' \<and> files w' t = Some (take used' r)"
  using assms
proof (induction r t used w arbitrary: used' w' rule: write_loop.induct)
  case (1 r t used w)
  show ?case
  proof (cases "used < 32")
    case False
    with 1 show ?thesis by (auto simp: write_loop.simps [of r t used w] only_def visits_refl)
  next
    case True
    obtain q rs where pop: "pop_res (script w) = (q, rs)" by (cases "pop_res (script w)")
    let ?w = "w\<lparr>script := rs\<rparr>"
    have idle: "visits (only t (files w)) w ?w" by (simp add: visits_def only_def)
    show ?thesis
    proof (cases q)
      case (Fail e)
      with 1 True pop idle show ?thesis
        by (fastforce simp: write_loop.simps [of r t used w] visits_def split: if_splits)
    next
      case Done
      let ?d = "(files w)(t \<mapsto> take 32 r)"
      have "write_loop r t 32 (set_files ?d ?w) = (used', w')"
        using "1.prems"(1) True pop Done by (simp add: write_loop.simps [of r t used w])
      then have "used' = 32" "w' = set_files ?d ?w"
        by (simp_all add: write_loop.simps)
      then show ?thesis by (auto simp: visits_set_files only_def)
    next
      case (Short n)
      let ?k = "used + min n (32 - used)"
      let ?d = "(files w)(t \<mapsto> take ?k r)"
      show ?thesis
      proof (cases "n = 0")
        case True
        with 1 \<open>used < 32\<close> pop Short idle show ?thesis
          by (auto simp: write_loop.simps [of r t used w])
      next
        case False
        with True have nz: "min n (32 - used) \<noteq> 0" by (simp add: min_def)
        have rec: "write_loop r t ?k (set_files ?d ?w) = (used', w')"
          using "1.prems"(1) True pop Short by (simp add: write_loop.simps [of r t used w] Let_def nz)
        have "visits (only t ?d) (set_files ?d ?w) w' \<and> files w' t = Some (take used' r)"
          using "1.IH"(3) [OF True pop [symmetric] Short, of "min n (32 - used)"] rec nz True
          by (simp add: fun_upd_def)
        then show ?thesis
          by (auto simp: visits_def only_def set_files_def)
      qed
    qed
  qed
qed

lemma write_commit_visits:
  assumes "write_commit name (name @ ''.tmp'') used w = (ok, w')"
    and "files w (name @ ''.tmp'') = Some (take used r)" "length r = 32"
  shows "visits (evolved name r (files w)) w w' \<and> (ok \<longrightarrow> files w' name = Some r)"
proof -
  let ?P = "evolved name r (files w)"
  have P: "?P (files w)" "used = 32 \<Longrightarrow> ?P ((files w)(name \<mapsto> r, name @ ''.tmp'' := None))"
    "\<And>d. ?P d \<Longrightarrow> ?P (d(name @ ''.tmp'' := None))"
    using assms(2,3) by (auto simp: evolved_def)
  have frame: "sys_call v = (e, v') \<Longrightarrow> files v' = files v \<and> hist v' = hist v" for v e v'
    using sys_call_frame [of v] by simp
  note defs = write_commit_def Let_def visits_def set_files_def
  show ?thesis
    using assms
    by (auto simp: defs P dest!: frame split: prod.splits if_splits option.splits)
qed

lemma writeRecord_visits:
  assumes "writeRecord name r w = (ok, w')" "length r = 32"
  shows "visits (evolved name r (files w)) w w' \<and> (ok \<longrightarrow> files w' name = Some r)"
proof (cases "sys_call w")
  case (Pair e w1)
  then have w1: "files w1 = files w" "hist w1 = hist w"
    using sys_call_frame [of w] by simp_all
  show ?thesis
  proof (cases e)
    case (Some n)
    with assms Pair w1 show ?thesis
      by (auto simp: writeRecord_def visits_def evolved_def)
  next
    case None
    let ?t = "name @ ''.tmp''"
    let ?w2 = "set_files ((files w)(?t \<mapsto> [])) w1"
    obtain used w3 where loop: "write_loop r ?t 0 ?w2 = (used, w3)"
      by (cases "write_loop r ?t 0 ?w2")
    with assms Pair None w1 have commit: "write_commit name ?t used w3 = (ok, w')"
      by (simp add: writeRecord_def)
    from write_loop_visits [OF loop]
    have mid: "visits (only ?t (files w)) ?w2 w3" "files w3 ?t = Some (take used r)"
      by (auto simp: visits_def only_def)
    with write_commit_visits [OF commit _ assms(2)]
    have "visits (evolved name r (files w3)) w3 w'" "ok \<longrightarrow> files w' name = Some r"
      by simp_all
    moreover have start: "visits (only ?t (files w)) w ?w2"
      using w1 by (auto simp: visits_def only_def set_files_def)
    have only: "only ?t (files w) d \<Longrightarrow> evolved name r (files w) d" for d
      by (simp add: only_def evolved_def)
    have shift: "evolved name r (files w3) d \<Longrightarrow> evolved name r (files w) d" for d
      using mid(1) by (auto simp: visits_def only_def evolved_def)
    have "visits (evolved name r (files w)) w w3"
      by (rule visits_trans [OF start mid(1) only only])
    ultimately show ?thesis
      using shift visits_trans [where R = "evolved name r (files w)"] by blast
  qed
qed

subsection \<open>Loading\<close>

text \<open>What a new process loads from a directory when no system call fails.\<close>

definition reload :: "u32 \<Rightarrow> directory \<Rightarrow> lstate option" where
  "reload userId d = fst (load userId \<lparr>files = d, script = [], hist = []\<rparr>)"

lemma read_loop_clean: "read_loop c 0 [] = (min 32 (length c), [])"
  by (auto simp: read_loop.simps [of c] Let_def min_def)

lemma readRecord_clean:
  "script w = [] \<Longrightarrow> readRecord n w =
     (case files w n of None \<Rightarrow> (ENOENT, [], w)
      | Some c \<Rightarrow> (if length c = 32 then 0 else EIO, take 32 c, w))"
  by (auto simp: readRecord_def open_read_def read_loop_clean ENOENT_def min_def split: option.splits)

lemma reload_eq:
  "d (lockout_name u) = Some c \<Longrightarrow> reload u d =
     (if length c = 32 then
        (case decode u c of None \<Rightarrow> None
         | Some st \<Rightarrow>
             if d (seen_name u) = Some (encode u empty_state kMarkerMagic) \<or> s_failed st = 20
             then Some st else None)
      else None)"
  by (auto simp: reload_def load_def openDirectory_def readRecord_clean Let_def ENOENT_def EIO_def
      split: option.splits)

lemma read_loop_used:
  "used \<le> length c \<Longrightarrow> fst (read_loop c used rs) \<le> length c"
proof (induction c used rs rule: read_loop.induct)
  case (1 c used rs)
  show ?case
  proof (cases "used < 32")
    case True
    obtain q rs' where "pop_res rs = (q, rs')" by (cases "pop_res rs")
    with 1 True show ?thesis
      by (cases q) (auto simp: read_loop.simps [of c used rs] Let_def)
  qed (use 1 in \<open>simp add: read_loop.simps [of c used rs]\<close>)
qed

lemma trailing_read_0: "fst (trailing_read c used rs) = 0 \<Longrightarrow> length c \<le> used"
  by (induction c used rs rule: trailing_read.induct) (auto split: if_splits)

lemma sys_call_Some: "sys_call w = (Some e, w') \<Longrightarrow> e \<noteq> 0"
  by (auto simp: sys_call_def split: prod.splits sysres.splits)

lemma open_read_cases:
  "open_read n w = (q, w') \<Longrightarrow>
     files w' = files w \<and> (case q of Inr c \<Rightarrow> files w n = Some c
       | Inl e \<Rightarrow> e \<noteq> 0 \<and> (e = ENOENT \<longrightarrow> files w n = None))"
  using sys_call_frame(1) [of w]
  by (auto simp: open_read_def ENOENT_def dest: sys_call_Some split: prod.splits option.splits if_splits)

lemma full_read:
  assumes "read_loop c 0 rs = (used, rs')" "trailing_read c used rs' = (tr, rs'')" "used = 32" "tr = 0"
  shows "length c = 32"
  using read_loop_used [of 0 c rs] trailing_read_0 [of c used rs'] assms by simp

lemma readRecord_cases:
  assumes "readRecord n w = (e, r, w')"
  shows "files w' = files w \<and> (e = 0 \<longrightarrow> files w n = Some r \<and> length r = 32) \<and>
    (e = ENOENT \<longrightarrow> files w n = None)"
proof -
  obtain q v where op: "open_read n w = (q, v)" by (cases "open_read n w")
  note base = open_read_cases [OF op]
  show ?thesis
  proof (cases q)
    case (Inl x)
    with assms op base show ?thesis by (auto simp: readRecord_def)
  next
    case (Inr c)
    obtain used rs where l: "read_loop c 0 (script v) = (used, rs)"
      by (cases "read_loop c 0 (script v)")
    obtain tr rs' where t: "trailing_read c used rs = (tr, rs')"
      by (cases "trailing_read c used rs")
    from assms op Inr l t base full_read [OF l t] show ?thesis
      by (auto simp: readRecord_def EIO_def ENOENT_def split: if_splits)
  qed
qed

text \<open>A successful load, whatever system calls failed on the way.\<close>

lemma load_Some:
  assumes "load u w = (Some st, w')"
  shows "files w (lockout_name u) = None \<and> files w (seen_name u) = None \<and> st = empty_state \<or>
    (\<exists>c. files w (lockout_name u) = Some c \<and> decode u c = Some st \<and>
      (files w (seen_name u) = Some (encode u empty_state kMarkerMagic) \<or> s_failed st = 20))"
proof -
  obtain ok w1 where od: "openDirectory w = (ok, w1)" by (cases "openDirectory w")
  then have f1: "files w1 = files w"
    using sys_call_frame(1) [of w] by (auto simp: openDirectory_def split: prod.splits)
  obtain m mk w2 where rm: "readRecord (seen_name u) w1 = (m, mk, w2)"
    by (cases "readRecord (seen_name u) w1")
  obtain e r w3 where rr: "readRecord (lockout_name u) w2 = (e, r, w3)"
    by (cases "readRecord (lockout_name u) w2")
  show ?thesis
    using assms od rm rr f1 readRecord_cases [OF rm] readRecord_cases [OF rr]
    by (auto simp: load_def Let_def split: bool.splits if_splits option.splits prod.splits)
qed

subsection \<open>Saving\<close>

lemma names_distinct [simp]:
  "seen_name u \<noteq> lockout_name u" "lockout_name u \<noteq> seen_name u"
  "seen_name u \<noteq> lockout_name u @ ''.tmp''" "lockout_name u \<noteq> seen_name u @ ''.tmp''"
  by (simp_all add: seen_name_def lockout_name_def)

text \<open>The contents of the two files at each stage of a save.\<close>

definition staged :: "u32 \<Rightarrow> directory \<Rightarrow> lstate \<Rightarrow> directory \<Rightarrow> bool" where
  "staged u d0 st d \<longleftrightarrow>
     (d (seen_name u), d (lockout_name u)) \<in>
       {(d0 (seen_name u), d0 (lockout_name u)),
        (Some (encode u empty_state kPendingMagic), d0 (lockout_name u)),
        (Some (encode u empty_state kPendingMagic), Some (encode u st kMagic)),
        (Some (encode u empty_state kMarkerMagic), Some (encode u st kMagic))}"

lemma save_staged:
  assumes "save u st w = (ok, w')"
  shows "visits (staged u (files w) st) w w' \<and>
    (ok \<longrightarrow> files w' (seen_name u) = Some (encode u empty_state kMarkerMagic) \<and>
      files w' (lockout_name u) = Some (encode u st kMagic))"
proof -
  obtain op w1 where od: "openDirectory w = (op, w1)" by (cases "openDirectory w")
  then have f1: "files w1 = files w" "hist w1 = hist w"
    using sys_call_frame [of w] by (auto simp: openDirectory_def split: prod.splits)
  obtain a w2 where a: "writeRecord (seen_name u) (encode u empty_state kPendingMagic) w1 = (a, w2)"
    by (cases "writeRecord (seen_name u) (encode u empty_state kPendingMagic) w1")
  obtain b w3 where b: "writeRecord (lockout_name u) (encode u st kMagic) w2 = (b, w3)"
    by (cases "writeRecord (lockout_name u) (encode u st kMagic) w2")
  obtain c w4 where c: "writeRecord (seen_name u) (encode u empty_state kMarkerMagic) w3 = (c, w4)"
    by (cases "writeRecord (seen_name u) (encode u empty_state kMarkerMagic) w3")
  let ?S = "staged u (files w) st"
  note va = writeRecord_visits [OF a length_encode]
    and vb = writeRecord_visits [OF b length_encode]
    and vc = writeRecord_visits [OF c length_encode]
  have s0: "visits ?S w w1"
    using f1 by (simp add: visits_def staged_def)
  have s1: "visits ?S w w2"
  proof (rule visits_trans [OF s0 conjunct1 [OF va]])
    fix d
    assume "evolved (seen_name u) (encode u empty_state kPendingMagic) (files w1) d"
    with f1 show "?S d" by (auto simp: evolved_def staged_def)
  qed
  have fa: "files w2 (lockout_name u) = files w (lockout_name u)"
    using va f1 by (simp add: visits_def evolved_def)
  have fb: "files w3 (seen_name u) = files w2 (seen_name u)"
    using vb by (simp add: visits_def evolved_def)
  have fc: "files w4 (lockout_name u) = files w3 (lockout_name u)"
    using vc by (simp add: visits_def evolved_def)
  have s2: "visits ?S w w3" if "a"
  proof (rule visits_trans [OF s1 conjunct1 [OF vb]])
    fix d
    assume "evolved (lockout_name u) (encode u st kMagic) (files w2) d"
    with that va fa show "?S d" by (auto simp: evolved_def staged_def)
  qed
  have s3: "visits ?S w w4" if "a" "b"
  proof (rule visits_trans [OF s2 [OF that(1)] conjunct1 [OF vc]])
    fix d
    assume "evolved (seen_name u) (encode u empty_state kMarkerMagic) (files w3) d"
    with that va vb fb show "?S d" by (auto simp: evolved_def staged_def)
  qed
  consider "\<not> op" "\<not> ok" "w' = w1" | "\<not> a" "\<not> ok" "w' = w2" | "a" "\<not> b" "\<not> ok" "w' = w3"
    | "a" "b" "ok = c" "w' = w4"
    using assms od a b c by (auto simp: save_def split: bool.splits)
  then show ?thesis
  proof cases
    case 4
    then show ?thesis using s3 vb vc fc by auto
  qed (use s0 s1 s2 in auto)
qed

lemma save_durable:
  "save u st w = (True, w') \<Longrightarrow> valid_state st \<Longrightarrow> reload u (files w') = Some st"
  using save_staged [of u st w True w'] by (simp add: reload_eq decode_encode)

lemma magics_distinct:
  "encode u empty_state kPendingMagic \<noteq> encode u empty_state kMarkerMagic"
proof
  assume "encode u empty_state kPendingMagic = encode u empty_state kMarkerMagic"
  then have "(ucast kPendingMagic :: u64) = ucast kMarkerMagic"
    by (metis get_encode(1))
  then show False by (simp add: ucast_u32_u64_inj kPendingMagic_def kMarkerMagic_def)
qed

lemma reload_encoded:
  "d (lockout_name u) = Some (encode u st kMagic) \<Longrightarrow> reload u d =
     (if valid_state st \<and>
         (d (seen_name u) = Some (encode u empty_state kMarkerMagic) \<or> s_failed st = 20)
      then Some st else None)"
  by (auto simp: reload_eq decode_encode)

lemma staged_reload:
  assumes "staged u d0 st d" "d0 (lockout_name u) = Some (encode u old kMagic)"
  shows "reload u d \<in> {reload u d0, None, Some st} \<or> reload u d = Some old \<and> s_failed old = 20"
  using assms magics_distinct [of u]
  by (auto simp: staged_def reload_encoded split: if_splits)

text \<open>Without failing system calls, every operation of the store succeeds.\<close>

lemma script_set_files [simp]: "script (set_files d w) = script w"
  by (simp add: set_files_def)

lemma writeRecord_clean:
  assumes "script w = []"
  shows "\<exists>w'. writeRecord n r w = (True, w') \<and> script w' = [] \<and> files w' \<in> set (hist w')"
proof -
  have "write_loop r t 0 v = (32, set_files ((files v)(t \<mapsto> take 32 r)) v)" if "script v = []" for t v
    using that by (cases v) (simp add: write_loop.simps [of r t 0] write_loop.simps [of r t 32])
  with assms show ?thesis
    by (simp add: writeRecord_def write_commit_def set_files_def Let_def)
qed

lemma save_clean:
  assumes "script w = []"
  shows "\<exists>w'. save u st w = (True, w') \<and> script w' = [] \<and> files w' \<in> set (hist w')"
proof -
  from writeRecord_clean [OF assms] obtain w1 where
    1: "writeRecord (seen_name u) (encode u empty_state kPendingMagic) w = (True, w1)" "script w1 = []"
    by blast
  from writeRecord_clean [OF 1(2)] obtain w2 where
    2: "writeRecord (lockout_name u) (encode u st kMagic) w1 = (True, w2)" "script w2 = []"
    by blast
  from writeRecord_clean [OF 2(2)] show ?thesis
    using assms 1 2 by (simp add: save_def openDirectory_def)
qed

lemma load_fresh:
  assumes "script w = []" "files w (seen_name u) = None" "files w (lockout_name u) = None"
  shows "\<exists>w'. load u w = (Some empty_state, w') \<and> script w' = []"
proof -
  from writeRecord_clean [OF assms(1)] obtain w1 where
    1: "writeRecord (seen_name u) (encode u empty_state kMarkerMagic) w = (True, w1)" "script w1 = []"
    by blast
  from writeRecord_clean [OF 1(2)] obtain w2 where
    2: "writeRecord (lockout_name u) (encode u empty_state kMagic) w1 = (True, w2)" "script w2 = []"
    by blast
  with assms 1 show ?thesis
    by (simp add: load_def openDirectory_def readRecord_clean)
qed

definition blank_disk :: disk where
  "blank_disk = \<lparr>files = (\<lambda>_. None), script = [], hist = []\<rparr>"

lemma blank_disk_simps [simp]: "files blank_disk n = None" "script blank_disk = []" "hist blank_disk = []"
  by (simp_all add: blank_disk_def)

lemma valid_empty_state [simp]: "valid_state empty_state"
  by (simp add: valid_state_def empty_state_def)

subsection \<open>The contract the lockout tracker relies on\<close>

text \<open>
  A store keeps one value per directory: after a save that reported success, a new process reads
  the saved value back, and while a save is under way the directory never reads as a value that is
  neither the old nor the new one.
\<close>

locale durable_store =
  fixes sv :: "'st \<Rightarrow> 'w \<Rightarrow> bool \<times> 'w"
    and rl :: "'w \<Rightarrow> 'st option"
    and good :: "'st \<Rightarrow> bool"
  assumes saved: "sv st w = (True, w') \<Longrightarrow> good st \<Longrightarrow> rl w' = Some st"
begin

text \<open>Saving a sequence of values, stopping at the first failure.\<close>

primrec sv_all :: "'st list \<Rightarrow> 'w \<Rightarrow> bool \<times> 'w" where
  "sv_all [] w = (True, w)"
| "sv_all (st # sts) w = (case sv st w of (True, w') \<Rightarrow> sv_all sts w' | (False, w') \<Rightarrow> (False, w'))"

lemma last_save_wins:
  "sv_all (sts @ [st]) w = (True, w') \<Longrightarrow> good st \<Longrightarrow> rl w' = Some st"
  by (induction sts arbitrary: w) (auto split: bool.splits prod.splits dest: saved)

lemma resave_reads_new:
  "sv st w = (True, w1) \<Longrightarrow> sv st' w1 = (True, w2) \<Longrightarrow> good st' \<Longrightarrow> rl w2 = Some st'"
  by (rule saved)

end

interpretation store: durable_store "save u" "\<lambda>w. reload u (files w)" valid_state for u
  by unfold_locales (rule save_durable)

subsection \<open>Properties\<close>

text \<open>
  Decoding an encoded record gives the state back exactly when the record was written for the
  same user and the state is one that the store accepts; otherwise the record is refused.
\<close>

theorem record_roundtrip:
  "decode u (encode u' st m) = (if u' = u \<and> m = kMagic \<and> valid_state st then Some st else None)"
  by (rule decode_encode)

text \<open>
  a stored record in which any one byte was changed is refused, whichever byte it is and
  whatever it was changed to: the CRC-32 detects it.
\<close>

theorem corrupt_byte_refused:
  assumes "i < 32" and "x \<noteq> encode u st m ! i"
  shows "decode u' ((encode u st m)[i := x]) = None"
  using assms by (intro decode_corrupt) auto

theorem corrupt_byte_refused_witness:
  "decode 0 ((encode 0 empty_state kMagic)[4 := 2]) = None"
proof (rule corrupt_byte_refused)
  have "le_byte (get_bytes (encode 0 empty_state kMagic) 4 4) 0 = le_byte 1 0"
    by (simp only: get_encode)
  then have "encode 0 empty_state kMagic ! (4 + 0) = le_byte 1 0"
    by (simp only: le_byte_get_bytes)
  then show "(2 :: u8) \<noteq> encode 0 empty_state kMagic ! 4"
    by (simp add: le_byte_def)
qed simp

text \<open>
  after a save that reported success a new process loads exactly the saved state, whatever
  short writes, interruptions and recovered errors happened on the way.
\<close>

theorem save_then_reload:
  assumes "save u st w = (True, w')" and "valid_state st"
  shows "reload u (files w') = Some st"
  using assms by (rule store.saved)

theorem save_then_reload_witness:
  "\<exists>w'. save 0 empty_state blank_disk = (True, w') \<and> reload 0 (files w') = Some empty_state"
  using save_clean [of blank_disk 0 empty_state] save_then_reload [of 0 empty_state blank_disk] by auto

text \<open>
  C2: whenever the process dies during a save (after any system call, successful or not), the
  next process reads what it would have read before, or the new state, or nothing (and then fails
  closed), or the old state when that is a permanent lockout.
\<close>

theorem save_crash_safe:
  assumes "save u st w = (ok, w')" and "d \<in> set (hist w') - set (hist w)"
    and "files w (lockout_name u) = Some (encode u old kMagic)"
  shows "reload u d \<in> {reload u (files w), None, Some st} \<or> reload u d = Some old \<and> s_failed old = 20"
proof -
  from assms(1,2) save_staged have "staged u (files w) st d"
    by (fastforce simp: visits_def)
  then show ?thesis using assms(3) by (rule staged_reload)
qed

definition once_disk :: disk where
  "once_disk = blank_disk\<lparr>files := [lockout_name 0 \<mapsto> encode 0 empty_state kMagic]\<rparr>"

theorem save_crash_safe_witness:
  "\<exists>ok w' d. save 0 empty_state once_disk = (ok, w') \<and> d \<in> set (hist w') \<and>
     (reload 0 d \<in> {reload 0 (files once_disk), None, Some empty_state} \<or>
      reload 0 d = Some empty_state \<and> s_failed empty_state = 20)"
proof -
  obtain w' where w: "save 0 empty_state once_disk = (True, w')" "files w' \<in> set (hist w')"
    using save_clean [of once_disk 0 empty_state] by (auto simp: once_disk_def)
  moreover have "hist once_disk = []"
    "files once_disk (lockout_name 0) = Some (encode 0 empty_state kMagic)"
    by (simp_all add: once_disk_def)
  ultimately show ?thesis
    using save_crash_safe [OF w(1), of "files w'" empty_state] by auto
qed

text \<open>
  a state is loaded only from an intact record of this user whose completion marker is in
  place (or that is a permanent lockout), or as the empty state when neither file exists: a missing
  or damaged record never reads as fewer failures.
\<close>

theorem load_sound:
  assumes "load u w = (Some st, w')"
  shows "files w (lockout_name u) = None \<and> files w (seen_name u) = None \<and> st = empty_state \<or>
    (\<exists>c. files w (lockout_name u) = Some c \<and> decode u c = Some st \<and>
      (files w (seen_name u) = Some (encode u empty_state kMarkerMagic) \<or> s_failed st = 20))"
  using assms by (rule load_Some)

theorem load_sound_witness:
  "\<exists>w'. load 7 blank_disk = (Some empty_state, w') \<and>
     (files blank_disk (lockout_name 7) = None \<and> files blank_disk (seen_name 7) = None \<and>
        empty_state = empty_state \<or>
      (\<exists>c. files blank_disk (lockout_name 7) = Some c \<and> decode 7 c = Some empty_state \<and>
        (files blank_disk (seen_name 7) = Some (encode 7 empty_state kMarkerMagic) \<or>
         s_failed empty_state = 20)))"
  using load_fresh [of blank_disk 7] load_sound [of 7 blank_disk empty_state] by auto

end
