(* ===== verification/Hat_Codec.thy ===== *)
theory Hat_Codec
  imports Prelude
begin

text \<open>
  The hardware authentication token and its 69-byte wire form,
  \<^verbatim>\<open>src/bridges/fingerprint/HatCodec.h\<close>. The machine is little-endian (arm64): a \<open>memcpy\<close> of an
  integer stores its low byte first, and \<open>htobe32\<close>, \<open>htobe64\<close> reverse the bytes.
\<close>

record hat =
  challenge :: u64
  hat_userId :: u64
  authenticatorId :: u64
  authenticatorType :: u32
  timestampMs :: u64
  mac :: bytes

definition kHwAuthTokenSize :: nat where
  "kHwAuthTokenSize = 69"

definition hatToBytes :: "hat \<Rightarrow> bytes" where
  "hatToBytes t =
     (let out0 = replicate kHwAuthTokenSize 0;
          out1 = out0[0 := 0];
          out2 = put_bytes out1 1 (challenge t) 8;
          out3 = put_bytes out2 9 (hat_userId t) 8;
          out4 = put_bytes out3 17 (authenticatorId t) 8;
          out5 = put_bytes out4 25 (bswap 4 (ucast (authenticatorType t))) 4;
          out6 = put_bytes out5 29 (bswap 8 (timestampMs t)) 8;
          n = (if length (mac t) < 32 then length (mac t) else 32)
      in put_list out6 37 (take n (mac t)))"

definition bytesToHat :: "bytes \<Rightarrow> hat option" where
  "bytesToHat p =
     (if length p < kHwAuthTokenSize then None
      else Some \<lparr>challenge = get_bytes p 1 8, hat_userId = get_bytes p 9 8,
                 authenticatorId = get_bytes p 17 8,
                 authenticatorType = ucast (bswap 4 (get_bytes p 25 4)),
                 timestampMs = bswap 8 (get_bytes p 29 8),
                 mac = take 32 (drop 37 p)\<rparr>)"

text \<open>The token after a trip over the wire: the code stores at most 32 bytes of the MAC and pads it.\<close>

definition pad_mac :: "hat \<Rightarrow> hat" where
  "pad_mac t = t\<lparr>mac := take 32 (mac t) @ replicate (32 - length (mac t)) 0\<rparr>"

lemma length_hatToBytes [simp]: "length (hatToBytes t) = kHwAuthTokenSize"
  by (auto simp: hatToBytes_def kHwAuthTokenSize_def Let_def)

lemma take_bit_bswap4: "take_bit 32 (bswap 4 v) = bswap 4 v"
  by (rule bit_eqI) (auto simp: bswap_def bit_simps bit_get_bytes)

lemma get_hatToBytes:
  "get_bytes (hatToBytes t) 1 8 = challenge t"
  "get_bytes (hatToBytes t) 9 8 = hat_userId t"
  "get_bytes (hatToBytes t) 17 8 = authenticatorId t"
  "get_bytes (hatToBytes t) 25 4 = bswap 4 (ucast (authenticatorType t))"
  "get_bytes (hatToBytes t) 29 8 = bswap 8 (timestampMs t)"
  by (simp_all add: hatToBytes_def kHwAuthTokenSize_def Let_def get_bytes_put_list get_put_other
      get_put_same take_bit_64_u64 take_bit_bswap4 min_def)

lemma mac_hatToBytes: "take 32 (drop 37 (hatToBytes t)) = mac (pad_mac t)"
proof (rule nth_equalityI)
  fix i
  assume "i < length (take 32 (drop 37 (hatToBytes t)))"
  then have "i < 32" by simp
  then show "take 32 (drop 37 (hatToBytes t)) ! i = mac (pad_mac t) ! i"
    by (auto simp: hatToBytes_def pad_mac_def kHwAuthTokenSize_def Let_def nth_put_list nth_put_bytes
        nth_append min_def)
qed (auto simp: pad_mac_def kHwAuthTokenSize_def)

lemma bytesToHat_hatToBytes: "bytesToHat (hatToBytes t) = Some (pad_mac t)"
proof -
  have "(ucast (bswap 4 (bswap 4 (ucast (authenticatorType t)))) :: u32) = authenticatorType t"
    by (simp add: bswap_bswap take_bit_ucast_u32)
  then show ?thesis
    by (simp add: bytesToHat_def get_hatToBytes mac_hatToBytes bswap_bswap take_bit_64_u64
        del: One_nat_def) (cases t, simp add: pad_mac_def)
qed

lemma hatToBytes_bytesToHat:
  assumes "bytesToHat p = Some t"
  shows "hatToBytes t = 0 # take 68 (drop 1 p)"
proof (rule nth_equalityI)
  have len: "69 \<le> length p"
    using assms by (simp add: bytesToHat_def kHwAuthTokenSize_def split: if_splits)
  then show "length (hatToBytes t) = length (0 # take 68 (drop 1 p))"
    by (simp add: kHwAuthTokenSize_def)
  have t: "challenge t = get_bytes p 1 8" "hat_userId t = get_bytes p 9 8"
    "authenticatorId t = get_bytes p 17 8"
    "authenticatorType t = ucast (bswap 4 (get_bytes p 25 4))"
    "timestampMs t = bswap 8 (get_bytes p 29 8)" "mac t = take 32 (drop 37 p)"
    using assms by (auto simp: bytesToHat_def split: if_splits)
  have u32: "ucast (ucast (bswap 4 (get_bytes p 25 4)) :: u32) = bswap 4 (get_bytes p 25 4)"
    by (rule bit_eqI) (auto simp: bswap_def bit_simps bit_get_bytes)
  have be4: "bswap 4 (ucast (authenticatorType t)) = get_bytes p 25 4"
    by (simp add: t u32 bswap_bswap) (rule bit_eqI, auto simp: bit_simps bit_get_bytes)
  have be8: "bswap 8 (timestampMs t) = get_bytes p 29 8"
    by (simp add: t bswap_bswap take_bit_64_u64)
  fix i
  assume "i < length (hatToBytes t)"
  then have i: "i < 69" by (simp add: kHwAuthTokenSize_def)
  have "hatToBytes t ! i = (if i = 0 then 0 else p ! i)"
    unfolding hatToBytes_def t using i len
    by (simp add: kHwAuthTokenSize_def Let_def nth_put_list nth_put_bytes le_byte_get_at
        be4 [unfolded t] be8 [unfolded t] del: One_nat_def)
  then show "hatToBytes t ! i = (0 # take 68 (drop 1 p)) ! i"
    using i len by (cases i) simp_all
qed

subsection \<open>Properties\<close>

text \<open>
  a token survives the trip to the 69-byte form and back in every field; its MAC comes back
  cut or zero-padded to 32 bytes, so a token with a 32-byte MAC comes back unchanged.
\<close>

theorem hat_roundtrip:
  "bytesToHat (hatToBytes t) = Some (pad_mac t) \<and> (length (mac t) = 32 \<longrightarrow> pad_mac t = t)"
  by (simp add: bytesToHat_hatToBytes pad_mac_def)

theorem hat_roundtrip_witness:
  "bytesToHat (hatToBytes \<lparr>challenge = 5, hat_userId = 10, authenticatorId = 3, authenticatorType = 2,
      timestampMs = 77, mac = replicate 32 9\<rparr>) =
   Some \<lparr>challenge = 5, hat_userId = 10, authenticatorId = 3, authenticatorType = 2,
      timestampMs = 77, mac = replicate 32 9\<rparr>"
  using hat_roundtrip [of "\<lparr>challenge = 5, hat_userId = 10, authenticatorId = 3,
      authenticatorType = 2, timestampMs = 77, mac = replicate 32 9\<rparr>"] by simp

text \<open>
  The wire form of a decoded token is the bytes it was decoded from, but for the version byte,
  which the encoder always writes as 0.
\<close>

theorem hat_reencode:
  assumes "bytesToHat p = Some t"
  shows "hatToBytes t = 0 # take 68 (drop 1 p)"
  using assms by (rule hatToBytes_bytesToHat)

theorem hat_reencode_witness:
  "\<exists>t. bytesToHat (replicate 70 1) = Some t \<and> hatToBytes t = 0 # take 68 (drop 1 (replicate 70 1))"
proof -
  obtain t where t: "bytesToHat (replicate 70 1) = Some t"
    by (simp add: bytesToHat_def kHwAuthTokenSize_def)
  then show ?thesis using hat_reencode [OF t] by blast
qed

end
