(* ===== verification/Fp_Events.thy ===== *)
theory Fp_Events
  imports Hat_Codec
begin

text \<open>
  What the fingerprint bridge says to its two neighbours: the callbacks it makes on the
  framework's \<open>ISessionCallback\<close> and the calls it makes on the \<open>IBiometricsFingerprint@2.1\<close> HAL.
  Both go into one log, oldest first, so that statements can be made about their order. Callback
  objects are identified by numbers; \<open>int64_t\<close> and \<open>int32_t\<close> arguments are integers.
\<close>

datatype fp_error =
    HW_UNAVAILABLE | UNABLE_TO_PROCESS | TIMEOUT | NO_SPACE | CANCELED | UNABLE_TO_REMOVE | VENDOR
  | UNKNOWN_ERROR

text \<open>\<open>AcquiredInfo::UNKNOWN\<close>, or the enumerator with the given number.\<close>

datatype acquired_info = Acquired_UNKNOWN | Acquired int

datatype cb_event =
    OnLockoutPermanent
  | OnLockoutTimed int
  | OnLockoutCleared
  | OnError fp_error int
  | OnEnrollmentProgress int int
  | OnAcquired acquired_info int
  | OnAuthenticationFailed
  | OnAuthenticationSucceeded int hat
  | OnEnrollmentsRemoved "int list"
  | OnEnrollmentsEnumerated "int list"
  | OnChallengeGenerated int
  | OnChallengeRevoked int
  | OnAuthenticatorIdRetrieved int
  | OnAuthenticatorIdInvalidated int
  | OnSessionClosed

datatype hidl_call =
    H_setNotify
  | H_setActiveGroup u32 string
  | H_preEnroll
  | H_postEnroll
  | H_enroll bytes u32 nat
  | H_authenticate u64 u32
  | H_enumerate
  | H_remove u32 u32
  | H_getAuthenticatorId
  | H_cancel

datatype fp_event = Cb nat cb_event | Hidl hidl_call

text \<open>
  The HIDL enumerations, with their enumerators by name; a number that no enumerator has stays a
  number. Their values are not part of this repository: where the code casts an enumerator to
  \<open>int32_t\<close> the model takes the cast as a parameter.
\<close>

datatype request_status =
    SYS_UNKNOWN | SYS_OK | SYS_ENOENT | SYS_EINTR | SYS_EIO | SYS_EAGAIN | SYS_ENOMEM | SYS_EACCES
  | SYS_EFAULT | SYS_EBUSY | SYS_EINVAL | SYS_ENOSPC | SYS_ETIMEDOUT

datatype hidl_error =
    ERROR_HW_UNAVAILABLE | ERROR_UNABLE_TO_PROCESS | ERROR_TIMEOUT | ERROR_NO_SPACE
  | ERROR_CANCELED | ERROR_UNABLE_TO_REMOVE | ERROR_LOCKOUT | ERROR_VENDOR | Other_Error int

datatype hidl_acquired =
    ACQUIRED_GOOD | ACQUIRED_PARTIAL | ACQUIRED_INSUFFICIENT | ACQUIRED_IMAGER_DIRTY
  | ACQUIRED_TOO_SLOW | ACQUIRED_TOO_FAST | ACQUIRED_VENDOR | Other_Acquired int

record hidl_casts =
  error_value :: "hidl_error \<Rightarrow> int"
  acquired_value :: "hidl_acquired \<Rightarrow> int"

text \<open>The calls of the HAL on its \<open>IBiometricsFingerprintClientCallback\<close>, without the device id.\<close>

datatype client_call =
    C_onEnrollResult u32 u32 u32
  | C_onAcquired hidl_acquired int
  | C_onAuthenticated u32 u32 bytes
  | C_onError hidl_error int
  | C_onRemoved u32 u32 u32
  | C_onEnumerate u32 u32 u32

end
