(* ===== verification/Lockout_Tracker.thy ===== *)
theory Lockout_Tracker
  imports Lockout_Store Fp_Events
begin

text \<open>
  The lockout policy, \<^verbatim>\<open>src/bridges/fingerprint/LockoutTracker.h\<close>: five failures lock for 30
  seconds, twenty lock until a reset, every change is saved before it takes effect, and a failed
  save locks.

  One step is one locked section of the code. The clocks are functions that give the \<open>n\<close>-th
  reading: \<open>t_steady\<close> in nanoseconds, \<open>t_real\<close> as \<open>clock_gettime\<close> fills a \<open>timespec\<close> (\<open>None\<close> when it
  fails); \<open>t_steadyReads\<close> and \<open>t_realReads\<close> count the readings taken. The condition variable only
  wakes the worker, whose turns are steps of their own (\<open>run_step\<close>). A weak pointer to a callback
  is its number while the callback lives.
\<close>

record tracker =
  t_userId :: u32
  t_disk :: disk
  t_deadlineMs :: int
  t_cb :: "nat option"
  t_failed :: int
  t_failedTimed :: int
  t_timed :: bool
  t_clearPending :: bool
  t_stopping :: bool
  t_deadline :: int
  t_steady :: "nat \<Rightarrow> int"
  t_steadyReads :: nat
  t_real :: "nat \<Rightarrow> (int \<times> int) option"
  t_realReads :: nat
  t_log :: "fp_event list"

definition emit :: "nat \<Rightarrow> cb_event \<Rightarrow> tracker \<Rightarrow> tracker" where
  "emit cb e t = t\<lparr>t_log := t_log t @ [Cb cb e]\<rparr>"

definition clock_now :: "tracker \<Rightarrow> int \<times> tracker" where
  "clock_now t = (t_steady t (t_steadyReads t), t\<lparr>t_steadyReads := Suc (t_steadyReads t)\<rparr>)"

fun timespecMs :: "(int \<times> int) option \<Rightarrow> int" where
  "timespecMs None = 0"
| "timespecMs (Some (sec, nsec)) = sec * 1000 + nsec div 1000000"

definition realtimeMs :: "tracker \<Rightarrow> int \<times> tracker" where
  "realtimeMs t = (timespecMs (t_real t (t_realReads t)), t\<lparr>t_realReads := Suc (t_realReads t)\<rparr>)"

definition seconds_30 :: int where
  "seconds_30 = 30000000000"

definition t_state :: "tracker \<Rightarrow> lstate" where
  "t_state t = \<lparr>s_failed = word_of_int (t_failed t), s_failedTimed = word_of_int (t_failedTimed t),
                s_deadlineMs = word_of_int (t_deadlineMs t)\<rparr>"

definition persist :: "tracker \<Rightarrow> bool \<times> tracker" where
  "persist t = (case save (t_userId t) (t_state t) (t_disk t) of (ok, w) \<Rightarrow> (ok, t\<lparr>t_disk := w\<rparr>))"

definition failClosed :: "tracker \<Rightarrow> tracker" where
  "failClosed t =
     (if t_failed t \<ge> 20 then
        t\<lparr>t_failedTimed := 0, t_timed := False, t_deadlineMs := 0, t_clearPending := False\<rparr>
      else
        let t1 = t\<lparr>t_failed := max (t_failed t) 19, t_failedTimed := 5, t_timed := True,
                   t_clearPending := False\<rparr>;
            (ms, t2) = realtimeMs t1;
            t3 = t2\<lparr>t_deadlineMs := ms + 30000\<rparr>;
            (now, t4) = clock_now t3
        in t4\<lparr>t_deadline := now + seconds_30\<rparr>)"

definition deliver_clear :: "tracker \<Rightarrow> tracker" where
  "deliver_clear t =
     (if t_clearPending t then
        (case t_cb t of
           None \<Rightarrow> t
         | Some cb \<Rightarrow> emit cb OnLockoutCleared (t\<lparr>t_clearPending := False\<rparr>))
      else t)"

text \<open>\<open>Clock::now()\<close> is only read when \<open>timed_\<close> is set.\<close>

definition expire :: "tracker \<Rightarrow> tracker" where
  "expire t =
     (if t_timed t then
        (let (now, t1) = clock_now t in
         if now \<ge> t_deadline t1 then
           (case persist (t1\<lparr>t_timed := False, t_failedTimed := 0, t_deadlineMs := 0\<rparr>) of
              (False, t2) \<Rightarrow> failClosed t2
            | (True, t2) \<Rightarrow> deliver_clear (t2\<lparr>t_clearPending := True\<rparr>))
         else deliver_clear t1)
      else deliver_clear t)"

definition construct ::
  "u32 \<Rightarrow> disk \<Rightarrow> (nat \<Rightarrow> int) \<Rightarrow> (nat \<Rightarrow> (int \<times> int) option) \<Rightarrow> tracker" where
  "construct userId w steady real =
     (let (loaded, w') = load userId w;
          t = \<lparr>t_userId = userId, t_disk = w', t_deadlineMs = 0, t_cb = None, t_failed = 0,
               t_failedTimed = 0, t_timed = False, t_clearPending = False, t_stopping = False,
               t_deadline = 0, t_steady = steady, t_steadyReads = 0, t_real = real,
               t_realReads = 0, t_log = []\<rparr>
      in case loaded of
           Some st \<Rightarrow>
             (let t1 = t\<lparr>t_failed := sint (s_failed st), t_failedTimed := sint (s_failedTimed st)\<rparr>
              in if s_deadlineMs st \<noteq> 0 then
                   (let t2 = t1\<lparr>t_timed := True, t_deadlineMs := sint (s_deadlineMs st)\<rparr>;
                        (now, t3) = clock_now t2;
                        (ms, t4) = realtimeMs t3
                    in t4\<lparr>t_deadline := now + min (max (t_deadlineMs t4 - ms) 0) 30000 * 1000000\<rparr>)
                 else t1)
         | None \<Rightarrow> snd (persist (failClosed t)))"

definition destruct :: "tracker \<Rightarrow> tracker" where
  "destruct t = t\<lparr>t_stopping := True\<rparr>"

definition attach :: "nat \<Rightarrow> tracker \<Rightarrow> tracker" where
  "attach cb t = expire (t\<lparr>t_cb := Some cb\<rparr>)"

definition detach :: "nat \<Rightarrow> tracker \<Rightarrow> tracker" where
  "detach cb t = (if t_cb t = Some cb then t\<lparr>t_cb := None\<rparr> else t)"

text \<open>\<open>std::chrono::ceil\<close> from nanoseconds to milliseconds.\<close>

definition ceil_ms :: "int \<Rightarrow> int" where
  "ceil_ms ns = - ((- ns) div 1000000)"

definition notifyLockout :: "nat \<Rightarrow> tracker \<Rightarrow> bool \<times> tracker" where
  "notifyLockout cb t =
     (let t1 = expire t in
      if t_failed t1 \<ge> 20 then (True, emit cb OnLockoutPermanent t1)
      else if t_timed t1 then
        (let (now, t2) = clock_now t1; remaining = ceil_ms (t_deadline t2 - now)
         in (True, emit cb (OnLockoutTimed (if remaining > 0 then remaining else 1)) t2))
      else (False, t1))"

definition addFailedAttempt :: "tracker \<Rightarrow> bool \<times> tracker" where
  "addFailedAttempt t =
     (let t1 = expire t in
      if t_failed t1 \<ge> 20 \<or> t_timed t1 then (True, t1)
      else
        let t2 = t1\<lparr>t_failed := t_failed t1 + 1, t_failedTimed := t_failedTimed t1 + 1\<rparr>;
            t3 = (if t_failedTimed t2 \<ge> 5 \<and> t_failed t2 < 20 then
                    (let t2' = t2\<lparr>t_timed := True\<rparr>;
                         (now, t2'') = clock_now t2';
                         (ms, t2''') = realtimeMs (t2''\<lparr>t_deadline := now + seconds_30\<rparr>)
                     in t2'''\<lparr>t_deadlineMs := ms + 30000\<rparr>)
                  else t2);
            t4 = (if t_failed t3 \<ge> 20 then t3\<lparr>t_failedTimed := 0\<rparr> else t3);
            (ok, t5) = persist t4;
            t6 = (if ok then t5 else failClosed t5)
        in (t_timed t6 \<or> t_failed t6 \<ge> 20, t6))"

definition reset :: "nat option \<Rightarrow> tracker \<Rightarrow> tracker" where
  "reset cb t =
     (let previousFailed = t_failed t;
          t1 = t\<lparr>t_failed := 0, t_failedTimed := 0, t_timed := False, t_clearPending := False,
                 t_deadlineMs := 0\<rparr>
      in case persist t1 of
           (False, t2) \<Rightarrow>
             (let t3 = failClosed (t2\<lparr>t_failed := previousFailed\<rparr>)
              in case cb of None \<Rightarrow> t3 | Some c \<Rightarrow> emit c (OnError UNABLE_TO_PROCESS 0) t3)
         | (True, t2) \<Rightarrow> (case cb of None \<Rightarrow> t2 | Some c \<Rightarrow> emit c OnLockoutCleared t2))"

text \<open>
  One turn of the worker's loop, from the return of its wait: \<open>untilDeadline\<close> says that \<open>timed_\<close> was
  set when the wait began, so that it was the \<open>wait_until\<close>. By the time it returns another caller may
  have changed \<open>timed_\<close>.
\<close>

definition run_step :: "bool \<Rightarrow> tracker \<Rightarrow> tracker" where
  "run_step untilDeadline t = (if untilDeadline \<and> \<not> t_stopping t then expire t else t)"

text \<open>The operations in any order, as the callers and the worker interleave.\<close>

datatype t_op = Attach nat | Detach nat | Notify nat | FailedAttempt | Reset "nat option" | Wake bool | Stop

fun t_step :: "t_op \<Rightarrow> tracker \<Rightarrow> tracker" where
  "t_step (Attach cb) t = attach cb t"
| "t_step (Detach cb) t = detach cb t"
| "t_step (Notify cb) t = snd (notifyLockout cb t)"
| "t_step FailedAttempt t = snd (addFailedAttempt t)"
| "t_step (Reset cb) t = reset cb t"
| "t_step (Wake untilDeadline) t = run_step untilDeadline t"
| "t_step Stop t = destruct t"

abbreviation t_run :: "t_op list \<Rightarrow> tracker \<Rightarrow> tracker" where
  "t_run ops t \<equiv> fold t_step ops t"

subsection \<open>The invariant\<close>

text \<open>The wall clock is after the epoch and far from the end of \<open>int64_t\<close>.\<close>

definition clock_ok :: "tracker \<Rightarrow> bool" where
  "clock_ok t \<longleftrightarrow> (\<forall>n. 0 \<le> timespecMs (t_real t n) \<and> timespecMs (t_real t n) + 30000 < 2 ^ 63)"

definition tracker_inv :: "tracker \<Rightarrow> bool" where
  "tracker_inv t \<longleftrightarrow>
     clock_ok t \<and> 0 \<le> t_failed t \<and> t_failed t \<le> 20 \<and> 0 \<le> t_failedTimed t \<and>
     t_failedTimed t \<le> t_failed t \<and>
     (if t_timed t then t_failedTimed t = 5 \<and> t_failed t < 20 \<and> 0 < t_deadlineMs t \<and>
        t_deadlineMs t < 2 ^ 63
      else t_failedTimed t < 5 \<and> t_deadlineMs t = 0)"

definition failed_closed :: "tracker \<Rightarrow> bool" where
  "failed_closed t \<longleftrightarrow> t_failed t \<ge> 20 \<or> t_failed t = 19 \<and> t_timed t"

definition synced :: "tracker \<Rightarrow> bool" where
  "synced t \<longleftrightarrow> reload (t_userId t) (files (t_disk t)) = Some (t_state t)"

lemma persist_cases:
  assumes "persist t = (ok, t')"
  shows "t' = t\<lparr>t_disk := t_disk t'\<rparr>"
  using assms by (auto simp: persist_def split: prod.splits)

lemma inv_disk [simp]:
  "tracker_inv (t\<lparr>t_disk := w\<rparr>) = tracker_inv t" "failed_closed (t\<lparr>t_disk := w\<rparr>) = failed_closed t"
  by (simp_all add: tracker_inv_def clock_ok_def failed_closed_def)

lemma word_small: "0 \<le> x \<Longrightarrow> x \<le> 20 \<Longrightarrow> uint (word_of_int x :: u32) = x"
  by (simp add: uint_word_of_int_eq take_bit_int_eq_self)

lemma t_state_valid: "tracker_inv t \<Longrightarrow> valid_state (t_state t)"
proof -
  assume inv: "tracker_inv t"
  then have f: "uint (word_of_int (t_failed t) :: u32) = t_failed t"
    and ft: "uint (word_of_int (t_failedTimed t) :: u32) = t_failedTimed t"
    and d: "uint (word_of_int (t_deadlineMs t) :: u64) = t_deadlineMs t"
    by (auto simp: tracker_inv_def word_small uint_word_of_int_eq take_bit_int_eq_self split: if_splits)
  from inv show ?thesis
    by (auto simp: valid_state_def t_state_def word_le_def word_less_def f ft d tracker_inv_def
        word_uint_eq_iff split: if_splits)
qed

lemma persist_synced: "tracker_inv t \<Longrightarrow> persist t = (True, t') \<Longrightarrow> synced t'"
  using store.saved [OF _ t_state_valid]
  by (auto simp: persist_def synced_def t_state_def split: prod.splits)

lemma synced_cong:
  "t_userId t' = t_userId t \<Longrightarrow> t_disk t' = t_disk t \<Longrightarrow> t_state t' = t_state t \<Longrightarrow> synced t' = synced t"
  by (simp add: synced_def)

lemma failClosed_closes:
  "clock_ok t \<Longrightarrow> 0 \<le> t_failed t \<Longrightarrow> t_failed t \<le> 20 \<Longrightarrow>
   tracker_inv (failClosed t) \<and> failed_closed (failClosed t) \<and> t_failed t \<le> t_failed (failClosed t)"
  by (auto simp: failClosed_def tracker_inv_def clock_ok_def failed_closed_def realtimeMs_def
      clock_now_def Let_def intro!: add_nonneg_pos)

text \<open>The fields that the policy, the disk and the invariant depend on.\<close>

definition core :: "tracker \<Rightarrow> u32 \<times> disk \<times> int \<times> int \<times> int \<times> bool \<times> (nat \<Rightarrow> (int \<times> int) option)" where
  "core t = (t_userId t, t_disk t, t_deadlineMs t, t_failed t, t_failedTimed t, t_timed t, t_real t)"

lemma core_cong:
  "core t' = core t \<Longrightarrow> tracker_inv t' = tracker_inv t \<and> synced t' = synced t \<and>
     failed_closed t' = failed_closed t \<and> t_failed t' = t_failed t \<and> t_timed t' = t_timed t"
  by (simp add: core_def tracker_inv_def clock_ok_def synced_def failed_closed_def t_state_def)

lemma core_emit [frame_simps]: "core (emit cb e t) = core t"
  by (simp add: core_def emit_def)

lemma core_clock_now [frame_simps]: "core (snd (clock_now t)) = core t"
  by (simp add: core_def clock_now_def)

lemma core_deliver_clear [frame_simps]: "core (deliver_clear t) = core t"
  by (simp add: core_def deliver_clear_def emit_def split: option.split)

lemma core_updates [frame_simps]:
  "core (t\<lparr>t_cb := c\<rparr>) = core t" "core (t\<lparr>t_clearPending := b\<rparr>) = core t"
  "core (t\<lparr>t_stopping := b\<rparr>) = core t" "core (t\<lparr>t_deadline := d\<rparr>) = core t"
  by (simp_all add: core_def)

text \<open>A step is safe when it keeps the invariant and the count, and the disk agrees or access is closed.\<close>

definition advances :: "tracker \<Rightarrow> tracker \<Rightarrow> bool" where
  "advances t t' \<longleftrightarrow>
     tracker_inv t' \<and> t_failed t \<le> t_failed t' \<and> (core t' = core t \<or> synced t' \<or> failed_closed t')"

lemma advances_core: "tracker_inv t \<Longrightarrow> core t' = core t \<Longrightarrow> advances t t'"
  using core_cong [of t' t] by (simp add: advances_def)

lemma advances_trans: "advances t u \<Longrightarrow> advances u v \<Longrightarrow> advances t v"
  using core_cong [of v u] core_cong [of u t] by (auto simp: advances_def)

lemma advances_core_right: "advances t u \<Longrightarrow> core v = core u \<Longrightarrow> advances t v"
  using core_cong [of v u] by (auto simp: advances_def)

lemma advances_core_left: "advances u v \<Longrightarrow> core u = core t \<Longrightarrow> advances t v"
  using core_cong [of u t] by (auto simp: advances_def)

text \<open>Saving a new policy state, locking when the save fails.\<close>

definition save_or_close :: "tracker \<Rightarrow> tracker" where
  "save_or_close t = (case persist t of (True, t') \<Rightarrow> t' | (False, t') \<Rightarrow> failClosed t')"

lemma save_or_close_safe:
  assumes "tracker_inv t"
  shows "tracker_inv (save_or_close t) \<and> (synced (save_or_close t) \<or> failed_closed (save_or_close t)) \<and>
    t_failed t \<le> t_failed (save_or_close t)"
proof -
  obtain ok t' where p: "persist t = (ok, t')" by (cases "persist t")
  then have eq: "t' = t\<lparr>t_disk := t_disk t'\<rparr>" by (rule persist_cases)
  have inv: "tracker_inv t'"
    using assms by (subst eq) (auto simp: tracker_inv_def clock_ok_def)
  have same: "t_failed t' = t_failed t"
    by (subst eq) simp
  show ?thesis
  proof (cases ok)
    case True
    with p inv same assms persist_synced show ?thesis by (simp add: save_or_close_def)
  next
    case False
    have "clock_ok t'" "0 \<le> t_failed t'" "t_failed t' \<le> 20"
      using inv by (auto simp: tracker_inv_def)
    from failClosed_closes [OF this] False p same show ?thesis by (simp add: save_or_close_def)
  qed
qed

lemma expire_advances:
  assumes "tracker_inv t"
  shows "advances t (expire t)"
proof (cases "t_timed t \<and> t_deadline t \<le> t_steady t (t_steadyReads t)")
  case False
  then have "core (expire t) = core t"
    by (auto simp: expire_def clock_now_def Let_def frame_simps) (simp add: core_def)
  with assms show ?thesis by (rule advances_core)
next
  case True
  let ?t1 = "(snd (clock_now t))\<lparr>t_timed := False, t_failedTimed := 0, t_deadlineMs := 0\<rparr>"
  have inv: "tracker_inv ?t1"
    using assms by (simp add: tracker_inv_def clock_ok_def clock_now_def)
  have "core (expire t) = core (save_or_close ?t1)"
    using True by (auto simp: expire_def save_or_close_def clock_now_def frame_simps
        split: prod.splits bool.splits)
  moreover have "t_failed ?t1 = t_failed t"
    by (simp add: clock_now_def)
  ultimately show ?thesis
    using save_or_close_safe [OF inv] core_cong [of "expire t" "save_or_close ?t1"]
    by (simp add: advances_def)
qed

text \<open>The count of one more failed attempt, before it is saved.\<close>

definition counted :: "tracker \<Rightarrow> tracker" where
  "counted t1 =
     (let t2 = t1\<lparr>t_failed := t_failed t1 + 1, t_failedTimed := t_failedTimed t1 + 1\<rparr>;
          t3 = (if t_failedTimed t2 \<ge> 5 \<and> t_failed t2 < 20 then
                  (let t2' = t2\<lparr>t_timed := True\<rparr>;
                       (now, t2'') = clock_now t2';
                       (ms, t2''') = realtimeMs (t2''\<lparr>t_deadline := now + seconds_30\<rparr>)
                   in t2'''\<lparr>t_deadlineMs := ms + 30000\<rparr>)
                else t2)
      in (if t_failed t3 \<ge> 20 then t3\<lparr>t_failedTimed := 0\<rparr> else t3))"

lemma addFailedAttempt_eq:
  "addFailedAttempt t =
     (let t1 = expire t in
      if t_failed t1 \<ge> 20 \<or> t_timed t1 then (True, t1)
      else let t6 = save_or_close (counted t1) in (t_timed t6 \<or> t_failed t6 \<ge> 20, t6))"
  unfolding addFailedAttempt_def counted_def save_or_close_def Let_def
  by (simp split: prod.split bool.split)

lemma counted_inv:
  assumes "tracker_inv t" "t_failed t < 20" "\<not> t_timed t"
  shows "tracker_inv (counted t) \<and> t_failed (counted t) = t_failed t + 1"
proof -
  have "0 \<le> timespecMs (t_real t n)" "timespecMs (t_real t n) + 30000 < 2 ^ 63" for n
    using assms(1) by (simp_all add: tracker_inv_def clock_ok_def)
  with assms show ?thesis
    by (auto simp: counted_def tracker_inv_def clock_ok_def clock_now_def realtimeMs_def Let_def
        intro!: add_nonneg_pos)
qed

lemma addFailedAttempt_advances:
  assumes "tracker_inv t"
  shows "advances t (snd (addFailedAttempt t))"
proof -
  let ?t1 = "expire t"
  note a = expire_advances [OF assms]
  then have inv: "tracker_inv ?t1" by (simp add: advances_def)
  show ?thesis
  proof (cases "t_failed ?t1 \<ge> 20 \<or> t_timed ?t1")
    case True
    with a show ?thesis by (simp add: addFailedAttempt_eq Let_def)
  next
    case False
    with counted_inv [OF inv] save_or_close_safe [of "counted ?t1"] a show ?thesis
      by (simp add: addFailedAttempt_eq Let_def advances_def)
  qed
qed

lemma notifyLockout_advances:
  assumes "tracker_inv t"
  shows "advances t (snd (notifyLockout cb t))"
proof -
  have "core (snd (notifyLockout cb t)) = core (expire t)"
    by (simp add: notifyLockout_def Let_def frame_simps clock_now_def split: prod.split)
      (simp add: core_def)
  with expire_advances [OF assms] show ?thesis by (rule advances_core_right)
qed

lemma reset_safe:
  assumes "tracker_inv t"
  shows "tracker_inv (reset cb t) \<and> (synced (reset cb t) \<or> failed_closed (reset cb t))"
proof -
  let ?t1 = "t\<lparr>t_failed := 0, t_failedTimed := 0, t_timed := False, t_clearPending := False,
                 t_deadlineMs := 0\<rparr>"
  obtain ok t2 where p: "persist ?t1 = (ok, t2)" by (cases "persist ?t1")
  have bounds: "0 \<le> t_failed t" "t_failed t \<le> 20"
    using assms by (simp_all add: tracker_inv_def)
  have inv1: "tracker_inv ?t1" using assms by (simp add: tracker_inv_def clock_ok_def)
  from persist_cases [OF p] have eq: "t2 = ?t1\<lparr>t_disk := t_disk t2\<rparr>" .
  show ?thesis
  proof (cases ok)
    case True
    then have "core (reset cb t) = core t2"
      using p by (simp add: reset_def Let_def frame_simps split: option.split)
    moreover have "synced t2" using persist_synced [OF inv1] p True by simp
    moreover have "tracker_inv t2"
      using inv1 by (subst eq) (simp add: tracker_inv_def clock_ok_def)
    ultimately show ?thesis using core_cong by blast
  next
    case False
    let ?t3 = "failClosed (t2\<lparr>t_failed := t_failed t\<rparr>)"
    have "core (reset cb t) = core ?t3"
      using p False by (simp add: reset_def Let_def frame_simps split: option.split)
    moreover have "clock_ok (t2\<lparr>t_failed := t_failed t\<rparr>)"
      using assms by (subst eq) (simp add: tracker_inv_def clock_ok_def)
    then have "tracker_inv ?t3 \<and> failed_closed ?t3"
      using failClosed_closes [of "t2\<lparr>t_failed := t_failed t\<rparr>"] bounds by simp
    ultimately show ?thesis using core_cong by blast
  qed
qed

fun is_reset :: "t_op \<Rightarrow> bool" where
  "is_reset (Reset cb) = True"
| "is_reset _ = False"

lemma t_step_advances:
  assumes "tracker_inv t" "\<not> is_reset op"
  shows "advances t (t_step op t)"
proof (cases op)
  case (Attach cb)
  have "tracker_inv (t\<lparr>t_cb := Some cb\<rparr>)"
    using assms(1) core_cong [OF core_updates(1)] by blast
  from advances_core_left [OF expire_advances [OF this] core_updates(1)] Attach show ?thesis
    by (simp add: attach_def)
next
  case Wake
  then show ?thesis
    using assms(1) expire_advances [OF assms(1)] advances_core [OF assms(1) refl]
    by (simp add: run_step_def)
next
  case (Detach cb)
  then show ?thesis
    using advances_core [OF assms(1), of "detach cb t"] by (simp add: detach_def frame_simps)
next
  case Stop
  then show ?thesis
    using advances_core [OF assms(1), of "destruct t"] by (simp add: destruct_def frame_simps)
qed (use assms in \<open>simp_all add: notifyLockout_advances addFailedAttempt_advances\<close>)

definition safe :: "tracker \<Rightarrow> bool" where
  "safe t \<longleftrightarrow> tracker_inv t \<and> (synced t \<or> failed_closed t)"

lemma t_step_safe: "safe t \<Longrightarrow> safe (t_step op t)"
proof (cases "is_reset op")
  case True
  assume "safe t"
  with True reset_safe show ?thesis by (cases op) (simp_all add: safe_def)
next
  case False
  assume s: "safe t"
  then have "advances t (t_step op t)" using False by (simp add: t_step_advances safe_def)
  with s core_cong [of "t_step op t" t] show ?thesis by (auto simp: advances_def safe_def)
qed

lemma t_run_safe: "safe t \<Longrightarrow> safe (t_run ops t)"
  by (induction ops arbitrary: t) (simp_all add: t_step_safe)

lemma t_run_mono:
  "tracker_inv t \<Longrightarrow> list_all (\<lambda>op. \<not> is_reset op) ops \<Longrightarrow> t_failed t \<le> t_failed (t_run ops t)"
proof (induction ops arbitrary: t)
  case (Cons op ops)
  then have "advances t (t_step op t)" by (simp add: t_step_advances)
  with Cons show ?case by (fastforce simp: advances_def)
qed simp

subsection \<open>Starting from the disk\<close>

lemma decode_valid: "decode u r = Some st \<Longrightarrow> valid_state st"
  by (auto simp: decode_def valid_state_def Let_def linorder_not_less split: if_splits)

lemma load_Some_reload:
  assumes "load u w = (Some st, w')"
  shows "reload u (files w') = Some st \<and> valid_state st"
proof -
  obtain ok w1 where od: "openDirectory w = (ok, w1)" by (cases "openDirectory w")
  obtain m mk w2 where rm: "readRecord (seen_name u) w1 = (m, mk, w2)"
    by (cases "readRecord (seen_name u) w1")
  obtain e r w3 where rr: "readRecord (lockout_name u) w2 = (e, r, w3)"
    by (cases "readRecord (lockout_name u) w2")
  note reads = readRecord_cases [OF rm] readRecord_cases [OF rr]
  show ?thesis
  proof (cases "m = ENOENT \<and> e = ENOENT")
    case True
    obtain a w4 where a: "writeRecord (seen_name u) (encode u empty_state kMarkerMagic) w3 = (a, w4)"
      by (cases "writeRecord (seen_name u) (encode u empty_state kMarkerMagic) w3")
    obtain b w5 where b: "writeRecord (lockout_name u) (encode u empty_state kMagic) w4 = (b, w5)"
      by (cases "writeRecord (lockout_name u) (encode u empty_state kMagic) w4")
    from assms od rm rr True a b have "a" "b" "st = empty_state" "w' = w5"
      by (auto simp: load_def Let_def split: bool.splits if_splits)
    moreover from this writeRecord_visits [OF a length_encode] writeRecord_visits [OF b length_encode]
    have "files w5 (lockout_name u) = Some (encode u empty_state kMagic)"
      "files w5 (seen_name u) = Some (encode u empty_state kMarkerMagic)"
      by (auto simp: visits_def evolved_def)
    ultimately show ?thesis by (simp add: reload_encoded)
  next
    case False
    with assms od rm rr have "e = 0" "w' = w3" "decode u r = Some st"
      "(m = 0 \<and> mk = encode u empty_state kMarkerMagic) \<or> s_failed st = 20"
      by (auto simp: load_def Let_def split: bool.splits if_splits option.splits)
    with reads show ?thesis by (auto simp: reload_eq decode_valid)
  qed
qed

lemma sint_small: "(w :: u32) \<le> 20 \<Longrightarrow> sint w = uint w"
  unfolding sint_uint word_le_def
  by (rule signed_take_bit_int_eq_self [OF order_trans [OF _ uint_ge_0]]) simp_all

lemma sint_u64: "(w :: u64) \<le> 0x7fffffffffffffff \<Longrightarrow> sint w = uint w"
  unfolding sint_uint word_le_def
  by (rule signed_take_bit_int_eq_self [OF order_trans [OF _ uint_ge_0]]) simp_all

lemma uint_pos: "uint w \<noteq> 0 \<Longrightarrow> 0 < uint w"
  using uint_ge_0 [of w] by linarith

lemma construct_safe:
  assumes "\<And>n. 0 \<le> timespecMs (real n) \<and> timespecMs (real n) + 30000 < 2 ^ 63"
  shows "safe (construct u w steady real)"
proof (cases "load u w")
  case (Pair l w')
  show ?thesis
  proof (cases l)
    case (Some st)
    with Pair have l: "reload u (files w') = Some st" "valid_state st"
      using load_Some_reload by auto
    let ?t = "construct u w steady real"
    have t: "t_failed ?t = sint (s_failed st)" "t_failedTimed ?t = sint (s_failedTimed st)"
      "t_deadlineMs ?t = sint (s_deadlineMs st)" "t_timed ?t = (s_deadlineMs st \<noteq> 0)"
      "t_disk ?t = w'" "t_userId ?t = u" "t_real ?t = real"
      using Pair Some by (simp_all add: construct_def Let_def clock_now_def realtimeMs_def)
    have "t_state ?t = st" by (simp add: t_state_def t)
    with l have "synced ?t" by (simp add: synced_def t)
    moreover have "tracker_inv ?t"
      using l(2) assms
      by (auto simp: tracker_inv_def clock_ok_def t valid_state_def sint_small sint_u64 word_le_def
          word_less_def word_uint_eq_iff uint_pos)
    ultimately show ?thesis by (simp add: safe_def)
  next
    case None
    let ?t0 = "\<lparr>t_userId = u, t_disk = w', t_deadlineMs = 0, t_cb = None, t_failed = 0,
               t_failedTimed = 0, t_timed = False, t_clearPending = False, t_stopping = False,
               t_deadline = 0, t_steady = steady, t_steadyReads = 0, t_real = real,
               t_realReads = 0, t_log = []\<rparr>"
    have c: "tracker_inv (failClosed ?t0)" "failed_closed (failClosed ?t0)"
      using failClosed_closes [of ?t0] assms by (simp_all add: clock_ok_def)
    obtain ok t' where p: "persist (failClosed ?t0) = (ok, t')"
      by (cases "persist (failClosed ?t0)")
    have "construct u w steady real = t'"
      using Pair None p by (simp add: construct_def)
    moreover have "tracker_inv t'" "failed_closed t'"
      using c by (subst persist_cases [OF p], simp)+
    ultimately show ?thesis by (simp add: safe_def)
  qed
qed

lemma load_reload:
  assumes "script w = []"
  shows "fst (load u w) = reload u (files w)"
proof (cases "files w (seen_name u) = None \<and> files w (lockout_name u) = None")
  case True
  then show ?thesis
    using load_fresh [of w u] load_fresh [of "\<lparr>files = files w, script = [], hist = []\<rparr>" u] assms
    by (auto simp: reload_def)
next
  case False
  with assms show ?thesis
    by (auto simp: reload_def load_def openDirectory_def readRecord_clean Let_def ENOENT_def EIO_def
        split: option.splits)
qed

lemma synced_restart:
  assumes "tracker_inv t" "synced t" "script (t_disk t) = []"
  shows "t_state (construct (t_userId t) (t_disk t) steady real) = t_state t \<and>
    t_timed (construct (t_userId t) (t_disk t) steady real) = t_timed t"
proof -
  obtain w where l: "load (t_userId t) (t_disk t) = (Some (t_state t), w)"
    using load_reload [OF assms(3), of "t_userId t"] assms(2)
    by (cases "load (t_userId t) (t_disk t)") (auto simp: synced_def)
  moreover have "(s_deadlineMs (t_state t) \<noteq> 0) = t_timed t"
    using assms(1) by (auto simp: tracker_inv_def t_state_def word_uint_eq_iff uint_word_of_int_eq
        take_bit_int_eq_self split: if_splits)
  ultimately show ?thesis
    by (auto simp: construct_def t_state_def Let_def clock_now_def realtimeMs_def)
qed

lemma t_state_inj:
  assumes "tracker_inv t" "tracker_inv t'" "t_state t = t_state t'"
  shows "t_failed t = t_failed t' \<and> t_failedTimed t = t_failedTimed t' \<and> t_deadlineMs t = t_deadlineMs t'"
proof -
  have "uint (s_failed (t_state t)) = t_failed t \<and> uint (s_failedTimed (t_state t)) = t_failedTimed t \<and>
    uint (s_deadlineMs (t_state t)) = t_deadlineMs t" if "tracker_inv t" for t
    using that by (auto simp: tracker_inv_def t_state_def uint_word_of_int_eq take_bit_int_eq_self
        split: if_splits)
  with assms show ?thesis by metis
qed

subsection \<open>Counting attempts\<close>

lemma expire_idle: "\<not> t_timed t \<Longrightarrow> core (expire t) = core t"
  by (simp add: expire_def frame_simps)

lemma persist_clean:
  assumes "script (t_disk t) = []"
  shows "\<exists>w. persist t = (True, t\<lparr>t_disk := w\<rparr>) \<and> script w = []"
  using save_clean [OF assms, of "t_userId t" "t_state t"] by (auto simp: persist_def)

lemma attempt_clean:
  assumes "tracker_inv t" "\<not> t_timed t" "t_failed t < 20" "script (t_disk t) = []"
  shows "\<exists>t'. addFailedAttempt t = (t_failedTimed t = 4 \<or> t_failed t = 19, t') \<and>
    t_failed t' = t_failed t + 1 \<and> script (t_disk t') = [] \<and> tracker_inv t' \<and>
    t_timed t' = (t_failedTimed t = 4 \<and> t_failed t < 19) \<and>
    (t_failed t < 19 \<longrightarrow> t_failedTimed t' = t_failedTimed t + 1)"
proof -
  let ?t1 = "expire t"
  have c: "core ?t1 = core t" using assms(2) by (rule expire_idle)
  then have f: "t_failed ?t1 = t_failed t" "t_timed ?t1 = t_timed t" "t_disk ?t1 = t_disk t"
    "t_failedTimed ?t1 = t_failedTimed t" and inv: "tracker_inv ?t1"
    using core_cong [OF c] assms(1) by (simp_all add: core_def)
  have ci: "tracker_inv (counted ?t1)" using counted_inv [OF inv] assms f by simp
  have cd: "t_disk (counted ?t1) = t_disk t" "t_failed (counted ?t1) = t_failed t + 1"
    "t_timed (counted ?t1) = (t_failedTimed t \<ge> 4 \<and> t_failed t < 19)"
    "t_failed t < 19 \<Longrightarrow> t_failedTimed (counted ?t1) = t_failedTimed t + 1"
    using f assms(2,3) by (auto simp: counted_def Let_def clock_now_def realtimeMs_def)
  obtain w where p: "persist (counted ?t1) = (True, (counted ?t1)\<lparr>t_disk := w\<rparr>)" "script w = []"
    using persist_clean [of "counted ?t1"] assms(4) cd(1) by auto
  have "t_failedTimed t < 5" using assms(1,2) by (simp add: tracker_inv_def)
  moreover have "tracker_inv ((counted ?t1)\<lparr>t_disk := w\<rparr>)"
    using ci by (auto simp: tracker_inv_def clock_ok_def)
  ultimately show ?thesis
    using assms f cd p by (auto simp: addFailedAttempt_eq Let_def save_or_close_def)
qed

fun attempts :: "nat \<Rightarrow> tracker \<Rightarrow> bool list \<times> tracker" where
  "attempts 0 t = ([], t)"
| "attempts (Suc n) t =
     (case addFailedAttempt t of (b, t1) \<Rightarrow> (case attempts n t1 of (bs, t2) \<Rightarrow> (b # bs, t2)))"

lemma addFailedAttempt_locked:
  "t_failed (expire t) \<ge> 20 \<or> t_timed (expire t) \<Longrightarrow> addFailedAttempt t = (True, expire t)"
  by (auto simp: addFailedAttempt_eq Let_def)


lemma attempts_clean:
  assumes "tracker_inv t" "\<not> t_timed t" "script (t_disk t) = []" "t_failed t + int (Suc n) \<le> 19"
    and "t_failedTimed t + int (Suc n) = 5"
  shows "\<exists>t'. attempts (Suc n) t = (replicate n False @ [True], t') \<and> t_timed t' \<and>
    t_failed t' = t_failed t + int (Suc n)"
  using assms
proof (induction n arbitrary: t)
  case 0
  then show ?case using attempt_clean [of t] by force
next
  case (Suc n)
  then obtain t' where t': "addFailedAttempt t = (False, t')" "t_failed t' = t_failed t + 1"
    "script (t_disk t') = []" "tracker_inv t'" "\<not> t_timed t'" "t_failedTimed t' = t_failedTimed t + 1"
    using attempt_clean [of t] by force
  obtain t'' where "attempts (Suc n) t' = (replicate n False @ [True], t'')" "t_timed t''"
    "t_failed t'' = t_failed t' + int (Suc n)"
    using Suc.IH [of t'] t' Suc.prems by force
  moreover have "attempts (Suc (Suc n)) t =
      (case attempts (Suc n) t' of (bs, t2) \<Rightarrow> (False # bs, t2))"
    using t'(1) by simp
  ultimately show ?case using t'(2) by (simp del: attempts.simps)
qed

lemma notify_timed:
  assumes "t_timed t" "t_failed t < 20" "t_steady t (t_steadyReads t) < t_deadline t"
  shows "\<exists>t'. notifyLockout cb t = (True, t') \<and>
    t_log t' = t_log (deliver_clear t) @ [Cb cb (OnLockoutTimed
      (max 1 (ceil_ms (t_deadline t - t_steady t (Suc (t_steadyReads t))))))]"
proof -
  let ?t1 = "t\<lparr>t_steadyReads := Suc (t_steadyReads t)\<rparr>"
  have e: "expire t = deliver_clear ?t1"
    using assms by (simp add: expire_def clock_now_def)
  have "t_log (deliver_clear ?t1) = t_log (deliver_clear t)"
    "t_deadline (deliver_clear ?t1) = t_deadline t" "t_steady (deliver_clear ?t1) = t_steady t"
    "t_steadyReads (deliver_clear ?t1) = Suc (t_steadyReads t)" "t_failed (deliver_clear ?t1) = t_failed t"
    "t_timed (deliver_clear ?t1) = t_timed t"
    by (simp_all add: deliver_clear_def emit_def split: option.split)
  with assms e show ?thesis
    by (simp add: notifyLockout_def Let_def clock_now_def emit_def max_def)
qed

lemma ceil_ms_bounds: "0 < ns \<Longrightarrow> ns \<le> 30000000000 \<Longrightarrow> 1 \<le> ceil_ms ns \<and> ceil_ms ns \<le> 30000"
  using zdiv_mono1 [of "-ns" "-1" 1000000] zdiv_mono1 [of "-30000000000" "-ns" 1000000]
  by (simp add: ceil_ms_def)

text \<open>A tracker with given counters on an empty disk, for concrete runs.\<close>

definition sample_tracker :: "int \<Rightarrow> int \<Rightarrow> int \<Rightarrow> int \<Rightarrow> tracker" where
  "sample_tracker failed failedTimed deadlineMs deadline =
     \<lparr>t_userId = 0, t_disk = blank_disk, t_deadlineMs = deadlineMs, t_cb = None, t_failed = failed,
      t_failedTimed = failedTimed, t_timed = (deadlineMs \<noteq> 0), t_clearPending = False,
      t_stopping = False, t_deadline = deadline, t_steady = int, t_steadyReads = 0,
      t_real = (\<lambda>n. Some (1000, 0)), t_realReads = 0, t_log = []\<rparr>"

lemma sample_tracker_simps [simp]:
  "t_failed (sample_tracker f ft ms d) = f" "t_failedTimed (sample_tracker f ft ms d) = ft"
  "t_timed (sample_tracker f ft ms d) = (ms \<noteq> 0)" "t_deadlineMs (sample_tracker f ft ms d) = ms"
  "t_disk (sample_tracker f ft ms d) = blank_disk" "t_deadline (sample_tracker f ft ms d) = d"
  "t_steady (sample_tracker f ft ms d) = int" "t_steadyReads (sample_tracker f ft ms d) = 0"
  "clock_ok (sample_tracker f ft ms d)"
  by (simp_all add: sample_tracker_def clock_ok_def)

subsection \<open>Properties\<close>

text \<open>
  C1: from start-up on, in every interleaving of callers and worker and with any failures of the
  storage, the counters stay within their bounds, a timed lockout is exactly the state with five
  recent failures and a deadline, and either a new process would load exactly the current state or
  access is closed (a permanent lockout, or one attempt before it with a 30 second lockout).
\<close>

theorem tracker_always_safe:
  assumes "\<And>n. 0 \<le> timespecMs (real n) \<and> timespecMs (real n) + 30000 < 2 ^ 63"
  shows "safe (t_run ops (construct u w steady real))"
  using construct_safe [OF assms] by (rule t_run_safe)

theorem tracker_always_safe_witness:
  "safe (t_run [Attach 1, FailedAttempt, Notify 1, Wake True, Reset (Some 1), Stop]
     (construct 0 blank_disk (\<lambda>n. int n) (\<lambda>n. Some (1000 + int (n mod 8), 0))))"
  by (rule tracker_always_safe) simp

text \<open>
  C3: once twenty failures have been counted, every later request is answered with a permanent
  lockout until a reset, whatever else happens in between.
\<close>

theorem permanent_until_reset:
  assumes "tracker_inv t" and "t_failed t = 20" and "list_all (\<lambda>op. \<not> is_reset op) ops"
  shows "fst (notifyLockout cb (t_run ops t)) \<and>
    last (t_log (snd (notifyLockout cb (t_run ops t)))) = Cb cb OnLockoutPermanent \<and>
    fst (addFailedAttempt (t_run ops t))"
proof -
  have inv: "tracker_inv (t_run ops t)"
    using assms(1,3)
  proof (induction ops arbitrary: t)
    case (Cons op ops)
    then show ?case using t_step_advances [of t op] by (simp add: advances_def)
  qed simp
  have "20 \<le> t_failed (t_run ops t)"
    using t_run_mono [OF assms(1,3)] assms(2) by simp
  then have "20 \<le> t_failed (expire (t_run ops t))"
    using expire_advances [OF inv] by (simp add: advances_def)
  then show ?thesis
    by (simp add: notifyLockout_def Let_def emit_def addFailedAttempt_locked)
qed

theorem permanent_until_reset_witness:
  "tracker_inv (sample_tracker 20 0 0 0) \<and>
   fst (notifyLockout 1 (t_run [Attach 1, FailedAttempt, Wake False] (sample_tracker 20 0 0 0)))"
proof -
  have "tracker_inv (sample_tracker 20 0 0 0)" by (simp add: tracker_inv_def)
  moreover have "fst (notifyLockout 1 (t_run [Attach 1, FailedAttempt, Wake False] (sample_tracker 20 0 0 0)))"
    using permanent_until_reset [of "sample_tracker 20 0 0 0" "[Attach 1, FailedAttempt, Wake False]" 1]
    by (simp add: tracker_inv_def)
  ultimately show ?thesis ..
qed

text \<open>
  a restart forgets nothing that was saved: a tracker built from the disk of a synchronised
  one has the same counters and the same kind of lockout.
\<close>

theorem restart_remembers:
  assumes "tracker_inv t" and "synced t" and "script (t_disk t) = []"
    and "\<And>n. 0 \<le> timespecMs (real n) \<and> timespecMs (real n) + 30000 < 2 ^ 63"
  shows "t_failed (construct (t_userId t) (t_disk t) steady real) = t_failed t \<and>
    t_failedTimed (construct (t_userId t) (t_disk t) steady real) = t_failedTimed t \<and>
    t_timed (construct (t_userId t) (t_disk t) steady real) = t_timed t"
  using synced_restart [OF assms(1-3)] t_state_inj [of "construct (t_userId t) (t_disk t) steady real" t]
    construct_safe [OF assms(4), of "t_userId t" "t_disk t" steady] assms(1)
  by (simp add: safe_def)

theorem restart_remembers_witness:
  "\<exists>t. t_failed t = 3 \<and> synced t \<and> t_failed (construct 0 (t_disk t) int (\<lambda>_. Some (2000, 0))) = 3"
proof -
  let ?s = "sample_tracker 3 3 0 0"
  have inv: "tracker_inv ?s" by (simp add: tracker_inv_def)
  obtain w where w: "persist ?s = (True, ?s\<lparr>t_disk := w\<rparr>)" "script w = []"
    using persist_clean [of ?s] by auto
  let ?t = "?s\<lparr>t_disk := w\<rparr>"
  have u: "t_userId ?t = 0" by (simp add: sample_tracker_def)
  have "synced ?t" using persist_synced [OF inv w(1)] .
  moreover have "t_failed (construct (t_userId ?t) (t_disk ?t) int (\<lambda>_. Some (2000, 0))) = 3"
    using restart_remembers [of ?t "\<lambda>_. Some (2000, 0)" int] \<open>synced ?t\<close> inv w(2) by simp
  ultimately show ?thesis using u by (intro exI [of _ ?t]) simp
qed



text \<open>
  During a timed lockout a request is refused and the client is told a remaining time between
  1 and 30000 milliseconds; an attempt that slips in is refused and not counted.
\<close>

theorem timed_lockout_refuses:
  assumes "t_timed t" and "t_failed t < 20" and "t_steady t (t_steadyReads t) < t_deadline t"
    and "t_steady t (Suc (t_steadyReads t)) < t_deadline t"
    and "t_deadline t \<le> t_steady t (Suc (t_steadyReads t)) + seconds_30"
  shows "\<exists>r t'. notifyLockout cb t = (True, t') \<and> last (t_log t') = Cb cb (OnLockoutTimed r) \<and>
    1 \<le> r \<and> r \<le> 30000 \<and> fst (addFailedAttempt t) \<and> t_failed (snd (addFailedAttempt t)) = t_failed t"
proof -
  let ?r = "ceil_ms (t_deadline t - t_steady t (Suc (t_steadyReads t)))"
  have r: "1 \<le> ?r" "?r \<le> 30000"
    using assms(4,5) ceil_ms_bounds by (simp_all add: seconds_30_def)
  have "core (expire t) = core t"
    using assms(1,3) by (simp add: expire_def clock_now_def frame_simps) (simp add: core_def)
  then have "t_timed (expire t)" "t_failed (expire t) = t_failed t"
    using assms(1) core_cong by blast+
  then have "addFailedAttempt t = (True, expire t)" "t_failed (expire t) = t_failed t"
    using addFailedAttempt_locked by blast+
  with notify_timed [OF assms(1-3), of cb] r show ?thesis by (auto simp: max_def)
qed

theorem timed_lockout_refuses_witness:
  "\<exists>r t'. notifyLockout 1 (sample_tracker 7 5 1000 20000000000) = (True, t') \<and>
     last (t_log t') = Cb 1 (OnLockoutTimed r) \<and> 1 \<le> r \<and> r \<le> 30000"
  using timed_lockout_refuses [of "sample_tracker 7 5 1000 20000000000" 1]
  by (auto simp: seconds_30_def)

end
