(* ===== verification/Removal_Batch.thy ===== *)
theory Removal_Batch
  imports Prelude
begin

text \<open>
  The queue that removes fingerprints one at a time, \<^verbatim>\<open>src/bridges/fingerprint/RemovalBatch.h\<close>:
  the record \<open>batch\<close> is the class, \<open>rb_start\<close>, \<open>rb_result\<close>, \<open>rb_fail\<close>, \<open>rb_cancel\<close> and
  \<open>rb_destroy\<close> are its methods (one locked section each), and the worker thread \<open>run\<close> is a program
  counter with one step per section between two points where it holds no lock. \<open>rb_do\<close> is one step
  of any thread, \<open>None\<close> where the thread would have to wait or the object's life has ended, and \<open>rb_reach\<close> the states of all
  interleavings. \<open>rb_log\<close> records the successful starts and the calls of \<open>remove\<close> and \<open>complete\<close>.
\<close>

datatype rb_event = RbStart "int list" | RbRemove int | RbComplete "int list"

text \<open>
  Where the worker is: at its wait; out of the lock with \<open>complete\<close> and \<open>removed\<close> moved to locals
  (the flag says that \<open>complete\<close> is not empty); out of the lock with \<open>index\<close> and \<open>id\<close> in locals, about to
  take \<open>dispatch_\<close>; inside \<open>remove(id)\<close>, holding \<open>dispatch_\<close>; at its end.
\<close>

datatype rb_pc = AtWait | InComplete bool "int list" | AtDispatch nat int | InRemove nat int | Joined

record batch =
  rb_active :: bool
  rb_waiting :: bool
  rb_retired :: bool
  rb_stopping :: bool
  rb_index :: nat
  rb_pending :: "int list"
  rb_removed :: "int list"
  rb_hasRemove :: bool
  rb_hasComplete :: bool
  rb_pc :: rb_pc
  rb_log :: "rb_event list"

definition rb_new :: batch where
  "rb_new = \<lparr>rb_active = False, rb_waiting = False, rb_retired = False, rb_stopping = False,
     rb_index = 0, rb_pending = [], rb_removed = [], rb_hasRemove = False, rb_hasComplete = False,
     rb_pc = AtWait, rb_log = []\<rparr>"

definition rb_start :: "int list \<Rightarrow> batch \<Rightarrow> bool \<times> batch" where
  "rb_start ids b =
     (if rb_active b \<or> rb_retired b then (False, b)
      else (True, b\<lparr>rb_active := True, rb_pending := ids, rb_removed := [], rb_index := 0,
                    rb_waiting := False, rb_hasRemove := True, rb_hasComplete := True,
                    rb_log := rb_log b @ [RbStart ids]\<rparr>))"

definition rb_result :: "int \<Rightarrow> nat \<Rightarrow> batch \<Rightarrow> batch" where
  "rb_result fid remaining b =
     (if \<not> rb_active b \<or> \<not> rb_waiting b then b
      else if fid \<noteq> 0 \<and> rb_pending b ! rb_index b \<noteq> 0 \<and> fid \<noteq> rb_pending b ! rb_index b then b
      else
        let b1 = (if fid \<noteq> 0 then b\<lparr>rb_removed := rb_removed b @ [fid]\<rparr> else b)
        in if remaining \<noteq> 0 then b1
           else b1\<lparr>rb_waiting := False, rb_index := rb_index b1 + 1\<rparr>)"

definition rb_fail :: "batch \<Rightarrow> bool \<times> batch" where
  "rb_fail b =
     (if \<not> rb_active b then (False, b)
      else (True, b\<lparr>rb_waiting := False, rb_index := length (rb_pending b)\<rparr>))"

definition rb_cancel :: "batch \<Rightarrow> batch" where
  "rb_cancel b = b\<lparr>rb_active := False, rb_retired := True, rb_hasComplete := False, rb_hasRemove := False\<rparr>"

definition rb_destroy :: "batch \<Rightarrow> batch" where
  "rb_destroy b = b\<lparr>rb_stopping := True, rb_active := False\<rparr>"

text \<open>\<open>dispatch_\<close> is held exactly while the worker is inside \<open>remove\<close>, or by a \<open>cancel\<close>, which is one step.\<close>

definition rb_dispatching :: "batch \<Rightarrow> bool" where
  "rb_dispatching b \<longleftrightarrow> (case rb_pc b of InRemove _ _ \<Rightarrow> True | _ \<Rightarrow> False)"

text \<open>From the return of the wait to the next point without lock; \<open>None\<close> while the wait lasts.\<close>

definition run_turn :: "batch \<Rightarrow> batch option" where
  "run_turn b =
     (if rb_stopping b then Some (b\<lparr>rb_pc := Joined\<rparr>)
      else if \<not> (rb_active b \<and> \<not> rb_waiting b) then None
      else if rb_index b = length (rb_pending b) then
        Some (b\<lparr>rb_pc := InComplete (rb_hasComplete b) (rb_removed b), rb_hasComplete := False,
                rb_removed := [], rb_active := False, rb_hasRemove := False\<rparr>)
      else Some (b\<lparr>rb_pc := AtDispatch (rb_index b) (rb_pending b ! rb_index b)\<rparr>))"

definition run_dispatch :: "nat \<Rightarrow> int \<Rightarrow> batch \<Rightarrow> batch" where
  "run_dispatch index fid b =
     (if \<not> rb_active b \<or> rb_stopping b \<or> rb_index b \<noteq> index then b\<lparr>rb_pc := AtWait\<rparr>
      else b\<lparr>rb_waiting := True, rb_pc := InRemove index fid, rb_log := rb_log b @ [RbRemove fid]\<rparr>)"

definition run_returned :: "nat \<Rightarrow> bool \<Rightarrow> batch \<Rightarrow> batch" where
  "run_returned index accepted b =
     (let b1 = (if rb_active b \<and> rb_waiting b \<and> rb_index b = index \<and> \<not> accepted
                then b\<lparr>rb_waiting := False, rb_index := rb_index b + 1\<rparr> else b)
      in b1\<lparr>rb_pc := AtWait\<rparr>)"

definition run_complete :: "bool \<Rightarrow> int list \<Rightarrow> batch \<Rightarrow> batch" where
  "run_complete has removed b =
     (let b1 = (if has then b\<lparr>rb_log := rb_log b @ [RbComplete removed]\<rparr> else b)
      in b1\<lparr>rb_pc := AtWait\<rparr>)"

text \<open>The worker's next step; the argument is what \<open>remove\<close> returns, used where it does return.\<close>

definition run_worker :: "bool \<Rightarrow> batch \<Rightarrow> batch option" where
  "run_worker accepted b =
     (case rb_pc b of
        AtWait \<Rightarrow> run_turn b
      | InComplete has removed \<Rightarrow> Some (run_complete has removed b)
      | AtDispatch index fid \<Rightarrow> Some (run_dispatch index fid b)
      | InRemove index fid \<Rightarrow> Some (run_returned index accepted b)
      | Joined \<Rightarrow> None)"

datatype rb_op = Start "int list" | Result int nat | Failure | CancelBatch | Destroy | Worker bool

fun rb_do :: "rb_op \<Rightarrow> batch \<Rightarrow> batch option" where
  "rb_do (Start ids) b = (if rb_stopping b then None else Some (snd (rb_start ids b)))"
| "rb_do (Result fid remaining) b = (if rb_stopping b then None else Some (rb_result fid remaining b))"
| "rb_do Failure b = (if rb_stopping b then None else Some (snd (rb_fail b)))"
| "rb_do CancelBatch b = (if rb_stopping b \<or> rb_dispatching b then None else Some (rb_cancel b))"
| "rb_do Destroy b = (if rb_stopping b then None else Some (rb_destroy b))"
| "rb_do (Worker accepted) b = run_worker accepted b"

inductive rb_steps :: "batch \<Rightarrow> batch \<Rightarrow> bool" for a where
  refl: "rb_steps a a"
| step: "rb_steps a b \<Longrightarrow> rb_do op b = Some c \<Longrightarrow> rb_steps a c"

abbreviation rb_reach :: "batch \<Rightarrow> bool" where
  "rb_reach \<equiv> rb_steps rb_new"

subsection \<open>What the log holds\<close>

fun starts :: "rb_event list \<Rightarrow> int list list" where
  "starts [] = []"
| "starts (RbStart ids # l) = ids # starts l"
| "starts (_ # l) = starts l"

fun removes :: "rb_event list \<Rightarrow> int list" where
  "removes [] = []"
| "removes (RbRemove fid # l) = fid # removes l"
| "removes (_ # l) = removes l"

fun completes :: "rb_event list \<Rightarrow> int list list" where
  "completes [] = []"
| "completes (RbComplete ids # l) = ids # completes l"
| "completes (_ # l) = completes l"

lemma starts_append [simp]: "starts (l @ l') = starts l @ starts l'"
  by (induction l rule: starts.induct) simp_all

lemma removes_append [simp]: "removes (l @ l') = removes l @ removes l'"
  by (induction l rule: removes.induct) simp_all

lemma completes_append [simp]: "completes (l @ l') = completes l @ completes l'"
  by (induction l rule: completes.induct) simp_all

subsection \<open>The invariant\<close>

text \<open>What is removed belongs to the batch, unless the batch has the wildcard id 0.\<close>

definition belongs :: "int list \<Rightarrow> int list \<Rightarrow> bool" where
  "belongs removed ids \<longleftrightarrow> 0 \<in> set ids \<or> set removed \<subseteq> set ids"

lemma belongs_Nil [simp]: "belongs [] ids"
  by (simp add: belongs_def)

text \<open>The batches whose completion is still due: the one the worker is about to report, the active one.\<close>

fun reporting :: "rb_pc \<Rightarrow> int list list" where
  "reporting (InComplete True removed) = [removed]"
| "reporting _ = []"

definition rb_ctl :: "batch \<Rightarrow> bool" where
  "rb_ctl b \<longleftrightarrow>
     (rb_active b \<longrightarrow> rb_index b \<le> length (rb_pending b) \<and> belongs (rb_removed b) (rb_pending b) \<and>
        rb_hasComplete b \<and> rb_hasRemove b \<and> \<not> rb_retired b \<and> \<not> rb_stopping b) \<and>
     (rb_active b \<and> rb_waiting b \<longrightarrow> rb_index b < length (rb_pending b)) \<and>
     (case rb_pc b of
        AtDispatch i fid \<Rightarrow>
          if rb_active b then i < length (rb_pending b) \<and> rb_pending b ! i = fid
          else rb_retired b \<or> rb_stopping b
      | _ \<Rightarrow> True)"

text \<open>Completions come in the order of the starts; at most the active and the abandoned batch are open.\<close>

definition rb_due :: "batch \<Rightarrow> bool" where
  "rb_due b \<longleftrightarrow>
     (\<exists>dn lost. list_all2 belongs (completes (rb_log b) @ reporting (rb_pc b)) dn \<and>
        starts (rb_log b) = dn @ lost \<and>
        (if rb_active b then lost = [rb_pending b] else \<not> rb_retired b \<and> \<not> rb_stopping b \<longrightarrow> lost = []))"

lemma reporting_simps [simp]:
  "reporting (InComplete b r) = (if b then [r] else [])"
  by (cases b) simp_all

lemmas rb_defs = rb_start_def rb_result_def rb_fail_def rb_cancel_def rb_destroy_def run_turn_def
  run_dispatch_def run_returned_def run_complete_def

lemma belongs_snoc:
  "belongs r ids \<Longrightarrow> i < length ids \<Longrightarrow> ids ! i = 0 \<or> x = ids ! i \<Longrightarrow> belongs (r @ [x]) ids"
  by (auto simp: belongs_def dest: nth_mem)

lemma result_ctl: "rb_ctl b \<Longrightarrow> rb_ctl (rb_result fid remaining b)"
  by (auto simp: rb_result_def rb_ctl_def Let_def belongs_snoc split: rb_pc.split)

lemma caller_ctl:
  "rb_ctl b \<Longrightarrow> \<not> rb_stopping b \<Longrightarrow> rb_ctl (snd (rb_start ids b))"
  "rb_ctl b \<Longrightarrow> rb_ctl (snd (rb_fail b))"
  "rb_ctl b \<Longrightarrow> rb_ctl (rb_cancel b)"
  "rb_ctl b \<Longrightarrow> rb_ctl (rb_destroy b)"
  by (auto simp: rb_defs rb_ctl_def split: rb_pc.splits)

lemma worker_ctl: "rb_ctl b \<Longrightarrow> run_worker accepted b = Some b' \<Longrightarrow> rb_ctl b'"
proof (cases "rb_pc b")
  case AtWait
  assume "rb_ctl b" "run_worker accepted b = Some b'"
  with AtWait show ?thesis
    by (auto simp: run_worker_def run_turn_def rb_ctl_def split: if_splits)
next
  case (InComplete has removed)
  assume "rb_ctl b" "run_worker accepted b = Some b'"
  with InComplete show ?thesis
    by (auto simp: run_worker_def run_complete_def rb_ctl_def Let_def split: if_splits)
next
  case (AtDispatch i fid)
  assume "rb_ctl b" "run_worker accepted b = Some b'"
  with AtDispatch show ?thesis
    by (auto simp: run_worker_def run_dispatch_def rb_ctl_def split: if_splits)
next
  case (InRemove i fid)
  assume "rb_ctl b" "run_worker accepted b = Some b'"
  with InRemove show ?thesis
    by (auto simp: run_worker_def run_returned_def rb_ctl_def Let_def split: if_splits)
qed (simp add: run_worker_def)

lemma do_ctl: "rb_ctl b \<Longrightarrow> rb_do op b = Some b' \<Longrightarrow> rb_ctl b'"
  by (cases op) (auto simp: result_ctl caller_ctl worker_ctl split: if_splits)

lemma due_cong:
  assumes "completes (rb_log b') @ reporting (rb_pc b') = completes (rb_log b) @ reporting (rb_pc b)"
    "starts (rb_log b') = starts (rb_log b)" "rb_pending b' = rb_pending b"
    "rb_active b' = rb_active b" "rb_retired b' = rb_retired b" "rb_stopping b' = rb_stopping b"
  shows "rb_due b \<Longrightarrow> rb_due b'"
  by (simp only: rb_due_def assms)

lemma due_stop:
  assumes "rb_due b" "completes (rb_log b') = completes (rb_log b)" "starts (rb_log b') = starts (rb_log b)"
    "rb_pc b' = rb_pc b" "\<not> rb_active b'" "rb_retired b' \<or> rb_stopping b'"
  shows "rb_due b'"
  using assms by (auto simp: rb_due_def)

lemma start_due:
  assumes "rb_due b" "\<not> rb_stopping b"
  shows "rb_due (snd (rb_start ids b))"
proof (cases "rb_active b \<or> rb_retired b")
  case True
  then show ?thesis using assms(1) by (auto simp: rb_start_def)
next
  case False
  then show ?thesis using assms by (auto simp: rb_start_def rb_due_def)
qed

lemma turn_due:
  assumes "rb_due b" "rb_ctl b" "rb_pc b = AtWait" "run_turn b = Some b'"
  shows "rb_due b'"
proof (cases "\<not> rb_stopping b \<and> rb_index b = length (rb_pending b)")
  case True
  then obtain dn where dn: "list_all2 belongs (completes (rb_log b)) dn"
    "starts (rb_log b) = dn @ [rb_pending b]"
    and now: "rb_active b" "belongs (rb_removed b) (rb_pending b)" "rb_hasComplete b" "\<not> rb_waiting b"
    using assms by (auto simp: rb_due_def rb_ctl_def run_turn_def split: if_splits)
  have "list_all2 belongs (completes (rb_log b) @ [rb_removed b]) (dn @ [rb_pending b])"
    using dn(1) now(2) by (simp add: list_all2_appendI)
  then have "list_all2 belongs (completes (rb_log b') @ reporting (rb_pc b')) (dn @ [rb_pending b]) \<and>
      starts (rb_log b') = (dn @ [rb_pending b]) @ [] \<and> \<not> rb_active b'"
    using True now dn(2) assms(4) by (auto simp: run_turn_def)
  then show ?thesis unfolding rb_due_def by metis
next
  case False
  show ?thesis
    by (rule due_cong [OF _ _ _ _ _ _ assms(1)])
      (use assms(3,4) False in \<open>auto simp: run_turn_def split: if_splits\<close>)
qed

lemma worker_due:
  assumes "rb_due b" "rb_ctl b" "run_worker accepted b = Some b'"
  shows "rb_due b'"
proof (cases "rb_pc b")
  case AtWait
  then show ?thesis using assms turn_due by (simp add: run_worker_def)
next
  case (InComplete has removed)
  show ?thesis
    by (rule due_cong [OF _ _ _ _ _ _ assms(1)])
      (use assms(3) InComplete in \<open>auto simp: run_worker_def run_complete_def Let_def split: if_splits\<close>)
next
  case (AtDispatch i fid)
  show ?thesis
    by (rule due_cong [OF _ _ _ _ _ _ assms(1)])
      (use assms(3) AtDispatch in \<open>auto simp: run_worker_def run_dispatch_def split: if_splits\<close>)
next
  case (InRemove i fid)
  show ?thesis
    by (rule due_cong [OF _ _ _ _ _ _ assms(1)])
      (use assms(3) InRemove in \<open>auto simp: run_worker_def run_returned_def Let_def split: if_splits\<close>)
qed (use assms in \<open>simp add: run_worker_def\<close>)

lemma result_due: "rb_due b \<Longrightarrow> rb_due (rb_result fid remaining b)"
  by (erule due_cong [rotated -1]) (auto simp: rb_result_def Let_def)

lemma fail_due: "rb_due b \<Longrightarrow> rb_due (snd (rb_fail b))"
  by (erule due_cong [rotated -1]) (auto simp: rb_fail_def)

lemma cancel_due: "rb_due b \<Longrightarrow> rb_due (rb_cancel b)"
  by (erule due_stop) (simp_all add: rb_cancel_def)

lemma destroy_due: "rb_due b \<Longrightarrow> rb_due (rb_destroy b)"
  by (erule due_stop) (simp_all add: rb_destroy_def)

lemmas caller_due = start_due result_due fail_due cancel_due destroy_due

lemma do_due: "rb_due b \<Longrightarrow> rb_ctl b \<Longrightarrow> rb_do op b = Some b' \<Longrightarrow> rb_due b'"
  by (cases op) (auto simp: worker_due caller_due split: if_splits)

lemma rb_new_inv: "rb_ctl rb_new" "rb_due rb_new"
  by (simp_all add: rb_new_def rb_ctl_def rb_due_def)

lemma reach_inv: "rb_reach b \<Longrightarrow> rb_ctl b \<and> rb_due b"
proof (induction rule: rb_steps.induct)
  case (step b op c)
  then show ?case using do_ctl do_due by blast
qed (simp add: rb_new_inv)

subsection \<open>After a cancel\<close>

definition halted :: "batch \<Rightarrow> batch \<Rightarrow> bool" where
  "halted a b \<longleftrightarrow> rb_retired b \<and> \<not> rb_active b \<and> \<not> rb_dispatching b \<and>
     removes (rb_log b) = removes (rb_log a) \<and>
     completes (rb_log b) @ reporting (rb_pc b) = completes (rb_log a) @ reporting (rb_pc a)"

lemma halted_worker: "halted a b \<Longrightarrow> run_worker accepted b = Some c \<Longrightarrow> halted a c"
  by (cases "rb_pc b")
    (auto simp: halted_def run_worker_def run_turn_def run_complete_def run_dispatch_def
      rb_dispatching_def Let_def split: if_splits)

lemma halted_do:
  assumes "halted a b" "rb_do op b = Some c"
  shows "halted a c"
proof (cases "\<exists>acc. op = Worker acc")
  case True
  then show ?thesis using assms halted_worker by auto
next
  case False
  with assms show ?thesis
    by (cases op)
      (auto simp: rb_start_def rb_result_def rb_fail_def rb_cancel_def rb_destroy_def
        halted_def rb_dispatching_def split: if_splits)
qed

lemma halted_steps:
  assumes "\<not> rb_dispatching b" "rb_steps (rb_cancel b) c"
  shows "halted b c"
  using assms(2)
proof (induction rule: rb_steps.induct)
  case refl
  show ?case using assms(1) by (simp add: halted_def rb_cancel_def rb_dispatching_def)
next
  case (step c op d)
  then show ?case using halted_do by blast
qed

lemma length_reporting: "length (reporting pc) \<le> 1"
  by (cases pc rule: reporting.cases) simp_all

subsection \<open>A whole batch\<close>

fun rb_run :: "rb_op list \<Rightarrow> batch \<Rightarrow> batch option" where
  "rb_run [] b = Some b"
| "rb_run (op # ops) b = (case rb_do op b of None \<Rightarrow> None | Some b' \<Rightarrow> rb_run ops b')"

text \<open>
  The HAL's side: it takes or rejects each request and reports the removal of those it takes.
\<close>

fun drive :: "(int \<times> bool) list \<Rightarrow> rb_op list" where
  "drive [] = [Worker True, Worker True]"
| "drive ((fid, accepted) # xs) =
     [Worker True, Worker True, Worker accepted] @ (if accepted then [Result fid 0] else []) @ drive xs"

lemma rb_run_append: "rb_run (ops @ ops') b = (case rb_run ops b of None \<Rightarrow> None | Some b' \<Rightarrow> rb_run ops' b')"
  by (induction ops arbitrary: b) (simp_all split: option.split)

lemma run_steps: "rb_run ops b = Some c \<Longrightarrow> rb_steps a b \<Longrightarrow> rb_steps a c"
proof (induction ops arbitrary: b)
  case (Cons op ops)
  then show ?case using rb_steps.step by (auto split: option.splits)
qed simp

lemma drive_run:
  assumes "rb_active b" "\<not> rb_waiting b" "\<not> rb_stopping b" "rb_pc b = AtWait" "rb_hasComplete b"
    "rb_index b \<le> length (rb_pending b)" "drop (rb_index b) (rb_pending b) = map fst xs" "0 \<notin> fst ` set xs"
  shows "\<exists>b'. rb_run (drive xs) b = Some b' \<and> \<not> rb_active b' \<and>
    rb_log b' = rb_log b @ map RbRemove (map fst xs) @ [RbComplete (rb_removed b @ map fst (filter snd xs))]"
  using assms
proof (induction xs arbitrary: b)
  case Nil
  then show ?case by (auto simp: run_worker_def run_turn_def run_complete_def)
next
  case (Cons x xs)
  obtain fid acc where x: "x = (fid, acc)" by (cases x)
  have i: "rb_index b < length (rb_pending b)"
    using Cons.prems(7) by (cases "rb_index b < length (rb_pending b)") simp_all
  have nth: "rb_pending b ! rb_index b = fid" "drop (Suc (rb_index b)) (rb_pending b) = map fst xs"
    using Cons.prems(7) i x by (simp_all add: Cons_nth_drop_Suc [symmetric])
  let ?c = "b\<lparr>rb_waiting := False, rb_index := Suc (rb_index b), rb_log := rb_log b @ [RbRemove fid],
              rb_removed := rb_removed b @ (if acc then [fid] else [])\<rparr>"
  let ?ops = "[Worker True, Worker True, Worker acc] @ (if acc then [Result fid 0] else [])"
  have r: "rb_run ?ops b = Some ?c"
    using Cons.prems x i nth(1)
    by (cases acc) (auto simp: run_worker_def run_turn_def run_dispatch_def run_returned_def rb_result_def Let_def)
  have "drive (x # xs) = ?ops @ drive xs" by (simp add: x)
  then have "rb_run (drive (x # xs)) b = rb_run (drive xs) ?c"
    by (simp only: rb_run_append [of ?ops] r option.case)
  moreover have "\<exists>b'. rb_run (drive xs) ?c = Some b' \<and> \<not> rb_active b' \<and>
    rb_log b' = rb_log ?c @ map RbRemove (map fst xs) @ [RbComplete (rb_removed ?c @ map fst (filter snd xs))]"
    by (rule Cons.IH) (use Cons.prems i nth x in auto)
  ultimately show ?case using x by auto
qed

subsection \<open>Properties\<close>

text \<open>
  In every reachable state \<open>pending_[index_]\<close> is read within bounds, by \<open>result\<close> and by the
  worker, and the stored functions are there when the worker uses them.
\<close>

theorem removal_in_bounds:
  assumes "rb_reach b"
  shows "(rb_active b \<and> rb_waiting b \<longrightarrow> rb_index b < length (rb_pending b)) \<and>
    (rb_active b \<and> rb_index b \<noteq> length (rb_pending b) \<longrightarrow> rb_index b < length (rb_pending b)) \<and>
    (rb_active b \<longrightarrow> rb_hasRemove b \<and> rb_hasComplete b)"
  using reach_inv [OF assms] by (auto simp: rb_ctl_def)

theorem removal_in_bounds_witness:
  "\<exists>b. rb_run [Start [3, 4], Worker True, Worker True] rb_new = Some b \<and>
     rb_active b \<and> rb_waiting b \<and> rb_index b < length (rb_pending b)"
proof -
  obtain b where b: "rb_run [Start [3, 4], Worker True, Worker True] rb_new = Some b"
    "rb_active b" "rb_waiting b"
    by (auto simp: rb_new_def rb_start_def run_worker_def run_turn_def run_dispatch_def)
  then show ?thesis
    using removal_in_bounds [OF run_steps [OF b(1) rb_steps.refl]] by auto
qed

text \<open>
  Completions are reported in the order of the starts, at most one for each start, and what
  the \<open>n\<close>-th completion reports as removed are ids of the \<open>n\<close>-th batch, unless that batch has the
  wildcard id 0.
\<close>

theorem completions_match_starts:
  assumes "rb_reach b"
  shows "length (completes (rb_log b)) \<le> length (starts (rb_log b)) \<and>
    (\<forall>n < length (completes (rb_log b)). 0 \<notin> set (starts (rb_log b) ! n) \<longrightarrow>
       set (completes (rb_log b) ! n) \<subseteq> set (starts (rb_log b) ! n))"
proof -
  obtain dn lost where *: "list_all2 belongs (completes (rb_log b) @ reporting (rb_pc b)) dn"
    "starts (rb_log b) = dn @ lost"
    using reach_inv [OF assms] unfolding rb_due_def by blast
  then have "length (completes (rb_log b)) \<le> length dn"
    by (auto dest!: list_all2_lengthD)
  moreover have "belongs (completes (rb_log b) ! n) (dn ! n)" if "n < length (completes (rb_log b))" for n
    using list_all2_nthD [OF *(1), of n] that by (simp add: nth_append)
  ultimately show ?thesis using *(2) by (fastforce simp: nth_append belongs_def)
qed

theorem completions_match_starts_witness:
  "\<exists>b. rb_run (Start [3, 4] # drive [(3, True), (4, False)]) rb_new = Some b \<and>
     completes (rb_log b) = [[3]] \<and> set (completes (rb_log b) ! 0) \<subseteq> set (starts (rb_log b) ! 0)"
proof -
  obtain b where b: "rb_run (Start [3, 4] # drive [(3, True), (4, False)]) rb_new = Some b"
    "completes (rb_log b) = [[3]]" "starts (rb_log b) = [[3, 4]]"
    using drive_run [of "snd (rb_start [3, 4] rb_new)" "[(3, True), (4, False)]"]
    by (auto simp: rb_start_def rb_new_def)
  then show ?thesis
    using completions_match_starts [OF run_steps [OF b(1) rb_steps.refl]] by auto
qed

text \<open>
  once \<open>cancel\<close> has returned no fingerprint is removed any more, whatever is called
  afterwards, and at most the one completion that the worker had already taken is reported.
\<close>

theorem cancel_stops_removals:
  assumes "\<not> rb_dispatching b" and "rb_steps (rb_cancel b) c"
  shows "removes (rb_log c) = removes (rb_log b) \<and>
    length (completes (rb_log c)) \<le> length (completes (rb_log b)) + 1"
proof -
  have h: "halted b c" using halted_steps [OF assms] .
  then have "length (completes (rb_log c)) \<le> length (completes (rb_log b) @ reporting (rb_pc b))"
    by (metis halted_def le_add1 length_append)
  then show ?thesis using h length_reporting [of "rb_pc b"] by (auto simp: halted_def)
qed

theorem cancel_stops_removals_witness:
  "\<exists>c. rb_run [Worker True, Start [5], Worker True] (rb_cancel (snd (rb_start [3] rb_new))) = None \<and>
     rb_run [Start [5], Failure] (rb_cancel (snd (rb_start [3] rb_new))) = Some c \<and> removes (rb_log c) = []"
proof -
  let ?b = "snd (rb_start [3] rb_new)"
  obtain c where c: "rb_run [Start [5], Failure] (rb_cancel ?b) = Some c"
    by (simp add: rb_start_def rb_new_def rb_cancel_def)
  have "removes (rb_log c) = removes (rb_log ?b)"
    using cancel_stops_removals [OF _ run_steps [OF c rb_steps.refl]]
    by (simp add: rb_dispatching_def rb_start_def rb_new_def)
  then show ?thesis
    using c by (simp add: rb_start_def rb_new_def rb_cancel_def run_worker_def run_turn_def)
qed

text \<open>
  C9: a batch of nonzero ids always runs to its end: the HAL is asked to remove each of them once
  and in order, and the completion reports exactly those it accepted, in order.
\<close>

theorem batch_runs_to_completion:
  assumes "\<not> rb_active b" "\<not> rb_retired b" "\<not> rb_stopping b" "rb_pc b = AtWait" "0 \<notin> fst ` set xs"
  shows "\<exists>b'. rb_run (Start (map fst xs) # drive xs) b = Some b' \<and> \<not> rb_active b' \<and>
    rb_log b' = rb_log b @ [RbStart (map fst xs)] @ map RbRemove (map fst xs) @
      [RbComplete (map fst (filter snd xs))]"
  using drive_run [of "snd (rb_start (map fst xs) b)" xs] assms by (auto simp: rb_start_def)

theorem batch_runs_to_completion_witness:
  "\<exists>b'. rb_run (Start [3, 4, 9] # drive [(3, True), (4, False), (9, True)]) rb_new = Some b' \<and>
     rb_log b' = [RbStart [3, 4, 9], RbRemove 3, RbRemove 4, RbRemove 9, RbComplete [3, 9]]"
  using batch_runs_to_completion [of rb_new "[(3, True), (4, False), (9, True)]"]
  by (auto simp: rb_new_def)

end
