(* ===== verification/Legacy_Fingerprint.thy ===== *)
theory Legacy_Fingerprint
  imports Fp_Events
begin

text \<open>
  The in-process fingerprint HAL, \<^verbatim>\<open>src/bridges/fingerprint/LegacyFingerprint.cpp\<close> and
  \<^verbatim>\<open>FingerprintHidlConn.cpp\<close>: it loads the vendor's C module, turns its error codes and messages
  into the HIDL ones, and forwards its messages to the registered client.

  The vendor module is code outside the repository. Its constants are the record \<open>fp_header\<close>, what
  loading it gives is \<open>hw_env\<close>, and the return values of the device's functions are \<open>fp_device\<close>.
  \<open>legacy\<close> is the process-wide state: whether \<open>sInstance\<close> is set, the instance's \<open>mDevice\<close> and
  \<open>mClientCallback\<close>, and the devices opened and closed so far.
\<close>

record fp_header =
  FINGERPRINT_MODULE_API_VERSION_2_1 :: u32
  FINGERPRINT_ERROR_HW_UNAVAILABLE :: int
  FINGERPRINT_ERROR_UNABLE_TO_PROCESS :: int
  FINGERPRINT_ERROR_TIMEOUT :: int
  FINGERPRINT_ERROR_NO_SPACE :: int
  FINGERPRINT_ERROR_CANCELED :: int
  FINGERPRINT_ERROR_UNABLE_TO_REMOVE :: int
  FINGERPRINT_ERROR_LOCKOUT :: int
  FINGERPRINT_ERROR_VENDOR_BASE :: int
  FINGERPRINT_ACQUIRED_GOOD :: int
  FINGERPRINT_ACQUIRED_PARTIAL :: int
  FINGERPRINT_ACQUIRED_INSUFFICIENT :: int
  FINGERPRINT_ACQUIRED_IMAGER_DIRTY :: int
  FINGERPRINT_ACQUIRED_TOO_SLOW :: int
  FINGERPRINT_ACQUIRED_TOO_FAST :: int
  FINGERPRINT_ACQUIRED_VENDOR_BASE :: int
  FINGERPRINT_ERROR :: int
  FINGERPRINT_ACQUIRED :: int
  FINGERPRINT_TEMPLATE_ENROLLING :: int
  FINGERPRINT_TEMPLATE_REMOVED :: int
  FINGERPRINT_AUTHENTICATED :: int
  FINGERPRINT_TEMPLATE_ENUMERATING :: int

text \<open>What the module's entry points answer; \<open>None\<close> is a null pointer.\<close>

record fp_device =
  version :: u32
  set_notify :: "int option"
  pre_enroll :: u64
  dev_enroll :: "bytes \<Rightarrow> u32 \<Rightarrow> u32 \<Rightarrow> int"
  post_enroll :: int
  get_authenticator_id :: u64
  dev_cancel :: int
  dev_enumerate :: int
  dev_remove :: "u32 \<Rightarrow> u32 \<Rightarrow> int"
  set_active_group :: "u32 \<Rightarrow> string \<Rightarrow> int"
  dev_authenticate :: "u64 \<Rightarrow> u32 \<Rightarrow> int"

record hw_module =
  module_api_version :: u32
  module_open :: "(int \<times> fp_device option) option"

record hw_env =
  hw_get_module :: "int \<times> hw_module option"
  access_W_OK :: "string \<Rightarrow> int"
  PATH_MAX :: nat

record legacy =
  l_instance :: bool
  l_device :: "fp_device option"
  l_client :: "nat option"
  l_opened :: nat
  l_closed :: nat

subsection \<open>Error codes and messages\<close>

definition ErrorFilter :: "int \<Rightarrow> request_status" where
  "ErrorFilter error =
     (if error = 0 then SYS_OK
      else if error = -2 then SYS_ENOENT
      else if error = -4 then SYS_EINTR
      else if error = -5 then SYS_EIO
      else if error = -11 then SYS_EAGAIN
      else if error = -12 then SYS_ENOMEM
      else if error = -13 then SYS_EACCES
      else if error = -14 then SYS_EFAULT
      else if error = -16 then SYS_EBUSY
      else if error = -22 then SYS_EINVAL
      else if error = -28 then SYS_ENOSPC
      else if error = -110 then SYS_ETIMEDOUT
      else SYS_UNKNOWN)"

text \<open>The result and what is stored through \<open>vendorCode\<close>.\<close>

definition VendorErrorFilter :: "fp_header \<Rightarrow> int \<Rightarrow> hidl_error \<times> int" where
  "VendorErrorFilter h error =
     (if error = FINGERPRINT_ERROR_HW_UNAVAILABLE h then (ERROR_HW_UNAVAILABLE, 0)
      else if error = FINGERPRINT_ERROR_UNABLE_TO_PROCESS h then (ERROR_UNABLE_TO_PROCESS, 0)
      else if error = FINGERPRINT_ERROR_TIMEOUT h then (ERROR_TIMEOUT, 0)
      else if error = FINGERPRINT_ERROR_NO_SPACE h then (ERROR_NO_SPACE, 0)
      else if error = FINGERPRINT_ERROR_CANCELED h then (ERROR_CANCELED, 0)
      else if error = FINGERPRINT_ERROR_UNABLE_TO_REMOVE h then (ERROR_UNABLE_TO_REMOVE, 0)
      else if error = FINGERPRINT_ERROR_LOCKOUT h then (ERROR_LOCKOUT, 0)
      else if error \<ge> FINGERPRINT_ERROR_VENDOR_BASE h then
        (ERROR_VENDOR, error - FINGERPRINT_ERROR_VENDOR_BASE h)
      else (ERROR_UNABLE_TO_PROCESS, 0))"

definition VendorAcquiredFilter :: "fp_header \<Rightarrow> int \<Rightarrow> hidl_acquired \<times> int" where
  "VendorAcquiredFilter h info =
     (if info = FINGERPRINT_ACQUIRED_GOOD h then (ACQUIRED_GOOD, 0)
      else if info = FINGERPRINT_ACQUIRED_PARTIAL h then (ACQUIRED_PARTIAL, 0)
      else if info = FINGERPRINT_ACQUIRED_INSUFFICIENT h then (ACQUIRED_INSUFFICIENT, 0)
      else if info = FINGERPRINT_ACQUIRED_IMAGER_DIRTY h then (ACQUIRED_IMAGER_DIRTY, 0)
      else if info = FINGERPRINT_ACQUIRED_TOO_SLOW h then (ACQUIRED_TOO_SLOW, 0)
      else if info = FINGERPRINT_ACQUIRED_TOO_FAST h then (ACQUIRED_TOO_FAST, 0)
      else if info \<ge> FINGERPRINT_ACQUIRED_VENDOR_BASE h then
        (ACQUIRED_VENDOR, info - FINGERPRINT_ACQUIRED_VENDOR_BASE h)
      else (ACQUIRED_INSUFFICIENT, 0))"

text \<open>A \<open>fingerprint_msg_t\<close>: its type and the members of its union, of which one is meaningful.\<close>

record fp_msg =
  msg_type :: int
  msg_error :: int
  msg_acquired_info :: int
  msg_fid :: u32
  msg_gid :: u32
  msg_remaining :: u32
  msg_hat :: bytes

definition notify :: "fp_header \<Rightarrow> fp_msg option \<Rightarrow> legacy \<Rightarrow> (nat \<times> client_call) option" where
  "notify h msg g =
     (if \<not> l_instance g then None
      else case msg of None \<Rightarrow> None | Some m \<Rightarrow>
        (case l_client g of None \<Rightarrow> None | Some callback \<Rightarrow>
           if msg_type m = FINGERPRINT_ERROR h then
             (case VendorErrorFilter h (msg_error m) of
                (result, vendorCode) \<Rightarrow> Some (callback, C_onError result vendorCode))
           else if msg_type m = FINGERPRINT_ACQUIRED h then
             (case VendorAcquiredFilter h (msg_acquired_info m) of
                (result, vendorCode) \<Rightarrow> Some (callback, C_onAcquired result vendorCode))
           else if msg_type m = FINGERPRINT_TEMPLATE_ENROLLING h then
             Some (callback, C_onEnrollResult (msg_fid m) (msg_gid m) (msg_remaining m))
           else if msg_type m = FINGERPRINT_TEMPLATE_REMOVED h then
             Some (callback, C_onRemoved (msg_fid m) (msg_gid m) (msg_remaining m))
           else if msg_type m = FINGERPRINT_AUTHENTICATED h then
             (if msg_fid m \<noteq> 0
              then Some (callback, C_onAuthenticated (msg_fid m) (msg_gid m) (msg_hat m))
              else Some (callback, C_onAuthenticated (msg_fid m) (msg_gid m) []))
           else if msg_type m = FINGERPRINT_TEMPLATE_ENUMERATING h then
             Some (callback, C_onEnumerate (msg_fid m) (msg_gid m) (msg_remaining m))
           else None))"

subsection \<open>Opening and closing\<close>

text \<open>
  \<open>set_notify\<close> of the device is its own return code; the pointer itself may be null. The device is
  stored before its version is checked.
\<close>

definition openHal :: "fp_header \<Rightarrow> hw_env \<Rightarrow> legacy \<Rightarrow> bool \<times> legacy" where
  "openHal h env g =
     (case hw_get_module env of (error, module) \<Rightarrow>
      if error \<noteq> 0 then (False, g)
      else case module of None \<Rightarrow> (False, g) | Some m \<Rightarrow>
        if module_api_version m \<noteq> FINGERPRINT_MODULE_API_VERSION_2_1 h then (False, g)
        else case module_open m of None \<Rightarrow> (False, g) | Some (error, device) \<Rightarrow>
          if error \<noteq> 0 then (False, g)
          else case device of None \<Rightarrow> (False, g) | Some d \<Rightarrow>
            (let g1 = g\<lparr>l_device := Some d, l_opened := l_opened g + 1\<rparr>
             in if version d \<noteq> FINGERPRINT_MODULE_API_VERSION_2_1 h then (False, g1)
                else case set_notify d of None \<Rightarrow> (False, g1) | Some error \<Rightarrow>
                  (error = 0, g1)))"

definition legacy_destroy :: "legacy \<Rightarrow> legacy" where
  "legacy_destroy g =
     (let g1 = (case l_device g of
                  None \<Rightarrow> g
                | Some d \<Rightarrow> g\<lparr>l_device := None, l_closed := l_closed g + 1\<rparr>)
      in g1\<lparr>l_instance := False, l_client := None\<rparr>)"

text \<open>
  \<open>LegacyFingerprint::open\<close>: on a failure the only reference goes out of scope and the instance is
  destroyed.
\<close>

definition legacy_open :: "fp_header \<Rightarrow> hw_env \<Rightarrow> legacy \<Rightarrow> bool \<times> legacy" where
  "legacy_open h env g =
     (if l_instance g then (False, g)
      else
        let g1 = g\<lparr>l_instance := True, l_device := None, l_client := None\<rparr>
        in case openHal h env g1 of
             (True, g2) \<Rightarrow> (True, g2)
           | (False, g2) \<Rightarrow> (False, legacy_destroy g2))"

record hidl_conn =
  mHidl :: bool
  mOpenAttempted :: bool

definition connect :: "fp_header \<Rightarrow> hw_env \<Rightarrow> hidl_conn \<Rightarrow> legacy \<Rightarrow> bool \<times> hidl_conn \<times> legacy" where
  "connect h env c g =
     (if mOpenAttempted c then (mHidl c, c, g)
      else case legacy_open h env g of
        (ok, g') \<Rightarrow> (ok, c\<lparr>mOpenAttempted := True, mHidl := ok\<rparr>, g'))"

subsection \<open>The HIDL methods\<close>

definition legacy_setNotify :: "nat option \<Rightarrow> legacy \<Rightarrow> legacy" where
  "legacy_setNotify cb g = g\<lparr>l_client := cb\<rparr>"

definition with_device :: "(fp_device \<Rightarrow> int) \<Rightarrow> legacy \<Rightarrow> request_status" where
  "with_device f g = (case l_device g of None \<Rightarrow> SYS_UNKNOWN | Some d \<Rightarrow> ErrorFilter (f d))"

definition legacy_preEnroll :: "legacy \<Rightarrow> u64" where
  "legacy_preEnroll g = (case l_device g of None \<Rightarrow> 0 | Some d \<Rightarrow> pre_enroll d)"

definition legacy_enroll :: "bytes \<Rightarrow> u32 \<Rightarrow> u32 \<Rightarrow> legacy \<Rightarrow> request_status" where
  "legacy_enroll hatBytes gid timeoutSec g = with_device (\<lambda>d. dev_enroll d hatBytes gid timeoutSec) g"

definition legacy_postEnroll :: "legacy \<Rightarrow> request_status" where
  "legacy_postEnroll g = with_device post_enroll g"

definition legacy_getAuthenticatorId :: "legacy \<Rightarrow> u64" where
  "legacy_getAuthenticatorId g = (case l_device g of None \<Rightarrow> 0 | Some d \<Rightarrow> get_authenticator_id d)"

definition legacy_cancel :: "legacy \<Rightarrow> request_status" where
  "legacy_cancel g = with_device dev_cancel g"

definition legacy_enumerate :: "legacy \<Rightarrow> request_status" where
  "legacy_enumerate g = with_device dev_enumerate g"

definition legacy_remove :: "u32 \<Rightarrow> u32 \<Rightarrow> legacy \<Rightarrow> request_status" where
  "legacy_remove gid fid g = with_device (\<lambda>d. dev_remove d gid fid) g"

definition legacy_setActiveGroup :: "hw_env \<Rightarrow> u32 \<Rightarrow> string \<Rightarrow> legacy \<Rightarrow> request_status" where
  "legacy_setActiveGroup env gid storePath g =
     (if length storePath \<ge> PATH_MAX env \<or> length storePath = 0 then SYS_EINVAL
      else if access_W_OK env storePath \<noteq> 0 then SYS_EINVAL
      else with_device (\<lambda>d. set_active_group d gid storePath) g)"

definition legacy_authenticate :: "u64 \<Rightarrow> u32 \<Rightarrow> legacy \<Rightarrow> request_status" where
  "legacy_authenticate operationId gid g = with_device (\<lambda>d. dev_authenticate d operationId gid) g"

subsection \<open>Lemmas\<close>

text \<open>The header's constants are distinct, and vendor codes start above the named ones.\<close>

definition header_ok :: "fp_header \<Rightarrow> bool" where
  "header_ok h \<longleftrightarrow>
     distinct [FINGERPRINT_ERROR_HW_UNAVAILABLE h, FINGERPRINT_ERROR_UNABLE_TO_PROCESS h,
       FINGERPRINT_ERROR_TIMEOUT h, FINGERPRINT_ERROR_NO_SPACE h, FINGERPRINT_ERROR_CANCELED h,
       FINGERPRINT_ERROR_UNABLE_TO_REMOVE h, FINGERPRINT_ERROR_LOCKOUT h] \<and>
     (\<forall>c \<in> {FINGERPRINT_ERROR_HW_UNAVAILABLE h, FINGERPRINT_ERROR_UNABLE_TO_PROCESS h,
       FINGERPRINT_ERROR_TIMEOUT h, FINGERPRINT_ERROR_NO_SPACE h, FINGERPRINT_ERROR_CANCELED h,
       FINGERPRINT_ERROR_UNABLE_TO_REMOVE h, FINGERPRINT_ERROR_LOCKOUT h}.
       c < FINGERPRINT_ERROR_VENDOR_BASE h) \<and>
     distinct [FINGERPRINT_ERROR h, FINGERPRINT_ACQUIRED h, FINGERPRINT_TEMPLATE_ENROLLING h,
       FINGERPRINT_TEMPLATE_REMOVED h, FINGERPRINT_AUTHENTICATED h, FINGERPRINT_TEMPLATE_ENUMERATING h]"

lemma ErrorFilter_OK: "ErrorFilter e = SYS_OK \<longleftrightarrow> e = 0"
  by (simp add: ErrorFilter_def)

lemma with_device_OK: "with_device f g = SYS_OK \<longleftrightarrow> (\<exists>d. l_device g = Some d \<and> f d = 0)"
  by (auto simp: with_device_def ErrorFilter_OK split: option.split)

lemma openHal_cases:
  assumes "openHal h env g = (ok, g')" and "l_device g = None"
  shows "l_instance g' = l_instance g \<and> l_client g' = l_client g \<and> l_closed g' = l_closed g \<and>
    (g' = g \<and> \<not> ok \<or>
     (\<exists>d. l_device g' = Some d \<and> l_opened g' = l_opened g + 1 \<and>
        (ok \<longrightarrow> version d = FINGERPRINT_MODULE_API_VERSION_2_1 h \<and> set_notify d = Some 0)))"
  using assms by (auto simp: openHal_def Let_def split: prod.splits option.splits if_splits)

subsection \<open>Properties\<close>

text \<open>
  C10: the vendor module is opened at most once at a time and never leaks: when opening succeeds the
  instance is registered with an open device of the right version whose callback is set; when it fails
  for whatever reason, either an instance was open already and stays untouched, or no instance is left
  and every device that was opened has been closed.
\<close>

theorem open_exclusive_no_leak:
  assumes "legacy_open h env g = (ok, g')" and "l_opened g = l_closed g + (if l_instance g then 1 else 0)"
  shows "l_opened g' = l_closed g' + (if l_instance g' then 1 else 0) \<and>
    (if ok then \<not> l_instance g \<and> l_instance g' \<and>
       (\<exists>d. l_device g' = Some d \<and> version d = FINGERPRINT_MODULE_API_VERSION_2_1 h \<and> set_notify d = Some 0)
     else if l_instance g then g' = g else \<not> l_instance g')"
proof (cases "l_instance g")
  case False
  let ?g1 = "g\<lparr>l_instance := True, l_device := None, l_client := None\<rparr>"
  obtain b g2 where o: "openHal h env ?g1 = (b, g2)" by (cases "openHal h env ?g1")
  from openHal_cases [OF this] show ?thesis
    using assms o False
    by (auto simp: legacy_open_def legacy_destroy_def Let_def split: bool.splits)
qed (use assms in \<open>auto simp: legacy_open_def\<close>)

definition sample_header :: fp_header where
  "sample_header =
     \<lparr>FINGERPRINT_MODULE_API_VERSION_2_1 = 0x201, FINGERPRINT_ERROR_HW_UNAVAILABLE = 1,
      FINGERPRINT_ERROR_UNABLE_TO_PROCESS = 2, FINGERPRINT_ERROR_TIMEOUT = 3,
      FINGERPRINT_ERROR_NO_SPACE = 4, FINGERPRINT_ERROR_CANCELED = 5,
      FINGERPRINT_ERROR_UNABLE_TO_REMOVE = 6, FINGERPRINT_ERROR_LOCKOUT = 7,
      FINGERPRINT_ERROR_VENDOR_BASE = 1000, FINGERPRINT_ACQUIRED_GOOD = 0,
      FINGERPRINT_ACQUIRED_PARTIAL = 1, FINGERPRINT_ACQUIRED_INSUFFICIENT = 2,
      FINGERPRINT_ACQUIRED_IMAGER_DIRTY = 3, FINGERPRINT_ACQUIRED_TOO_SLOW = 4,
      FINGERPRINT_ACQUIRED_TOO_FAST = 5, FINGERPRINT_ACQUIRED_VENDOR_BASE = 1000,
      FINGERPRINT_ERROR = -1, FINGERPRINT_ACQUIRED = 1, FINGERPRINT_TEMPLATE_ENROLLING = 3,
      FINGERPRINT_TEMPLATE_REMOVED = 4, FINGERPRINT_AUTHENTICATED = 5,
      FINGERPRINT_TEMPLATE_ENUMERATING = 6\<rparr>"

lemma sample_header_ok: "header_ok sample_header"
  by (simp add: header_ok_def sample_header_def)

definition sample_device :: fp_device where
  "sample_device =
     \<lparr>version = 0x100, set_notify = Some 0, pre_enroll = 9, dev_enroll = (\<lambda>_ _ _. 0), post_enroll = 0,
      get_authenticator_id = 4, dev_cancel = 0, dev_enumerate = 0, dev_remove = (\<lambda>_ _. -2),
      set_active_group = (\<lambda>_ _. 0), dev_authenticate = (\<lambda>_ _. 0)\<rparr>"

definition sample_env :: hw_env where
  "sample_env =
     \<lparr>hw_get_module = (0, Some \<lparr>module_api_version = 0x201, module_open = Some (0, Some sample_device)\<rparr>),
      access_W_OK = (\<lambda>_. 0), PATH_MAX = 4096\<rparr>"

definition closed_legacy :: legacy where
  "closed_legacy = \<lparr>l_instance = False, l_device = None, l_client = None, l_opened = 2, l_closed = 2\<rparr>"

theorem open_exclusive_no_leak_witness:
  "\<exists>g'. legacy_open sample_header sample_env closed_legacy = (False, g') \<and>
     \<not> l_instance g' \<and> l_opened g' = 3 \<and> l_closed g' = 3"
proof -
  obtain g' where g': "legacy_open sample_header sample_env closed_legacy = (False, g')" "l_opened g' = 3"
    by (simp add: legacy_open_def openHal_def legacy_destroy_def sample_env_def sample_device_def
        sample_header_def closed_legacy_def)
  then show ?thesis
    using open_exclusive_no_leak [OF g'(1)] by (simp add: closed_legacy_def)
qed

text \<open>
  The vendor's errors keep their meaning: a code at or above the vendor base is reported as a
  vendor error with its offset, and a lockout is reported exactly when the vendor reported a lockout.
\<close>

theorem vendor_errors_kept:
  assumes "header_ok h"
  shows "(0 \<le> v \<longrightarrow> VendorErrorFilter h (FINGERPRINT_ERROR_VENDOR_BASE h + v) = (ERROR_VENDOR, v)) \<and>
    (fst (VendorErrorFilter h e) = ERROR_VENDOR \<longleftrightarrow> FINGERPRINT_ERROR_VENDOR_BASE h \<le> e) \<and>
    (fst (VendorErrorFilter h e) = ERROR_LOCKOUT \<longleftrightarrow> e = FINGERPRINT_ERROR_LOCKOUT h)"
  using assms by (auto simp: header_ok_def VendorErrorFilter_def)

theorem vendor_errors_kept_witness:
  "VendorErrorFilter sample_header 1042 = (ERROR_VENDOR, 42) \<and>
   fst (VendorErrorFilter sample_header 7) = ERROR_LOCKOUT"
  using vendor_errors_kept [OF sample_header_ok, of 42 7] by (simp add: sample_header_def)

end
