(* ===== verification/Session_Bridge.thy ===== *)
theory Session_Bridge
  imports Lockout_Tracker Removal_Batch Legacy_Fingerprint
begin

text \<open>
  One AIDL session, \<^verbatim>\<open>src/bridges/fingerprint/SessionBridge.h\<close> and \<^verbatim>\<open>SessionBridge.cpp\<close>: the
  record \<open>session\<close> holds the fields of \<open>SessionBridge\<close> (\<open>s_\<close>) and of its \<open>HidlCallback\<close> (\<open>c_\<close>), with the
  user's lockout tracker and the removal queue inside. The service has one binder thread, so the
  session's methods are serialised; the callbacks of the HAL and the two workers are steps of their
  own, and \<open>s_step\<close> interleaves all of them.

  The HAL answers the \<open>n\<close>-th call with \<open>s_replies n\<close>, any stream of replies. What is said to the
  client and what is asked of the HAL goes into the tracker's log in the order of events.
\<close>

text \<open>
  A failed transport, the status of a request, or the value of a query. A reply of the other kind
  than the call has does not occur; the functions below treat it as a rejection.
\<close>

datatype hidl_reply = Transport_Error | Status request_status | Value u64

fun accepted :: "hidl_reply \<Rightarrow> bool" where
  "accepted (Status st) = (st = SYS_OK)"
| "accepted _ = False"

fun reply_value :: "hidl_reply \<Rightarrow> u64 option" where
  "reply_value (Value v) = Some v"
| "reply_value _ = None"

record session =
  s_hidl :: bool
  s_userId :: u32
  s_cb :: nat
  s_lockout :: tracker
  s_dead :: bool
  s_hwUnavailableNotified :: bool
  c_authenticating :: bool
  c_lockedOut :: bool
  c_active :: bool
  c_enumerated :: "int list"
  c_removal :: batch
  c_cancels :: nat
  s_replies :: "nat \<Rightarrow> hidl_reply"
  s_calls :: nat

definition say :: "cb_event \<Rightarrow> session \<Rightarrow> session" where
  "say e s = s\<lparr>s_lockout := emit (s_cb s) e (s_lockout s)\<rparr>"

definition ask :: "hidl_call \<Rightarrow> session \<Rightarrow> session" where
  "ask c s = s\<lparr>s_lockout := (s_lockout s)\<lparr>t_log := t_log (s_lockout s) @ [Hidl c]\<rparr>\<rparr>"

definition answer :: "session \<Rightarrow> hidl_reply \<times> session" where
  "answer s = (s_replies s (s_calls s), s\<lparr>s_calls := Suc (s_calls s)\<rparr>)"

definition call :: "hidl_call \<Rightarrow> session \<Rightarrow> hidl_reply \<times> session" where
  "call c s = answer (ask c s)"

subsection \<open>Constants and conversions\<close>

definition kEnrollTimeoutSec :: nat where
  "kEnrollTimeoutSec = 60"

definition kLockoutTimedMs :: int where
  "kLockoutTimedMs = 30000"

definition kMaxResetLockoutHatAgeMs :: int where
  "kMaxResetLockoutHatAgeMs = 60000"

definition mapAcquired :: "hidl_casts \<Rightarrow> hidl_acquired \<Rightarrow> acquired_info" where
  "mapAcquired k a =
     (let v = acquired_value k a in if v < 0 \<or> v > 6 then Acquired_UNKNOWN else Acquired (v + 1))"

fun mapError :: "hidl_error \<Rightarrow> fp_error" where
  "mapError ERROR_HW_UNAVAILABLE = HW_UNAVAILABLE"
| "mapError ERROR_UNABLE_TO_PROCESS = UNABLE_TO_PROCESS"
| "mapError ERROR_TIMEOUT = TIMEOUT"
| "mapError ERROR_NO_SPACE = NO_SPACE"
| "mapError ERROR_CANCELED = CANCELED"
| "mapError ERROR_UNABLE_TO_REMOVE = UNABLE_TO_REMOVE"
| "mapError ERROR_VENDOR = VENDOR"
| "mapError _ = UNKNOWN_ERROR"

subsection \<open>HidlCallback\<close>

definition onEnrollResult :: "u32 \<Rightarrow> u32 \<Rightarrow> session \<Rightarrow> session" where
  "onEnrollResult fingerId remaining s =
     (if \<not> c_active s then s else say (OnEnrollmentProgress (sint fingerId) (sint remaining)) s)"

definition onAcquired :: "hidl_casts \<Rightarrow> hidl_acquired \<Rightarrow> int \<Rightarrow> session \<Rightarrow> session" where
  "onAcquired k info vendorCode s =
     (if \<not> c_active s then s
      else if c_lockedOut s then s
      else say (OnAcquired (mapAcquired k info) vendorCode) s)"

definition onAuthenticated :: "u32 \<Rightarrow> bytes \<Rightarrow> session \<Rightarrow> session" where
  "onAuthenticated fingerId token s =
     (if \<not> c_active s then s
      else if \<not> c_authenticating s \<or> c_lockedOut s then s
      else if fingerId = 0 then
        (let (locked, t1) = addFailedAttempt (s_lockout s);
             s1 = say OnAuthenticationFailed (s\<lparr>s_lockout := t1, c_lockedOut := locked\<rparr>)
         in if locked then
              (let s2 = s1\<lparr>c_authenticating := False,
                           c_cancels := c_cancels s1 + (if s_hidl s1 then 1 else 0)\<rparr>
               in s2\<lparr>s_lockout := snd (notifyLockout (s_cb s2) (s_lockout s2))\<rparr>)
            else s1)
      else
        let s1 = s\<lparr>c_authenticating := False\<rparr>
        in case bytesToHat token of
             None \<Rightarrow> say (OnError UNABLE_TO_PROCESS 0) s1
           | Some h \<Rightarrow> say (OnAuthenticationSucceeded (sint fingerId) h)
                         (s1\<lparr>s_lockout := reset None (s_lockout s1)\<rparr>))"

text \<open>The detached thread that cancels the HAL's operation after a lockout, whenever it runs.\<close>

definition run_cancel :: "session \<Rightarrow> session" where
  "run_cancel s =
     (if c_cancels s = 0 then s else snd (call H_cancel (s\<lparr>c_cancels := c_cancels s - 1\<rparr>)))"

definition onError :: "hidl_casts \<Rightarrow> hidl_error \<Rightarrow> int \<Rightarrow> session \<Rightarrow> session" where
  "onError k error vendorCode s =
     (if \<not> c_active s then s
      else case rb_fail (c_removal s) of
        (True, b) \<Rightarrow> s\<lparr>c_removal := b\<rparr>
      | (False, b) \<Rightarrow>
          (let s1 = s\<lparr>c_removal := b, c_authenticating := False\<rparr>;
               raw = error_value k error
           in if raw = 7 then say (OnLockoutTimed kLockoutTimedMs) s1
              else if raw = 9 then say OnLockoutPermanent s1
              else if \<not> c_lockedOut s1 then say (OnError (mapError error) vendorCode) s1
              else s1))"

definition beginAuthentication :: "session \<Rightarrow> bool \<times> session" where
  "beginAuthentication s =
     (case notifyLockout (s_cb s) (s_lockout s) of
        (locked, t) \<Rightarrow> (\<not> locked, s\<lparr>s_lockout := t, c_lockedOut := locked, c_authenticating := \<not> locked\<rparr>))"

definition beginEnrollment :: "session \<Rightarrow> session" where
  "beginEnrollment s = s\<lparr>c_authenticating := False, c_lockedOut := False\<rparr>"

definition onRemoved :: "u32 \<Rightarrow> u32 \<Rightarrow> session \<Rightarrow> session" where
  "onRemoved fingerId remaining s =
     (if \<not> c_active s then s
      else s\<lparr>c_removal := rb_result (sint fingerId) (unat remaining) (c_removal s)\<rparr>)"

definition cb_removeEnrollments :: "int list \<Rightarrow> session \<Rightarrow> bool \<times> session" where
  "cb_removeEnrollments ids s =
     (case rb_start ids (c_removal s) of (ok, b) \<Rightarrow> (ok, s\<lparr>c_removal := b\<rparr>))"

text \<open>
  One step of the queue's worker: its \<open>remove\<close> asks the HAL and reads the answer when the call
  returns; its \<open>complete\<close> tells the client.
\<close>

fun removal_event :: "rb_event \<Rightarrow> session \<Rightarrow> session" where
  "removal_event (RbRemove fid) s = ask (H_remove (s_userId s) (word_of_int fid)) s"
| "removal_event (RbComplete removed) s = (if c_active s then say (OnEnrollmentsRemoved removed) s else s)"
| "removal_event (RbStart _) s = s"

definition removal_worker :: "session \<Rightarrow> session" where
  "removal_worker s =
     (let (ret, s1) = (if rb_dispatching (c_removal s) then answer s else (Transport_Error, s))
      in case run_worker (accepted ret) (c_removal s1) of
           None \<Rightarrow> s
         | Some b \<Rightarrow>
             fold removal_event (drop (length (rb_log (c_removal s1))) (rb_log b)) (s1\<lparr>c_removal := b\<rparr>))"

definition onEnumerate :: "u32 \<Rightarrow> u32 \<Rightarrow> session \<Rightarrow> session" where
  "onEnumerate fingerId remaining s =
     (if \<not> c_active s then s
      else
        let s1 = (if fingerId \<noteq> 0 then s\<lparr>c_enumerated := c_enumerated s @ [sint fingerId]\<rparr> else s)
        in if remaining = 0 then (say (OnEnrollmentsEnumerated (c_enumerated s1)) s1)\<lparr>c_enumerated := []\<rparr>
           else s1)"

text \<open>
  \<open>cancel\<close> waits for \<open>dispatch_\<close>: while the worker is inside \<open>remove\<close>, its return comes first.
\<close>

definition deactivate :: "session \<Rightarrow> session" where
  "deactivate s =
     (let s1 = s\<lparr>c_active := False, s_lockout := detach (s_cb s) (s_lockout s)\<rparr>;
          s2 = (if rb_dispatching (c_removal s1) then removal_worker s1 else s1)
      in s2\<lparr>c_removal := rb_cancel (c_removal s2)\<rparr>)"

subsection \<open>SessionBridge\<close>

text \<open>A cancellation signal holds the HAL or nothing.\<close>

definition signal_cancel :: "bool \<Rightarrow> session \<Rightarrow> session" where
  "signal_cancel hidl s = (if hidl then snd (call H_cancel s) else s)"

definition storePath :: "u32 \<Rightarrow> string" where
  "storePath userId = ''/data/vendor_de/'' @ dec_int (sint userId) @ ''/fpdata''"

text \<open>The members as the constructor's initialisers and first two statements leave them.\<close>

definition initial_session ::
  "bool \<Rightarrow> u32 \<Rightarrow> nat \<Rightarrow> tracker \<Rightarrow> (nat \<Rightarrow> hidl_reply) \<Rightarrow> session" where
  "initial_session hidl userId cb lockout replies =
     \<lparr>s_hidl = hidl, s_userId = userId, s_cb = cb, s_lockout = attach cb lockout,
      s_dead = False, s_hwUnavailableNotified = False, c_authenticating = False,
      c_lockedOut = False, c_active = True, c_enumerated = [], c_removal = rb_new,
      c_cancels = 0, s_replies = replies, s_calls = 0\<rparr>"

definition new_session ::
  "bool \<Rightarrow> u32 \<Rightarrow> nat \<Rightarrow> tracker \<Rightarrow> (nat \<Rightarrow> hidl_reply) \<Rightarrow> session" where
  "new_session hidl userId cb lockout replies =
     (let s = initial_session hidl userId cb lockout replies
      in if \<not> hidl then s\<lparr>s_dead := True\<rparr>
         else
           let (r1, s1) = call H_setNotify s;
               (group, s2) = call (H_setActiveGroup userId (storePath userId)) s1
           in if \<not> accepted group then deactivate (s2\<lparr>s_dead := True\<rparr>) else s2)"

definition onHidlDied :: "session \<Rightarrow> session" where
  "onHidlDied s =
     (let s1 = deactivate (s\<lparr>s_dead := True\<rparr>)
      in if \<not> s_hwUnavailableNotified s1
         then say (OnError HW_UNAVAILABLE 0) (s1\<lparr>s_hwUnavailableNotified := True\<rparr>)
         else s1)"

definition value_or_0 :: "hidl_call \<Rightarrow> session \<Rightarrow> u64 \<times> session" where
  "value_or_0 c s =
     (if s_dead s then (0, s)
      else case call c s of
        (r, s1) \<Rightarrow> ((case reply_value r of Some v \<Rightarrow> v | None \<Rightarrow> 0), s1))"

definition generateChallenge :: "session \<Rightarrow> session" where
  "generateChallenge s =
     (case value_or_0 H_preEnroll s of (ch, s1) \<Rightarrow> say (OnChallengeGenerated (sint ch)) s1)"

definition revokeChallenge :: "int \<Rightarrow> session \<Rightarrow> session" where
  "revokeChallenge ch s =
     say (OnChallengeRevoked ch) (if s_dead s then s else snd (call H_postEnroll s))"

text \<open>How a rejected request is reported, by \<open>enroll\<close> and \<open>authenticate\<close>.\<close>

fun report_reply :: "hidl_reply \<Rightarrow> session \<Rightarrow> session" where
  "report_reply Transport_Error s = say (OnError HW_UNAVAILABLE 0) s"
| "report_reply (Status st) s = (if st \<noteq> SYS_OK then say (OnError UNABLE_TO_PROCESS 0) s else s)"
| "report_reply (Value _) s = say (OnError UNABLE_TO_PROCESS 0) s"

text \<open>The first component says whether the signal handed out holds the HAL.\<close>

definition enroll :: "hat \<Rightarrow> session \<Rightarrow> bool \<times> session" where
  "enroll h s =
     (if s_dead s then (False, say (OnError HW_UNAVAILABLE 0) s)
      else
        let s1 = beginEnrollment s;
            (ret, s2) = call (H_enroll (hatToBytes h) (s_userId s1) kEnrollTimeoutSec) s1
        in (s_hidl s2, report_reply ret s2))"

definition authenticate :: "u64 \<Rightarrow> session \<Rightarrow> bool \<times> session" where
  "authenticate operationId s =
     (case beginAuthentication s of
        (False, s1) \<Rightarrow> (False, s1)
      | (True, s1) \<Rightarrow>
          if s_dead s1 then (False, say (OnError HW_UNAVAILABLE 0) s1)
          else
            let (ret, s2) = call (H_authenticate operationId (s_userId s1)) s1
            in (s_hidl s2, report_reply ret s2))"

definition detectInteraction :: "session \<Rightarrow> bool \<times> session" where
  "detectInteraction s = (False, say (OnError UNABLE_TO_PROCESS 0) s)"

definition enumerateEnrollments :: "session \<Rightarrow> session" where
  "enumerateEnrollments s =
     (if s_dead s then say (OnEnrollmentsEnumerated []) s
      else case call H_enumerate s of
        (ret, s1) \<Rightarrow> if accepted ret then s1 else say (OnEnrollmentsEnumerated []) s1)"

datatype binder_status = OK | EX_ILLEGAL_STATE | EX_ILLEGAL_ARGUMENT

definition removeEnrollments :: "int list \<Rightarrow> session \<Rightarrow> binder_status \<times> session" where
  "removeEnrollments ids s =
     (if s_dead s then (OK, say (OnEnrollmentsRemoved []) s)
      else case cb_removeEnrollments ids s of
        (False, s1) \<Rightarrow> (EX_ILLEGAL_STATE, s1)
      | (True, s1) \<Rightarrow> (OK, s1))"

definition getAuthenticatorId :: "session \<Rightarrow> session" where
  "getAuthenticatorId s =
     (case value_or_0 H_getAuthenticatorId s of (v, s1) \<Rightarrow> say (OnAuthenticatorIdRetrieved (sint v)) s1)"

definition invalidateAuthenticatorId :: "session \<Rightarrow> session" where
  "invalidateAuthenticatorId s =
     (case value_or_0 H_getAuthenticatorId s of (v, s1) \<Rightarrow> say (OnAuthenticatorIdInvalidated (sint v)) s1)"

definition hat_recent :: "int \<Rightarrow> hat \<Rightarrow> bool" where
  "hat_recent nowMs h =
     (let ts = sint (timestampMs h)
      in \<not> (ts < 0 \<or> ts > nowMs \<or> nowMs - ts > kMaxResetLockoutHatAgeMs))"

definition resetLockout :: "int \<Rightarrow> hat \<Rightarrow> session \<Rightarrow> session" where
  "resetLockout nowMs h s =
     (if \<not> hat_recent nowMs h then say (OnError UNABLE_TO_PROCESS 0) s
      else s\<lparr>s_lockout := reset (Some (s_cb s)) (s_lockout s)\<rparr>)"

definition close :: "session \<Rightarrow> session" where
  "close s =
     (let s1 = deactivate s;
          s2 = (if s_dead s1 then s1 else snd (call H_cancel s1))
      in say OnSessionClosed s2)"

definition no_op :: "session \<Rightarrow> session" where
  "no_op s = s"

subsection \<open>All steps of a session\<close>

text \<open>
  The binder methods, the client calls of the HAL, the detached cancel thread, the removal
  worker, and the steps of the user's tracker that others take.
\<close>

datatype s_op =
    GenerateChallenge | RevokeChallenge int | Enroll hat | Authenticate u64 | DetectInteraction
  | EnumerateEnrollments | RemoveEnrollments "int list" | GetAuthenticatorId
  | InvalidateAuthenticatorId | ResetLockout int hat | Close | SignalCancel bool | Pointer
  | HidlDied | Client client_call | RunCancel | RemovalWorker | TrackerWake bool

fun client :: "hidl_casts \<Rightarrow> client_call \<Rightarrow> session \<Rightarrow> session" where
  "client k (C_onEnrollResult fid gid rem) s = onEnrollResult fid rem s"
| "client k (C_onAcquired info code) s = onAcquired k info code s"
| "client k (C_onAuthenticated fid gid token) s = onAuthenticated fid token s"
| "client k (C_onError e code) s = onError k e code s"
| "client k (C_onRemoved fid gid rem) s = onRemoved fid rem s"
| "client k (C_onEnumerate fid gid rem) s = onEnumerate fid rem s"

fun s_step :: "hidl_casts \<Rightarrow> s_op \<Rightarrow> session \<Rightarrow> session" where
  "s_step k GenerateChallenge s = generateChallenge s"
| "s_step k (RevokeChallenge ch) s = revokeChallenge ch s"
| "s_step k (Enroll h) s = snd (enroll h s)"
| "s_step k (Authenticate op) s = snd (authenticate op s)"
| "s_step k DetectInteraction s = snd (detectInteraction s)"
| "s_step k EnumerateEnrollments s = enumerateEnrollments s"
| "s_step k (RemoveEnrollments ids) s = snd (removeEnrollments ids s)"
| "s_step k GetAuthenticatorId s = getAuthenticatorId s"
| "s_step k InvalidateAuthenticatorId s = invalidateAuthenticatorId s"
| "s_step k (ResetLockout now h) s = resetLockout now h s"
| "s_step k Close s = close s"
| "s_step k (SignalCancel hidl) s = signal_cancel hidl s"
| "s_step k Pointer s = no_op s"
| "s_step k HidlDied s = onHidlDied s"
| "s_step k (Client c) s = client k c s"
| "s_step k RunCancel s = run_cancel s"
| "s_step k RemovalWorker s = removal_worker s"
| "s_step k (TrackerWake b) s = s\<lparr>s_lockout := run_step b (s_lockout s)\<rparr>"

abbreviation s_run :: "hidl_casts \<Rightarrow> s_op list \<Rightarrow> session \<Rightarrow> session" where
  "s_run k ops s \<equiv> fold (s_step k) ops s"

subsection \<open>What the session relies on in the tracker\<close>

definition locked :: "tracker \<Rightarrow> bool" where
  "locked t \<longleftrightarrow> t_timed t \<or> t_failed t \<ge> 20"

text \<open>
  A gate answers whether it is locked after every question and every counted failure, and does not
  lock by itself.
\<close>

locale lockout_gate =
  fixes ok :: "'t \<Rightarrow> bool" and is_locked :: "'t \<Rightarrow> bool"
    and question :: "'t \<Rightarrow> bool \<times> 't" and attempt :: "'t \<Rightarrow> bool \<times> 't" and idle :: "'t \<Rightarrow> 't"
  assumes question: "ok t \<Longrightarrow> question t = (b, t') \<Longrightarrow> ok t' \<and> b = is_locked t'"
    and attempt: "ok t \<Longrightarrow> attempt t = (b, t') \<Longrightarrow> ok t' \<and> b = is_locked t'"
    and idle: "ok t \<Longrightarrow> \<not> is_locked t \<Longrightarrow> ok (idle t) \<and> \<not> is_locked (idle t)"
begin

lemma idle_many: "ok t \<Longrightarrow> \<not> is_locked t \<Longrightarrow> ok ((idle ^^ n) t) \<and> \<not> is_locked ((idle ^^ n) t)"
  by (induction n) (simp_all add: idle)

lemma open_until_attempt:
  assumes "ok t" "question t = (False, t1)" "attempt ((idle ^^ n) t1) = (b, t2)"
  shows "ok t2 \<and> b = is_locked t2"
  using question [OF assms(1,2)] idle_many [of t1 n] attempt [OF _ assms(3)] by blast

end

lemma notify_locked: "notifyLockout cb t = (b, t') \<Longrightarrow> b = locked t'"
  by (auto simp: notifyLockout_def locked_def Let_def clock_now_def emit_def split: if_splits)

lemma attempt_locked: "addFailedAttempt t = (b, t') \<Longrightarrow> b = locked t'"
  by (auto simp: addFailedAttempt_eq locked_def Let_def split: if_splits)

lemma locked_core: "core t' = core t \<Longrightarrow> locked t' = locked t"
  by (simp add: core_def locked_def)

lemma run_step_open: "\<not> locked t \<Longrightarrow> core (run_step b t) = core t"
  by (simp add: run_step_def expire_idle locked_def)

interpretation gate: lockout_gate tracker_inv locked "notifyLockout cb" addFailedAttempt "run_step b" for cb b
proof
  fix t b' t'
  assume inv: "tracker_inv t"
  show "tracker_inv t' \<and> b' = locked t'" if "notifyLockout cb t = (b', t')"
    using notifyLockout_advances [OF inv, of cb] notify_locked [OF that] that by (simp add: advances_def)
  show "tracker_inv t' \<and> b' = locked t'" if "addFailedAttempt t = (b', t')"
    using addFailedAttempt_advances [OF inv] attempt_locked [OF that] that by (simp add: advances_def)
next
  fix t
  assume "tracker_inv t" "\<not> locked t"
  then show "tracker_inv (run_step b t) \<and> \<not> locked (run_step b t)"
    using run_step_open [of t b] core_cong [of "run_step b t" t] locked_core [of "run_step b t" t] by simp
qed

subsection \<open>What the steps leave alone\<close>

abbreviation s_log :: "session \<Rightarrow> fp_event list" where
  "s_log s \<equiv> t_log (s_lockout s)"

text \<open>The part of a session that decides about authentication.\<close>

definition view :: "session \<Rightarrow> (u32 \<times> disk \<times> int \<times> int \<times> int \<times> bool \<times> (nat \<Rightarrow> (int \<times> int) option)) \<times>
    nat \<times> bool \<times> bool \<times> bool" where
  "view s = (core (s_lockout s), s_cb s, c_authenticating s, c_lockedOut s, c_active s)"

lemma core_log: "core (t\<lparr>t_log := l\<rparr>) = core t"
  by (simp add: core_def)

lemma view_say [frame_simps]: "view (say e s) = view s"
  by (simp add: view_def say_def frame_simps)

lemma view_call [frame_simps]:
  "view (ask c s) = view s" "view (snd (answer s)) = view s" "view (snd (call c s)) = view s"
  by (simp_all add: view_def ask_def answer_def call_def core_log)

lemma view_updates [frame_simps]:
  "view (s\<lparr>c_removal := b\<rparr>) = view s" "view (s\<lparr>c_cancels := n\<rparr>) = view s"
  "view (s\<lparr>c_enumerated := l\<rparr>) = view s" "view (s\<lparr>s_dead := d\<rparr>) = view s"
  "view (s\<lparr>s_hwUnavailableNotified := d\<rparr>) = view s" "view (s\<lparr>s_calls := n\<rparr>) = view s"
  by (simp_all add: view_def)

lemma view_removal_event [frame_simps]: "view (removal_event e s) = view s"
  by (cases e) (simp_all add: frame_simps)

lemma view_removal_events [frame_simps]: "view (fold removal_event es s) = view s"
  by (induction es arbitrary: s) (simp_all add: frame_simps)

lemma view_removal_worker [frame_simps]: "view (removal_worker s) = view s"
proof -
  obtain r s1 where a: "(if rb_dispatching (c_removal s) then answer s else (Transport_Error, s)) = (r, s1)"
    by (cases "if rb_dispatching (c_removal s) then answer s else (Transport_Error, s)")
  then have v: "view s1 = view s" using view_call(2) [of s] by (auto split: if_splits)
  show ?thesis
  proof (cases "run_worker (accepted r) (c_removal s1)")
    case None
    then show ?thesis by (simp add: removal_worker_def a)
  next
    case (Some b)
    then show ?thesis by (simp add: removal_worker_def a frame_simps v)
  qed
qed

lemma view_report_reply [frame_simps]: "view (report_reply r s) = view s"
  by (cases r) (simp_all add: frame_simps)

lemma view_value_or_0 [frame_simps]: "view (snd (value_or_0 c s)) = view s"
  using view_call(3) [of c s] by (auto simp: value_or_0_def split: prod.split)

text \<open>Deactivation only closes the callback.\<close>

lemma core_detach [frame_simps]: "core (detach cb t) = core t"
  by (simp add: detach_def frame_simps)

lemma view_deactivate:
  "view (deactivate s) = (core (s_lockout s), s_cb s, c_authenticating s, c_lockedOut s, False)"
proof -
  let ?s1 = "s\<lparr>c_active := False, s_lockout := detach (s_cb s) (s_lockout s)\<rparr>"
  have "view (deactivate s) = view ?s1"
    by (simp add: deactivate_def Let_def frame_simps)
  then show ?thesis by (simp add: view_def frame_simps)
qed

text \<open>The steps that leave the view alone.\<close>

lemma view_binder [frame_simps]:
  "view (generateChallenge s) = view s" "view (revokeChallenge ch s) = view s"
  "view (snd (detectInteraction s)) = view s" "view (enumerateEnrollments s) = view s"
  "view (getAuthenticatorId s) = view s" "view (invalidateAuthenticatorId s) = view s"
  "view (signal_cancel h s) = view s" "view (run_cancel s) = view s"
proof -
  show "view (generateChallenge s) = view s"
    using view_value_or_0 [of H_preEnroll s] by (simp add: generateChallenge_def case_prod_unfold frame_simps)
  show "view (revokeChallenge ch s) = view s"
    by (simp add: revokeChallenge_def frame_simps)
  show "view (snd (detectInteraction s)) = view s"
    by (simp add: detectInteraction_def frame_simps)
  show "view (enumerateEnrollments s) = view s"
    by (simp add: enumerateEnrollments_def case_prod_unfold frame_simps)
  show "view (getAuthenticatorId s) = view s"
    by (simp add: getAuthenticatorId_def case_prod_unfold frame_simps)
  show "view (invalidateAuthenticatorId s) = view s"
    by (simp add: invalidateAuthenticatorId_def case_prod_unfold frame_simps)
  show "view (signal_cancel h s) = view s"
    by (simp add: signal_cancel_def frame_simps)
  show "view (run_cancel s) = view s"
    by (simp add: run_cancel_def frame_simps)
qed

lemma view_removeEnrollments [frame_simps]: "view (snd (removeEnrollments ids s)) = view s"
  by (simp add: removeEnrollments_def cb_removeEnrollments_def frame_simps split: prod.split bool.split)

lemma view_client_quiet [frame_simps]:
  "view (onEnrollResult fid rem s) = view s" "view (onAcquired k info code s) = view s"
  "view (onRemoved fid rem s) = view s" "view (onEnumerate fid rem s) = view s"
  by (simp_all add: onEnrollResult_def onAcquired_def onRemoved_def onEnumerate_def Let_def frame_simps)

subsection \<open>The session's invariant\<close>

text \<open>
  A session that is authenticating has not been told of a lockout, and the tracker lets it.
\<close>

definition s_inv :: "session \<Rightarrow> bool" where
  "s_inv s \<longleftrightarrow> tracker_inv (s_lockout s) \<and> (c_lockedOut s \<longrightarrow> \<not> c_authenticating s)"

definition guarded :: "session \<Rightarrow> bool" where
  "guarded s \<longleftrightarrow> s_inv s \<and> (c_authenticating s \<longrightarrow> \<not> locked (s_lockout s))"

lemma guarded_view:
  assumes "view s' = view s"
  shows "s_inv s' = s_inv s" "guarded s' = guarded s" "c_active s' = c_active s" "s_cb s' = s_cb s"
  using assms core_cong [of "s_lockout s'" "s_lockout s"] locked_core [of "s_lockout s'" "s_lockout s"]
  by (auto simp: view_def s_inv_def guarded_def)

text \<open>A step that may only end the authentication and leaves the tracker's policy state alone.\<close>

lemma guarded_weaken:
  assumes "guarded s" "core (s_lockout s') = core (s_lockout s)"
    "c_authenticating s' \<Longrightarrow> c_authenticating s \<and> (c_lockedOut s' \<longrightarrow> c_lockedOut s)"
  shows "guarded s'"
  using assms core_cong [OF assms(2)] locked_core [OF assms(2)] by (auto simp: s_inv_def guarded_def)

lemma core_say [frame_simps]: "core (s_lockout (say e s)) = core (s_lockout s)"
  by (simp add: say_def frame_simps)

lemma flags_say [frame_simps]:
  "c_authenticating (say e s) = c_authenticating s" "c_lockedOut (say e s) = c_lockedOut s"
  "c_active (say e s) = c_active s" "s_cb (say e s) = s_cb s"
  by (simp_all add: say_def)

lemma guarded_onError: "guarded s \<Longrightarrow> guarded (onError k e code s)"
  by (erule guarded_weaken)
    (auto simp: onError_def Let_def frame_simps split: prod.splits bool.splits if_splits)

lemma guarded_deactivate: "guarded s \<Longrightarrow> guarded (deactivate s)"
  using view_deactivate [of s] by (elim guarded_weaken) (auto simp: view_def)

lemma guarded_onHidlDied: "guarded s \<Longrightarrow> guarded (onHidlDied s)"
proof -
  assume "guarded s"
  then have "guarded (deactivate (s\<lparr>s_dead := True\<rparr>))"
    using guarded_deactivate guarded_view(2) [OF view_updates(4)] by blast
  moreover have "view (onHidlDied s) = view (deactivate (s\<lparr>s_dead := True\<rparr>))"
    by (simp add: onHidlDied_def Let_def frame_simps)
  ultimately show ?thesis using guarded_view(2) by blast
qed

lemma guarded_close: "guarded s \<Longrightarrow> guarded (close s)"
proof -
  assume "guarded s"
  then have "guarded (deactivate s)" by (rule guarded_deactivate)
  moreover have "view (close s) = view (deactivate s)"
    by (simp add: close_def Let_def frame_simps)
  ultimately show ?thesis using guarded_view(2) by blast
qed

lemma guarded_enroll: "guarded s \<Longrightarrow> guarded (snd (enroll h s))"
proof -
  assume g: "guarded s"
  then have "guarded (beginEnrollment s)"
    by (elim guarded_weaken) (simp_all add: beginEnrollment_def)
  moreover have "view (snd (enroll h s)) = view (if s_dead s then s else beginEnrollment s)"
    by (simp add: enroll_def Let_def frame_simps case_prod_unfold)
  ultimately show ?thesis using g guarded_view(2) [of "snd (enroll h s)"] by (cases "s_dead s") simp_all
qed

lemma guarded_beginAuthentication:
  assumes "guarded s"
  shows "guarded (snd (beginAuthentication s))"
proof -
  obtain b t where n: "notifyLockout (s_cb s) (s_lockout s) = (b, t)"
    by (cases "notifyLockout (s_cb s) (s_lockout s)")
  from assms gate.question [OF _ n] show ?thesis
    by (simp add: beginAuthentication_def n guarded_def s_inv_def)
qed

lemma guarded_authenticate:
  assumes "guarded s"
  shows "guarded (snd (authenticate op s))"
proof -
  obtain b s1 where b: "beginAuthentication s = (b, s1)" by (cases "beginAuthentication s")
  have "view (snd (authenticate op s)) = view s1"
    by (simp add: authenticate_def b frame_simps case_prod_unfold Let_def split: bool.split)
  with guarded_beginAuthentication [OF assms] b guarded_view(2) [of "snd (authenticate op s)" s1] show ?thesis by simp
qed

lemma guarded_onAuthenticated:
  assumes "guarded s"
  shows "guarded (onAuthenticated fid token s)"
proof (cases "c_active s \<and> c_authenticating s \<and> \<not> c_lockedOut s")
  case live: True
  have inv: "tracker_inv (s_lockout s)" using assms by (simp add: guarded_def s_inv_def)
  show ?thesis
  proof (cases "fid = 0")
    case False
    show ?thesis
    proof (cases "bytesToHat token")
      case None
      then show ?thesis
        using assms live False
        by (elim guarded_weaken) (auto simp: onAuthenticated_def frame_simps)
    next
      case (Some h)
      then show ?thesis
        using live False reset_safe [OF inv, of None] core_cong [OF core_emit]
        by (simp add: onAuthenticated_def guarded_def s_inv_def say_def)
    qed
  next
    case True
    obtain b t1 where a: "addFailedAttempt (s_lockout s) = (b, t1)"
      by (cases "addFailedAttempt (s_lockout s)")
    have t1: "tracker_inv t1" "b = locked t1" using gate.attempt [OF inv a] by simp_all
    have e: "tracker_inv (emit (s_cb s) OnAuthenticationFailed t1)"
      "locked (emit (s_cb s) OnAuthenticationFailed t1) = locked t1"
      using core_cong [OF core_emit] locked_core [OF core_emit] t1(1) by simp_all
    show ?thesis
    proof (cases b)
      case b: True
      obtain b2 t2 where n: "notifyLockout (s_cb s) (emit (s_cb s) OnAuthenticationFailed t1) = (b2, t2)"
        by (cases "notifyLockout (s_cb s) (emit (s_cb s) OnAuthenticationFailed t1)")
      show ?thesis
        using True live a b gate.question [OF e(1) n]
        by (simp add: onAuthenticated_def Let_def say_def n guarded_def s_inv_def)
    next
      case False
      then show ?thesis
        using True live a e t1
        by (simp add: onAuthenticated_def Let_def say_def guarded_def s_inv_def)
    qed
  qed
qed (use assms in \<open>auto simp: onAuthenticated_def\<close>)

fun resets :: "s_op \<Rightarrow> bool" where
  "resets (ResetLockout now h) = True"
| "resets _ = False"

lemmas guarded_frames = view_client_quiet [THEN guarded_view(2)] view_binder [THEN guarded_view(2)]
  view_removeEnrollments [THEN guarded_view(2)] view_removal_worker [THEN guarded_view(2)]

lemma guarded_step: "guarded s \<Longrightarrow> \<not> resets op \<Longrightarrow> guarded (s_step k op s)"
proof (cases op)
  case (Client c)
  assume "guarded s"
  with Client show ?thesis
    by (cases c) (simp_all add: guarded_onAuthenticated guarded_onError guarded_frames)
next
  case (TrackerWake b)
  assume g: "guarded s"
  then have inv: "tracker_inv (s_lockout s)" by (simp add: guarded_def s_inv_def)
  then have "tracker_inv (run_step b (s_lockout s))"
    using t_step_advances [of "s_lockout s" "Wake b"] by (simp add: advances_def)
  moreover have "\<not> locked (run_step b (s_lockout s))" if "\<not> locked (s_lockout s)"
    using gate.idle [OF inv that] by simp
  ultimately show ?thesis using TrackerWake g by (auto simp: guarded_def s_inv_def)
qed (simp_all add: guarded_enroll guarded_authenticate guarded_close guarded_onHidlDied
    guarded_frames no_op_def)

lemma guarded_run: "guarded s \<Longrightarrow> list_all (\<lambda>op. \<not> resets op) ops \<Longrightarrow> guarded (s_run k ops s)"
  by (induction ops arbitrary: s) (simp_all add: guarded_step)

subsection \<open>What the steps say\<close>

datatype ev_kind = K_success | K_authenticate | K_remove | K_other

fun kind :: "fp_event \<Rightarrow> ev_kind" where
  "kind (Cb cb (OnAuthenticationSucceeded fid h)) = K_success"
| "kind (Hidl (H_authenticate op gid)) = K_authenticate"
| "kind (Hidl (H_remove gid fid)) = K_remove"
| "kind _ = K_other"

text \<open>The log only grows, by events of the given kinds.\<close>

definition t_emits :: "ev_kind set \<Rightarrow> tracker \<Rightarrow> tracker \<Rightarrow> bool" where
  "t_emits K t t' \<longleftrightarrow> (\<exists>es. t_log t' = t_log t @ es \<and> kind ` set es \<subseteq> K)"

lemma t_emits_same: "t_log t' = t_log t \<Longrightarrow> t_emits K t t'"
  by (simp add: t_emits_def)

lemma t_emits_refl [simp]: "t_emits K t t"
  by (simp add: t_emits_same)

lemma t_emits_trans: "t_emits K t u \<Longrightarrow> t_emits K u v \<Longrightarrow> t_emits K t v"
  unfolding t_emits_def by (metis (no_types, lifting) Un_subset_iff append.assoc image_Un set_append)

lemma t_emits_mono: "t_emits K t t' \<Longrightarrow> K \<subseteq> K' \<Longrightarrow> t_emits K' t t'"
  by (auto simp: t_emits_def)

lemma t_emits_emit: "t_emits K t u \<Longrightarrow> kind (Cb cb e) \<in> K \<Longrightarrow> t_emits K t (emit cb e u)"
  by (force simp: t_emits_def emit_def)

lemma log_persist: "persist t = (b, t') \<Longrightarrow> t_log t' = t_log t"
  by (auto simp: persist_def split: prod.splits)

lemma log_failClosed [simp]: "t_log (failClosed t) = t_log t"
  by (simp add: failClosed_def Let_def realtimeMs_def clock_now_def)

lemma emits_deliver_clear: "t_emits {K_other} t (deliver_clear t)"
  by (auto simp: deliver_clear_def t_emits_def emit_def split: option.split)

lemma emits_expire: "t_emits {K_other} t (expire t)"
proof -
  let ?t1 = "snd (clock_now t)"
  have log1: "t_log ?t1 = t_log t" by (simp add: clock_now_def)
  obtain b t2 where p: "persist (?t1\<lparr>t_timed := False, t_failedTimed := 0, t_deadlineMs := 0\<rparr>) = (b, t2)"
    by (cases "persist (?t1\<lparr>t_timed := False, t_failedTimed := 0, t_deadlineMs := 0\<rparr>)")
  have log2: "t_log t2 = t_log t" using log_persist [OF p] log1 by simp
  have "t_emits {K_other} t (deliver_clear u)" if "t_log u = t_log t" for u
    using emits_deliver_clear [of u] that by (simp add: t_emits_def)
  with log1 log2 p show ?thesis
    by (simp add: expire_def case_prod_unfold Let_def t_emits_same split: bool.split)
qed

lemma emits_notify: "t_emits {K_other} t (snd (notifyLockout cb t))"
proof -
  have "t_emits {K_other} (expire t) (snd (notifyLockout cb t))"
    by (simp add: notifyLockout_def Let_def t_emits_def emit_def clock_now_def)
  then show ?thesis using emits_expire t_emits_trans by blast
qed

lemma log_counted: "t_log (counted t) = t_log t"
  by (simp add: counted_def Let_def clock_now_def realtimeMs_def)

lemma log_save_or_close: "t_log (save_or_close t) = t_log t"
  using log_persist [of t] by (simp add: save_or_close_def split: prod.split bool.split)

lemma emits_attempt: "t_emits {K_other} t (snd (addFailedAttempt t))"
  using emits_expire [of t] by (simp add: addFailedAttempt_eq Let_def t_emits_def log_save_or_close log_counted)

lemma emits_reset: "t_emits {K_other} t (reset cb t)"
proof -
  let ?t1 = "t\<lparr>t_failed := 0, t_failedTimed := 0, t_timed := False, t_clearPending := False, t_deadlineMs := 0\<rparr>"
  obtain b t2 where p: "persist ?t1 = (b, t2)" by (cases "persist ?t1")
  have "t_log t2 = t_log t" using log_persist [OF p] by simp
  then show ?thesis
    using p by (simp add: reset_def t_emits_def emit_def split: bool.split option.split)
qed

lemma emits_run_step: "t_emits {K_other} t (run_step b t)"
  by (simp add: run_step_def emits_expire)

lemma emits_detach: "t_emits K t (detach cb t)"
  by (simp add: detach_def t_emits_same)

abbreviation emits :: "ev_kind set \<Rightarrow> session \<Rightarrow> session \<Rightarrow> bool" where
  "emits K s s' \<equiv> t_emits K (s_lockout s) (s_lockout s')"

lemma emits_say: "kind (Cb (s_cb s) e) \<in> K \<Longrightarrow> emits K s (say e s)"
  by (simp add: say_def t_emits_def emit_def)

lemma emits_call: "kind (Hidl c) \<in> K \<Longrightarrow> emits K s (ask c s) \<and> emits K s (snd (call c s))"
  by (simp add: call_def answer_def ask_def t_emits_def)

lemma lockout_answer [simp]: "s_lockout (snd (answer s)) = s_lockout s"
  by (simp add: answer_def)

lemma emits_say_after: "emits K s s' \<Longrightarrow> kind (Cb (s_cb s') e) \<in> K \<Longrightarrow> emits K s (say e s')"
  using emits_say t_emits_trans by blast

lemma emits_report: "emits K s s' \<Longrightarrow> K_other \<in> K \<Longrightarrow> emits K s (report_reply r s')"
  by (cases r) (simp_all add: emits_say_after)

lemma emits_value_or_0: "kind (Hidl c) = K_other \<Longrightarrow> emits {K_other} s (snd (value_or_0 c s))"
  using emits_call [of c "{K_other}" s] by (simp add: value_or_0_def case_prod_unfold)

lemma emits_removal_events:
  "emits {K_other, K_remove} s s' \<Longrightarrow> emits {K_other, K_remove} s (fold removal_event es s')"
proof (induction es arbitrary: s')
  case (Cons e es)
  have "emits {K_other, K_remove} s' (removal_event e s')"
    by (cases e) (simp_all add: emits_say emits_call)
  then show ?case using Cons t_emits_trans by (metis fold_simps(2))
qed simp

lemma emits_removal_worker: "emits {K_other, K_remove} s (removal_worker s)"
proof -
  obtain r s1 where a: "(if rb_dispatching (c_removal s) then answer s else (Transport_Error, s)) = (r, s1)"
    by (cases "if rb_dispatching (c_removal s) then answer s else (Transport_Error, s)")
  then have "s_lockout s1 = s_lockout s" by (auto simp: answer_def split: if_splits)
  then show ?thesis
    by (auto simp: removal_worker_def a intro!: emits_removal_events split: option.split)
qed

text \<open>While the worker is inside \<open>remove\<close>, its step says nothing.\<close>

lemma removal_return: "rb_dispatching (c_removal s) \<Longrightarrow> s_lockout (removal_worker s) = s_lockout s"
  by (auto simp: removal_worker_def rb_dispatching_def run_worker_def run_returned_def answer_def Let_def
      split: rb_pc.splits)

lemma emits_deactivate: "emits {} s (deactivate s)"
  using removal_return [of "s\<lparr>c_active := False, s_lockout := detach (s_cb s) (s_lockout s)\<rparr>"]
  by (simp add: deactivate_def Let_def emits_detach)

lemma emits_binder:
  "emits {K_other} s (generateChallenge s)" "emits {K_other} s (revokeChallenge ch s)"
  "emits {K_other} s (snd (detectInteraction s))" "emits {K_other} s (enumerateEnrollments s)"
  "emits {K_other} s (getAuthenticatorId s)" "emits {K_other} s (invalidateAuthenticatorId s)"
  "emits {K_other} s (signal_cancel h s)" "emits {K_other} s (run_cancel s)"
  "emits {K_other} s (snd (removeEnrollments ids s))" "emits {K_other} s (snd (enroll a s))"
  "emits {K_other} s (resetLockout now a s)"
proof -
  show "emits {K_other} s (generateChallenge s)"
    by (simp add: generateChallenge_def case_prod_unfold emits_say_after emits_value_or_0)
  show "emits {K_other} s (revokeChallenge ch s)"
    by (simp add: revokeChallenge_def emits_say_after emits_call)
  show "emits {K_other} s (snd (detectInteraction s))"
    by (simp add: detectInteraction_def emits_say_after)
  show "emits {K_other} s (enumerateEnrollments s)"
    by (simp add: enumerateEnrollments_def case_prod_unfold emits_say_after emits_call)
  show "emits {K_other} s (getAuthenticatorId s)"
    by (simp add: getAuthenticatorId_def case_prod_unfold emits_say_after emits_value_or_0)
  show "emits {K_other} s (invalidateAuthenticatorId s)"
    by (simp add: invalidateAuthenticatorId_def case_prod_unfold emits_say_after emits_value_or_0)
  show "emits {K_other} s (signal_cancel h s)"
    by (simp add: signal_cancel_def emits_call)
  show "emits {K_other} s (run_cancel s)"
    using emits_call [of H_cancel "{K_other}" "s\<lparr>c_cancels := c_cancels s - 1\<rparr>"] by (simp add: run_cancel_def)
  show "emits {K_other} s (snd (removeEnrollments ids s))"
    by (simp add: removeEnrollments_def cb_removeEnrollments_def emits_say_after split: prod.split bool.split)
  show "emits {K_other} s (snd (enroll a s))"
    using emits_call [of "H_enroll (hatToBytes a) (s_userId s) kEnrollTimeoutSec" "{K_other}" "beginEnrollment s"]
    by (simp add: enroll_def Let_def case_prod_unfold emits_say_after emits_report beginEnrollment_def)
  show "emits {K_other} s (resetLockout now a s)"
    by (simp add: resetLockout_def emits_say_after emits_reset)
qed

lemma emits_teardown: "emits {K_other} s (close s)" "emits {K_other} s (onHidlDied s)"
proof -
  have d: "emits {K_other} s (deactivate s)"
    using emits_deactivate [of s] by (rule t_emits_mono) simp
  then show "emits {K_other} s (close s)"
    using emits_call [of H_cancel "{K_other}" "deactivate s"] t_emits_trans [of "{K_other}"]
    by (auto simp: close_def Let_def intro!: emits_say_after)
  have "emits {K_other} s (deactivate (s\<lparr>s_dead := True\<rparr>))"
    using emits_deactivate [of "s\<lparr>s_dead := True\<rparr>"] t_emits_mono [of "{}"] by simp
  then show "emits {K_other} s (onHidlDied s)"
    by (auto simp: onHidlDied_def Let_def intro!: emits_say_after)
qed

lemma emits_client_quiet:
  "emits {K_other} s (onEnrollResult fid rem s)" "emits {K_other} s (onAcquired k info code s)"
  "emits {K_other} s (onRemoved fid rem s)" "emits {K_other} s (onEnumerate fid rem s)"
  "emits {K_other} s (onError k e code s)"
  by (auto simp: onEnrollResult_def onAcquired_def onRemoved_def onEnumerate_def onError_def Let_def
      intro!: emits_say_after split: prod.split bool.split)

lemma emits_failure: "emits {K_other} s (onAuthenticated 0 token s)"
proof -
  let ?t1 = "snd (addFailedAttempt (s_lockout s))"
  have e: "t_emits {K_other} (s_lockout s) (emit (s_cb s) OnAuthenticationFailed ?t1)"
    using t_emits_emit [OF emits_attempt [of "s_lockout s"]] by simp
  show ?thesis
    using e t_emits_trans [OF e emits_notify [of _ "s_cb s"]]
    by (simp add: onAuthenticated_def case_prod_unfold Let_def say_def)
qed

lemma emits_match:
  "emits (if c_active s \<and> c_authenticating s \<and> \<not> c_lockedOut s then {K_other, K_success} else {K_other}) s
     (onAuthenticated fid token s)"
proof (cases "fid = 0")
  case True
  then show ?thesis using t_emits_mono [OF emits_failure [of s token]] by auto
next
  case False
  have "t_emits {K_other, K_success} (s_lockout s) (reset None (s_lockout s))"
    using emits_reset by (rule t_emits_mono) simp
  with False show ?thesis
    by (auto simp: onAuthenticated_def Let_def intro!: emits_say_after split: option.split)
qed

lemma emits_authenticate: "emits {K_other, K_authenticate} s (snd (authenticate op s))"
proof -
  obtain b s1 where b: "beginAuthentication s = (b, s1)" by (cases "beginAuthentication s")
  have "emits {K_other} s s1"
    using b emits_notify [of "s_lockout s" "s_cb s"] by (auto simp: beginAuthentication_def split: prod.splits)
  then have e: "emits {K_other, K_authenticate} s s1" by (rule t_emits_mono) simp
  then have "emits {K_other, K_authenticate} s (snd (call (H_authenticate op (s_userId s1)) s1))"
    using emits_call [of "H_authenticate op (s_userId s1)" "{K_other, K_authenticate}" s1] t_emits_trans
    by auto
  with e show ?thesis
    by (auto simp: authenticate_def b case_prod_unfold Let_def intro!: emits_say_after emits_report split: bool.split)
qed

fun step_kinds :: "s_op \<Rightarrow> ev_kind set" where
  "step_kinds (Authenticate op) = {K_other, K_authenticate}"
| "step_kinds RemovalWorker = {K_other, K_remove}"
| "step_kinds (Client (C_onAuthenticated fid gid token)) = {K_other, K_success}"
| "step_kinds _ = {K_other}"

lemma emits_step: "emits (step_kinds op) s (s_step k op s)"
proof (cases op)
  case (Client c)
  then show ?thesis
  proof (cases c)
    case (C_onAuthenticated fid gid token)
    then show ?thesis using Client t_emits_mono [OF emits_match [of s fid token]] by auto
  qed (simp_all add: emits_client_quiet)
qed (simp_all add: emits_binder emits_teardown emits_authenticate emits_removal_worker emits_run_step no_op_def)

subsection \<open>After the session is closed\<close>

text \<open>The callback is off for good, and the removal queue is retired.\<close>

definition shut :: "session \<Rightarrow> bool" where
  "shut s \<longleftrightarrow> \<not> c_active s \<and> halted (c_removal s) (c_removal s)"

lemma halted_self: "halted a b \<Longrightarrow> halted b b"
  by (simp add: halted_def)

lemma active_view: "view s' = view s \<Longrightarrow> c_active s' = c_active s"
  by (simp add: view_def)

lemma removal_say [simp]: "c_removal (say e s) = c_removal s" "c_removal (ask c s) = c_removal s"
  "c_removal (snd (answer s)) = c_removal s" "c_removal (snd (call c s)) = c_removal s"
  "c_removal (report_reply r s) = c_removal s" "c_removal (snd (value_or_0 c s)) = c_removal s"
  by (cases r; simp add: say_def ask_def answer_def call_def value_or_0_def case_prod_unfold)+

lemma removal_events [simp]: "c_removal (fold removal_event es s) = c_removal s"
proof (induction es arbitrary: s)
  case (Cons e es)
  then show ?case by (cases e) simp_all
qed simp

lemma removal_of_binder [simp]:
  "c_removal (generateChallenge s) = c_removal s" "c_removal (revokeChallenge ch s) = c_removal s"
  "c_removal (snd (detectInteraction s)) = c_removal s" "c_removal (enumerateEnrollments s) = c_removal s"
  "c_removal (getAuthenticatorId s) = c_removal s" "c_removal (invalidateAuthenticatorId s) = c_removal s"
  "c_removal (signal_cancel h s) = c_removal s" "c_removal (run_cancel s) = c_removal s"
  "c_removal (snd (enroll a s)) = c_removal s" "c_removal (resetLockout now a s) = c_removal s"
  by (simp_all add: generateChallenge_def revokeChallenge_def detectInteraction_def enumerateEnrollments_def
      getAuthenticatorId_def invalidateAuthenticatorId_def signal_cancel_def run_cancel_def enroll_def
      resetLockout_def Let_def case_prod_unfold beginEnrollment_def)

lemma removal_authenticate [simp]: "c_removal (snd (authenticate op s)) = c_removal s"
  by (simp add: authenticate_def beginAuthentication_def Let_def case_prod_unfold split: prod.split bool.split)

lemma halted_rb_start: "halted b b \<Longrightarrow> rb_start ids b = (False, b)"
  by (simp add: halted_def rb_start_def)

lemma client_inactive: "\<not> c_active s \<Longrightarrow> client k c s = s"
  by (cases c) (simp_all add: onEnrollResult_def onAcquired_def onAuthenticated_def onError_def
      onRemoved_def onEnumerate_def)

lemma removal_after_worker:
  "halted (c_removal s) (c_removal s) \<Longrightarrow> halted (c_removal (removal_worker s)) (c_removal (removal_worker s))"
proof -
  assume h: "halted (c_removal s) (c_removal s)"
  then have nd: "\<not> rb_dispatching (c_removal s)" by (simp add: halted_def)
  show ?thesis
  proof (cases "run_worker False (c_removal s)")
    case None
    then show ?thesis using h nd by (simp add: removal_worker_def)
  next
    case (Some b)
    then show ?thesis using halted_self [OF halted_worker [OF h Some]] nd by (simp add: removal_worker_def)
  qed
qed

lemma run_returned_idle: "rb_dispatching b \<Longrightarrow> run_worker acc b = Some b' \<Longrightarrow> \<not> rb_dispatching b'"
  by (auto simp: rb_dispatching_def run_worker_def run_returned_def Let_def split: rb_pc.splits)

lemma removal_worker_returned:
  assumes "rb_dispatching (c_removal s)"
  shows "\<not> rb_dispatching (c_removal (removal_worker s))"
proof -
  obtain r s1 where a: "answer s = (r, s1)" by (cases "answer s")
  then have c: "c_removal s1 = c_removal s" by (auto simp: answer_def)
  obtain b where b: "run_worker (accepted r) (c_removal s) = Some b"
    using assms by (auto simp: rb_dispatching_def run_worker_def split: rb_pc.splits)
  show ?thesis
    using run_returned_idle [OF assms b] assms a b c by (simp add: removal_worker_def)
qed

lemma shut_deactivate: "shut (deactivate s)"
proof -
  let ?s1 = "s\<lparr>c_active := False, s_lockout := detach (s_cb s) (s_lockout s)\<rparr>"
  let ?s2 = "if rb_dispatching (c_removal ?s1) then removal_worker ?s1 else ?s1"
  have "\<not> rb_dispatching (c_removal ?s2)"
    using removal_worker_returned [of ?s1] by simp
  then have "halted (rb_cancel (c_removal ?s2)) (rb_cancel (c_removal ?s2))"
    by (simp add: halted_def rb_cancel_def rb_dispatching_def)
  moreover have "c_removal (deactivate s) = rb_cancel (c_removal ?s2)"
    by (simp add: deactivate_def Let_def)
  ultimately show ?thesis
    using view_deactivate [of s] by (simp add: shut_def view_def)
qed

lemma shut_frame: "shut s \<Longrightarrow> view s' = view s \<Longrightarrow> c_removal s' = c_removal s \<Longrightarrow> shut s'"
  by (simp add: shut_def view_def)

lemma shut_close: "shut (close s)"
  using shut_frame [OF shut_deactivate [of s], of "close s"] by (simp add: close_def Let_def frame_simps)

lemma shut_onHidlDied: "shut (onHidlDied s)"
  using shut_frame [OF shut_deactivate [of "s\<lparr>s_dead := True\<rparr>"], of "onHidlDied s"]
  by (simp add: onHidlDied_def Let_def frame_simps)

lemma active_ops:
  "c_active (snd (enroll h s)) = c_active s" "c_active (snd (authenticate op s)) = c_active s"
  "c_active (resetLockout now h s) = c_active s"
proof -
  have v: "c_active (snd (call c s)) = c_active s" "c_active (say e s) = c_active s"
    "c_active (report_reply r s) = c_active s" for c e r s
    using active_view [OF view_call(3)] active_view [OF view_say] active_view [OF view_report_reply] by simp_all
  show "c_active (snd (enroll h s)) = c_active s" "c_active (resetLockout now h s) = c_active s"
    by (simp_all add: enroll_def resetLockout_def Let_def case_prod_unfold v beginEnrollment_def)
  show "c_active (snd (authenticate op s)) = c_active s"
    by (simp add: authenticate_def beginAuthentication_def Let_def case_prod_unfold v split: prod.split bool.split)
qed

lemma shut_step: "shut s \<Longrightarrow> shut (s_step k op s)"
proof (cases op)
  case (Client c)
  assume "shut s"
  then show ?thesis using Client client_inactive [of s k c] by (simp add: shut_def)
next
  case (RemoveEnrollments ids)
  assume s: "shut s"
  then have "c_removal (snd (removeEnrollments ids s)) = c_removal s"
    by (simp add: shut_def removeEnrollments_def cb_removeEnrollments_def halted_rb_start)
  with s RemoveEnrollments show ?thesis using shut_frame [OF s view_removeEnrollments] by simp
next
  case RemovalWorker
  assume "shut s"
  then show ?thesis
    using RemovalWorker removal_after_worker [of s] active_view [OF view_removal_worker [of s]] by (simp add: shut_def)
qed (simp_all add: shut_close [unfolded shut_def] shut_onHidlDied [unfolded shut_def] shut_def active_ops no_op_def
    view_binder [THEN active_view])

lemma shut_run: "shut s \<Longrightarrow> shut (s_run k ops s)"
  by (induction ops arbitrary: s) (simp_all add: shut_step)

lemma halted_events:
  assumes "halted b b" "run_worker acc b = Some b'"
  shows "drop (length (rb_log b)) (rb_log b') = [] \<or>
    (\<exists>r. drop (length (rb_log b)) (rb_log b') = [RbComplete r])"
  using assms by (cases "rb_pc b")
    (auto simp: halted_def run_worker_def run_turn_def run_complete_def run_dispatch_def rb_dispatching_def
      Let_def split: if_splits)

lemma shut_worker_silent:
  assumes "shut s"
  shows "s_log (removal_worker s) = s_log s"
proof (cases "run_worker False (c_removal s)")
  case None
  then show ?thesis using assms by (simp add: shut_def halted_def removal_worker_def)
next
  case (Some b)
  have h: "halted (c_removal s) (c_removal s)" "\<not> c_active s" using assms by (simp_all add: shut_def)
  then have "\<not> rb_dispatching (c_removal s)" by (simp add: halted_def)
  with Some h halted_events [OF h(1) Some] show ?thesis by (auto simp: removal_worker_def)
qed

lemma shut_step_kinds: "shut s \<Longrightarrow> emits {K_other, K_authenticate} s (s_step k op s)"
proof (cases op)
  case (Client c)
  assume "shut s"
  then show ?thesis using Client client_inactive [of s k c] by (simp add: shut_def)
next
  case RemovalWorker
  assume "shut s"
  then show ?thesis using RemovalWorker shut_worker_silent [of s] by (simp add: t_emits_same)
qed (use t_emits_mono [OF emits_step [of op s k]] in auto)

lemma shut_run_kinds: "shut s \<Longrightarrow> emits {K_other, K_authenticate} s (s_run k ops s)"
proof (induction ops arbitrary: s)
  case (Cons op ops)
  then have "emits {K_other, K_authenticate} s (s_step k op s)"
    "emits {K_other, K_authenticate} (s_step k op s) (s_run k ops (s_step k op s))"
    using shut_step_kinds shut_step by auto
  then show ?case using t_emits_trans by (metis fold_simps(2))
qed simp

lemma attach_inv: "tracker_inv t \<Longrightarrow> tracker_inv (attach cb t)"
  using t_step_advances [of t "Attach cb"] by (simp add: advances_def)

lemma new_session_eq:
  obtains s where "new_session hidl u cb t replies = s \<or> new_session hidl u cb t replies = deactivate s"
    "view s = view (initial_session hidl u cb t replies)" "s_userId s = u"
proof -
  let ?s = "initial_session hidl u cb t replies"
  let ?c = "call (H_setActiveGroup u (storePath u)) (snd (call H_setNotify ?s))"
  let ?r = "if \<not> hidl then ?s\<lparr>s_dead := True\<rparr>
      else if \<not> accepted (fst ?c) then (snd ?c)\<lparr>s_dead := True\<rparr> else snd ?c"
  have "view ?r = view ?s" "s_userId ?r = u"
    by (simp_all add: frame_simps) (simp_all add: initial_session_def call_def answer_def ask_def)
  moreover have "new_session hidl u cb t replies = ?r \<or> new_session hidl u cb t replies = deactivate ?r"
    by (simp add: new_session_def Let_def case_prod_unfold)
  ultimately show thesis using that by blast
qed

lemma guarded_new:
  assumes "tracker_inv t"
  shows "guarded (new_session hidl u cb t replies)"
proof -
  have "guarded (initial_session hidl u cb t replies)"
    using attach_inv [OF assms] by (simp add: initial_session_def guarded_def s_inv_def)
  then show ?thesis
    by (rule_tac new_session_eq [of hidl u cb t replies]) (metis guarded_deactivate guarded_view(2))
qed

subsection \<open>The death notice\<close>

lemma notified_say [simp]:
  "s_hwUnavailableNotified (say e s) = s_hwUnavailableNotified s"
  "s_hwUnavailableNotified (ask c s) = s_hwUnavailableNotified s"
  "s_hwUnavailableNotified (snd (answer s)) = s_hwUnavailableNotified s"
  "s_hwUnavailableNotified (snd (call c s)) = s_hwUnavailableNotified s"
  "s_hwUnavailableNotified (report_reply r s) = s_hwUnavailableNotified s"
  "s_hwUnavailableNotified (snd (value_or_0 c s)) = s_hwUnavailableNotified s"
  by (cases r; simp add: say_def ask_def answer_def call_def value_or_0_def case_prod_unfold)+

lemma notified_events [simp]: "s_hwUnavailableNotified (fold removal_event es s) = s_hwUnavailableNotified s"
proof (induction es arbitrary: s)
  case (Cons e es)
  then show ?case by (cases e) simp_all
qed simp

lemma notified_worker [simp]: "s_hwUnavailableNotified (removal_worker s) = s_hwUnavailableNotified s"
  by (auto simp: removal_worker_def answer_def split: option.split)

lemma notified_client [simp]: "s_hwUnavailableNotified (client k c s) = s_hwUnavailableNotified s"
  by (cases c)
    (auto simp: onEnrollResult_def onAcquired_def onAuthenticated_def onError_def onRemoved_def onEnumerate_def
      Let_def split: prod.split option.split bool.split)

lemma notified_deactivate [simp]: "s_hwUnavailableNotified (deactivate s) = s_hwUnavailableNotified s"
  by (simp add: deactivate_def Let_def)

lemma notified_step: "s_hwUnavailableNotified s \<Longrightarrow> s_hwUnavailableNotified (s_step k op s)"
  by (cases op)
    (auto simp: generateChallenge_def revokeChallenge_def detectInteraction_def enumerateEnrollments_def
      getAuthenticatorId_def invalidateAuthenticatorId_def signal_cancel_def run_cancel_def enroll_def
      resetLockout_def removeEnrollments_def cb_removeEnrollments_def authenticate_def beginAuthentication_def
      beginEnrollment_def close_def onHidlDied_def no_op_def Let_def case_prod_unfold split: bool.split)

lemma notified_run: "s_hwUnavailableNotified s \<Longrightarrow> s_hwUnavailableNotified (s_run k ops s)"
  by (induction ops arbitrary: s) (simp_all add: notified_step)

lemma log_deactivate: "s_log (deactivate s) = s_log s"
  using emits_deactivate [of s] by (simp add: t_emits_def)

lemma open_attempt:
  assumes "safe t" "\<not> locked t"
  shows "safe (snd (addFailedAttempt t)) \<and> t_failed t + 1 \<le> t_failed (snd (addFailedAttempt t))"
proof -
  have inv: "tracker_inv t" using assms(1) by (simp add: safe_def)
  have c: "core (expire t) = core t" using assms(2) expire_idle by (simp add: locked_def)
  then have e: "tracker_inv (expire t)" "t_failed (expire t) = t_failed t" "\<not> locked (expire t)"
    using core_cong [OF c] locked_core [OF c] inv assms(2) by simp_all
  then have "t_failed t + 1 \<le> t_failed (save_or_close (counted (expire t)))"
    using counted_inv [of "expire t"] save_or_close_safe [of "counted (expire t)"] by (simp add: locked_def)
  moreover have "safe (snd (addFailedAttempt t))"
    using t_step_safe [OF assms(1), of FailedAttempt] by simp
  ultimately show ?thesis using e(3) by (simp add: addFailedAttempt_eq Let_def locked_def)
qed

lemma safe_core: "core t' = core t \<Longrightarrow> safe t' = safe t"
  using core_cong [of t' t] by (simp add: safe_def)

lemma reset_clean:
  assumes "script (t_disk t) = []"
  shows "\<not> locked (reset (Some cb) t) \<and> last (t_log (reset (Some cb) t)) = Cb cb OnLockoutCleared"
proof -
  let ?t1 = "t\<lparr>t_failed := 0, t_failedTimed := 0, t_timed := False, t_clearPending := False, t_deadlineMs := 0\<rparr>"
  obtain w where "persist ?t1 = (True, ?t1\<lparr>t_disk := w\<rparr>)"
    using persist_clean [of ?t1] assms by auto
  then show ?thesis by (simp add: reset_def locked_def emit_def)
qed

text \<open>A session on a working HAL with an unlocked tracker, after \<open>authenticate\<close> has been accepted.\<close>

definition ok_replies :: "nat \<Rightarrow> hidl_reply" where
  "ok_replies n = Status SYS_OK"

definition sample_casts :: hidl_casts where
  "sample_casts = \<lparr>error_value = (\<lambda>e. case e of ERROR_LOCKOUT \<Rightarrow> 7 | Other_Error n \<Rightarrow> n | _ \<Rightarrow> 2),
     acquired_value = (\<lambda>a. case a of Other_Acquired n \<Rightarrow> n | _ \<Rightarrow> 0)\<rparr>"

definition sample_session :: session where
  "sample_session = new_session True 0 1 (sample_tracker 2 2 0 0) ok_replies"

lemma sample_session_log:
  "s_log sample_session = [Hidl H_setNotify, Hidl (H_setActiveGroup 0 (storePath 0))]"
  by (simp add: sample_session_def new_session_def initial_session_def attach_def expire_def deliver_clear_def sample_tracker_def
      call_def answer_def ask_def ok_replies_def)

lemma sample_session_fields [simp]:
  "c_active sample_session" "\<not> c_authenticating sample_session" "\<not> c_lockedOut sample_session"
  "s_cb sample_session = 1" "\<not> s_dead sample_session" "c_enumerated sample_session = []"
  "\<not> locked (s_lockout sample_session)" "t_clearPending (s_lockout sample_session) = False"
  "\<not> t_timed (s_lockout sample_session)" "t_failed (s_lockout sample_session) = 2"
  "t_disk (s_lockout sample_session) = blank_disk" "s_replies sample_session = ok_replies"
  "core (s_lockout sample_session) = core (sample_tracker 2 2 0 0)"
  by (simp_all add: sample_session_def new_session_def initial_session_def attach_def expire_def deliver_clear_def sample_tracker_def
      call_def answer_def ask_def ok_replies_def locked_def core_def)

lemma sample_tracker_inv: "tracker_inv (sample_tracker 2 2 0 0)"
  by (simp add: tracker_inv_def)

lemma notify_open:
  "\<not> locked t \<Longrightarrow> \<not> t_clearPending t \<Longrightarrow> notifyLockout cb t = (False, t)"
  by (simp add: notifyLockout_def expire_def deliver_clear_def locked_def)

lemma sample_authenticating:
  "snd (authenticate op sample_session) =
     snd (call (H_authenticate op (s_userId sample_session)) (sample_session\<lparr>c_authenticating := True\<rparr>))"
proof -
  have "beginAuthentication sample_session = (True, sample_session\<lparr>c_authenticating := True\<rparr>)"
    using notify_open [of "s_lockout sample_session" 1]
    by (simp add: beginAuthentication_def)
  then show ?thesis
    by (simp add: authenticate_def Let_def case_prod_unfold call_def answer_def ask_def ok_replies_def)
qed

subsection \<open>Properties\<close>



text \<open>
  C7: once a session has been closed, nothing the HAL calls back has any effect, whatever else
  happens, no fingerprint is removed any more and no success is reported.
\<close>

theorem silent_after_close:
  "client k c (s_run k ops (close s)) = s_run k ops (close s) \<and>
   (\<exists>es. s_log (s_run k ops (close s)) = s_log (close s) @ es \<and>
      K_remove \<notin> kind ` set es \<and> K_success \<notin> kind ` set es)"
proof -
  have "\<not> c_active (s_run k ops (close s))"
    using shut_run [OF shut_close, of k ops s] by (simp add: shut_def)
  moreover have "emits {K_other, K_authenticate} (close s) (s_run k ops (close s))"
    by (rule shut_run_kinds [OF shut_close])
  ultimately show ?thesis by (auto simp: client_inactive t_emits_def)
qed



text \<open>
  The HAL is asked to authenticate exactly when the tracker, after its expiry check, is not
  locked and the HAL is alive; when it is locked the client gets no live cancellation signal and the
  session is not authenticating.
\<close>

theorem authenticate_asks_only_when_open:
  assumes "tracker_inv (s_lockout s)" and "authenticate op s = (sig, s')"
  shows "(\<exists>es. s_log s' = s_log s @ es \<and>
      (K_authenticate \<in> kind ` set es \<longleftrightarrow> \<not> locked (s_lockout s') \<and> \<not> s_dead s)) \<and>
    (locked (s_lockout s') \<longrightarrow> \<not> sig \<and> \<not> c_authenticating s' \<and> c_lockedOut s')"
proof -
  obtain b t where n: "notifyLockout (s_cb s) (s_lockout s) = (b, t)"
    by (cases "notifyLockout (s_cb s) (s_lockout s)")
  have b: "b = locked t" using gate.question [OF assms(1) n] by simp
  obtain es where es: "t_log t = s_log s @ es" "kind ` set es \<subseteq> {K_other}"
    using emits_notify [of "s_lockout s" "s_cb s"] n by (auto simp: t_emits_def)
  let ?s1 = "s\<lparr>s_lockout := t, c_lockedOut := b, c_authenticating := \<not> b\<rparr>"
  let ?s2 = "snd (call (H_authenticate op (s_userId s)) ?s1)"
  have a: "(sig, s') = (if b then (False, ?s1) else if s_dead s then (False, say (OnError HW_UNAVAILABLE 0) ?s1)
      else (s_hidl ?s2, report_reply (fst (call (H_authenticate op (s_userId s)) ?s1)) ?s2))"
    using assms(2) by (simp add: authenticate_def beginAuthentication_def n Let_def case_prod_unfold split: bool.splits if_splits)
  consider (locked) b | (dead) "\<not> b" "s_dead s" | (ask) "\<not> b" "\<not> s_dead s" by blast
  then show ?thesis
  proof cases
    case locked
    then show ?thesis using a b es by auto
  next
    case dead
    then show ?thesis using a b es locked_core [OF core_emit]
      by (auto simp: say_def) (auto simp: emit_def)
  next
    case ask
    have "emits {K_other} ?s2 s'" using a ask by (auto intro: emits_report)
    then obtain es' where es': "s_log s' = s_log ?s2 @ es'" by (auto simp: t_emits_def)
    have "s_log ?s2 = s_log s @ es @ [Hidl (H_authenticate op (s_userId s))]"
      using es(1) by (simp add: call_def answer_def ask_def)
    moreover have "view s' = view ?s1" using a ask by (simp add: frame_simps)
    then have "\<not> locked (s_lockout s')" using ask b locked_core [of "s_lockout s'" t] by (simp add: view_def)
    ultimately show ?thesis using es' ask by auto
  qed
qed

theorem authenticate_asks_only_when_open_witness:
  "\<exists>sig s' es. authenticate 7 sample_session = (sig, s') \<and> s_log s' = s_log sample_session @ es \<and>
     K_authenticate \<in> kind ` set es"
proof -
  obtain sig s' where a: "authenticate 7 sample_session = (sig, s')" by (cases "authenticate 7 sample_session")
  have inv: "tracker_inv (s_lockout sample_session)"
    using core_cong [of "s_lockout sample_session" "sample_tracker 2 2 0 0"] sample_tracker_inv by simp
  have "s' = snd (call (H_authenticate 7 (s_userId sample_session)) (sample_session\<lparr>c_authenticating := True\<rparr>))"
    using sample_authenticating [of 7] a by simp
  then have "core (s_lockout s') = core (s_lockout sample_session)"
    by (simp add: call_def answer_def ask_def core_log)
  then have "\<not> locked (s_lockout s')" using locked_core [of "s_lockout s'" "s_lockout sample_session"] by simp
  then show ?thesis using a authenticate_asks_only_when_open [OF inv a] by auto
qed

text \<open>
  with working storage, \<open>resetLockout\<close> ends a lockout exactly when the token's timestamp is not
  negative, not in the future and at most 60 seconds old, and then it says so; otherwise the policy
  state is untouched and an error is reported.
\<close>

theorem reset_needs_recent_token:
  assumes "script (t_disk (s_lockout s)) = []" and "locked (s_lockout s)"
  shows "if 0 \<le> sint (timestampMs h) \<and> sint (timestampMs h) \<le> now \<and> now - sint (timestampMs h) \<le> 60000
    then \<not> locked (s_lockout (resetLockout now h s)) \<and>
      last (s_log (resetLockout now h s)) = Cb (s_cb s) OnLockoutCleared
    else core (s_lockout (resetLockout now h s)) = core (s_lockout s) \<and>
      s_log (resetLockout now h s) = s_log s @ [Cb (s_cb s) (OnError UNABLE_TO_PROCESS 0)]"
  using reset_clean [OF assms(1), of "s_cb s"]
  by (auto simp: resetLockout_def hat_recent_def kMaxResetLockoutHatAgeMs_def Let_def say_def core_emit emit_def core_log)

theorem reset_needs_recent_token_witness:
  "\<not> locked (s_lockout (resetLockout 70000
      \<lparr>challenge = 0, hat_userId = 0, authenticatorId = 0, authenticatorType = 0, timestampMs = 10000, mac = []\<rparr>
      (sample_session\<lparr>s_lockout := sample_tracker 20 0 0 0\<rparr>)))"
  using reset_needs_recent_token [of "sample_session\<lparr>s_lockout := sample_tracker 20 0 0 0\<rparr>"
      "\<lparr>challenge = 0, hat_userId = 0, authenticatorId = 0, authenticatorType = 0, timestampMs = 10000, mac = []\<rparr>" 70000]
  by (simp add: locked_def)

text \<open>
  A HAL that dies is reported to the client once: a second death notice of the same session says
  nothing, whatever happened in between.
\<close>

theorem death_reported_once:
  "s_log (onHidlDied (s_run k ops (onHidlDied s))) = s_log (s_run k ops (onHidlDied s))"
proof -
  have "s_hwUnavailableNotified (onHidlDied s)" by (simp add: onHidlDied_def Let_def)
  then have n: "s_hwUnavailableNotified (s_run k ops (onHidlDied s))" by (rule notified_run)
  show ?thesis using n log_deactivate [of "(s_run k ops (onHidlDied s))\<lparr>s_dead := True\<rparr>"]
    by (simp add: onHidlDied_def [of "s_run k ops (onHidlDied s)"] Let_def)
qed

text \<open>The HAL's answer to \<open>enumerate\<close>: one call per template, the remaining count going down to 0.\<close>

fun enum_calls :: "u32 list \<Rightarrow> session \<Rightarrow> session" where
  "enum_calls [] s = s"
| "enum_calls (fid # fids) s = enum_calls fids (onEnumerate fid (of_nat (length fids)) s)"

lemma enum_calls_log:
  assumes "c_active s" "fids \<noteq> []" "length fids < 2 ^ 32"
  shows "s_log (enum_calls fids s) =
      s_log s @ [Cb (s_cb s) (OnEnrollmentsEnumerated (c_enumerated s @ map sint (filter (\<lambda>f. f \<noteq> 0) fids)))] \<and>
    c_enumerated (enum_calls fids s) = []"
  using assms
proof (induction fids arbitrary: s)
  case (Cons fid fids)
  show ?case
  proof (cases "fids = []")
    case True
    then show ?thesis using Cons.prems by (simp add: onEnumerate_def say_def emit_def)
  next
    case False
    let ?s1 = "onEnumerate fid (of_nat (length fids)) s"
    have "(of_nat (length fids) :: u32) \<noteq> 0"
      using False Cons.prems(3) by (simp add: word_of_nat_eq_0_iff nat_dvd_not_less)
    then have "?s1 = (if fid \<noteq> 0 then s\<lparr>c_enumerated := c_enumerated s @ [sint fid]\<rparr> else s)"
      using Cons.prems(1) by (simp add: onEnumerate_def)
    then show ?thesis using Cons.IH [of ?s1] False Cons.prems by auto
  qed
qed simp

text \<open>
  An enumeration is reported to the client once, at its end, with exactly the ids the HAL
  listed, in its order, without the id 0; the next enumeration starts from an empty list.
\<close>

theorem enumeration_reported:
  assumes "c_active s" and "c_enumerated s = []" and "fids \<noteq> []" and "length fids < 2 ^ 32"
  shows "s_log (enum_calls fids s) =
      s_log s @ [Cb (s_cb s) (OnEnrollmentsEnumerated (map sint (filter (\<lambda>f. f \<noteq> 0) fids)))] \<and>
    c_enumerated (enum_calls fids s) = []"
  using enum_calls_log [OF assms(1,3,4)] assms(2) by simp

theorem enumeration_reported_witness:
  "s_log (enum_calls [4, 0, 9] sample_session) = s_log sample_session @ [Cb 1 (OnEnrollmentsEnumerated [4, 9])]"
  using enumeration_reported [of sample_session "[4, 0, 9]"] by simp

end
