(* ===== verification/Fingerprint_Bridge.thy ===== *)
theory Fingerprint_Bridge
  imports Session_Bridge
begin

text \<open>
  The AIDL service object, \<^verbatim>\<open>src/bridges/fingerprint/FingerprintBridge.cpp\<close>: it creates the
  sessions and keeps one lockout tracker per user for all of them.

  A tracker is a shared object: \<open>lockouts_\<close> and the session of its user point to the same one. Here
  the tracker of the current session lives in that session and \<open>settle\<close> writes it back before the map
  is used, so the entry of the current user is always read through \<open>tracker_of\<close>. Sessions that were
  replaced while still open (a contract violation that the code logs) are not followed further.
\<close>

definition kSensorId :: int where
  "kSensorId = 0"

definition kMaxEnrollments :: int where
  "kMaxEnrollments = 5"

datatype sensor_type = REAR | POWER_BUTTON | HOME_BUTTON | UNDER_DISPLAY_OPTICAL

text \<open>The argument is the value of \<open>ro.vendor.mindone.fp.type\<close>, \<open>None\<close> when it is not set.\<close>

definition sensorTypeFromProp :: "string option \<Rightarrow> sensor_type" where
  "sensorTypeFromProp prop =
     (let t = (case prop of None \<Rightarrow> ''rear'' | Some p \<Rightarrow> p)
      in if t = ''side'' then POWER_BUTTON
         else if t = ''home'' then HOME_BUTTON
         else if t = ''udfps'' then UNDER_DISPLAY_OPTICAL
         else REAR)"

record sensor_props =
  sensorId :: int
  sensorStrong :: bool
  maxEnrollmentsPerUser :: int
  sensorType :: sensor_type
  sensorLocations :: nat
  supportsNavigationGestures :: bool
  supportsDetectInteraction :: bool
  halHandlesDisplayTouches :: bool
  halControlsIllumination :: bool

definition getSensorProps :: "string option \<Rightarrow> sensor_props list" where
  "getSensorProps prop =
     [\<lparr>sensorId = kSensorId, sensorStrong = True, maxEnrollmentsPerUser = kMaxEnrollments,
       sensorType = sensorTypeFromProp prop, sensorLocations = 1, supportsNavigationGestures = False,
       supportsDetectInteraction = False, halHandlesDisplayTouches = False,
       halControlsIllumination = False\<rparr>]"

record bridge =
  b_hidl :: bool
  b_lockouts :: "u32 \<Rightarrow> tracker option"
  b_session :: "session option"

definition settle :: "bridge \<Rightarrow> bridge" where
  "settle b =
     (case b_session b of
        None \<Rightarrow> b
      | Some s \<Rightarrow> b\<lparr>b_lockouts := (b_lockouts b)(s_userId s \<mapsto> s_lockout s)\<rparr>)"

definition tracker_of :: "u32 \<Rightarrow> bridge \<Rightarrow> tracker option" where
  "tracker_of u b = b_lockouts (settle b) u"

text \<open>What a new tracker starts from: its directory and its clocks.\<close>

type_synonym tracker_env = "disk \<times> (nat \<Rightarrow> int) \<times> (nat \<Rightarrow> (int \<times> int) option)"

definition createSession ::
  "int \<Rightarrow> u32 \<Rightarrow> nat option \<Rightarrow> tracker_env \<Rightarrow> (nat \<Rightarrow> hidl_reply) \<Rightarrow> bridge \<Rightarrow> binder_status \<times> bridge" where
  "createSession sensor userId cb env replies b =
     (if sensor \<noteq> kSensorId \<or> sint userId < 0 \<or> cb = None then (EX_ILLEGAL_ARGUMENT, b)
      else
        let b1 = settle b;
            lockout = (case b_lockouts b1 userId of
                         Some t \<Rightarrow> t
                       | None \<Rightarrow> (case env of (w, steady, real) \<Rightarrow> construct userId w steady real));
            b2 = b1\<lparr>b_lockouts := (b_lockouts b1)(userId \<mapsto> lockout)\<rparr>
        in (OK, b2\<lparr>b_session := Some (new_session (b_hidl b2) userId (the cb) lockout replies)\<rparr>))"

definition onHidlStateChanged :: "bool \<Rightarrow> bridge \<Rightarrow> bridge" where
  "onHidlStateChanged available b =
     (if available then b
      else b\<lparr>b_session := map_option onHidlDied (b_session b)\<rparr>)"

subsection \<open>Lemmas\<close>

lemma user_view: "s_userId (say e s) = s_userId s" "s_userId (snd (call c s)) = s_userId s"
  by (simp_all add: say_def call_def answer_def ask_def)

lemma user_removal_events: "s_userId (fold removal_event es s) = s_userId s"
proof (induction es arbitrary: s)
  case (Cons e es)
  then show ?case by (cases e) (simp_all add: user_view ask_def)
qed simp

lemma user_deactivate: "s_userId (deactivate s) = s_userId s"
  by (auto simp: deactivate_def Let_def removal_worker_def answer_def user_removal_events split: option.split)

lemma user_new_session: "s_userId (new_session hidl u cb t replies) = u"
  by (rule new_session_eq [of hidl u cb t replies]) (auto simp: user_deactivate)

lemma new_session_tracker: "core (s_lockout (new_session hidl u cb t replies)) = core (attach cb t)"
proof (rule new_session_eq [of hidl u cb t replies])
  fix s
  assume "view s = view (initial_session hidl u cb t replies)"
  then have "core (s_lockout s) = core (attach cb t)" by (simp add: view_def initial_session_def)
  moreover have "core (s_lockout (deactivate s)) = core (s_lockout s)"
    using view_deactivate [of s] by (simp add: view_def)
  moreover assume "new_session hidl u cb t replies = s \<or> new_session hidl u cb t replies = deactivate s"
  ultimately show ?thesis by auto
qed

lemma new_session_advances:
  assumes "tracker_inv t"
  shows "t_failed t \<le> t_failed (s_lockout (new_session hidl u cb t replies)) \<and>
    tracker_inv (s_lockout (new_session hidl u cb t replies))"
proof -
  have "advances t (attach cb t)" using t_step_advances [of t "Attach cb"] assms by simp
  then show ?thesis
    using core_cong [OF new_session_tracker [of hidl u cb t replies]] by (simp add: advances_def)
qed

lemma createSession_ok:
  assumes "tracker_of u b = Some t" "sensor = kSensorId" "0 \<le> sint u" "cb = Some c"
  shows "createSession sensor u cb env replies b =
    (OK, (settle b)\<lparr>b_lockouts := (b_lockouts (settle b))(u \<mapsto> t),
                    b_session := Some (new_session (b_hidl b) u c t replies)\<rparr>)"
proof -
  have "b_hidl (settle b) = b_hidl b" by (simp add: settle_def split: option.split)
  then show ?thesis using assms by (simp add: createSession_def Let_def tracker_of_def)
qed

lemma tracker_of_new:
  "tracker_of v (b\<lparr>b_lockouts := m, b_session := Some s\<rparr>) = (m(s_userId s \<mapsto> s_lockout s)) v"
  by (simp add: tracker_of_def settle_def)

subsection \<open>Properties\<close>



end
