(* ===== verification/Pixel_Format.thy ===== *)
theory Pixel_Format
  imports Prelude "HOL-Library.Signed_Division"
begin

text \<open>
  Pixel formats and four-character codes of the video codec,
  \<^verbatim>\<open>src/codec2/common/VideoPixelFormat.cpp\<close> and \<^verbatim>\<open>src/codec2/common/Fourcc.cpp\<close>: the tables
  between formats, codes and plane layouts, the buffer sizes computed from them, and the printing of
  codes. Each \<open>switch\<close> is a function with one equation per enumerator.
\<close>

subsection \<open>VideoPixelFormat.cpp\<close>

datatype VideoPixelFormat =
    PF_I420 | PF_YV12 | PF_I422 | PF_I420A | PF_I444 | PF_NV12 | PF_NV21 | PF_YUY2 | PF_ARGB
  | PF_XRGB | PF_RGB24 | PF_MJPEG | PF_Y16 | PF_ABGR | PF_XBGR | PF_P016LE | PF_XR30 | PF_XB30
  | PF_BGRA | PF_RGBA | PF_P010 | PF_YUV420P9 | PF_YUV420P10 | PF_YUV422P9 | PF_YUV422P10
  | PF_YUV444P9 | PF_YUV444P10 | PF_YUV420P12 | PF_YUV422P12 | PF_YUV444P12 | PF_UNKNOWN

fun videoPixelFormatToString :: "VideoPixelFormat \<Rightarrow> string" where
  "videoPixelFormatToString PF_I420 = ''I420''"
| "videoPixelFormatToString PF_YV12 = ''YV12''"
| "videoPixelFormatToString PF_I422 = ''I422''"
| "videoPixelFormatToString PF_I420A = ''I420A''"
| "videoPixelFormatToString PF_I444 = ''I444''"
| "videoPixelFormatToString PF_NV12 = ''NV12''"
| "videoPixelFormatToString PF_NV21 = ''NV21''"
| "videoPixelFormatToString PF_YUY2 = ''YUY2''"
| "videoPixelFormatToString PF_ARGB = ''ARGB''"
| "videoPixelFormatToString PF_XRGB = ''XRGB''"
| "videoPixelFormatToString PF_RGB24 = ''RGB24''"
| "videoPixelFormatToString PF_MJPEG = ''MJPEG''"
| "videoPixelFormatToString PF_YUV420P9 = ''YUV420P9''"
| "videoPixelFormatToString PF_YUV420P10 = ''YUV420P10''"
| "videoPixelFormatToString PF_YUV422P9 = ''YUV422P9''"
| "videoPixelFormatToString PF_YUV422P10 = ''YUV422P10''"
| "videoPixelFormatToString PF_YUV444P9 = ''YUV444P9''"
| "videoPixelFormatToString PF_YUV444P10 = ''YUV444P10''"
| "videoPixelFormatToString PF_YUV420P12 = ''YUV420P12''"
| "videoPixelFormatToString PF_YUV422P12 = ''YUV422P12''"
| "videoPixelFormatToString PF_YUV444P12 = ''YUV444P12''"
| "videoPixelFormatToString PF_Y16 = ''Y16''"
| "videoPixelFormatToString PF_ABGR = ''ABGR''"
| "videoPixelFormatToString PF_XBGR = ''XBGR''"
| "videoPixelFormatToString PF_P016LE = ''P016LE''"
| "videoPixelFormatToString PF_XR30 = ''XR30''"
| "videoPixelFormatToString PF_XB30 = ''XB30''"
| "videoPixelFormatToString PF_BGRA = ''BGRA''"
| "videoPixelFormatToString PF_RGBA = ''BGRA''"
| "videoPixelFormatToString PF_P010 = ''BGRA''"
| "videoPixelFormatToString PF_UNKNOWN = ''UNKNOWN''"

text \<open>
  \<open>std::hex\<close> output. The stream is constructed from \<open>"0x"\<close> with the write position at its start, so
  the digits overwrite that prefix.
\<close>

definition hex_digit :: "nat \<Rightarrow> char" where
  "hex_digit d = char_of (if d < 10 then 48 + d else 87 + d)"

fun hex_nat :: "nat \<Rightarrow> string" where
  "hex_nat n = (if n < 16 then [hex_digit n] else hex_nat (n div 16) @ [hex_digit (n mod 16)])"

declare hex_nat.simps [simp del]

definition hex_stream :: "nat \<Rightarrow> string" where
  "hex_stream n = hex_nat n @ drop (length (hex_nat n)) ''0x''"

text \<open>The loop of \<open>fourccToString\<close>: \<open>i\<close> of the four characters are done and kept in \<open>result\<close>.\<close>

function fourcc_loop :: "nat \<Rightarrow> u32 \<Rightarrow> string \<Rightarrow> string" where
  "fourcc_loop i fourcc result =
     (if i < 4 then
        (let c = unat (fourcc AND 0xFF)
         in if c \<le> 0x1f \<or> c \<ge> 0x7f then hex_stream (unat fourcc)
            else fourcc_loop (i + 1) (drop_bit 8 fourcc) (result[i := char_of c]))
      else result)"
  by auto
termination by (relation "measure (\<lambda>(i, _). 4 - i)") auto

definition fourccToString :: "u32 \<Rightarrow> string" where
  "fourccToString fourcc = fourcc_loop 0 fourcc ''0000''"

fun bitDepth :: "VideoPixelFormat \<Rightarrow> nat" where
  "bitDepth PF_I420 = 8"
| "bitDepth PF_YV12 = 8"
| "bitDepth PF_I422 = 8"
| "bitDepth PF_I420A = 8"
| "bitDepth PF_I444 = 8"
| "bitDepth PF_NV12 = 8"
| "bitDepth PF_NV21 = 8"
| "bitDepth PF_YUY2 = 8"
| "bitDepth PF_ARGB = 8"
| "bitDepth PF_XRGB = 8"
| "bitDepth PF_RGB24 = 8"
| "bitDepth PF_MJPEG = 8"
| "bitDepth PF_ABGR = 8"
| "bitDepth PF_XBGR = 8"
| "bitDepth PF_BGRA = 8"
| "bitDepth PF_RGBA = 8"
| "bitDepth PF_YUV420P9 = 9"
| "bitDepth PF_YUV422P9 = 9"
| "bitDepth PF_YUV444P9 = 9"
| "bitDepth PF_YUV420P10 = 10"
| "bitDepth PF_YUV422P10 = 10"
| "bitDepth PF_YUV444P10 = 10"
| "bitDepth PF_XR30 = 10"
| "bitDepth PF_XB30 = 10"
| "bitDepth PF_P010 = 10"
| "bitDepth PF_YUV420P12 = 12"
| "bitDepth PF_YUV422P12 = 12"
| "bitDepth PF_YUV444P12 = 12"
| "bitDepth PF_Y16 = 16"
| "bitDepth PF_P016LE = 16"
| "bitDepth PF_UNKNOWN = 0"

fun RequiresEvenSizeAllocation :: "VideoPixelFormat \<Rightarrow> bool" where
  "RequiresEvenSizeAllocation PF_ARGB = False"
| "RequiresEvenSizeAllocation PF_XRGB = False"
| "RequiresEvenSizeAllocation PF_RGB24 = False"
| "RequiresEvenSizeAllocation PF_Y16 = False"
| "RequiresEvenSizeAllocation PF_ABGR = False"
| "RequiresEvenSizeAllocation PF_XBGR = False"
| "RequiresEvenSizeAllocation PF_XR30 = False"
| "RequiresEvenSizeAllocation PF_XB30 = False"
| "RequiresEvenSizeAllocation PF_BGRA = False"
| "RequiresEvenSizeAllocation PF_RGBA = False"
| "RequiresEvenSizeAllocation PF_NV12 = True"
| "RequiresEvenSizeAllocation PF_NV21 = True"
| "RequiresEvenSizeAllocation PF_I420 = True"
| "RequiresEvenSizeAllocation PF_MJPEG = True"
| "RequiresEvenSizeAllocation PF_YUY2 = True"
| "RequiresEvenSizeAllocation PF_YV12 = True"
| "RequiresEvenSizeAllocation PF_I422 = True"
| "RequiresEvenSizeAllocation PF_I444 = True"
| "RequiresEvenSizeAllocation PF_YUV420P9 = True"
| "RequiresEvenSizeAllocation PF_YUV422P9 = True"
| "RequiresEvenSizeAllocation PF_YUV444P9 = True"
| "RequiresEvenSizeAllocation PF_YUV420P10 = True"
| "RequiresEvenSizeAllocation PF_YUV422P10 = True"
| "RequiresEvenSizeAllocation PF_YUV444P10 = True"
| "RequiresEvenSizeAllocation PF_YUV420P12 = True"
| "RequiresEvenSizeAllocation PF_YUV422P12 = True"
| "RequiresEvenSizeAllocation PF_YUV444P12 = True"
| "RequiresEvenSizeAllocation PF_I420A = True"
| "RequiresEvenSizeAllocation PF_P016LE = True"
| "RequiresEvenSizeAllocation PF_P010 = True"
| "RequiresEvenSizeAllocation PF_UNKNOWN = False"

fun numPlanes :: "VideoPixelFormat \<Rightarrow> nat" where
  "numPlanes PF_YUY2 = 1"
| "numPlanes PF_ARGB = 1"
| "numPlanes PF_BGRA = 1"
| "numPlanes PF_RGBA = 1"
| "numPlanes PF_XRGB = 1"
| "numPlanes PF_RGB24 = 1"
| "numPlanes PF_MJPEG = 1"
| "numPlanes PF_Y16 = 1"
| "numPlanes PF_ABGR = 1"
| "numPlanes PF_XBGR = 1"
| "numPlanes PF_XR30 = 1"
| "numPlanes PF_XB30 = 1"
| "numPlanes PF_NV12 = 2"
| "numPlanes PF_NV21 = 2"
| "numPlanes PF_P016LE = 2"
| "numPlanes PF_P010 = 2"
| "numPlanes PF_I420 = 3"
| "numPlanes PF_YV12 = 3"
| "numPlanes PF_I422 = 3"
| "numPlanes PF_I444 = 3"
| "numPlanes PF_YUV420P9 = 3"
| "numPlanes PF_YUV422P9 = 3"
| "numPlanes PF_YUV444P9 = 3"
| "numPlanes PF_YUV420P10 = 3"
| "numPlanes PF_YUV422P10 = 3"
| "numPlanes PF_YUV444P10 = 3"
| "numPlanes PF_YUV420P12 = 3"
| "numPlanes PF_YUV422P12 = 3"
| "numPlanes PF_YUV444P12 = 3"
| "numPlanes PF_I420A = 4"
| "numPlanes PF_UNKNOWN = 0"

text \<open>
  What the code uses of other libraries: \<open>base::bits::Align\<close> and the default \<open>ui::Size\<close>. Sizes are
  pairs of \<open>int32_t\<close> widths and heights, as integers.
\<close>

type_synonym size = "int \<times> int"

record gfx =
  Align :: "int \<Rightarrow> int \<Rightarrow> int"
  Size_default :: size

fun bytesPerElement :: "VideoPixelFormat \<Rightarrow> nat \<Rightarrow> int" where
  "bytesPerElement PF_ARGB plane = 4"
| "bytesPerElement PF_BGRA plane = 4"
| "bytesPerElement PF_RGBA plane = 4"
| "bytesPerElement PF_XRGB plane = 4"
| "bytesPerElement PF_ABGR plane = 4"
| "bytesPerElement PF_XBGR plane = 4"
| "bytesPerElement PF_XR30 plane = 4"
| "bytesPerElement PF_XB30 plane = 4"
| "bytesPerElement PF_RGB24 plane = 3"
| "bytesPerElement PF_Y16 plane = 2"
| "bytesPerElement PF_YUY2 plane = 2"
| "bytesPerElement PF_YUV420P9 plane = 2"
| "bytesPerElement PF_YUV422P9 plane = 2"
| "bytesPerElement PF_YUV444P9 plane = 2"
| "bytesPerElement PF_YUV420P10 plane = 2"
| "bytesPerElement PF_YUV422P10 plane = 2"
| "bytesPerElement PF_YUV444P10 plane = 2"
| "bytesPerElement PF_YUV420P12 plane = 2"
| "bytesPerElement PF_YUV422P12 plane = 2"
| "bytesPerElement PF_YUV444P12 plane = 2"
| "bytesPerElement PF_P016LE plane = 2"
| "bytesPerElement PF_P010 plane = 2"
| "bytesPerElement PF_NV12 plane = [1, 2] ! plane"
| "bytesPerElement PF_NV21 plane = [1, 2] ! plane"
| "bytesPerElement PF_YV12 plane = 1"
| "bytesPerElement PF_I420 plane = 1"
| "bytesPerElement PF_I422 plane = 1"
| "bytesPerElement PF_I420A plane = 1"
| "bytesPerElement PF_I444 plane = 1"
| "bytesPerElement PF_MJPEG plane = 0"
| "bytesPerElement PF_UNKNOWN plane = 0"

fun chroma_sample :: "gfx \<Rightarrow> VideoPixelFormat \<Rightarrow> size" where
  "chroma_sample g PF_I444 = (1, 1)"
| "chroma_sample g PF_YUV444P9 = (1, 1)"
| "chroma_sample g PF_YUV444P10 = (1, 1)"
| "chroma_sample g PF_YUV444P12 = (1, 1)"
| "chroma_sample g PF_Y16 = (1, 1)"
| "chroma_sample g PF_I422 = (2, 1)"
| "chroma_sample g PF_YUV422P9 = (2, 1)"
| "chroma_sample g PF_YUV422P10 = (2, 1)"
| "chroma_sample g PF_YUV422P12 = (2, 1)"
| "chroma_sample g PF_YV12 = (2, 2)"
| "chroma_sample g PF_I420 = (2, 2)"
| "chroma_sample g PF_I420A = (2, 2)"
| "chroma_sample g PF_NV12 = (2, 2)"
| "chroma_sample g PF_NV21 = (2, 2)"
| "chroma_sample g PF_YUV420P9 = (2, 2)"
| "chroma_sample g PF_YUV420P10 = (2, 2)"
| "chroma_sample g PF_YUV420P12 = (2, 2)"
| "chroma_sample g PF_P016LE = (2, 2)"
| "chroma_sample g PF_P010 = (2, 2)"
| "chroma_sample g PF_UNKNOWN = Size_default g"
| "chroma_sample g PF_YUY2 = Size_default g"
| "chroma_sample g PF_ARGB = Size_default g"
| "chroma_sample g PF_XRGB = Size_default g"
| "chroma_sample g PF_RGB24 = Size_default g"
| "chroma_sample g PF_MJPEG = Size_default g"
| "chroma_sample g PF_ABGR = Size_default g"
| "chroma_sample g PF_XBGR = Size_default g"
| "chroma_sample g PF_XR30 = Size_default g"
| "chroma_sample g PF_XB30 = Size_default g"
| "chroma_sample g PF_BGRA = Size_default g"
| "chroma_sample g PF_RGBA = Size_default g"


definition isValidPlane :: "VideoPixelFormat \<Rightarrow> nat \<Rightarrow> bool" where
  "isValidPlane format plane \<longleftrightarrow> plane < numPlanes format"

definition SampleSize :: "gfx \<Rightarrow> VideoPixelFormat \<Rightarrow> nat \<Rightarrow> size" where
  "SampleSize g format plane =
     (if plane = 0 \<or> plane = 3 then (1, 1)
      else if plane = 1 \<or> plane = 2 then chroma_sample g format
      else Size_default g)"

definition planeSize :: "gfx \<Rightarrow> VideoPixelFormat \<Rightarrow> nat \<Rightarrow> size \<Rightarrow> size" where
  "planeSize g format plane coded_size =
     (let (width, height) = (if RequiresEvenSizeAllocation format
                             then (Align g (fst coded_size) 2, Align g (snd coded_size) 2)
                             else coded_size);
          subsample = SampleSize g format plane
      in ((bytesPerElement format plane * width) sdiv fst subsample, height sdiv snd subsample))"

definition planeHorizontalBitsPerPixel :: "gfx \<Rightarrow> VideoPixelFormat \<Rightarrow> nat \<Rightarrow> int" where
  "planeHorizontalBitsPerPixel g format plane =
     (8 * bytesPerElement format plane) sdiv fst (SampleSize g format plane)"

definition planeBitsPerPixel :: "gfx \<Rightarrow> VideoPixelFormat \<Rightarrow> nat \<Rightarrow> int" where
  "planeBitsPerPixel g format plane =
     planeHorizontalBitsPerPixel g format plane sdiv snd (SampleSize g format plane)"

text \<open>The loop over the planes, on mathematical integers; \<open>allocation_bounded\<close> shows when \<open>int\<close> suffices.\<close>

definition allocationSize :: "gfx \<Rightarrow> VideoPixelFormat \<Rightarrow> size \<Rightarrow> int" where
  "allocationSize g format coded_size =
     foldl (\<lambda>total i. total + (case planeSize g format i coded_size of (w, h) \<Rightarrow> w * h)) 0
       [0..<numPlanes format]"

subsection \<open>Fourcc.cpp\<close>

datatype fourcc =
    FC_AR24 | FC_AB24 | FC_XR24 | FC_XB24 | FC_RGB4 | FC_BGR4 | FC_YU12 | FC_YV12 | FC_YM12
  | FC_YM21 | FC_YUYV | FC_NV12 | FC_NV21 | FC_NM12 | FC_NM21 | FC_YM16 | FC_MT21 | FC_MM21
  | FC_P010

definition composeFourcc :: "char \<Rightarrow> char \<Rightarrow> char \<Rightarrow> char \<Rightarrow> u32" where
  "composeFourcc a b c d =
     of_char a OR push_bit 8 (of_char b) OR push_bit 16 (of_char c) OR push_bit 24 (of_char d)"

fun fourcc_value :: "fourcc \<Rightarrow> u32" where
  "fourcc_value FC_AR24 = composeFourcc CHR ''A'' CHR ''R'' CHR ''2'' CHR ''4''"
| "fourcc_value FC_AB24 = composeFourcc CHR ''A'' CHR ''B'' CHR ''2'' CHR ''4''"
| "fourcc_value FC_XR24 = composeFourcc CHR ''X'' CHR ''R'' CHR ''2'' CHR ''4''"
| "fourcc_value FC_XB24 = composeFourcc CHR ''X'' CHR ''B'' CHR ''2'' CHR ''4''"
| "fourcc_value FC_RGB4 = composeFourcc CHR ''R'' CHR ''G'' CHR ''B'' CHR ''4''"
| "fourcc_value FC_BGR4 = composeFourcc CHR ''B'' CHR ''G'' CHR ''R'' CHR ''4''"
| "fourcc_value FC_YU12 = composeFourcc CHR ''Y'' CHR ''U'' CHR ''1'' CHR ''2''"
| "fourcc_value FC_YV12 = composeFourcc CHR ''Y'' CHR ''V'' CHR ''1'' CHR ''2''"
| "fourcc_value FC_YM12 = composeFourcc CHR ''Y'' CHR ''M'' CHR ''1'' CHR ''2''"
| "fourcc_value FC_YM21 = composeFourcc CHR ''Y'' CHR ''M'' CHR ''2'' CHR ''1''"
| "fourcc_value FC_YUYV = composeFourcc CHR ''Y'' CHR ''U'' CHR ''Y'' CHR ''V''"
| "fourcc_value FC_NV12 = composeFourcc CHR ''N'' CHR ''V'' CHR ''1'' CHR ''2''"
| "fourcc_value FC_NV21 = composeFourcc CHR ''N'' CHR ''V'' CHR ''2'' CHR ''1''"
| "fourcc_value FC_NM12 = composeFourcc CHR ''N'' CHR ''M'' CHR ''1'' CHR ''2''"
| "fourcc_value FC_NM21 = composeFourcc CHR ''N'' CHR ''M'' CHR ''2'' CHR ''1''"
| "fourcc_value FC_YM16 = composeFourcc CHR ''Y'' CHR ''M'' CHR ''1'' CHR ''6''"
| "fourcc_value FC_MT21 = composeFourcc CHR ''M'' CHR ''T'' CHR ''2'' CHR ''1''"
| "fourcc_value FC_MM21 = composeFourcc CHR ''M'' CHR ''M'' CHR ''2'' CHR ''1''"
| "fourcc_value FC_P010 = composeFourcc CHR ''P'' CHR ''0'' CHR ''1'' CHR ''0''"

definition all_fourccs :: "fourcc list" where
  "all_fourccs =
     [FC_AR24, FC_AB24, FC_XR24, FC_XB24, FC_RGB4, FC_BGR4, FC_YU12, FC_YV12, FC_YM12, FC_YM21, FC_YUYV, FC_NV12, FC_NV21, FC_NM12, FC_NM21, FC_YM16, FC_MT21, FC_MM21, FC_P010]"

text \<open>The \<open>switch\<close> over the enumerators' values.\<close>

definition fromUint32 :: "u32 \<Rightarrow> fourcc option" where
  "fromUint32 fourcc = find (\<lambda>v. fourcc_value v = fourcc) all_fourccs"

fun from_pixel_single :: "VideoPixelFormat \<Rightarrow> fourcc option" where
  "from_pixel_single PF_ARGB = Some FC_AR24"
| "from_pixel_single PF_ABGR = Some FC_AB24"
| "from_pixel_single PF_XRGB = Some FC_XR24"
| "from_pixel_single PF_XBGR = Some FC_XB24"
| "from_pixel_single PF_BGRA = Some FC_RGB4"
| "from_pixel_single PF_RGBA = Some FC_BGR4"
| "from_pixel_single PF_I420 = Some FC_YU12"
| "from_pixel_single PF_YV12 = Some FC_YV12"
| "from_pixel_single PF_YUY2 = Some FC_YUYV"
| "from_pixel_single PF_NV12 = Some FC_NV12"
| "from_pixel_single PF_NV21 = Some FC_NV21"
| "from_pixel_single PF_P010 = Some FC_P010"
| "from_pixel_single PF_I422 = None"
| "from_pixel_single PF_I420A = None"
| "from_pixel_single PF_I444 = None"
| "from_pixel_single PF_RGB24 = None"
| "from_pixel_single PF_MJPEG = None"
| "from_pixel_single PF_YUV420P9 = None"
| "from_pixel_single PF_YUV420P10 = None"
| "from_pixel_single PF_YUV422P9 = None"
| "from_pixel_single PF_YUV422P10 = None"
| "from_pixel_single PF_YUV444P9 = None"
| "from_pixel_single PF_YUV444P10 = None"
| "from_pixel_single PF_YUV420P12 = None"
| "from_pixel_single PF_YUV422P12 = None"
| "from_pixel_single PF_YUV444P12 = None"
| "from_pixel_single PF_Y16 = None"
| "from_pixel_single PF_P016LE = None"
| "from_pixel_single PF_XR30 = None"
| "from_pixel_single PF_XB30 = None"
| "from_pixel_single PF_UNKNOWN = None"

fun from_pixel_multi :: "VideoPixelFormat \<Rightarrow> fourcc option" where
  "from_pixel_multi PF_I420 = Some FC_YM12"
| "from_pixel_multi PF_YV12 = Some FC_YM21"
| "from_pixel_multi PF_NV12 = Some FC_NM12"
| "from_pixel_multi PF_I422 = Some FC_YM16"
| "from_pixel_multi PF_NV21 = Some FC_NM21"
| "from_pixel_multi PF_I420A = None"
| "from_pixel_multi PF_I444 = None"
| "from_pixel_multi PF_YUY2 = None"
| "from_pixel_multi PF_ARGB = None"
| "from_pixel_multi PF_XRGB = None"
| "from_pixel_multi PF_RGB24 = None"
| "from_pixel_multi PF_MJPEG = None"
| "from_pixel_multi PF_YUV420P9 = None"
| "from_pixel_multi PF_YUV420P10 = None"
| "from_pixel_multi PF_YUV422P9 = None"
| "from_pixel_multi PF_YUV422P10 = None"
| "from_pixel_multi PF_YUV444P9 = None"
| "from_pixel_multi PF_YUV444P10 = None"
| "from_pixel_multi PF_YUV420P12 = None"
| "from_pixel_multi PF_YUV422P12 = None"
| "from_pixel_multi PF_YUV444P12 = None"
| "from_pixel_multi PF_Y16 = None"
| "from_pixel_multi PF_ABGR = None"
| "from_pixel_multi PF_XBGR = None"
| "from_pixel_multi PF_P016LE = None"
| "from_pixel_multi PF_XR30 = None"
| "from_pixel_multi PF_XB30 = None"
| "from_pixel_multi PF_BGRA = None"
| "from_pixel_multi PF_RGBA = None"
| "from_pixel_multi PF_P010 = None"
| "from_pixel_multi PF_UNKNOWN = None"

definition fromVideoPixelFormat :: "VideoPixelFormat \<Rightarrow> bool \<Rightarrow> fourcc option" where
  "fromVideoPixelFormat pixelFormat singlePlanar =
     (if singlePlanar then from_pixel_single pixelFormat else from_pixel_multi pixelFormat)"

fun toVideoPixelFormat :: "fourcc \<Rightarrow> VideoPixelFormat" where
  "toVideoPixelFormat FC_AR24 = PF_ARGB"
| "toVideoPixelFormat FC_AB24 = PF_ABGR"
| "toVideoPixelFormat FC_XR24 = PF_XRGB"
| "toVideoPixelFormat FC_XB24 = PF_XBGR"
| "toVideoPixelFormat FC_RGB4 = PF_BGRA"
| "toVideoPixelFormat FC_BGR4 = PF_RGBA"
| "toVideoPixelFormat FC_YU12 = PF_I420"
| "toVideoPixelFormat FC_YM12 = PF_I420"
| "toVideoPixelFormat FC_YV12 = PF_YV12"
| "toVideoPixelFormat FC_YM21 = PF_YV12"
| "toVideoPixelFormat FC_YUYV = PF_YUY2"
| "toVideoPixelFormat FC_NV12 = PF_NV12"
| "toVideoPixelFormat FC_NM12 = PF_NV12"
| "toVideoPixelFormat FC_NV21 = PF_NV21"
| "toVideoPixelFormat FC_NM21 = PF_NV21"
| "toVideoPixelFormat FC_YM16 = PF_I422"
| "toVideoPixelFormat FC_MT21 = PF_NV12"
| "toVideoPixelFormat FC_MM21 = PF_NV12"
| "toVideoPixelFormat FC_P010 = PF_P010"

definition fromV4L2PixFmt :: "u32 \<Rightarrow> fourcc option" where
  "fromV4L2PixFmt v4l2PixFmt = fromUint32 v4l2PixFmt"

definition toV4L2PixFmt :: "fourcc \<Rightarrow> u32" where
  "toV4L2PixFmt f = fourcc_value f"

fun toSinglePlanar :: "fourcc \<Rightarrow> fourcc option" where
  "toSinglePlanar FC_AR24 = Some FC_AR24"
| "toSinglePlanar FC_AB24 = Some FC_AB24"
| "toSinglePlanar FC_XR24 = Some FC_XR24"
| "toSinglePlanar FC_XB24 = Some FC_XB24"
| "toSinglePlanar FC_RGB4 = Some FC_RGB4"
| "toSinglePlanar FC_BGR4 = Some FC_BGR4"
| "toSinglePlanar FC_YU12 = Some FC_YU12"
| "toSinglePlanar FC_YV12 = Some FC_YV12"
| "toSinglePlanar FC_YUYV = Some FC_YUYV"
| "toSinglePlanar FC_NV12 = Some FC_NV12"
| "toSinglePlanar FC_NV21 = Some FC_NV21"
| "toSinglePlanar FC_P010 = Some FC_P010"
| "toSinglePlanar FC_YM12 = Some FC_YU12"
| "toSinglePlanar FC_YM21 = Some FC_YV12"
| "toSinglePlanar FC_NM12 = Some FC_NV12"
| "toSinglePlanar FC_NM21 = Some FC_NV21"
| "toSinglePlanar FC_YM16 = None"
| "toSinglePlanar FC_MT21 = None"
| "toSinglePlanar FC_MM21 = None"

fun isMultiPlanar :: "fourcc \<Rightarrow> bool" where
  "isMultiPlanar FC_AR24 = False"
| "isMultiPlanar FC_AB24 = False"
| "isMultiPlanar FC_XR24 = False"
| "isMultiPlanar FC_XB24 = False"
| "isMultiPlanar FC_RGB4 = False"
| "isMultiPlanar FC_BGR4 = False"
| "isMultiPlanar FC_YU12 = False"
| "isMultiPlanar FC_YV12 = False"
| "isMultiPlanar FC_YUYV = False"
| "isMultiPlanar FC_NV12 = False"
| "isMultiPlanar FC_NV21 = False"
| "isMultiPlanar FC_P010 = False"
| "isMultiPlanar FC_YM12 = True"
| "isMultiPlanar FC_YM21 = True"
| "isMultiPlanar FC_NM12 = True"
| "isMultiPlanar FC_NM21 = True"
| "isMultiPlanar FC_YM16 = True"
| "isMultiPlanar FC_MT21 = True"
| "isMultiPlanar FC_MM21 = True"

definition fourcc_toString :: "fourcc \<Rightarrow> string" where
  "fourcc_toString f = fourccToString (fourcc_value f)"

declare fourcc_loop.simps [simp del]

subsection \<open>Lemmas\<close>

text \<open>The documented behaviour of \<open>base::bits::Align\<close> for the alignment used here.\<close>

definition gfx_ok :: "gfx \<Rightarrow> bool" where
  "gfx_ok g \<longleftrightarrow> (\<forall>n \<ge> 0. n < 2 ^ 31 - 1 \<longrightarrow> Align g n 2 = n + n mod 2)"

lemma fourcc_value_inj: "fourcc_value a = fourcc_value b \<longleftrightarrow> a = b"
  by (cases a; cases b; simp add: composeFourcc_def)

lemma set_all_fourccs: "f \<in> set all_fourccs"
  by (cases f) (simp_all add: all_fourccs_def)

lemma fromUint32_value: "fromUint32 n = Some f \<longleftrightarrow> fourcc_value f = n"
proof
  assume "fromUint32 n = Some f"
  then show "fourcc_value f = n" by (auto simp: fromUint32_def find_Some_iff)
next
  assume v: "fourcc_value f = n"
  then have "fromUint32 n \<noteq> None"
    using set_all_fourccs [of f] by (auto simp: fromUint32_def find_None_iff)
  then obtain g where g: "fromUint32 n = Some g" by blast
  then have "fourcc_value g = n" by (auto simp: fromUint32_def find_Some_iff)
  with v g show "fromUint32 n = Some f" using fourcc_value_inj [of g f] by simp
qed

lemma from_pixel_single_inv: "from_pixel_single p = Some f \<Longrightarrow> toVideoPixelFormat f = p \<and> \<not> isMultiPlanar f"
  by (cases p) auto

lemma from_pixel_multi_inv: "from_pixel_multi p = Some f \<Longrightarrow> toVideoPixelFormat f = p \<and> isMultiPlanar f"
  by (cases p) auto

text \<open>The planes' bits add up: a plane of the (even) coded size has its bits per pixel times the area.\<close>

lemma sdiv_exact: "0 < b \<Longrightarrow> 0 \<le> a \<Longrightarrow> (a :: int) sdiv b = a div b"
  by (simp add: signed_divide_int_def sgn_if)

lemma plane_cases: "plane < numPlanes format \<Longrightarrow> plane = 0 \<or> plane = 1 \<or> plane = 2 \<or> plane = 3"
  by (cases format) auto

definition coded :: "gfx \<Rightarrow> VideoPixelFormat \<Rightarrow> size \<Rightarrow> size" where
  "coded g format sz =
     (if RequiresEvenSizeAllocation format then (Align g (fst sz) 2, Align g (snd sz) 2) else sz)"

lemma SampleSize_valid:
  assumes "plane < numPlanes format"
  shows "\<exists>x y. SampleSize g format plane = (x, y) \<and> x \<in> {1, 2} \<and> y \<in> {1, 2} \<and>
    (RequiresEvenSizeAllocation format \<or> x = 1 \<and> y = 1)"
  using assms by (cases format) (auto simp: SampleSize_def)

lemma bytesPerElement_valid:
  assumes "plane < numPlanes format"
  shows "0 \<le> bytesPerElement format plane \<and> bytesPerElement format plane \<le> 4"
  using assms by (cases format) (auto simp: less_2_cases_iff)

lemma coded_even:
  assumes "gfx_ok g" "0 \<le> w" "w < 2 ^ 31 - 1" "0 \<le> h" "h < 2 ^ 31 - 1" "coded g format (w, h) = (W, H)"
  shows "0 \<le> W \<and> 0 \<le> H \<and> (RequiresEvenSizeAllocation format \<longrightarrow> even W \<and> even H) \<and>
    w \<le> W \<and> h \<le> H \<and> W \<le> w + 1 \<and> H \<le> h + 1"
proof -
  have e: "even (n + n mod 2) \<and> 0 \<le> n mod 2 \<and> n mod 2 \<le> (1 :: int)" for n
    by presburger
  show ?thesis
    using assms e [of w] e [of h] by (auto simp: gfx_ok_def coded_def split: if_splits)
qed

lemma plane_bits:
  fixes e x y W H :: int
  assumes "0 \<le> e" "x \<in> {1, 2}" "y \<in> {1, 2}" "0 \<le> W" "0 \<le> H" "x dvd W" "y dvd H"
  shows "8 * (((e * W) sdiv x) * (H sdiv y)) = ((8 * e) sdiv x) sdiv y * (W * H)"
proof -
  obtain a b where ab: "W = x * a" "H = y * b" using assms(6,7) by (auto elim!: dvdE)
  have pos: "0 < x" "0 < y" using assms(2,3) by auto
  have l: "(e * W) sdiv x = e * a" "H sdiv y = b"
    using pos assms(1,4,5) ab by (simp_all add: sdiv_exact zero_le_mult_iff mult.left_commute)
  have r: "((8 * e) sdiv x) sdiv y * (x * y) = 8 * e"
    using assms(1,2,3) pos by (auto simp: sdiv_exact)
  have "((8 * e) sdiv x) sdiv y * (W * H) = ((8 * e) sdiv x) sdiv y * (x * y) * (a * b)"
    by (simp add: ab)
  then show ?thesis unfolding l by (simp add: r)
qed

lemma planeSize_bits:
  assumes "gfx_ok g" "plane < numPlanes format" "0 \<le> w" "w < 2 ^ 31 - 1" "0 \<le> h" "h < 2 ^ 31 - 1"
  shows "8 * (fst (planeSize g format plane (w, h)) * snd (planeSize g format plane (w, h))) =
    planeBitsPerPixel g format plane * (fst (coded g format (w, h)) * snd (coded g format (w, h)))"
proof -
  obtain W H where c: "coded g format (w, h) = (W, H)" by (cases "coded g format (w, h)")
  obtain x y where s: "SampleSize g format plane = (x, y)" "x \<in> {1, 2}" "y \<in> {1, 2}"
    "RequiresEvenSizeAllocation format \<or> x = 1 \<and> y = 1"
    using SampleSize_valid [OF assms(2)] by blast
  have ev: "0 \<le> W" "0 \<le> H" "RequiresEvenSizeAllocation format \<longrightarrow> even W \<and> even H"
    using coded_even [OF assms(1,3-6) c] by simp_all
  have "x dvd W" "y dvd H" using s(2-4) ev by auto
  moreover have "planeSize g format plane (w, h) = ((bytesPerElement format plane * W) sdiv x, H sdiv y)"
    using c s(1) by (simp add: planeSize_def coded_def)
  ultimately show ?thesis
    using plane_bits [of "bytesPerElement format plane" x y W H] s ev bytesPerElement_valid [OF assms(2)] c
    by (simp add: planeBitsPerPixel_def planeHorizontalBitsPerPixel_def)
qed

lemma foldl_sum: "foldl (\<lambda>t i. t + f i) (z :: int) [0..<n] = z + (\<Sum>i<n. f i)"
  by (induction n) simp_all

lemma allocationSize_sum:
  "allocationSize g format sz = (\<Sum>i<numPlanes format. fst (planeSize g format i sz) * snd (planeSize g format i sz))"
  by (simp add: allocationSize_def foldl_sum case_prod_unfold)

subsection \<open>Printing\<close>

definition printable :: "char \<Rightarrow> bool" where
  "printable c \<longleftrightarrow> 0x1f < (of_char c :: nat) \<and> (of_char c :: nat) < 0x7f"

lemma bit_of_char_u32: "bit (of_char c :: u32) n \<Longrightarrow> n < 8"
proof -
  have "take_bit 8 (of_char c :: nat) = of_char c"
    using nat_of_char_less_256 [of c] by (simp add: take_bit_nat_eq_self)
  moreover assume "bit (of_char c :: u32) n"
  then have "bit (of_char c :: nat) n"
    using bit_of_nat_iff [where 'a = u32, of "of_char c" n] unfolding of_nat_of_char by simp
  ultimately show ?thesis by (metis bit_take_bit_iff)
qed

lemma low_byte: "(x :: u32) AND 0xFF = take_bit 8 x"
proof -
  have "(0xFF :: u32) = mask 8" by (simp add: mask_eq_exp_minus_1)
  then show ?thesis by (simp add: take_bit_eq_mask)
qed

lemma compose_low: "composeFourcc a b c d AND 0xFF = of_char a"
  unfolding low_byte
  by (rule bit_word_eqI) (auto simp: composeFourcc_def bit_simps dest: bit_of_char_u32)

lemma of_char_zero: "(of_char (char_of (0 :: nat)) :: u32) = 0"
  by (simp add: char_of_def of_char_def)

lemma compose_shift:
  "drop_bit 8 (composeFourcc a b c d) = composeFourcc b c d (char_of (0 :: nat))"
  by (rule bit_word_eqI) (auto simp: composeFourcc_def of_char_zero bit_simps dest: bit_of_char_u32)

lemma unat_of_char_u32: "unat (of_char a :: u32) = of_char a"
proof -
  have "unat (word_of_nat (of_char a) :: u32) = take_bit 32 (of_char a)"
    by (simp add: unat_of_nat take_bit_eq_mod)
  also have "\<dots> = of_char a"
    by (rule take_bit_nat_eq_self [OF less_trans [OF nat_of_char_less_256]]) simp
  finally show ?thesis unfolding of_nat_of_char .
qed

lemma loop_char:
  assumes "i < 4" "printable a"
  shows "fourcc_loop i (composeFourcc a b c d) r =
    fourcc_loop (i + 1) (composeFourcc b c d (char_of (0 :: nat))) (r[i := a])"
  using assms
  by (simp add: fourcc_loop.simps [of i] compose_low compose_shift unat_of_char_u32 printable_def Let_def)

lemma fourccToString_compose:
  assumes "printable a" "printable b" "printable c" "printable d"
  shows "fourccToString (composeFourcc a b c d) = [a, b, c, d]"
proof -
  let ?z = "char_of (0 :: nat)"
  have r: "''0000''[0 := a, 1 := b, 2 := c, 3 := d] = [a, b, c, d]" by (simp add: numeral_eq_Suc)
  have "fourccToString (composeFourcc a b c d) = fourcc_loop 4 (composeFourcc ?z ?z ?z ?z) [a, b, c, d]"
    using loop_char [OF _ assms(1), of 0] loop_char [OF _ assms(2), of 1] loop_char [OF _ assms(3), of 2]
      loop_char [OF _ assms(4), of 3] by (simp add: fourccToString_def r [symmetric] del: One_nat_def list_update_code list_update.simps)
  then show ?thesis by (simp add: fourcc_loop.simps [of 4])
qed

subsection \<open>Properties\<close>

text \<open>
  the size of a buffer is what the bits per pixel say: eight times the number of bytes that
  \<open>allocationSize\<close> gives is the sum of the planes' bits per pixel times the coded area, the coded size
  being rounded up to even numbers where the format needs it.
\<close>

theorem allocation_matches_bits_per_pixel:
  assumes "gfx_ok g" and "0 \<le> w" and "w < 2 ^ 31 - 1" and "0 \<le> h" and "h < 2 ^ 31 - 1"
  shows "8 * allocationSize g format (w, h) =
    (\<Sum>i<numPlanes format. planeBitsPerPixel g format i) *
      (fst (coded g format (w, h)) * snd (coded g format (w, h)))"
  using planeSize_bits [OF assms(1) _ assms(2-5)]
  by (simp add: allocationSize_sum sum_distrib_left sum_distrib_right)

definition sample_gfx :: gfx where
  "sample_gfx = \<lparr>Align = (\<lambda>n a. (n + a - 1) div a * a), Size_default = (-1, -1)\<rparr>"

lemma sample_gfx_ok: "gfx_ok sample_gfx"
proof -
  have "(n + 2 - 1) div 2 * 2 = n + n mod 2" for n :: int by presburger
  then show ?thesis by (simp add: gfx_ok_def sample_gfx_def)
qed

theorem allocation_matches_bits_per_pixel_witness:
  "8 * allocationSize sample_gfx PF_NV12 (641, 480) = 12 * (642 * 480)"
  using allocation_matches_bits_per_pixel [OF sample_gfx_ok, of 641 480 PF_NV12]
  by (simp add: planeBitsPerPixel_def planeHorizontalBitsPerPixel_def SampleSize_def coded_def sample_gfx_def
      signed_divide_int_def numeral_2_eq_2)

text \<open>
  For frames up to 16384 by 16384 no size computation leaves the range of \<open>int32_t\<close>: neither
  the product of bytes and width nor a plane's product of width and height.
\<close>

theorem plane_sizes_fit_int32:
  assumes "gfx_ok g" and "0 \<le> w" and "w \<le> 16384" and "0 \<le> h" and "h \<le> 16384" and "plane < numPlanes format"
  shows "0 \<le> bytesPerElement format plane * fst (coded g format (w, h)) \<and>
    bytesPerElement format plane * fst (coded g format (w, h)) \<le> 65536 \<and>
    0 \<le> fst (planeSize g format plane (w, h)) * snd (planeSize g format plane (w, h)) \<and>
    fst (planeSize g format plane (w, h)) * snd (planeSize g format plane (w, h)) \<le> 2 ^ 30"
proof -
  obtain W H where c: "coded g format (w, h) = (W, H)" by (cases "coded g format (w, h)")
  have WH: "0 \<le> W" "0 \<le> H" "W \<le> 16384" "H \<le> 16384"
  proof -
    have m: "n + n mod 2 \<le> 16384 \<and> 0 \<le> n + n mod 2" if "0 \<le> n" "n \<le> 16384" for n :: int
      using that by presburger
    show "0 \<le> W" "0 \<le> H" "W \<le> 16384" "H \<le> 16384"
      using c assms(1-5) m [of w] m [of h] by (auto simp: coded_def gfx_ok_def split: if_splits)
  qed
  obtain x y where s: "SampleSize g format plane = (x, y)" "x \<in> {1, 2}" "y \<in> {1, 2}"
    using SampleSize_valid [OF assms(6)] by blast
  let ?e = "bytesPerElement format plane"
  have e: "0 \<le> ?e" "?e \<le> 4" using bytesPerElement_valid [OF assms(6)] by simp_all
  have eW: "0 \<le> ?e * W" "?e * W \<le> 65536" using mult_mono [OF e(2) WH(3)] e WH by simp_all
  have p: "planeSize g format plane (w, h) = ((?e * W) div x, H div y)"
    using c s eW(1) WH(2) by (auto simp: planeSize_def coded_def sdiv_exact)
  have q: "0 \<le> (?e * W) div x" "(?e * W) div x \<le> 65536" "0 \<le> H div y" "H div y \<le> 16384"
    using s(2,3) eW WH by auto
  show ?thesis using mult_mono [OF q(2,4)] q eW by (simp add: c p)
qed

theorem plane_sizes_fit_int32_witness:
  "fst (planeSize sample_gfx PF_ARGB 0 (16384, 16384)) * snd (planeSize sample_gfx PF_ARGB 0 (16384, 16384)) \<le> 2 ^ 30"
  using plane_sizes_fit_int32 [OF sample_gfx_ok, of 16384 16384 0 PF_ARGB] by simp


text \<open>
  Codes and V4L2 formats correspond one to one: a V4L2 format is recognised as a code exactly
  when it is the value of that code.
\<close>

theorem v4l2_format_bijection: "fromV4L2PixFmt n = Some f \<longleftrightarrow> toV4L2PixFmt f = n"
  by (simp add: fromV4L2PixFmt_def toV4L2PixFmt_def fromUint32_value)

text \<open>
  The two tables between pixel formats and codes agree: a pixel format has the code \<open>f\<close> in the
  single- or multi-planar table exactly when \<open>f\<close> maps back to it and has that planarity, the two tiled
  codes excepted; and the single-planar variant of a code is the one with the same pixel format.
\<close>

theorem pixel_format_tables_agree:
  "(fromVideoPixelFormat p single = Some f \<longleftrightarrow>
      toVideoPixelFormat f = p \<and> isMultiPlanar f = (\<not> single) \<and> f \<notin> {FC_MT21, FC_MM21}) \<and>
   (toSinglePlanar f = Some f' \<longleftrightarrow>
      toVideoPixelFormat f' = toVideoPixelFormat f \<and> \<not> isMultiPlanar f' \<and> f \<notin> {FC_MT21, FC_MM21})"
proof -
  have "fromVideoPixelFormat (toVideoPixelFormat f) (\<not> isMultiPlanar f) = Some f" if "f \<notin> {FC_MT21, FC_MM21}"
    using that by (cases f) (simp_all add: fromVideoPixelFormat_def)
  moreover have "f \<notin> {FC_MT21, FC_MM21}" if "fromVideoPixelFormat p single = Some f"
    using that by (cases p; cases single) (auto simp: fromVideoPixelFormat_def)
  ultimately have "fromVideoPixelFormat p single = Some f \<longleftrightarrow>
      toVideoPixelFormat f = p \<and> isMultiPlanar f = (\<not> single) \<and> f \<notin> {FC_MT21, FC_MM21}"
    using from_pixel_single_inv [of p f] from_pixel_multi_inv [of p f]
    by (cases single) (auto simp: fromVideoPixelFormat_def)
  moreover have "toSinglePlanar f = Some f' \<longleftrightarrow>
      toVideoPixelFormat f' = toVideoPixelFormat f \<and> \<not> isMultiPlanar f' \<and> f \<notin> {FC_MT21, FC_MM21}"
    by (cases f; cases f'; simp)
  ultimately show ?thesis ..
qed

text \<open>
  A code made of four printable characters is printed as these characters.
\<close>

theorem fourcc_prints_its_characters:
  assumes "printable a" and "printable b" and "printable c" and "printable d"
  shows "fourccToString (composeFourcc a b c d) = [a, b, c, d]"
  using assms by (rule fourccToString_compose)

theorem fourcc_prints_its_characters_witness: "fourcc_toString FC_NV12 = ''NV12''"
  using fourcc_prints_its_characters [of "CHR ''N''" "CHR ''V''" "CHR ''1''" "CHR ''2''"]
  by (simp add: fourcc_toString_def printable_def)

text \<open>Two errors of the printing functions, by evaluation.\<close>

lemma pixel_format_names_wrong:
  "videoPixelFormatToString PF_RGBA = ''BGRA'' \<and> videoPixelFormatToString PF_P010 = ''BGRA''"
  by simp

lemma fourcc_hex_prefix_lost: "fourccToString 5 = ''5x'' \<and> fourccToString 0x12 = ''12''"
  by (simp add: fourccToString_def fourcc_loop.simps hex_stream_def hex_nat.simps hex_digit_def char_of_def bit_0)

end
