(* ===== verification/Nal_Parser.thy ===== *)
theory Nal_Parser
  imports Prelude
begin

text \<open>
  Splitting a byte stream into NAL units and reading Exp-Golomb codes,
  \<^verbatim>\<open>src/codec2/common/NalParser.cpp\<close>, and the SPS parser of
  \<^verbatim>\<open>src/codec2/common/H264NalParser.cpp\<close>. Pointers into the stream are positions.

  The bit reader is Android's \<open>NALBitReader\<close>, code outside the repository: the record \<open>reader\<close> has
  its constructor, \<open>getBitsGraceful\<close> (\<open>None\<close> for a failure), \<open>skipBits\<close> and \<open>numBitsLeft\<close>. The
  loop of \<open>parseUE\<close> stops at the latest when the reader is empty, so \<open>numBitsLeft\<close> bounds it.
\<close>

record 'br reader =
  mkReader :: "bytes \<Rightarrow> 'br"
  getBits :: "nat \<Rightarrow> 'br \<Rightarrow> u32 option \<times> 'br"
  skipBits :: "nat \<Rightarrow> 'br \<Rightarrow> 'br"
  bitsLeft :: "'br \<Rightarrow> nat"
  shl_32 :: u32

subsection \<open>NalParser\<close>

record nal_parser =
  np_bytes :: bytes
  np_cur :: nat
  np_next :: nat

definition is_start_code :: "bytes \<Rightarrow> nat \<Rightarrow> bool" where
  "is_start_code d i \<longleftrightarrow> d ! i = 0x00 \<and> d ! (i + 1) = 0x00 \<and> d ! (i + 2) = 0x01"

text \<open>\<open>std::search\<close> for the start code from a position on.\<close>

function findNextStartCodePos :: "bytes \<Rightarrow> nat \<Rightarrow> nat" where
  "findNextStartCodePos d i =
     (if i + 3 \<le> length d then
        (if is_start_code d i then i else findNextStartCodePos d (i + 1))
      else length d)"
  by auto
termination by (relation "measure (\<lambda>(d, i). length d - i)") auto

declare findNextStartCodePos.simps [simp del]

definition new_parser :: "bytes \<Rightarrow> nal_parser" where
  "new_parser d = \<lparr>np_bytes = d, np_cur = 0, np_next = findNextStartCodePos d 0\<rparr>"

definition locateNextNal :: "nal_parser \<Rightarrow> bool \<times> nal_parser" where
  "locateNextNal p =
     (if np_next p = length (np_bytes p) then (False, p)
      else (True, p\<lparr>np_cur := np_next p + 3,
                    np_next := findNextStartCodePos (np_bytes p) (np_next p + 3)\<rparr>))"

definition np_length :: "nal_parser \<Rightarrow> nat" where
  "np_length p =
     (if np_next p = length (np_bytes p) then length (np_bytes p) - np_cur p
      else
        let len = np_next p - np_cur p
        in if np_bytes p ! (np_next p - 1) = 0x00 then len - 1 else len)"

definition np_data :: "nal_parser \<Rightarrow> bytes" where
  "np_data p = take (np_length p) (drop (np_cur p) (np_bytes p))"

text \<open>\<open>1u << n\<close>; C++ leaves a shift by 32 or more undefined, here it is the reader's \<open>shl_32\<close>.\<close>

definition shl :: "'br reader \<Rightarrow> nat \<Rightarrow> u32" where
  "shl R n = (if n < 32 then push_bit n 1 else shl_32 R)"

fun count_zeros :: "'br reader \<Rightarrow> nat \<Rightarrow> nat \<Rightarrow> 'br \<Rightarrow> nat option \<times> 'br" where
  "count_zeros R 0 numZeroes b = (None, b)"
| "count_zeros R (Suc fuel) numZeroes b =
     (case getBits R 1 b of
        (None, b1) \<Rightarrow> (None, b1)
      | (Some v, b1) \<Rightarrow>
          if v = 0 then count_zeros R fuel (numZeroes + 1) b1 else (Some numZeroes, b1))"

definition parseUE :: "'br reader \<Rightarrow> 'br \<Rightarrow> u32 option \<times> 'br" where
  "parseUE R b =
     (case count_zeros R (Suc (bitsLeft R b)) 0 b of
        (None, b1) \<Rightarrow> (None, b1)
      | (Some numZeroes, b1) \<Rightarrow>
          (case getBits R numZeroes b1 of
             (None, b2) \<Rightarrow> (None, b2)
           | (Some val, b2) \<Rightarrow> (Some (val + (shl R numZeroes - 1)), b2)))"

definition parseSE :: "'br reader \<Rightarrow> 'br \<Rightarrow> int option \<times> 'br" where
  "parseSE R b =
     (case parseUE R b of
        (None, b1) \<Rightarrow> (None, b1)
      | (Some codeNum, b1) \<Rightarrow>
          (Some (sint (if codeNum AND 1 \<noteq> 0 then drop_bit 1 (codeNum + 1) else - drop_bit 1 codeNum)), b1))"

subsection \<open>Parsers that may stop\<close>

text \<open>
  The result of a parsing step: its value, the early \<open>return false\<close>, or an access outside an array,
  after which C++ gives no guarantee.
\<close>

datatype 'a outcome = Ok 'a | Stop | Out_Of_Bounds

type_synonym ('br, 'a) parse = "'br \<Rightarrow> 'a outcome \<times> 'br"

definition ret :: "'a \<Rightarrow> ('br, 'a) parse" where
  "ret x b = (Ok x, b)"

definition stop :: "('br, 'a) parse" where
  "stop b = (Stop, b)"

definition andThen :: "('br, 'a) parse \<Rightarrow> ('a \<Rightarrow> ('br, 'b) parse) \<Rightarrow> ('br, 'b) parse" where
  "andThen p q b =
     (case p b of
        (Ok x, b1) \<Rightarrow> q x b1
      | (Stop, b1) \<Rightarrow> (Stop, b1)
      | (Out_Of_Bounds, b1) \<Rightarrow> (Out_Of_Bounds, b1))"

fun of_option :: "'a option \<times> 'br \<Rightarrow> 'a outcome \<times> 'br" where
  "of_option (None, b) = (Stop, b)"
| "of_option (Some x, b) = (Ok x, b)"

definition bits :: "'br reader \<Rightarrow> nat \<Rightarrow> ('br, u32) parse" where
  "bits R n b = of_option (getBits R n b)"

definition skip :: "'br reader \<Rightarrow> nat \<Rightarrow> ('br, unit) parse" where
  "skip R n b = (Ok (), skipBits R n b)"

definition ue :: "'br reader \<Rightarrow> ('br, u32) parse" where
  "ue R b = of_option (parseUE R b)"

definition se :: "'br reader \<Rightarrow> ('br, int) parse" where
  "se R b = of_option (parseSE R b)"

text \<open>A call whose result the code ignores, and \<open>n\<close> of them in a row.\<close>

definition ignore_ue :: "'br reader \<Rightarrow> ('br, unit) parse" where
  "ignore_ue R b = (Ok (), snd (parseUE R b))"

definition ignore_se :: "'br reader \<Rightarrow> ('br, unit) parse" where
  "ignore_se R b = (Ok (), snd (parseSE R b))"

fun repeat_p :: "nat \<Rightarrow> ('br, unit) parse \<Rightarrow> ('br, unit) parse" where
  "repeat_p 0 p = ret ()"
| "repeat_p (Suc n) p = andThen p (\<lambda>_. repeat_p n p)"

text \<open>The alternative \<open>if (flag) p\<close>.\<close>

definition opt :: "bool \<Rightarrow> ('br, unit) parse \<Rightarrow> ('br, unit) parse" where
  "opt c p = (if c then p else ret ())"

subsection \<open>Colour aspects\<close>

record color_aspects =
  primaries :: u32
  transfer :: u32
  coeffs :: u32
  fullRange :: bool

text \<open>
  The end of both SPS parsers, from \<open>vuiParametersPresentFlag\<close> on: the aspects are filled in as they are
  read, so they may be changed by a call that fails.
\<close>

definition vui_prefix :: "'br reader \<Rightarrow> ('br, u32) parse" where
  "vui_prefix R =
     andThen (bits R 1) (\<lambda>vuiParametersPresentFlag.
     if vuiParametersPresentFlag = 0 then stop
     else
       andThen (bits R 1) (\<lambda>aspectRatioInfoPresentFlag.
       andThen (opt (aspectRatioInfoPresentFlag \<noteq> 0)
                  (andThen (bits R 8) (\<lambda>aspectRatioIdc. opt (aspectRatioIdc = 255) (skip R 32)))) (\<lambda>_.
       andThen (bits R 1) (\<lambda>overscanInfoPresentFlag.
       andThen (opt (overscanInfoPresentFlag \<noteq> 0) (skip R 1)) (\<lambda>_.
       andThen (bits R 1) (\<lambda>videoSignalTypePresentFlag.
       if videoSignalTypePresentFlag = 0 then stop
       else andThen (skip R 3) (\<lambda>_. bits R 1)))))))"

definition vui_colors :: "'br reader \<Rightarrow> color_aspects \<Rightarrow> 'br \<Rightarrow> bool \<times> color_aspects" where
  "vui_colors R a b =
     (case vui_prefix R b of
        (Ok videoFullRangeFlag, b1) \<Rightarrow>
          (let a1 = a\<lparr>fullRange := (videoFullRangeFlag \<noteq> 0)\<rparr>
           in case bits R 1 b1 of
                (Ok color_description_present_flag, b2) \<Rightarrow>
                  if color_description_present_flag = 0 then (False, a1)
                  else
                    (case bits R 8 b2 of
                       (Ok v1, b3) \<Rightarrow>
                         (let a2 = a1\<lparr>primaries := v1\<rparr>
                          in case bits R 8 b3 of
                               (Ok v2, b4) \<Rightarrow>
                                 (let a3 = a2\<lparr>transfer := v2\<rparr>
                                  in case bits R 8 b4 of
                                       (Ok v3, b5) \<Rightarrow> (True, a3\<lparr>coeffs := v3\<rparr>)
                                     | _ \<Rightarrow> (False, a3))
                             | _ \<Rightarrow> (False, a2))
                     | _ \<Rightarrow> (False, a1))
              | _ \<Rightarrow> (False, a1))
      | _ \<Rightarrow> (False, a))"

subsection \<open>H264NalParser\<close>

definition kYUV444Idc :: u32 where
  "kYUV444Idc = 3"

definition H264ProfileIDC :: "u32 list" where
  "H264ProfileIDC = [44, 83, 86, 100, 110, 118, 122, 128, 244]"

definition capDelta :: "int \<Rightarrow> int" where
  "capDelta deltaScale = (if deltaScale < -128 then -128 else if deltaScale > 127 then 127 else deltaScale)"

fun skipScalingList :: "'br reader \<Rightarrow> nat \<Rightarrow> nat \<Rightarrow> nat \<Rightarrow> ('br, unit) parse" where
  "skipScalingList R 0 nextScale lastScale = ret ()"
| "skipScalingList R (Suc left) nextScale lastScale =
     andThen
       (if nextScale \<noteq> 0
        then andThen (se R) (\<lambda>deltaScale.
               ret (nat ((int lastScale + (capDelta deltaScale + 256)) mod 256)))
        else ret nextScale)
       (\<lambda>new. skipScalingList R left new (if new = 0 then lastScale else new))"

fun skipScalingMatrix :: "'br reader \<Rightarrow> nat \<Rightarrow> nat \<Rightarrow> ('br, unit) parse" where
  "skipScalingMatrix R 0 i = ret ()"
| "skipScalingMatrix R (Suc left) i =
     andThen (bits R 1) (\<lambda>seq_scaling_list_present_flag.
     andThen (opt (seq_scaling_list_present_flag \<noteq> 0)
                (skipScalingList R (if i < 6 then 16 else 64) 8 8)) (\<lambda>_.
     skipScalingMatrix R left (i + 1)))"

definition h264_type :: "u8 \<Rightarrow> u8" where
  "h264_type x = x AND 0x1f"

definition h264_kIDRType :: u8 where
  "h264_kIDRType = 5"

definition h264_kSPSType :: u8 where
  "h264_kSPSType = 7"

lemma findNextStartCodePos_bounds:
  "findNextStartCodePos d i \<le> length d \<and>
   (i \<le> findNextStartCodePos d i \<or> findNextStartCodePos d i = length d)"
proof (induction d i rule: findNextStartCodePos.induct)
  case (1 d i)
  then show ?case by (auto simp: findNextStartCodePos.simps [of d i])
qed

text \<open>\<open>locateSPS\<close> and \<open>locateIDR\<close>, for the type function of either codec.\<close>

function locate :: "(u8 \<Rightarrow> u8) \<Rightarrow> u8 \<Rightarrow> nal_parser \<Rightarrow> bool \<times> nal_parser" where
  "locate type kind p =
     (if np_next p = length (np_bytes p) then (False, p)
      else
        let p1 = snd (locateNextNal p)
        in if np_length p1 = 0 then locate type kind p1
           else if type (np_bytes p1 ! np_cur p1) \<noteq> kind then locate type kind p1
           else (True, p1))"
  by auto
termination
proof (relation "measure (\<lambda>(_, _, p). if np_next p \<le> length (np_bytes p)
    then length (np_bytes p) - np_next p else 1)")
  fix type kind p p1
  assume "np_next p \<noteq> length (np_bytes p)" "p1 = snd (locateNextNal p)"
  moreover from this have "np_next p1 = findNextStartCodePos (np_bytes p) (np_next p + 3)" "np_bytes p1 = np_bytes p"
    by (simp_all add: locateNextNal_def)
  ultimately show "((type, kind, p1), (type, kind, p)) \<in> measure (\<lambda>(_, _, p).
      if np_next p \<le> length (np_bytes p) then length (np_bytes p) - np_next p else 1)"
    using findNextStartCodePos_bounds [of "np_bytes p" "np_next p + 3"] by auto
  then show "((type, kind, p1), (type, kind, p)) \<in> measure (\<lambda>(_, _, p).
      if np_next p \<le> length (np_bytes p) then length (np_bytes p) - np_next p else 1)" .
qed simp

declare locate.simps [simp del]

definition h264_locateSPS :: "nal_parser \<Rightarrow> bool \<times> nal_parser" where
  "h264_locateSPS p = locate h264_type h264_kSPSType p"

definition h264_locateIDR :: "nal_parser \<Rightarrow> bool \<times> nal_parser" where
  "h264_locateIDR p = locate h264_type h264_kIDRType p"

text \<open>The SPS fields before the VUI parameters.\<close>

definition h264_poc :: "'br reader \<Rightarrow> ('br, unit) parse" where
  "h264_poc R =
     andThen (ignore_ue R) (\<lambda>_.
     andThen (ue R) (\<lambda>pictureOrderCountType.
     if pictureOrderCountType = 0 then ignore_ue R
     else if pictureOrderCountType = 1 then
       andThen (skip R 1) (\<lambda>_.
       andThen (ignore_se R) (\<lambda>_.
       andThen (ignore_se R) (\<lambda>_.
       andThen (ue R) (\<lambda>numReferenceFrames. repeat_p (unat numReferenceFrames) (ignore_ue R)))))
     else ret ()))"

definition h264_chroma :: "'br reader \<Rightarrow> ('br, unit) parse" where
  "h264_chroma R =
     andThen (ue R) (\<lambda>chromaFormatIDC.
     andThen (opt (chromaFormatIDC = kYUV444Idc) (skip R 1)) (\<lambda>_.
     andThen (ignore_ue R) (\<lambda>_.
     andThen (ignore_ue R) (\<lambda>_.
     andThen (skip R 1) (\<lambda>_.
     andThen (bits R 1) (\<lambda>seqScalingMatrixPresentFlag.
     opt (seqScalingMatrixPresentFlag \<noteq> 0)
       (skipScalingMatrix R (if chromaFormatIDC \<noteq> kYUV444Idc then 8 else 12) 0)))))))"

definition h264_sps :: "'br reader \<Rightarrow> ('br, unit) parse" where
  "h264_sps R =
     andThen (bits R 8) (\<lambda>profileIDC.
     andThen (skip R 16) (\<lambda>_.
     andThen (ignore_ue R) (\<lambda>_.
     andThen (opt (profileIDC \<in> set H264ProfileIDC) (h264_chroma R)) (\<lambda>_.
     andThen (h264_poc R) (\<lambda>_.
     andThen (ignore_ue R) (\<lambda>_.
     andThen (skip R 1) (\<lambda>_.
     andThen (ignore_ue R) (\<lambda>_.
     andThen (ignore_ue R) (\<lambda>_.
     andThen (bits R 1) (\<lambda>frameMbsOnlyFlag.
     andThen (opt (frameMbsOnlyFlag = 0) (skip R 1)) (\<lambda>_.
     andThen (skip R 1) (\<lambda>_.
     andThen (bits R 1) (\<lambda>frameCroppingFlag.
     opt (frameCroppingFlag \<noteq> 0) (repeat_p 4 (ignore_ue R)))))))))))))))"

definition h264_findCodedColorAspects ::
  "'br reader \<Rightarrow> color_aspects \<Rightarrow> nal_parser \<Rightarrow> bool \<times> color_aspects" where
  "h264_findCodedColorAspects R a p =
     (case h264_sps R (mkReader R (take (np_length p - 1) (drop (np_cur p + 1) (np_bytes p)))) of
        (Ok _, b) \<Rightarrow> vui_colors R a b
      | _ \<Rightarrow> (False, a))"

subsection \<open>Exp-Golomb codes\<close>

text \<open>Bits in reading order, their value, and the documented behaviour of the reader over them.\<close>

definition bits_val :: "bool list \<Rightarrow> u32" where
  "bits_val bs = foldl (\<lambda>v x. 2 * v + of_bool x) 0 bs"

definition reader_ok :: "'br reader \<Rightarrow> ('br \<Rightarrow> bool list) \<Rightarrow> bool" where
  "reader_ok R left \<longleftrightarrow>
     (\<forall>n b. n \<le> 32 \<longrightarrow>
        (if n \<le> length (left b)
         then \<exists>b'. getBits R n b = (Some (bits_val (take n (left b))), b') \<and> left b' = drop n (left b)
         else fst (getBits R n b) = None)) \<and>
     (\<forall>b. bitsLeft R b = length (left b))"

lemma reader_get:
  assumes "reader_ok R left" "left b = xs @ rest" "length xs = n" "n \<le> 32"
  shows "\<exists>b'. getBits R n b = (Some (bits_val xs), b') \<and> left b' = rest"
proof -
  have "n \<le> length (left b)" using assms(2,3) by simp
  then obtain b' where "getBits R n b = (Some (bits_val (take n (left b))), b')" "left b' = drop n (left b)"
    using assms(1,4) unfolding reader_ok_def by metis
  then show ?thesis using assms(2,3) by simp
qed

text \<open>The number of binary digits below the leading one, and the \<open>k\<close> low digits of a number.\<close>

fun ue_len :: "nat \<Rightarrow> nat" where
  "ue_len n = (if n < 2 then 0 else Suc (ue_len (n div 2)))"

declare ue_len.simps [simp del]

fun bin :: "nat \<Rightarrow> nat \<Rightarrow> bool list" where
  "bin 0 n = []"
| "bin (Suc k) n = bin k (n div 2) @ [odd n]"

definition ue_code :: "nat \<Rightarrow> bool list" where
  "ue_code v = (let k = ue_len (v + 1) in replicate k False @ True # bin k (v + 1 - 2 ^ k))"

definition se_code :: "int \<Rightarrow> bool list" where
  "se_code s = ue_code (nat (if s > 0 then 2 * s - 1 else - 2 * s))"

lemma ue_len_bounds: "0 < n \<Longrightarrow> 2 ^ ue_len n \<le> n \<and> n < 2 ^ Suc (ue_len n)"
proof (induction n rule: ue_len.induct)
  case (1 n)
  show ?case
  proof (cases "n < 2")
    case True
    then show ?thesis using 1(2) by (simp add: ue_len.simps [of n])
  next
    case False
    then have "2 ^ ue_len (n div 2) \<le> n div 2 \<and> n div 2 < 2 ^ Suc (ue_len (n div 2))"
      using 1(1) by simp
    then show ?thesis using False by (auto simp: ue_len.simps [of n])
  qed
qed

lemma length_bin [simp]: "length (bin k n) = k"
  by (induction k n rule: bin.induct) simp_all

lemma bits_val_snoc: "bits_val (xs @ [x]) = 2 * bits_val xs + of_bool x"
  by (simp add: bits_val_def)

lemma bits_val_bin: "n < 2 ^ k \<Longrightarrow> bits_val (bin k n) = of_nat n"
proof (induction k n rule: bin.induct)
  case (1 n)
  then show ?case by (simp add: bits_val_def)
next
  case (2 k n)
  have "bits_val (bin (Suc k) n) = 2 * of_nat (n div 2) + of_bool (odd n)"
    using 2 by (simp add: bits_val_snoc)
  also have "\<dots> = of_nat (2 * (n div 2) + n mod 2)"
    by (simp only: of_nat_add of_nat_mult of_nat_numeral mod_2_eq_odd of_nat_of_bool)
  finally show ?case by simp
qed

lemma count_zeros_code:
  assumes "reader_ok R left" "left b = replicate k False @ True # rest" "k < fuel"
  shows "\<exists>b'. count_zeros R fuel n b = (Some (n + k), b') \<and> left b' = rest"
  using assms(2,3)
proof (induction k arbitrary: b n fuel)
  case 0
  then obtain f where "fuel = Suc f" by (cases fuel) auto
  with 0 reader_get [OF assms(1), of b "[True]" rest 1] show ?case
    by (auto simp: bits_val_def)
next
  case (Suc k)
  then obtain f where f: "fuel = Suc f" "k < f" by (cases fuel) auto
  obtain b1 where b1: "getBits R 1 b = (Some (bits_val [False]), b1)" "left b1 = replicate k False @ True # rest"
    using reader_get [OF assms(1), of b "[False]" _ 1] Suc.prems(1) by auto
  then show ?case using Suc.IH [OF b1(2) f(2), of "n + 1"] f(1) by (simp add: bits_val_def)
qed

lemma parseUE_code:
  assumes "reader_ok R left" "left b = ue_code v @ rest" "v < 2 ^ 32 - 1"
  shows "\<exists>b'. parseUE R b = (Some (of_nat v), b') \<and> left b' = rest"
proof -
  define k where "k = ue_len (v + 1)"
  define m where "m = v + 1 - 2 ^ k"
  have k: "2 ^ k \<le> v + 1" "v + 1 < 2 ^ Suc k"
    using ue_len_bounds [of "v + 1"] by (simp_all add: k_def)
  have k32: "k < 32"
  proof (rule ccontr)
    assume "\<not> k < 32"
    then have "(2 :: nat) ^ 32 \<le> 2 ^ k" by (intro power_increasing) simp_all
    then show False using k assms(3) by simp
  qed
  have m: "m < 2 ^ k" "v = m + (2 ^ k - 1)" using k by (auto simp: m_def)
  have code: "left b = replicate k False @ True # (bin k m @ rest)"
    using assms(2) by (simp add: ue_code_def k_def m_def Let_def)
  have "k < Suc (bitsLeft R b)"
    using assms(1) code by (simp add: reader_ok_def)
  then obtain b1 where b1: "count_zeros R (Suc (bitsLeft R b)) 0 b = (Some k, b1)" "left b1 = bin k m @ rest"
    using count_zeros_code [OF assms(1) code, of "Suc (bitsLeft R b)" 0] by auto
  obtain b2 where b2: "getBits R k b1 = (Some (bits_val (bin k m)), b2)" "left b2 = rest"
    using reader_get [OF assms(1) b1(2), of k] k32 by auto
  have "bits_val (bin k m) + (shl R k - 1) = of_nat v"
    using m k32 by (simp add: bits_val_bin shl_def push_bit_eq_mult of_nat_diff)
  then show ?thesis using b1 b2 by (simp add: parseUE_def)
qed

lemma sint_of_nat_small: "n < 2 ^ 31 \<Longrightarrow> sint (of_nat n :: u32) = int n"
  by (simp add: sint_uint uint_nat unat_of_nat signed_take_bit_int_eq_self)

lemma sint_neg_of_nat: "n < 2 ^ 31 \<Longrightarrow> sint (- (of_nat n :: u32)) = - int n"
proof -
  assume n: "n < 2 ^ 31"
  have "sint (word_of_int (- int n) :: u32) = signed_take_bit 31 (- int n)"
    using sint_sbintrunc' [where 'a = 32, of "- int n"] by simp
  also have "\<dots> = - int n"
    using n by (intro signed_take_bit_int_eq_self) simp_all
  finally show ?thesis by simp
qed

lemma odd_of_nat: "n < 2 ^ 32 \<Longrightarrow> (of_nat n :: u32) AND 1 \<noteq> 0 \<longleftrightarrow> odd n"
proof -
  assume n: "n < 2 ^ 32"
  have "unat ((of_nat n :: u32) AND 1) = n mod 2"
    using n by (simp add: and_one_eq unat_mod_distrib unat_of_nat)
  then show ?thesis by (simp add: unat_eq_0 [symmetric] odd_iff_mod_2_eq_one)
qed

lemma half_of_nat: "n < 2 ^ 32 \<Longrightarrow> drop_bit 1 (of_nat n :: u32) = of_nat (n div 2)"
proof -
  assume n: "n < 2 ^ 32"
  have "unat (drop_bit 1 (of_nat n :: u32)) = n div 2"
    unfolding unat_drop_bit_eq using n by (simp add: unat_of_nat drop_bit_eq_div)
  moreover have "unat (of_nat (n div 2) :: u32) = n div 2"
    using n by (simp add: unat_of_nat)
  ultimately show ?thesis by (metis word_unat_eq_iff)
qed

lemma parseSE_code:
  assumes "reader_ok R left" "left b = se_code s @ rest" "- (2 ^ 31) < s" "s < 2 ^ 31"
  shows "\<exists>b'. parseSE R b = (Some s, b') \<and> left b' = rest"
proof -
  define v where "v = nat (if s > 0 then 2 * s - 1 else - 2 * s)"
  have v: "v < 2 ^ 32 - 1" using assms(3,4) by (auto simp: v_def)
  obtain b' where b': "parseUE R b = (Some (of_nat v), b')" "left b' = rest"
    using parseUE_code [OF assms(1) _ v, of b rest] assms(2) by (auto simp: se_code_def v_def)
  have "sint (if (of_nat v :: u32) AND 1 \<noteq> 0 then drop_bit 1 (of_nat v + 1 :: u32) else - drop_bit 1 (of_nat v)) = s"
  proof (cases "s > 0")
    case True
    then have v2: "v + 1 = 2 * nat s" "odd v" by (auto simp: v_def even_nat_iff)
    have "drop_bit 1 ((of_nat v :: u32) + 1) = drop_bit 1 (of_nat (v + 1))" by (simp add: add.commute)
    also have "\<dots> = of_nat ((v + 1) div 2)" by (rule half_of_nat) (use v in simp)
    also have "(v + 1) div 2 = nat s" using v2(1) by simp
    finally have "sint (drop_bit 1 ((of_nat v :: u32) + 1)) = s"
      using sint_of_nat_small [of "nat s"] True assms(4) by simp
    then show ?thesis using odd_of_nat [of v] v v2(2) by simp
  next
    case False
    then have "v = 2 * nat (- s)" by (auto simp: v_def)
    then show ?thesis
      using False assms(3) v half_of_nat [of v] odd_of_nat [of v] sint_neg_of_nat [of "nat (- s)"] by simp
  qed
  then show ?thesis using b' by (simp add: parseSE_def)
qed

subsection \<open>Splitting the stream\<close>

text \<open>All units of a stream, in order, as repeated \<open>locateNextNal\<close> calls give them.\<close>

function units :: "nal_parser \<Rightarrow> bytes list" where
  "units p =
     (if np_next p = length (np_bytes p) then []
      else let p1 = snd (locateNextNal p) in np_data p1 # units p1)"
  by auto
termination
proof (relation "measure (\<lambda>p. if np_next p \<le> length (np_bytes p)
    then length (np_bytes p) - np_next p else 1)")
  fix p p1
  assume "np_next p \<noteq> length (np_bytes p)" "p1 = snd (locateNextNal p)"
  moreover from this have "np_next p1 = findNextStartCodePos (np_bytes p) (np_next p + 3)" "np_bytes p1 = np_bytes p"
    by (simp_all add: locateNextNal_def)
  ultimately show "(p1, p) \<in> measure (\<lambda>p. if np_next p \<le> length (np_bytes p)
      then length (np_bytes p) - np_next p else 1)"
    using findNextStartCodePos_bounds [of "np_bytes p" "np_next p + 3"] by auto
qed simp

declare units.simps [simp del]

lemma find_at:
  assumes "a \<le> j" "j + 3 \<le> length d" "is_start_code d j" "\<And>i. a \<le> i \<Longrightarrow> i < j \<Longrightarrow> \<not> is_start_code d i"
  shows "findNextStartCodePos d a = j"
  using assms
proof (induction d a rule: findNextStartCodePos.induct)
  case (1 d i)
  then show ?case
    by (cases "i = j") (auto simp: findNextStartCodePos.simps [of d i] findNextStartCodePos.simps [of d j])
qed

lemma find_none:
  assumes "\<And>i. a \<le> i \<Longrightarrow> i + 3 \<le> length d \<Longrightarrow> \<not> is_start_code d i"
  shows "findNextStartCodePos d a = length d"
  using assms
proof (induction d a rule: findNextStartCodePos.induct)
  case (1 d i)
  then show ?case by (simp add: findNextStartCodePos.simps [of d i])
qed

text \<open>A unit without start code in it and without trailing zero.\<close>

definition clean :: "bytes \<Rightarrow> bool" where
  "clean u \<longleftrightarrow> (\<forall>i. i + 3 \<le> length u \<longrightarrow> \<not> is_start_code u i) \<and> (u \<noteq> [] \<longrightarrow> last u \<noteq> 0)"

definition zero_byte :: "bool \<Rightarrow> bytes" where
  "zero_byte z = (if z then [0] else [])"

fun stream :: "(bool \<times> bytes) list \<Rightarrow> bytes" where
  "stream [] = []"
| "stream ((z, u) # us) = zero_byte z @ [0, 0, 1] @ u @ stream us"

lemma is_start_code_shift: "is_start_code (pre @ d) (length pre + i) = is_start_code d i"
  by (simp add: is_start_code_def nth_append)

lemma clean_prefix:
  assumes "clean u" "i < length u"
  shows "\<not> is_start_code (u @ zero_byte z @ rest) i"
proof
  assume s: "is_start_code (u @ zero_byte z @ rest) i"
  have l: "u ! (length u - 1) \<noteq> 0" using assms by (auto simp: clean_def last_conv_nth)
  consider "i + 3 \<le> length u" | "i + 1 = length u" | "i + 2 = length u" using assms(2) by linarith
  then show False
  proof cases
    case 1
    then have "is_start_code u i" using s by (simp add: is_start_code_def nth_append)
    then show ?thesis using 1 assms(1) by (simp add: clean_def)
  next
    case 2
    then have "i = length u - 1" by simp
    then show ?thesis using s l assms(2) by (simp add: is_start_code_def nth_append)
  next
    case 3
    then have "i + 1 = length u - 1" "i + 1 < length u" by simp_all
    then show ?thesis using s l by (simp add: is_start_code_def nth_append)
  qed
qed

text \<open>The next start code after a clean unit, with or without the extra zero byte, or the end.\<close>

lemma find_after_unit:
  assumes "clean u"
  shows "findNextStartCodePos (pre @ u @ stream us) (length pre) =
    (case us of [] \<Rightarrow> length (pre @ u) | (z, _) # _ \<Rightarrow> length (pre @ u @ zero_byte z))"
proof (cases us)
  case Nil
  have "\<not> is_start_code (pre @ u) i" if "length pre \<le> i" "i + 3 \<le> length (pre @ u)" for i
  proof -
    obtain k where "i = length pre + k" using \<open>length pre \<le> i\<close> le_Suc_ex by blast
    then show ?thesis using that assms is_start_code_shift [of pre u k] by (simp add: clean_def)
  qed
  then show ?thesis using find_none [of "length pre" "pre @ u"] Nil by simp
next
  case (Cons x us')
  obtain z v where x: "x = (z, v)" by (cases x)
  let ?d = "pre @ u @ stream us"
  let ?j = "length (pre @ u @ zero_byte z)"
  have d: "?d = (pre @ u @ zero_byte z) @ [0, 0, 1] @ v @ stream us'" by (simp add: Cons x)
  have at: "is_start_code ?d ?j"
    unfolding d using is_start_code_shift [of "pre @ u @ zero_byte z" "[0, 0, 1] @ v @ stream us'" 0]
    by (simp add: is_start_code_def)
  have not_before: "\<not> is_start_code ?d i" if i: "length pre \<le> i" "i < ?j" for i
  proof -
    obtain k where k: "i = length pre + k" using i(1) le_Suc_ex by blast
    show ?thesis
    proof (cases "k < length u")
      case True
      then show ?thesis
        using clean_prefix [OF assms, of k z "[0, 0, 1] @ v @ stream us'"] k is_start_code_shift [of pre]
        by (simp add: Cons x)
    next
      case False
      then have "z" "k = length u" using i(2) k by (auto simp: zero_byte_def split: if_splits)
      then have "is_start_code ?d i = is_start_code ([0, 0, 0, 1] @ v @ stream us') 0"
        using is_start_code_shift [of "pre @ u" "[0, 0, 0, 1] @ v @ stream us'" 0] k
        by (simp add: Cons x zero_byte_def)
      then show ?thesis by (simp add: is_start_code_def)
    qed
  qed
  have "findNextStartCodePos ?d (length pre) = ?j"
    by (rule find_at) (use at not_before in \<open>simp_all add: Cons x\<close>)
  then show ?thesis by (simp add: Cons x)
qed

lemma nth_last_append: "xs \<noteq> [] \<Longrightarrow> (xs @ ys) ! (length xs - 1) = last xs"
  by (simp add: nth_append last_conv_nth)

text \<open>The parser standing at the start code of the first of the remaining units.\<close>

lemma units_stream:
  assumes "list_all (\<lambda>(z, u). clean u) us" "np_bytes p = pre @ stream us"
    "np_next p = (case us of [] \<Rightarrow> length pre | (z, _) # _ \<Rightarrow> length (pre @ zero_byte z))"
  shows "units p = map snd us"
  using assms
proof (induction us arbitrary: p pre)
  case Nil
  then show ?case by (simp add: units.simps [of p])
next
  case (Cons x us)
  obtain z u where x: "x = (z, u)" by (cases x)
  let ?pre = "pre @ zero_byte z @ [0, 0, 1]"
  let ?p1 = "snd (locateNextNal p)"
  have bytes: "np_bytes p = ?pre @ u @ stream us" using Cons.prems(2) x by simp
  have "np_next p = length (pre @ zero_byte z)" using Cons.prems(3) x by simp
  then have ne: "np_next p \<noteq> length (np_bytes p)" and n3: "np_next p + 3 = length ?pre"
    by (simp_all add: bytes)
  have u: "clean u" using Cons.prems(1) x by simp
  have p1: "np_bytes ?p1 = ?pre @ u @ stream us" "np_cur ?p1 = length ?pre"
    using ne n3 by (simp_all add: locateNextNal_def bytes)
  have nx: "np_next ?p1 = findNextStartCodePos (np_bytes p) (np_next p + 3)"
    using ne by (simp add: locateNextNal_def)
  have p13: "np_next ?p1 = (case us of [] \<Rightarrow> length (?pre @ u) | (z, _) # _ \<Rightarrow> length (?pre @ u @ zero_byte z))"
    unfolding nx n3 bytes by (rule find_after_unit [OF u])
  have "np_length ?p1 = length u"
  proof (cases us)
    case Nil
    then show ?thesis using p1 p13 by (simp add: np_length_def)
  next
    case us: (Cons y ys)
    obtain z' v where y: "y = (z', v)" by (cases y)
    have nn: "np_next ?p1 = length (?pre @ u @ zero_byte z')" using p13 us y by simp
    have lst: "np_bytes ?p1 ! (np_next ?p1 - 1) = last (?pre @ u @ zero_byte z')"
      unfolding nn p1(1) using nth_last_append [of "?pre @ u @ zero_byte z'" "[0, 0, 1] @ v @ stream ys"] us y
      by simp
    show ?thesis
    proof (cases z')
      case True
      then show ?thesis using nn lst p1 us y by (simp add: np_length_def zero_byte_def)
    next
      case False
      have "last (?pre @ u) \<noteq> 0" using u by (cases "u = []") (simp_all add: clean_def)
      then show ?thesis using False nn lst p1 us y by (simp add: np_length_def zero_byte_def)
    qed
  qed
  then have "np_data ?p1 = u" using p1 by (simp add: np_data_def)
  moreover have "units ?p1 = map snd us"
    by (rule Cons.IH [of ?p1 "?pre @ u"]) (use Cons.prems(1) p1 p13 in \<open>simp_all split: list.split\<close>)
  ultimately show ?case using ne x by (simp add: units.simps [of p] Let_def)
qed

subsection \<open>Locating a unit\<close>

lemma locate_find:
  "locate type kind p = (found, p') \<Longrightarrow>
   find (\<lambda>u. u \<noteq> [] \<and> type (hd u) = kind) (units p) = (if found then Some (np_data p') else None)"
proof (induction type kind p arbitrary: found p' rule: locate.induct)
  case (1 type kind p)
  show ?case
  proof (cases "np_next p = length (np_bytes p)")
    case True
    then show ?thesis using 1(3) by (auto simp: locate.simps [of type kind p] units.simps [of p] units.simps [of p'])
  next
    case False
    let ?p1 = "snd (locateNextNal p)"
    have nx: "np_next ?p1 \<le> length (np_bytes ?p1)"
      using findNextStartCodePos_bounds False by (simp add: locateNextNal_def)
    have cur: "np_cur ?p1 < length (np_bytes ?p1)" if "np_length ?p1 \<noteq> 0"
      using that nx by (auto simp: np_length_def Let_def split: if_splits)
    then have d: "np_data ?p1 \<noteq> [] \<longleftrightarrow> np_length ?p1 \<noteq> 0"
      "np_length ?p1 \<noteq> 0 \<Longrightarrow> hd (np_data ?p1) = np_bytes ?p1 ! np_cur ?p1"
      by (auto simp: np_data_def hd_drop_conv_nth)
    have u: "units p = np_data ?p1 # units ?p1" using False by (simp add: units.simps [of p] Let_def)
    show ?thesis
    proof (cases "np_length ?p1 = 0 \<or> type (np_bytes ?p1 ! np_cur ?p1) \<noteq> kind")
      case True
      then have l: "locate type kind ?p1 = (found, p')"
        using 1(3) False by (auto simp: locate.simps [of type kind p] Let_def split: if_splits)
      have "\<not> (np_data ?p1 \<noteq> [] \<and> type (hd (np_data ?p1)) = kind)" using True d by auto
      moreover have "find (\<lambda>u. u \<noteq> [] \<and> type (hd u) = kind) (units ?p1) = (if found then Some (np_data p') else None)"
        using True 1(1) [OF False refl _ l] 1(2) [OF False refl _ _ l] by blast
      ultimately show ?thesis using u by auto
    next
      case hit: False
      then have "found" "p' = ?p1"
        using 1(3) False by (auto simp: locate.simps [of type kind p] Let_def split: if_splits)
      then show ?thesis using u d hit by simp
    qed
  qed
qed

subsection \<open>Reading a parameter set\<close>

definition skips_ok :: "'br reader \<Rightarrow> ('br \<Rightarrow> bool list) \<Rightarrow> bool" where
  "skips_ok R left \<longleftrightarrow> (\<forall>n b. n \<le> length (left b) \<longrightarrow> left (skipBits R n b) = drop n (left b))"

text \<open>A parser consumes exactly the given bits and returns the given value.\<close>

definition reads :: "('br \<Rightarrow> bool list) \<Rightarrow> ('br, 'a) parse \<Rightarrow> bool list \<Rightarrow> 'a \<Rightarrow> bool" where
  "reads left p xs r \<longleftrightarrow> (\<forall>b rest. left b = xs @ rest \<longrightarrow> (\<exists>b'. p b = (Ok r, b') \<and> left b' = rest))"

named_theorems reading \<open>what the elementary parsers read\<close>

lemma reads_andThen:
  assumes "reads left p xs x" "reads left (q x) ys y"
  shows "reads left (andThen p q) (xs @ ys) y"
  unfolding reads_def
proof (intro allI impI)
  fix b rest
  assume "left b = (xs @ ys) @ rest"
  then obtain b1 where "p b = (Ok x, b1)" "left b1 = ys @ rest"
    using assms(1) unfolding reads_def by (metis append.assoc)
  moreover from this obtain b2 where "q x b1 = (Ok y, b2)" "left b2 = rest"
    using assms(2) unfolding reads_def by metis
  ultimately show "\<exists>b'. andThen p q b = (Ok y, b') \<and> left b' = rest" by (simp add: andThen_def)
qed

lemma reads_bits [reading]:
  assumes "reader_ok R left" "length xs = n" "n \<le> 32"
  shows "reads left (bits R n) xs (bits_val xs)"
  unfolding reads_def using reader_get [OF assms(1) _ assms(2,3)] by (force simp: bits_def)

lemma reads_skip [reading]: "skips_ok R left \<Longrightarrow> length xs = n \<Longrightarrow> reads left (skip R n) xs ()"
  by (simp add: reads_def skip_def skips_ok_def)

lemma reads_ret [reading]: "reads left (ret x) [] x"
  by (simp add: reads_def ret_def)

lemma reads_ue [reading]: "reader_ok R left \<Longrightarrow> v < 2 ^ 32 - 1 \<Longrightarrow> reads left (ue R) (ue_code v) (of_nat v)"
  unfolding reads_def using parseUE_code by (fastforce simp: ue_def)

lemma reads_ignore_ue [reading]: "reader_ok R left \<Longrightarrow> v < 2 ^ 32 - 1 \<Longrightarrow> reads left (ignore_ue R) (ue_code v) ()"
  unfolding reads_def using parseUE_code by (fastforce simp: ignore_ue_def)

text \<open>
  The bits of a sequence parameter set without scaling lists (a profile outside the high ones, picture
  order count type 0, no cropping) that carries a colour description.
\<close>

record sps_fields =
  f_profile :: "bool list"
  f_level :: "bool list"
  f_id :: nat
  f_log2_frame_num :: nat
  f_log2_poc :: nat
  f_refs :: nat
  f_gaps :: bool
  f_width :: nat
  f_height :: nat
  f_direct :: bool
  f_format :: "bool list"
  f_full :: bool
  f_primaries :: "bool list"
  f_transfer :: "bool list"
  f_coeffs :: "bool list"

definition sps_ok :: "sps_fields \<Rightarrow> bool" where
  "sps_ok f \<longleftrightarrow> length (f_profile f) = 8 \<and> bits_val (f_profile f) \<notin> set H264ProfileIDC \<and> length (f_level f) = 16 \<and>
     length (f_format f) = 3 \<and> length (f_primaries f) = 8 \<and> length (f_transfer f) = 8 \<and> length (f_coeffs f) = 8 \<and>
     list_all (\<lambda>v. v < 2 ^ 32 - 1) [f_id f, f_log2_frame_num f, f_log2_poc f, f_refs f, f_width f, f_height f]"

definition sps_head :: "sps_fields \<Rightarrow> bool list" where
  "sps_head f = f_profile f @ f_level f @ ue_code (f_id f) @ ue_code (f_log2_frame_num f) @ ue_code 0 @
     ue_code (f_log2_poc f) @ ue_code (f_refs f) @ [f_gaps f] @ ue_code (f_width f) @ ue_code (f_height f) @
     [True] @ [f_direct f] @ [False]"

definition vui_head :: "sps_fields \<Rightarrow> bool list" where
  "vui_head f = [True] @ [False] @ [False] @ [True] @ f_format f @ [f_full f]"

definition sps_bits :: "sps_fields \<Rightarrow> bool list" where
  "sps_bits f = sps_head f @ vui_head f @ [True] @ f_primaries f @ f_transfer f @ f_coeffs f"

lemma bits_val_single: "bits_val [x] = of_bool x"
  by (simp add: bits_val_def)

lemma reads_opt:
  "reads left p xs () \<Longrightarrow> c \<Longrightarrow> reads left (opt c p) xs ()" "\<not> c \<Longrightarrow> reads left (opt c p) [] ()"
  by (simp_all add: opt_def reads_ret)

lemma reads_flag [reading]: "reader_ok R left \<Longrightarrow> reads left (bits R 1) [x] (of_bool x)"
  using reads_bits [of R left "[x]" 1] by (simp add: bits_val_single)

lemma reads_empty: "reads left p ([] @ xs) x \<Longrightarrow> reads left p xs x"
  by simp

lemma h264_poc_reads:
  assumes "reader_ok R left" "a < 2 ^ 32 - 1" "c < 2 ^ 32 - 1"
  shows "reads left (h264_poc R) (ue_code a @ ue_code 0 @ ue_code c) ()"
proof -
  have z: "reads left (ue R) (ue_code 0) 0" using reads_ue [OF assms(1), of 0] by simp
  show ?thesis
    unfolding h264_poc_def
    by (rule reads_andThen [OF reads_ignore_ue [OF assms(1,2)]], rule reads_andThen [OF z])
      (simp, rule reads_ignore_ue [OF assms(1,3)])
qed

lemma reads_nothing: "\<not> c \<Longrightarrow> reads left (q ()) ys y \<Longrightarrow> reads left (andThen (opt c p) q) ys y"
  using reads_andThen [OF reads_opt(2), of c left q ys y p] by simp

lemma h264_sps_reads:
  assumes R: "reader_ok R left" and S: "skips_ok R left" and f: "sps_ok f"
  shows "reads left (h264_sps R) (sps_head f) ()"
proof -
  have l: "length (f_profile f) = 8" "length (f_level f) = 16"
    and p: "\<not> bits_val (f_profile f) \<in> set H264ProfileIDC"
    and u: "f_id f < 2 ^ 32 - 1" "f_log2_frame_num f < 2 ^ 32 - 1" "f_log2_poc f < 2 ^ 32 - 1" "f_refs f < 2 ^ 32 - 1"
      "f_width f < 2 ^ 32 - 1" "f_height f < 2 ^ 32 - 1"
    using f by (simp_all add: sps_ok_def)
  note skip1 = reads_skip [OF S, where n = 1]
  have poc: "reads left (h264_poc R) (ue_code (f_log2_frame_num f) @ ue_code 0 @ ue_code (f_log2_poc f)) ()"
    by (rule h264_poc_reads [OF R u(2,3)])
  have tail: "reads left (andThen (bits R 1) (\<lambda>m. andThen (opt (m = 0) (skip R 1)) (\<lambda>_. andThen (skip R 1) (\<lambda>_.
      andThen (bits R 1) (\<lambda>c. opt (c \<noteq> 0) (repeat_p 4 (ignore_ue R))))))) ([True] @ [f_direct f] @ [False]) ()"
  proof (rule reads_andThen [OF reads_flag [OF R]])
    have "reads left (andThen (bits R 1) (\<lambda>c. opt (c \<noteq> 0) (repeat_p 4 (ignore_ue R)))) ([False] @ []) ()"
      by (rule reads_andThen [OF reads_flag [OF R]]) (simp add: reads_opt)
    then have "reads left (andThen (skip R 1) (\<lambda>_. andThen (bits R 1) (\<lambda>c. opt (c \<noteq> 0) (repeat_p 4 (ignore_ue R)))))
        ([f_direct f] @ [False]) ()"
      by (intro reads_andThen [OF skip1]) simp_all
    then show "reads left (andThen (opt ((of_bool True :: u32) = 0) (skip R 1)) (\<lambda>_. andThen (skip R 1) (\<lambda>_.
        andThen (bits R 1) (\<lambda>c. opt (c \<noteq> 0) (repeat_p 4 (ignore_ue R)))))) ([f_direct f] @ [False]) ()"
      by (intro reads_nothing) simp_all
  qed
  have mid: "reads left (andThen (ignore_ue R) (\<lambda>_. andThen (skip R 1) (\<lambda>_. andThen (ignore_ue R) (\<lambda>_.
      andThen (ignore_ue R) (\<lambda>_. andThen (bits R 1) (\<lambda>m. andThen (opt (m = 0) (skip R 1)) (\<lambda>_. andThen (skip R 1) (\<lambda>_.
      andThen (bits R 1) (\<lambda>c. opt (c \<noteq> 0) (repeat_p 4 (ignore_ue R)))))))))))
    (ue_code (f_refs f) @ [f_gaps f] @ ue_code (f_width f) @ ue_code (f_height f) @ [True] @ [f_direct f] @ [False]) ()"
    by (rule reads_andThen [OF reads_ignore_ue [OF R u(4)]], rule reads_andThen [OF skip1], simp,
        rule reads_andThen [OF reads_ignore_ue [OF R u(5)]], rule reads_andThen [OF reads_ignore_ue [OF R u(6)]],
        rule tail)
  have "reads left (h264_sps R)
     (f_profile f @ f_level f @ ue_code (f_id f) @
       ((ue_code (f_log2_frame_num f) @ ue_code 0 @ ue_code (f_log2_poc f)) @
        (ue_code (f_refs f) @ [f_gaps f] @ ue_code (f_width f) @ ue_code (f_height f) @ [True] @ [f_direct f] @ [False]))) ()"
    unfolding h264_sps_def
    by (rule reads_andThen [OF reads_bits [OF R l(1)]], simp, rule reads_andThen [OF reads_skip [OF S l(2)]],
        rule reads_andThen [OF reads_ignore_ue [OF R u(1)]], rule reads_nothing [OF p],
        rule reads_andThen [OF poc], rule mid)
  then show ?thesis by (simp add: sps_head_def)
qed

lemma reads_true:
  assumes "reader_ok R left" "reads left (q 1) ys y"
  shows "reads left (andThen (bits R 1) q) (True # ys) y"
proof -
  have "reads left (bits R 1) [True] 1" using reads_flag [OF assms(1), of True] by simp
  from reads_andThen [where q = q, OF this assms(2)] show ?thesis by simp
qed

lemma reads_false:
  assumes "reader_ok R left" "reads left (q 0) ys y"
  shows "reads left (andThen (bits R 1) q) (False # ys) y"
proof -
  have "reads left (bits R 1) [False] 0" using reads_flag [OF assms(1), of False] by simp
  from reads_andThen [where q = q, OF this assms(2)] show ?thesis by simp
qed

lemma vui_prefix_reads:
  assumes R: "reader_ok R left" and S: "skips_ok R left" and f: "sps_ok f"
  shows "reads left (vui_prefix R) (vui_head f) (of_bool (f_full f))"
proof -
  have l: "length (f_format f) = 3" using f by (simp add: sps_ok_def)
  have t: "reads left (andThen (skip R 3) (\<lambda>_. bits R 1)) (f_format f @ [f_full f]) (of_bool (f_full f))"
    by (rule reads_andThen [OF reads_skip [OF S l] reads_flag [OF R]])
  have v: "vui_head f = True # False # False # True # f_format f @ [f_full f]" by (simp add: vui_head_def)
  show ?thesis
    unfolding vui_prefix_def v
    by (rule reads_true [OF R], subst if_not_P, simp, rule reads_false [OF R], rule reads_nothing, simp,
        rule reads_false [OF R], rule reads_nothing, simp, rule reads_true [OF R], subst if_not_P, simp, rule t)
qed

lemma vui_colors_reads:
  assumes R: "reader_ok R left" and S: "skips_ok R left" and f: "sps_ok f"
    and b: "left b = vui_head f @ [True] @ f_primaries f @ f_transfer f @ f_coeffs f @ rest"
  shows "vui_colors R a b =
    (True, \<lparr>primaries = bits_val (f_primaries f), transfer = bits_val (f_transfer f),
            coeffs = bits_val (f_coeffs f), fullRange = f_full f\<rparr>)"
proof -
  have l: "length (f_primaries f) = 8" "length (f_transfer f) = 8" "length (f_coeffs f) = 8"
    using f by (simp_all add: sps_ok_def)
  obtain b1 where b1: "vui_prefix R b = (Ok (of_bool (f_full f)), b1)"
    "left b1 = [True] @ f_primaries f @ f_transfer f @ f_coeffs f @ rest"
    using vui_prefix_reads [OF R S f] b unfolding reads_def by metis
  obtain b2 where b2: "bits R 1 b1 = (Ok 1, b2)" "left b2 = f_primaries f @ f_transfer f @ f_coeffs f @ rest"
    using reads_flag [OF R, of True] b1(2) unfolding reads_def by (metis of_bool_eq(2))
  obtain b3 where b3: "bits R 8 b2 = (Ok (bits_val (f_primaries f)), b3)" "left b3 = f_transfer f @ f_coeffs f @ rest"
    using reads_bits [OF R l(1)] b2(2) unfolding reads_def by auto
  obtain b4 where b4: "bits R 8 b3 = (Ok (bits_val (f_transfer f)), b4)" "left b4 = f_coeffs f @ rest"
    using reads_bits [OF R l(2)] b3(2) unfolding reads_def by auto
  obtain b5 where b5: "bits R 8 b4 = (Ok (bits_val (f_coeffs f)), b5)" "left b5 = rest"
    using reads_bits [OF R l(3)] b4(2) unfolding reads_def by auto
  show ?thesis
    using b1(1) b2(1) b3(1) b4(1) b5(1) by (simp add: vui_colors_def Let_def del: One_nat_def)
qed

text \<open>A reader over a list of bits, with the documented behaviour.\<close>

definition list_reader :: "bool list reader" where
  "list_reader =
     \<lparr>mkReader = (\<lambda>bytes. concat (map (\<lambda>x. map (bit x) [7, 6, 5, 4, 3, 2, 1, 0]) bytes)),
      getBits = (\<lambda>n b. if n \<le> length b then (Some (bits_val (take n b)), drop n b) else (None, b)),
      skipBits = drop, bitsLeft = length, shl_32 = 0\<rparr>"

lemma list_reader_ok: "reader_ok list_reader (\<lambda>b. b)"
  by (simp add: reader_ok_def list_reader_def)

subsection \<open>Properties\<close>

text \<open>
  \<open>parseUE\<close> and \<open>parseSE\<close> invert the Exp-Golomb codes of the standard: on a stream that starts
  with the code of a number they return this number and stop right behind the code, for all unsigned
  numbers below \<open>2^32 - 1\<close> and all signed ones between \<open>-2^31\<close> and \<open>2^31\<close>.
\<close>

theorem exp_golomb_roundtrip:
  assumes "reader_ok R left"
  shows "(v < 2 ^ 32 - 1 \<and> left b = ue_code v @ rest \<longrightarrow>
      (\<exists>b'. parseUE R b = (Some (of_nat v), b') \<and> left b' = rest)) \<and>
    (- (2 ^ 31) < s \<and> s < 2 ^ 31 \<and> left b = se_code s @ rest \<longrightarrow>
      (\<exists>b'. parseSE R b = (Some s, b') \<and> left b' = rest))"
  using parseUE_code [OF assms] parseSE_code [OF assms] by blast

theorem exp_golomb_roundtrip_witness:
  "parseUE list_reader (ue_code 12 @ [True]) = (Some 12, [True]) \<and>
   parseSE list_reader (se_code (-3) @ [False]) = (Some (-3), [False])"
  using exp_golomb_roundtrip [OF list_reader_ok, of 12 "ue_code 12 @ [True]" "[True]" 0]
    exp_golomb_roundtrip [OF list_reader_ok, of 0 "se_code (-3) @ [False]" "[False]" "-3"] by auto

text \<open>
  C27: a stream made of units, each behind a three or four byte start code, is split into exactly
  these units, provided no unit holds a start code or ends in a zero byte.
\<close>

theorem nal_split_roundtrip:
  assumes "list_all (\<lambda>(z, u). clean u) us"
  shows "units (new_parser (stream us)) = map snd us"
proof (rule units_stream [where pre = "[]", OF assms])
  have "clean []" by (simp add: clean_def)
  from find_after_unit [OF this, of "[]" us]
  show "np_next (new_parser (stream us)) = (case us of [] \<Rightarrow> length [] | (z, _) # _ \<Rightarrow> length ([] @ zero_byte z))"
    by (simp add: new_parser_def split: list.splits)
qed (simp add: new_parser_def)

theorem nal_split_roundtrip_witness:
  "units (new_parser [0, 0, 0, 1, 0x67, 0x42, 0, 0, 1, 0x65]) = [[0x67, 0x42], [0x65]]"
  using nal_split_roundtrip [of "[(True, [0x67, 0x42]), (False, [0x65])]"]
  by (simp add: clean_def zero_byte_def)

text \<open>
  \<open>locateSPS\<close> finds the first non-empty unit of the right type and stands on it, and fails
  exactly when there is none; it always ends.
\<close>

theorem sps_located:
  "h264_locateSPS p = (found, p') \<Longrightarrow>
   find (\<lambda>u. u \<noteq> [] \<and> h264_type (hd u) = h264_kSPSType) (units p) = (if found then Some (np_data p') else None)"
  unfolding h264_locateSPS_def by (rule locate_find)

theorem sps_located_witness:
  "\<exists>p'. h264_locateSPS (new_parser [0, 0, 1, 0x65, 0, 0, 1, 0x67, 0x42]) = (True, p') \<and> np_data p' = [0x67, 0x42]"
proof -
  let ?p = "new_parser [0, 0, 1, 0x65, 0, 0, 1, 0x67, 0x42]"
  obtain found p' where l: "h264_locateSPS ?p = (found, p')" by (cases "h264_locateSPS ?p")
  have "units ?p = [[0x65], [0x67, 0x42]]"
    using units_stream [of "[(False, [0x65]), (False, [0x67, 0x42])]" ?p "[]"]
      find_at [of 0 0 "[0, 0, 1, 0x65, 0, 0, 1, 0x67, 0x42]"]
    by (simp add: clean_def zero_byte_def new_parser_def is_start_code_def)
  then show ?thesis using sps_located [OF l] l by (simp add: h264_type_def h264_kSPSType_def split: if_splits)
qed

text \<open>
  from a parameter set that carries a colour description the parser returns exactly the
  primaries, transfer function, matrix coefficients and range flag written there.
\<close>

theorem sps_color_roundtrip:
  assumes "reader_ok R left" and "skips_ok R left" and "sps_ok f"
    and "left (mkReader R (tl (np_data p))) = sps_bits f @ rest"
  shows "h264_findCodedColorAspects R a p =
    (True, \<lparr>primaries = bits_val (f_primaries f), transfer = bits_val (f_transfer f),
            coeffs = bits_val (f_coeffs f), fullRange = f_full f\<rparr>)"
proof -
  let ?b = "mkReader R (take (np_length p - 1) (drop (np_cur p + 1) (np_bytes p)))"
  have "tl (np_data p) = take (np_length p - 1) (drop (np_cur p + 1) (np_bytes p))"
    by (simp add: np_data_def tl_take tl_drop drop_Suc)
  then have "left ?b = sps_head f @ vui_head f @ [True] @ f_primaries f @ f_transfer f @ f_coeffs f @ rest"
    using assms(4) by (simp add: sps_bits_def)
  then obtain b where "h264_sps R ?b = (Ok (), b)"
    "left b = vui_head f @ [True] @ f_primaries f @ f_transfer f @ f_coeffs f @ rest"
    using h264_sps_reads [OF assms(1-3)] unfolding reads_def by metis
  then show ?thesis using vui_colors_reads [OF assms(1-3)] by (simp add: h264_findCodedColorAspects_def)
qed

definition sample_sps :: sps_fields where
  "sample_sps =
     \<lparr>f_profile = bin 8 66, f_level = bin 8 192 @ bin 8 30, f_id = 0, f_log2_frame_num = 4, f_log2_poc = 2, f_refs = 1,
      f_gaps = False, f_width = 39, f_height = 29, f_direct = True, f_format = bin 3 5, f_full = True,
      f_primaries = bin 8 9, f_transfer = bin 8 16, f_coeffs = bin 8 9\<rparr>"

definition sample_sps_bytes :: bytes where
  "sample_sps_bytes = [66, 192, 30, 150, 208, 20, 7, 180, 220, 36, 64, 38]"

lemma sample_sps_ok: "sps_ok sample_sps"
  by (simp add: sps_ok_def sample_sps_def bits_val_bin H264ProfileIDC_def)

lemma ue_code_small:
  "ue_code 0 = [True]" "ue_code 1 = [False, True, False]" "ue_code 2 = [False, True, True]"
  "ue_code 4 = [False, False, True, False, True]"
  "ue_code 29 = [False, False, False, False, True, True, True, True, False]"
  "ue_code 39 = [False, False, False, False, False, True, False, True, False, False, False]"
  by code_simp+

lemma sample_sps_bits: "mkReader list_reader sample_sps_bytes = sps_bits sample_sps @ [True, False]"
proof -
  have c: "ue_code 0 = [True]" "ue_code (Suc 0) = [False, True, False]" using ue_code_small(1,2) by simp_all
  have b: "bin 8 66 = [False, True, False, False, False, False, True, False]"
    "bin 8 192 = [True, True, False, False, False, False, False, False]"
    "bin 8 30 = [False, False, False, True, True, True, True, False]"
    "bin 3 5 = [True, False, True]" "bin 8 9 = [False, False, False, False, True, False, False, True]"
    "bin 8 16 = [False, False, False, True, False, False, False, False]"
    by code_simp+
  show ?thesis
    by (simp add: sps_bits_def sps_head_def vui_head_def sample_sps_def c ue_code_small b list_reader_def
        sample_sps_bytes_def)
qed

lemma list_reader_skips: "skips_ok list_reader (\<lambda>b. b)"
  by (simp add: skips_ok_def list_reader_def)

theorem sps_color_roundtrip_witness:
  "h264_findCodedColorAspects list_reader \<lparr>primaries = 0, transfer = 0, coeffs = 0, fullRange = False\<rparr>
      \<lparr>np_bytes = 0x67 # sample_sps_bytes, np_cur = 0, np_next = 13\<rparr> =
     (True, \<lparr>primaries = 9, transfer = 16, coeffs = 9, fullRange = True\<rparr>)"
proof -
  have "tl (np_data \<lparr>np_bytes = 0x67 # sample_sps_bytes, np_cur = 0, np_next = 13\<rparr>) = sample_sps_bytes" by code_simp
  then show ?thesis
    using sps_color_roundtrip [OF list_reader_ok list_reader_skips sample_sps_ok,
        of "\<lparr>np_bytes = 0x67 # sample_sps_bytes, np_cur = 0, np_next = 13\<rparr>" "[True, False]"]
    by (simp add: sample_sps_bits, simp add: sample_sps_def bits_val_bin)
qed

end
