(* ===== verification/Hevc_Parser.thy ===== *)
theory Hevc_Parser
  imports Nal_Parser
begin

text \<open>
  The SPS parser of \<^verbatim>\<open>src/codec2/common/HEVCNalParser.cpp\<close>. An \<open>int\<close> is a 32-bit word that wraps and
  is compared through \<open>sint\<close>; where the code compares an \<open>int\<close> with the unsigned constant
  \<open>kMaxShortTermRefPicSets\<close> the comparison is the unsigned one, as in C++. Every access to one of the
  fixed arrays goes through \<open>at\<close> and \<open>put\<close>, which give \<open>Out_Of_Bounds\<close> outside them.
\<close>

definition at :: "'a list \<Rightarrow> int \<Rightarrow> ('br, 'a) parse" where
  "at xs i b = (if 0 \<le> i \<and> nat i < length xs then (Ok (xs ! nat i), b) else (Out_Of_Bounds, b))"

definition put :: "'a list \<Rightarrow> int \<Rightarrow> 'a \<Rightarrow> ('br, 'a list) parse" where
  "put xs i v b = (if 0 \<le> i \<and> nat i < length xs then (Ok (xs[nat i := v]), b) else (Out_Of_Bounds, b))"

fun for_p :: "'i list \<Rightarrow> ('i \<Rightarrow> 's \<Rightarrow> ('br, 's) parse) \<Rightarrow> 's \<Rightarrow> ('br, 's) parse" where
  "for_p [] f s = ret s"
| "for_p (i # is) f s = andThen (f i s) (for_p is f)"

definition kMaxShortTermRefPicSets :: nat where
  "kMaxShortTermRefPicSets = 64"

record StRefPicSet =
  numNegativePics :: u32
  numPositivePics :: u32
  deltaPocS0 :: "u32 list"
  deltaPocS1 :: "u32 list"
  numDeltaPocs :: u32

definition ints :: "u32 \<Rightarrow> nat list" where
  "ints n = [0..<nat (sint n)]"

subsection \<open>Skipping what the parser does not use\<close>

definition skipProfileTierLevel :: "'br reader \<Rightarrow> u32 \<Rightarrow> ('br, unit) parse" where
  "skipProfileTierLevel R spsMaxSublayersMinus1 =
     andThen (skip R 96) (\<lambda>_.
     if spsMaxSublayersMinus1 > 6 then stop
     else
       andThen (for_p [0..<unat spsMaxSublayersMinus1] (\<lambda>i (prof, lev).
                  andThen (bits R 1) (\<lambda>v. andThen (put prof (int i) v) (\<lambda>prof1.
                  andThen (bits R 1) (\<lambda>w. andThen (put lev (int i) w) (\<lambda>lev1. ret (prof1, lev1))))))
                (replicate 6 0, replicate 6 0)) (\<lambda>(prof, lev).
       andThen (opt (spsMaxSublayersMinus1 > 0) (skip R (2 * (8 - unat spsMaxSublayersMinus1)))) (\<lambda>_.
       for_p [0..<unat spsMaxSublayersMinus1] (\<lambda>i _.
         andThen (at prof (int i)) (\<lambda>p. andThen (opt (p \<noteq> 0) (skip R 88)) (\<lambda>_.
         andThen (at lev (int i)) (\<lambda>l. opt (l \<noteq> 0) (skip R 8))))) ())))"

definition skipScalingListData :: "'br reader \<Rightarrow> ('br, unit) parse" where
  "skipScalingListData R =
     for_p [0..<4] (\<lambda>sizeId _.
       for_p (if sizeId = 3 then [0, 3] else [0..<6]) (\<lambda>matrixId _.
         andThen (bits R 1) (\<lambda>scalingListPredModeFlag.
         if scalingListPredModeFlag = 0 then ignore_ue R
         else
           andThen (opt (sizeId > 1) (ignore_se R)) (\<lambda>_.
           repeat_p (min 64 (2 ^ (4 + 2 * sizeId))) (ignore_se R)))) ()) ()"

subsection \<open>Short-term reference picture sets\<close>

text \<open>\<open>if (keep && useDeltaFlag[k]) deltas[i++] = v;\<close>\<close>

definition keep_delta ::
  "bool \<Rightarrow> u32 list \<Rightarrow> int \<Rightarrow> u32 \<Rightarrow> nat \<times> u32 list \<Rightarrow> ('br, nat \<times> u32 list) parse" where
  "keep_delta keep useDeltaFlag k v s =
     (if keep then
        andThen (at useDeltaFlag k) (\<lambda>f.
        if f \<noteq> 0 then andThen (put (snd s) (int (fst s)) v) (\<lambda>d. ret (fst s + 1, d)) else ret s)
      else ret s)"

definition flag_turn :: "'br reader \<Rightarrow> nat \<Rightarrow> u32 list \<Rightarrow> ('br, u32 list) parse" where
  "flag_turn R j useDeltaFlag =
     andThen (bits R 1) (\<lambda>usedByCurrPicFlag.
     if usedByCurrPicFlag = 0 then andThen (bits R 1) (\<lambda>v. put useDeltaFlag (int j) v) else ret useDeltaFlag)"

definition read_flags :: "'br reader \<Rightarrow> StRefPicSet \<Rightarrow> ('br, u32 list) parse" where
  "read_flags R refSet =
     for_p [0..<nat (sint (numDeltaPocs refSet) + 1)] (flag_turn R) (replicate kMaxShortTermRefPicSets 1)"

text \<open>
  The two passes over the reference set, for the negative and for the positive pictures; the sign
  test is the parameter \<open>side\<close>.
\<close>

definition old_delta ::
  "(int \<Rightarrow> bool) \<Rightarrow> u32 \<Rightarrow> u32 list \<Rightarrow> u32 list \<Rightarrow> int \<Rightarrow> nat \<Rightarrow> nat \<times> u32 list \<Rightarrow> ('br, nat \<times> u32 list) parse" where
  "old_delta side deltaRps useDeltaFlag deltas base j s =
     andThen (at deltas (int j)) (\<lambda>d.
     keep_delta (side (sint (d + deltaRps))) useDeltaFlag (base + int j) (d + deltaRps) s)"

definition negative_pass ::
  "StRefPicSet \<Rightarrow> u32 \<Rightarrow> u32 list \<Rightarrow> u32 list \<Rightarrow> ('br, nat \<times> u32 list) parse" where
  "negative_pass refSet deltaRps useDeltaFlag cur =
     andThen (for_p (rev (ints (numPositivePics refSet)))
       (old_delta (\<lambda>x. x < 0) deltaRps useDeltaFlag (deltaPocS1 refSet) (sint (numNegativePics refSet))) (0, cur)) (\<lambda>s.
     andThen (keep_delta (sint deltaRps < 0) useDeltaFlag (sint (numDeltaPocs refSet)) deltaRps s) (\<lambda>s1.
     for_p (ints (numNegativePics refSet))
       (old_delta (\<lambda>x. x < 0) deltaRps useDeltaFlag (deltaPocS0 refSet) 0) s1))"

definition positive_pass ::
  "StRefPicSet \<Rightarrow> u32 \<Rightarrow> u32 list \<Rightarrow> u32 list \<Rightarrow> ('br, nat \<times> u32 list) parse" where
  "positive_pass refSet deltaRps useDeltaFlag cur =
     andThen (for_p (rev (ints (numNegativePics refSet)))
       (old_delta (\<lambda>x. x > 0) deltaRps useDeltaFlag (deltaPocS0 refSet) 0) (0, cur)) (\<lambda>s.
     andThen (keep_delta (sint deltaRps > 0) useDeltaFlag (sint (numDeltaPocs refSet)) deltaRps s) (\<lambda>s1.
     for_p (ints (numPositivePics refSet))
       (old_delta (\<lambda>x. x > 0) deltaRps useDeltaFlag (deltaPocS1 refSet) (sint (numNegativePics refSet))) s1))"

definition predicted_set :: "'br reader \<Rightarrow> u32 \<Rightarrow> u32 \<Rightarrow> StRefPicSet list \<Rightarrow> StRefPicSet \<Rightarrow> ('br, StRefPicSet) parse" where
  "predicted_set R stRpsIdx numShortTermRefPicSets allRefPicSets currRefPicSet =
     andThen (if stRpsIdx = numShortTermRefPicSets
              then andThen (ue R) (\<lambda>v. if v + 1 > stRpsIdx then stop else ret v)
              else ret 0) (\<lambda>deltaIdxMinus1.
     andThen (bits R 1) (\<lambda>deltaRpsSign.
     andThen (ue R) (\<lambda>absDeltaRpsMinus1.
     let deltaRps = (1 - 2 * deltaRpsSign) * (absDeltaRpsMinus1 + 1)
     in andThen (at allRefPicSets (sint (stRpsIdx - (deltaIdxMinus1 + 1)))) (\<lambda>refSet.
        andThen (read_flags R refSet) (\<lambda>useDeltaFlag.
        andThen (negative_pass refSet deltaRps useDeltaFlag (deltaPocS0 currRefPicSet)) (\<lambda>(n, d0).
        andThen (positive_pass refSet deltaRps useDeltaFlag (deltaPocS1 currRefPicSet)) (\<lambda>(m, d1).
        ret (currRefPicSet\<lparr>numNegativePics := of_nat n, deltaPocS0 := d0,
                           numPositivePics := of_nat m, deltaPocS1 := d1\<rparr>))))))))"

text \<open>The loops that read the differences of an explicit set; \<open>step\<close> adds or subtracts.\<close>

definition read_deltas :: "'br reader \<Rightarrow> (u32 \<Rightarrow> u32 \<Rightarrow> u32) \<Rightarrow> u32 \<Rightarrow> u32 list \<Rightarrow> ('br, u32 list) parse" where
  "read_deltas R step n =
     for_p (ints n) (\<lambda>i deltas.
       andThen (ue R) (\<lambda>minus1.
       andThen (if i = 0 then ret 0 else at deltas (int i - 1)) (\<lambda>prev.
       andThen (put deltas (int i) (step prev (minus1 + 1))) (\<lambda>d.
       andThen (skip R 1) (\<lambda>_. ret d)))))"

definition explicit_set :: "'br reader \<Rightarrow> StRefPicSet \<Rightarrow> ('br, StRefPicSet) parse" where
  "explicit_set R currRefPicSet =
     andThen (ue R) (\<lambda>n.
     andThen (ue R) (\<lambda>m.
     if n > of_nat kMaxShortTermRefPicSets \<or> m > of_nat kMaxShortTermRefPicSets then stop
     else
       andThen (read_deltas R (\<lambda>prev v. prev - v) n (deltaPocS0 currRefPicSet)) (\<lambda>d0.
       andThen (read_deltas R (\<lambda>prev v. prev + v) m (deltaPocS1 currRefPicSet)) (\<lambda>d1.
       ret (currRefPicSet\<lparr>numNegativePics := n, deltaPocS0 := d0, numPositivePics := m, deltaPocS1 := d1\<rparr>)))))"

definition skipStRefPicSet ::
  "'br reader \<Rightarrow> u32 \<Rightarrow> u32 \<Rightarrow> StRefPicSet list \<Rightarrow> StRefPicSet \<Rightarrow> ('br, StRefPicSet) parse" where
  "skipStRefPicSet R stRpsIdx numShortTermRefPicSets allRefPicSets currRefPicSet =
     andThen (if stRpsIdx \<noteq> 0 then bits R 1 else ret 0) (\<lambda>interRefPicSetPredictionFlag.
     andThen (if interRefPicSetPredictionFlag \<noteq> 0
              then predicted_set R stRpsIdx numShortTermRefPicSets allRefPicSets currRefPicSet
              else explicit_set R currRefPicSet) (\<lambda>s.
     let n = numNegativePics s + numPositivePics s
     in if n > of_nat kMaxShortTermRefPicSets then stop else ret (s\<lparr>numDeltaPocs := n\<rparr>)))"

definition zero_set :: StRefPicSet where
  "zero_set = \<lparr>numNegativePics = 0, numPositivePics = 0,
     deltaPocS0 = replicate kMaxShortTermRefPicSets 0, deltaPocS1 = replicate kMaxShortTermRefPicSets 0,
     numDeltaPocs = 0\<rparr>"

text \<open>The first \<open>k\<close> turns of the loop over the sets.\<close>

definition ref_pic_sets :: "'br reader \<Rightarrow> u32 \<Rightarrow> nat \<Rightarrow> ('br, StRefPicSet list) parse" where
  "ref_pic_sets R numShortTermRefPicSets k =
     for_p [0..<k] (\<lambda>i allRefPicSets.
       andThen (at allRefPicSets (int i)) (\<lambda>cur.
       andThen (skipStRefPicSet R (of_nat i) numShortTermRefPicSets allRefPicSets cur) (\<lambda>s.
       put allRefPicSets (int i) s))) (replicate kMaxShortTermRefPicSets zero_set)"

subsection \<open>HEVCNalParser\<close>

definition hevc_type :: "u8 \<Rightarrow> u8" where
  "hevc_type x = drop_bit 1 (x AND 0x7e)"

definition hevc_kIDRType :: u8 where
  "hevc_kIDRType = 19"

definition hevc_kSPSType :: u8 where
  "hevc_kSPSType = 33"

definition hevc_locateSPS :: "nal_parser \<Rightarrow> bool \<times> nal_parser" where
  "hevc_locateSPS p = locate hevc_type hevc_kSPSType p"

definition hevc_locateIDR :: "nal_parser \<Rightarrow> bool \<times> nal_parser" where
  "hevc_locateIDR p = locate hevc_type hevc_kIDRType p"

text \<open>The fields up to the picture order count, whose width is needed later.\<close>

definition hevc_head :: "'br reader \<Rightarrow> ('br, u32 \<times> u32) parse" where
  "hevc_head R =
     andThen (skip R 4) (\<lambda>_.
     andThen (bits R 3) (\<lambda>spsMaxSublayersMinus1.
     andThen (skip R 1) (\<lambda>_.
     andThen (skipProfileTierLevel R spsMaxSublayersMinus1) (\<lambda>_.
     andThen (ignore_ue R) (\<lambda>_.
     andThen (ue R) (\<lambda>chromaFormatIdc.
     andThen (opt (chromaFormatIdc = 3) (skip R 1)) (\<lambda>_.
     andThen (repeat_p 2 (ignore_ue R)) (\<lambda>_.
     andThen (bits R 1) (\<lambda>conformanceWindowFlag.
     andThen (opt (conformanceWindowFlag \<noteq> 0) (repeat_p 4 (ignore_ue R))) (\<lambda>_.
     andThen (repeat_p 2 (ignore_ue R)) (\<lambda>_.
     andThen (ue R) (\<lambda>log2MaxPicOrderCntLsbMinus4.
     ret (spsMaxSublayersMinus1, log2MaxPicOrderCntLsbMinus4)))))))))))))"

definition hevc_tools :: "'br reader \<Rightarrow> u32 \<Rightarrow> ('br, unit) parse" where
  "hevc_tools R spsMaxSublayersMinus1 =
     andThen (bits R 1) (\<lambda>spsSubLayerOrderingInfoPresentFlag.
     andThen (repeat_p (if spsSubLayerOrderingInfoPresentFlag \<noteq> 0 then unat spsMaxSublayersMinus1 + 1 else 1)
                (repeat_p 3 (ignore_ue R))) (\<lambda>_.
     andThen (repeat_p 6 (ignore_ue R)) (\<lambda>_.
     andThen (bits R 1) (\<lambda>scalingListEnabledFlag.
     andThen (opt (scalingListEnabledFlag \<noteq> 0)
                (andThen (bits R 1) (\<lambda>spsScalingListDataPresentFlag.
                 opt (spsScalingListDataPresentFlag \<noteq> 0) (skipScalingListData R)))) (\<lambda>_.
     andThen (skip R 2) (\<lambda>_.
     andThen (bits R 1) (\<lambda>pcmEnabledFlag.
     opt (pcmEnabledFlag \<noteq> 0)
       (andThen (skip R 8) (\<lambda>_. andThen (repeat_p 2 (ignore_ue R)) (\<lambda>_. skip R 1))))))))))"

definition hevc_long_term :: "'br reader \<Rightarrow> u32 \<Rightarrow> ('br, unit) parse" where
  "hevc_long_term R log2MaxPicOrderCntLsbMinus4 =
     andThen (bits R 1) (\<lambda>longTermRefPicsPresentFlag.
     opt (longTermRefPicsPresentFlag \<noteq> 0)
       (andThen (ue R) (\<lambda>numLongTermRefPicsSps.
        repeat_p (unat numLongTermRefPicsSps)
          (andThen (bits R (unat (log2MaxPicOrderCntLsbMinus4 + 4))) (\<lambda>_.
           andThen (bits R 1) (\<lambda>_. ret ()))))))"

definition hevc_ref_sets :: "'br reader \<Rightarrow> ('br, unit) parse" where
  "hevc_ref_sets R =
     andThen (ue R) (\<lambda>numShortTermRefPicSets.
     if numShortTermRefPicSets > of_nat kMaxShortTermRefPicSets then stop
     else
       andThen (ref_pic_sets R numShortTermRefPicSets (unat numShortTermRefPicSets)) (\<lambda>_. ret ()))"

definition hevc_sps :: "'br reader \<Rightarrow> ('br, unit) parse" where
  "hevc_sps R =
     andThen (hevc_head R) (\<lambda>(spsMaxSublayersMinus1, log2MaxPicOrderCntLsbMinus4).
     andThen (hevc_tools R spsMaxSublayersMinus1) (\<lambda>_.
     andThen (hevc_ref_sets R) (\<lambda>_.
     andThen (hevc_long_term R log2MaxPicOrderCntLsbMinus4) (\<lambda>_. skip R 2))))"

text \<open>\<open>None\<close> is an access outside an array.\<close>

definition hevc_findCodedColorAspects ::
  "'br reader \<Rightarrow> color_aspects \<Rightarrow> nal_parser \<Rightarrow> (bool \<times> color_aspects) option" where
  "hevc_findCodedColorAspects R a p =
     (if np_length p \<le> 2 then Some (False, a)
      else
        (case hevc_sps R (mkReader R (take (np_length p - 2) (drop (np_cur p + 2) (np_bytes p)))) of
           (Ok _, b) \<Rightarrow> Some (vui_colors R a b)
         | (Stop, b) \<Rightarrow> Some (False, a)
         | (Out_Of_Bounds, b) \<Rightarrow> None))"

subsection \<open>Parsers that stay inside the arrays\<close>

definition within :: "('a \<Rightarrow> bool) \<Rightarrow> ('br, 'a) parse \<Rightarrow> bool" where
  "within Q p \<longleftrightarrow>
     (\<forall>b. case fst (p b) of Ok x \<Rightarrow> Q x | Stop \<Rightarrow> True | Out_Of_Bounds \<Rightarrow> False)"

named_theorems within_rules \<open>parsers that never leave an array\<close>

lemma within_ret [within_rules]: "Q x \<Longrightarrow> within Q (ret x)"
  by (simp add: within_def ret_def)

lemma within_stop [within_rules]: "within Q stop"
  by (simp add: within_def stop_def)

lemma within_of_option: "(\<And>x. Q x) \<Longrightarrow> (\<And>b. p b = of_option (f b)) \<Longrightarrow> within Q p"
  unfolding within_def
proof
  fix b
  assume "\<And>x. Q x" "\<And>b. p b = of_option (f b)"
  then show "case fst (p b) of Ok x \<Rightarrow> Q x | Stop \<Rightarrow> True | Out_Of_Bounds \<Rightarrow> False"
    by (cases "f b" rule: of_option.cases) auto
qed

lemma within_bits [within_rules]: "(\<And>x. Q x) \<Longrightarrow> within Q (bits R n)"
  by (erule within_of_option) (rule bits_def)

lemma within_ue [within_rules]: "(\<And>x. Q x) \<Longrightarrow> within Q (ue R)"
  by (erule within_of_option) (rule ue_def)

lemma within_skip [within_rules]: "Q () \<Longrightarrow> within Q (skip R n)"
  by (simp add: within_def skip_def)

lemma within_ignore [within_rules]:
  "Q () \<Longrightarrow> within Q (ignore_ue R)" "Q () \<Longrightarrow> within Q (ignore_se R)"
  by (simp_all add: within_def ignore_ue_def ignore_se_def)

lemma within_andThen:
  assumes "within P p" "\<And>x. P x \<Longrightarrow> within Q (q x)"
  shows "within Q (andThen p q)"
  unfolding within_def
proof
  fix b
  obtain r b1 where p: "p b = (r, b1)" by (cases "p b")
  show "case fst (andThen p q b) of Ok x \<Rightarrow> Q x | Stop \<Rightarrow> True | Out_Of_Bounds \<Rightarrow> False"
  proof (cases r)
    case (Ok x)
    then have "P x" using assms(1) p by (auto simp: within_def dest: spec [of _ b])
    from assms(2) [OF this] show ?thesis using Ok p by (simp add: andThen_def within_def)
  next
    case Stop
    then show ?thesis using p by (simp add: andThen_def)
  next
    case Out_Of_Bounds
    then show ?thesis using assms(1) p by (auto simp: within_def dest: spec [of _ b])
  qed
qed

lemma within_if [within_rules]:
  "(c \<Longrightarrow> within Q p) \<Longrightarrow> (\<not> c \<Longrightarrow> within Q q) \<Longrightarrow> within Q (if c then p else q)"
  by simp

lemma within_opt [within_rules]: "Q () \<Longrightarrow> (c \<Longrightarrow> within Q p) \<Longrightarrow> within Q (opt c p)"
  by (simp add: opt_def within_ret)

lemma within_repeat [within_rules]: "Q () \<Longrightarrow> within Q p \<Longrightarrow> within Q (repeat_p n p)"
proof (induction n)
  case (Suc n)
  show ?case unfolding repeat_p.simps by (rule within_andThen [OF Suc.prems(2) Suc.IH [OF Suc.prems]])
qed (simp add: within_ret)

lemma within_at [within_rules]:
  "0 \<le> i \<Longrightarrow> nat i < length xs \<Longrightarrow> Q (xs ! nat i) \<Longrightarrow> within Q (at xs i)"
  by (simp add: within_def at_def)

lemma within_put [within_rules]:
  "0 \<le> i \<Longrightarrow> nat i < length xs \<Longrightarrow> Q (xs[nat i := v]) \<Longrightarrow> within Q (put xs i v)"
  by (simp add: within_def put_def)

text \<open>A loop with an invariant that may depend on the number of turns.\<close>

lemma within_for:
  assumes "I n s" "\<And>k i s. k < length is \<Longrightarrow> i = is ! k \<Longrightarrow> I (n + k) s \<Longrightarrow> within (I (Suc (n + k))) (f i s)"
  shows "within (I (n + length is)) (for_p is f s)"
  using assms
proof (induction "is" arbitrary: n s)
  case Nil
  then show ?case by (simp add: within_ret)
next
  case (Cons i "is")
  show ?case
    unfolding for_p.simps
  proof (rule within_andThen)
    show "within (I (Suc n)) (f i s)" using Cons.prems(2) [of 0 i s] Cons.prems(1) by simp
    show "within (I (n + length (i # is))) (for_p is f x)" if "I (Suc n) x" for x
      using Cons.IH [of "Suc n" x, OF that] Cons.prems(2) [of "Suc _"] by simp
  qed
qed

lemma within_mono: "within P p \<Longrightarrow> (\<And>x. P x \<Longrightarrow> Q x) \<Longrightarrow> within Q p"
  by (fastforce simp: within_def split: outcome.splits)

text \<open>The same with a fixed invariant.\<close>

lemma within_loop:
  assumes "I s" "\<And>i s. i \<in> set is \<Longrightarrow> I s \<Longrightarrow> within I (f i s)"
  shows "within I (for_p is f s)"
proof -
  have "within I (f i s)" if "k < length is" "i = is ! k" "I s" for k i s
    using assms(2) [of i s] that by simp
  then show ?thesis by (rule within_for [where I = "\<lambda>_. I" and n = 0, OF assms(1)])
qed

subsection \<open>Small numbers\<close>

lemma sint_count: "unat (x :: u32) \<le> 64 \<Longrightarrow> sint x = int (unat x)"
proof -
  assume "unat x \<le> 64"
  then have "int (unat x) \<le> int 64" by (rule zle_int [THEN iffD2])
  then have "- (2 ^ 31) \<le> uint x" "uint x < 2 ^ 31" using order_trans [OF _ uint_ge_0 [of x], of "- (2 ^ 31)"] by simp_all
  then have "signed_take_bit 31 (uint x) = uint x" by (rule signed_take_bit_int_eq_self)
  then show ?thesis using sint_uint [of x] by simp
qed

lemma le_64_iff: "\<not> of_nat kMaxShortTermRefPicSets < (x :: u32) \<longleftrightarrow> unat x \<le> 64"
  by (simp add: kMaxShortTermRefPicSets_def not_less word_le_nat_alt)

lemma ints_small: "unat x \<le> 64 \<Longrightarrow> ints x = [0..<unat x]"
  by (simp add: ints_def sint_count)

definition wf_set :: "StRefPicSet \<Rightarrow> bool" where
  "wf_set s \<longleftrightarrow> length (deltaPocS0 s) = 64 \<and> length (deltaPocS1 s) = 64 \<and>
     unat (numNegativePics s) + unat (numPositivePics s) = unat (numDeltaPocs s) \<and> unat (numDeltaPocs s) \<le> 64"

lemma wf_zero_set: "wf_set zero_set"
  by (simp add: wf_set_def zero_set_def kMaxShortTermRefPicSets_def)


subsection \<open>Reference picture sets stay inside the arrays\<close>

lemma within_keep_delta:
  assumes "keep \<Longrightarrow> 0 \<le> k \<and> nat k < length flags" "fst s \<le> n" "n < 64" "length (snd s) = 64"
  shows "within (\<lambda>t. fst t \<le> Suc n \<and> length (snd t) = 64) (keep_delta keep flags k v s)"
  unfolding keep_delta_def using assms
  by (auto intro!: within_rules within_andThen [where P = "\<lambda>_. True"]
      within_andThen [where P = "\<lambda>d. length d = 64"])

lemma within_old_delta:
  assumes "j < length deltas" "0 \<le> base" "nat base + j < length flags" "fst s \<le> n" "n < 64" "length (snd s) = 64"
  shows "within (\<lambda>t. fst t \<le> Suc n \<and> length (snd t) = 64) (old_delta side deltaRps flags deltas base j s)"
  unfolding old_delta_def using assms
  by (intro within_andThen [where P = "\<lambda>_. True"] within_at within_keep_delta) auto

lemma within_old_deltas:
  assumes "set is \<subseteq> {..<m}" "m \<le> length deltas" "0 \<le> base" "nat base + m \<le> length flags"
    "fst s \<le> n" "n + length is \<le> 64" "length (snd s) = 64"
  shows "within (\<lambda>t. fst t \<le> n + length is \<and> length (snd t) = 64)
    (for_p is (old_delta side deltaRps flags deltas base) s)"
proof (rule within_for [where I = "\<lambda>n t. fst t \<le> n \<and> length (snd t) = 64"])
  fix k i and s :: "nat \<times> u32 list"
  assume "k < length is" "i = is ! k" "fst s \<le> n + k \<and> length (snd s) = 64"
  moreover from this have "i < m" using assms(1) nth_mem by blast
  ultimately show "within (\<lambda>t. fst t \<le> Suc (n + k) \<and> length (snd t) = 64)
      (old_delta side deltaRps flags deltas base i s)"
    using assms by (intro within_old_delta) auto
qed (use assms in auto)


lemma within_passes:
  assumes wf: "wf_set r" "unat (numDeltaPocs r) < 64" and l: "length flags = 64" "length cur = 64"
  shows "within (\<lambda>t. fst t \<le> 64 \<and> length (snd t) = 64) (negative_pass r deltaRps flags cur)"
    and "within (\<lambda>t. fst t \<le> 64 \<and> length (snd t) = 64) (positive_pass r deltaRps flags cur)"
proof -
  let ?n = "unat (numNegativePics r)" and ?p = "unat (numPositivePics r)"
  let ?I = "\<lambda>n t. fst t \<le> n \<and> length (snd t :: u32 list) = 64"
  have b: "?n + ?p < 64" "unat (numDeltaPocs r) = ?n + ?p" "length (deltaPocS0 r) = 64" "length (deltaPocS1 r) = 64"
    using wf by (auto simp: wf_set_def)
  have sm: "sint (numNegativePics r) = int ?n" "ints (numNegativePics r) = [0..<?n]"
    "ints (numPositivePics r) = [0..<?p]" "sint (numDeltaPocs r) = int (?n + ?p)"
    using b sint_count [of "numDeltaPocs r"] by (auto simp: sint_count ints_small)
  have pos: "within (?I (m + ?p)) (for_p is (old_delta side deltaRps flags (deltaPocS1 r) (int ?n)) s)"
    if "?I m s" "m + ?p \<le> 64" "set is \<subseteq> {..<?p}" "length is = ?p" for side "is" s m
    using within_old_deltas [OF that(3), of "deltaPocS1 r" "int ?n" flags s m] b l that by simp
  have neg: "within (?I (m + ?n)) (for_p is (old_delta side deltaRps flags (deltaPocS0 r) 0) s)"
    if "?I m s" "m + ?n \<le> 64" "set is \<subseteq> {..<?n}" "length is = ?n" for side "is" s m
    using within_old_deltas [OF that(3), of "deltaPocS0 r" 0 flags s m] b l that by simp
  have mid: "within (?I (Suc m)) (keep_delta c flags (int (?n + ?p)) deltaRps s)"
    if "?I m s" "m < 64" for c s m
    using that b l by (intro within_keep_delta) (auto simp del: of_nat_unat)
  have pos0: "within (?I ?p) (for_p (rev [0..<?p]) (old_delta side deltaRps flags (deltaPocS1 r) (int ?n)) (0, cur))" for side
    using pos [of "(0, cur)" 0 "rev [0..<?p]" side] b l by (simp add: lessThan_atLeast0)
  have neg0: "within (?I ?n) (for_p (rev [0..<?n]) (old_delta side deltaRps flags (deltaPocS0 r) 0) (0, cur))" for side
    using neg [of "(0, cur)" 0 "rev [0..<?n]" side] b l by (simp add: lessThan_atLeast0)
  show "within (?I 64) (negative_pass r deltaRps flags cur)"
    unfolding negative_pass_def sm
    by (rule within_andThen [OF pos0], rule within_andThen, erule mid, use b in simp, rule within_mono, erule neg)
      (use b in auto)
  show "within (?I 64) (positive_pass r deltaRps flags cur)"
    unfolding positive_pass_def sm
    by (rule within_andThen [OF neg0], rule within_andThen, erule mid, use b in simp, rule within_mono, erule pos)
      (use b in auto)
qed

lemma within_read_flags:
  assumes "unat (numDeltaPocs r) < 64"
  shows "within (\<lambda>f. length f = 64) (read_flags R r)"
proof -
  have "nat (sint (numDeltaPocs r) + 1) \<le> 64" using assms sint_count [of "numDeltaPocs r"] by (simp del: of_nat_unat)
  then show ?thesis
    unfolding read_flags_def
    by (intro within_loop) (auto simp: kMaxShortTermRefPicSets_def flag_turn_def
        intro!: within_rules within_andThen [where P = "\<lambda>_. True"])
qed

lemma within_read_deltas:
  assumes "unat n \<le> 64" "length d = 64"
  shows "within (\<lambda>d. length d = 64) (read_deltas R step n d)"
  unfolding read_deltas_def ints_small [OF assms(1)] using assms
  by (intro within_loop within_andThen [where P = "\<lambda>d. length d = 64" and p = "put _ _ _"]
      within_andThen [where P = "\<lambda>_. True"] within_rules) auto

text \<open>What both ways of reading a set leave behind, before the last check.\<close>

definition counted_set :: "StRefPicSet \<Rightarrow> bool" where
  "counted_set s \<longleftrightarrow> length (deltaPocS0 s) = 64 \<and> length (deltaPocS1 s) = 64 \<and>
     unat (numNegativePics s) \<le> 64 \<and> unat (numPositivePics s) \<le> 64"

lemma within_explicit_set:
  assumes "length (deltaPocS0 cur) = 64" "length (deltaPocS1 cur) = 64"
  shows "within counted_set (explicit_set R cur)"
  unfolding explicit_set_def
proof (rule within_andThen [OF within_ue [where Q = "\<lambda>_. True"]], simp,
    rule within_andThen [OF within_ue [where Q = "\<lambda>_. True"]], simp, rule within_if [OF within_stop])
  fix n m :: u32
  assume "\<not> (of_nat kMaxShortTermRefPicSets < n \<or> of_nat kMaxShortTermRefPicSets < m)"
  then have nm: "unat n \<le> 64" "unat m \<le> 64" by (simp_all add: le_64_iff [symmetric])
  show "within counted_set
      (andThen (read_deltas R (\<lambda>prev v. prev - v) n (deltaPocS0 cur)) (\<lambda>d0.
       andThen (read_deltas R (\<lambda>prev v. prev + v) m (deltaPocS1 cur)) (\<lambda>d1.
       ret (cur\<lparr>numNegativePics := n, deltaPocS0 := d0, numPositivePics := m, deltaPocS1 := d1\<rparr>))))"
    using nm
    by (intro within_andThen [OF within_read_deltas [OF nm(1) assms(1)]]
        within_andThen [OF within_read_deltas [OF nm(2) assms(2)]] within_ret) (simp add: counted_set_def)
qed

lemma ref_index:
  fixes i v :: u32
  assumes "i < 64" "0 < i \<and> v = 0 \<or> v + 1 \<le> i"
  shows "0 \<le> sint (i - (v + 1)) \<and> nat (sint (i - (v + 1))) < 64"
proof -
  have "unat (i - (v + 1)) = unat i - unat (v + 1)"
    using assms by (intro unat_sub) (auto simp: word_le_nat_alt word_less_nat_alt)
  then have "unat (i - (v + 1)) < 64" using assms(1) by (simp add: word_less_nat_alt)
  then show ?thesis using sint_count [of "i - (v + 1)"] by (simp del: of_nat_unat)
qed

lemma within_predicted_set:
  assumes all: "length all = 64" "\<forall>s\<in>set all. wf_set s \<and> unat (numDeltaPocs s) < 64"
    and i: "0 < i" "i < 64" and cur: "length (deltaPocS0 cur) = 64" "length (deltaPocS1 cur) = 64"
  shows "within counted_set (predicted_set R i num all cur)"
proof -
  have passes: "within counted_set
       (andThen (negative_pass r d flags (deltaPocS0 cur)) (\<lambda>(n, d0).
        andThen (positive_pass r d flags (deltaPocS1 cur)) (\<lambda>(m, d1).
        ret (cur\<lparr>numNegativePics := of_nat n, deltaPocS0 := d0, numPositivePics := of_nat m, deltaPocS1 := d1\<rparr>))))"
    if "wf_set r" "unat (numDeltaPocs r) < 64" "length flags = 64" for r d flags
    by (rule within_andThen [OF within_passes(1) [OF that cur(1)]],
        clarsimp, rule within_andThen [OF within_passes(2) [OF that cur(2)]],
        clarsimp, intro within_ret) (simp add: counted_set_def unat_of_nat)
  have idx: "within (\<lambda>v. v = 0 \<or> v + 1 \<le> i)
      (if i = num then andThen (ue R) (\<lambda>v. if v + 1 > i then stop else ret v) else ret 0)"
    by (intro within_rules within_andThen [where P = "\<lambda>_. True"]) auto
  show ?thesis
    unfolding predicted_set_def Let_def
  proof (rule within_andThen [OF idx], intro within_andThen [where P = "\<lambda>_. True", OF within_bits]
      within_andThen [where P = "\<lambda>_. True", OF within_ue])
    fix v sign absd
    assume v: "v = 0 \<or> v + 1 \<le> i"
    let ?k = "sint (i - (v + 1))"
    have k: "0 \<le> ?k" "nat ?k < length all" using ref_index [OF i(2), of v] v i(1) all(1) by auto
    then have r: "wf_set (all ! nat ?k)" "unat (numDeltaPocs (all ! nat ?k)) < 64" using all(2) by auto
    show "within counted_set
       (andThen (at all ?k) (\<lambda>r. andThen (read_flags R r) (\<lambda>flags.
        andThen (negative_pass r ((1 - 2 * sign) * (absd + 1)) flags (deltaPocS0 cur)) (\<lambda>(n, d0).
        andThen (positive_pass r ((1 - 2 * sign) * (absd + 1)) flags (deltaPocS1 cur)) (\<lambda>(m, d1).
        ret (cur\<lparr>numNegativePics := of_nat n, deltaPocS0 := d0, numPositivePics := of_nat m, deltaPocS1 := d1\<rparr>))))))"
      by (rule within_andThen [OF within_at [OF k, where Q = "\<lambda>r. wf_set r \<and> unat (numDeltaPocs r) < 64"]],
          use r in simp, rule within_andThen [OF within_read_flags], simp, rule passes) auto
  qed simp_all
qed

lemma within_skipStRefPicSet:
  assumes "length all = 64" "\<forall>s\<in>set all. wf_set s \<and> unat (numDeltaPocs s) < 64" "i < 64" "wf_set cur"
  shows "within wf_set (skipStRefPicSet R i num all cur)"
  unfolding skipStRefPicSet_def
proof (rule within_andThen [where P = "\<lambda>v. v \<noteq> 0 \<longrightarrow> 0 < i"])
  show "within (\<lambda>v. v \<noteq> 0 \<longrightarrow> 0 < i) (if i \<noteq> 0 then bits R 1 else ret 0)"
    by (intro within_rules) (auto simp: word_neq_0_conv)
  fix flag :: u32
  assume f: "flag \<noteq> 0 \<longrightarrow> 0 < i"
  have l: "length (deltaPocS0 cur) = 64" "length (deltaPocS1 cur) = 64" using assms(4) by (simp_all add: wf_set_def)
  have wf: "wf_set (s\<lparr>numDeltaPocs := numNegativePics s + numPositivePics s\<rparr>)"
    if s: "counted_set s" "\<not> of_nat kMaxShortTermRefPicSets < numNegativePics s + numPositivePics s" for s
  proof -
    have "unat (numNegativePics s + numPositivePics s) = unat (numNegativePics s) + unat (numPositivePics s)"
      using s(1) by (intro unat_add_lem [THEN iffD1]) (simp add: counted_set_def)
    then show ?thesis using s by (simp add: le_64_iff counted_set_def wf_set_def)
  qed
  show "within wf_set (andThen (if flag \<noteq> 0 then predicted_set R i num all cur else explicit_set R cur) (\<lambda>s.
      let n = numNegativePics s + numPositivePics s
      in if n > of_nat kMaxShortTermRefPicSets then stop else ret (s\<lparr>numDeltaPocs := n\<rparr>)))"
    unfolding Let_def
    by (rule within_andThen [where P = counted_set], rule within_if)
      (use f assms l in \<open>auto intro!: within_predicted_set within_explicit_set within_rules wf\<close>)
qed


lemma for_p_append: "for_p (xs @ ys) f s = andThen (for_p xs f s) (for_p ys f)"
  by (induction xs arbitrary: s)
    (auto simp: fun_eq_iff andThen_def ret_def split: prod.splits outcome.splits)

lemma for_p_single: "for_p [k] f = f k"
proof
  show "for_p [k] f s = f k s" for s
    by (auto simp: fun_eq_iff andThen_def ret_def split: prod.splits outcome.splits)
qed

lemma andThen_out_of_bounds:
  "fst (andThen p q b) = Out_Of_Bounds \<longleftrightarrow>
   fst (p b) = Out_Of_Bounds \<or> (\<exists>x b1. p b = (Ok x, b1) \<and> fst (q x b1) = Out_Of_Bounds)"
  by (auto simp: andThen_def split: prod.splits outcome.splits)

lemma within_not_out: "within Q p \<Longrightarrow> fst (p b) \<noteq> Out_Of_Bounds"
  by (auto simp: within_def dest: spec [of _ b])

lemma within_Ok: "within Q p \<Longrightarrow> p b = (Ok x, b1) \<Longrightarrow> Q x"
  by (auto simp: within_def dest: spec [of _ b])

definition next_set :: "'br reader \<Rightarrow> u32 \<Rightarrow> nat \<Rightarrow> StRefPicSet list \<Rightarrow> ('br, StRefPicSet list) parse" where
  "next_set R num i all =
     andThen (at all (int i)) (\<lambda>cur. andThen (skipStRefPicSet R (of_nat i) num all cur) (\<lambda>s. put all (int i) s))"

lemma ref_pic_sets_Suc: "ref_pic_sets R num (Suc k) = andThen (ref_pic_sets R num k) (next_set R num k)"
  by (simp add: ref_pic_sets_def for_p_append next_set_def [abs_def] for_p_single)

lemma within_next_set:
  assumes "length all = 64" "\<forall>s\<in>set all. wf_set s \<and> unat (numDeltaPocs s) < 64" "i < 64"
  shows "within (\<lambda>all. length all = 64 \<and> (\<forall>s\<in>set all. wf_set s)) (next_set R num i all)"
  unfolding next_set_def
proof (rule within_andThen [where P = wf_set])
  show "within wf_set (at all (int i))" using assms by (intro within_at) auto
  have "(of_nat i :: u32) < 64" using assms(3) by (simp add: word_less_nat_alt unat_of_nat)
  then show "within (\<lambda>all. length all = 64 \<and> (\<forall>s\<in>set all. wf_set s))
      (andThen (skipStRefPicSet R (of_nat i) num all cur) (put all (int i)))" if "wf_set cur" for cur
    using assms that
    by (intro within_andThen [OF within_skipStRefPicSet] within_put)
      (auto dest!: set_update_subset_insert [THEN subsetD])
qed

definition full_set_before :: "'br reader \<Rightarrow> u32 \<Rightarrow> nat \<Rightarrow> 'br \<Rightarrow> bool" where
  "full_set_before R num k b \<longleftrightarrow>
     (\<exists>j<k. \<exists>all b1. ref_pic_sets R num j b = (Ok all, b1) \<and> (\<exists>s\<in>set all. numDeltaPocs s = 64))"

lemma ref_pic_sets_cases:
  assumes "k \<le> 64" "\<not> full_set_before R num k b"
  shows "case fst (ref_pic_sets R num k b) of
      Ok all \<Rightarrow> length all = 64 \<and> (\<forall>s\<in>set all. wf_set s) | Stop \<Rightarrow> True | Out_Of_Bounds \<Rightarrow> False"
  using assms
proof (induction k)
  case 0
  then show ?case by (simp add: ref_pic_sets_def ret_def wf_zero_set kMaxShortTermRefPicSets_def)
next
  case (Suc k)
  have n: "\<not> full_set_before R num k b" using Suc.prems(2) by (auto simp: full_set_before_def less_Suc_eq)
  obtain r b1 where r: "ref_pic_sets R num k b = (r, b1)" by (cases "ref_pic_sets R num k b")
  show ?case
  proof (cases r)
    case (Ok all)
    then have all: "length all = 64" "\<forall>s\<in>set all. wf_set s" using Suc.IH [OF _ n] Suc.prems(1) r by auto
    have "\<forall>s\<in>set all. numDeltaPocs s \<noteq> 64"
      using Suc.prems(2) r Ok unfolding full_set_before_def by blast
    moreover have "unat (64 :: u32) = 64" by simp
    ultimately have "\<forall>s\<in>set all. wf_set s \<and> unat (numDeltaPocs s) < 64"
      using all(2) unfolding wf_set_def by (metis le_neq_implies_less word_unat_eq_iff)
    from within_next_set [OF all(1) this, of k R num]
    show ?thesis using Suc.prems(1) r Ok by (simp add: ref_pic_sets_Suc andThen_def within_def)
  qed (use Suc.IH [OF _ n] Suc.prems(1) r in \<open>simp_all add: ref_pic_sets_Suc andThen_def\<close>)
qed

lemma hevc_parts_within:
  "within (\<lambda>_. True) (skipProfileTierLevel R n)" "within (\<lambda>_. True) (skipScalingListData R)"
  "within (\<lambda>_. True) (hevc_head R)" "within (\<lambda>_. True) (hevc_tools R n)" "within (\<lambda>_. True) (hevc_long_term R n)"
proof -
  let ?I = "\<lambda>(p, l). length p = 6 \<and> length (l :: u32 list) = 6"
  note steps = within_rules within_loop within_andThen [where P = "\<lambda>_. True"]
  show profile: "within (\<lambda>_. True) (skipProfileTierLevel R n)" for n
  proof -
    have n: "unat n \<le> 6" if "\<not> 6 < n" using that by (simp add: not_less word_le_nat_alt)
    have l: "within ?I (for_p [0..<unat n] (\<lambda>i (prof, lev).
                  andThen (bits R 1) (\<lambda>v. andThen (put prof (int i) v) (\<lambda>prof1.
                  andThen (bits R 1) (\<lambda>w. andThen (put lev (int i) w) (\<lambda>lev1. ret (prof1, lev1))))))
                (replicate 6 0, replicate 6 0))" if "unat n \<le> 6"
      by (rule within_loop) (use that in \<open>auto intro!: within_rules within_andThen [where P = "\<lambda>_ :: u32. True"]
          within_andThen [where P = "\<lambda>d :: u32 list. length d = 6"]\<close>)
    show ?thesis
      unfolding skipProfileTierLevel_def
      by (intro within_andThen [where P = "\<lambda>_. True", OF within_skip] within_if within_stop
          within_andThen [OF l [OF n]]) (auto intro!: steps dest: n)
  qed
  show scaling: "within (\<lambda>_. True) (skipScalingListData R)"
    unfolding skipScalingListData_def by (intro steps) auto
  show "within (\<lambda>_. True) (hevc_head R)"
    unfolding hevc_head_def by (intro steps profile) auto
  show "within (\<lambda>_. True) (hevc_tools R n)"
    unfolding hevc_tools_def by (intro steps scaling) auto
  show "within (\<lambda>_. True) (hevc_long_term R n)"
    unfolding hevc_long_term_def by (intro steps) auto
qed


subsection \<open>A full set as reference\<close>

lemma flag_turn_zeroes:
  assumes "reader_ok R left" "left b = False # False # rest"
  obtains b' where "flag_turn R j fl b = put fl (int j) 0 b'" "left b' = rest"
proof -
  have z: "reads left (bits R 1) [False] 0" using reads_flag [OF assms(1), of False] by simp
  obtain b1 where b1: "bits R 1 b = (Ok 0, b1)" "left b1 = False # rest"
    using z assms(2) unfolding reads_def by (metis append_Cons append_Nil)
  obtain b2 where b2: "bits R 1 b1 = (Ok 0, b2)" "left b2 = rest"
    using z b1(2) unfolding reads_def by (metis append_Cons append_Nil)
  show ?thesis
    using that [of b2] b1(1) b2 by (simp add: flag_turn_def andThen_def del: One_nat_def)
qed

lemma flag_turns_zeroes:
  assumes "reader_ok R left" "n \<le> length fl" "left b = replicate (2 * n) False @ rest"
  shows "\<exists>fl' b'. for_p [0..<n] (flag_turn R) fl b = (Ok fl', b') \<and> left b' = rest \<and> length fl' = length fl"
  using assms(2,3)
proof (induction n arbitrary: rest)
  case 0
  then show ?case by (simp add: ret_def)
next
  case (Suc n)
  have "replicate (2 * Suc n) False = replicate (2 * n) False @ [False, False]"
    by (simp add: replicate_append_same [symmetric] numeral_2_eq_2)
  then obtain fl1 b1 where 1: "for_p [0..<n] (flag_turn R) fl b = (Ok fl1, b1)" "left b1 = False # False # rest"
      "length fl1 = length fl"
    using Suc.IH [of "False # False # rest"] Suc.prems by auto
  obtain b2 where "flag_turn R n fl1 b1 = put fl1 (int n) 0 b2" "left b2 = rest"
    using flag_turn_zeroes [OF assms(1) 1(2)] by blast
  then show ?case using 1 Suc.prems(1) by (simp add: for_p_append for_p_single andThen_def put_def)
qed

lemma read_flags_overflow:
  assumes R: "reader_ok R left" and r: "numDeltaPocs r = 64" and b: "left b = replicate 130 False @ rest"
  shows "fst (read_flags R r b) = Out_Of_Bounds"
proof -
  have "replicate 130 False = replicate (2 * 64) False @ [False, False]" using replicate_add [of "2 * 64" 2 False] by (simp add: numeral_2_eq_2)
  then obtain fl b1 where 1: "for_p [0..<64] (flag_turn R) (replicate 64 1) b = (Ok fl, b1)"
      "left b1 = False # False # rest" "length fl = 64"
    using flag_turns_zeroes [OF R, of 64 "replicate 64 1" b "False # False # rest"] b by auto
  obtain b2 where "flag_turn R 64 fl b1 = put fl (int 64) 0 b2"
    by (rule flag_turn_zeroes [OF R 1(2)])
  moreover have "[0..<nat (sint (64 :: u32) + 1)] = [0..<64] @ [64]" using upt_Suc_append [of 0 64] by simp
  ultimately show ?thesis
    unfolding read_flags_def r kMaxShortTermRefPicSets_def
    using 1(1,3) by (simp only: for_p_append for_p_single) (simp add: andThen_def put_def)
qed

subsection \<open>Properties\<close>

text \<open>
  C28: the SPS parser leaves none of its arrays, whatever the stream and the reader, except when the
  stream has a reference picture set with the full 64 entries and further sets behind it.
\<close>

theorem hevc_in_bounds_unless_full_set:
  "(\<exists>result. hevc_findCodedColorAspects R a p = Some result) \<or>
   (\<exists>num b. andThen (hevc_head R) (\<lambda>(m, _). andThen (hevc_tools R m) (\<lambda>_. ue R))
       (mkReader R (take (np_length p - 2) (drop (np_cur p + 2) (np_bytes p)))) = (Ok num, b) \<and>
     full_set_before R num (unat num) b)"
proof (cases "hevc_findCodedColorAspects R a p")
  case None
  let ?b = "mkReader R (take (np_length p - 2) (drop (np_cur p + 2) (np_bytes p)))"
  have "fst (hevc_sps R ?b) = Out_Of_Bounds"
    using None by (auto simp: hevc_findCodedColorAspects_def split: if_splits prod.splits outcome.splits)
  then obtain m l b1 b2 where 1: "hevc_head R ?b = (Ok (m, l), b1)" "hevc_tools R m b1 = (Ok (), b2)"
    and s: "fst (hevc_ref_sets R b2) = Out_Of_Bounds"
    unfolding hevc_sps_def
    by (auto simp: andThen_out_of_bounds skip_def within_not_out [OF hevc_parts_within(3)]
        within_not_out [OF hevc_parts_within(4)] within_not_out [OF hevc_parts_within(5)])
  obtain num b3 where 2: "ue R b2 = (Ok num, b3)" "unat num \<le> 64"
      "fst (ref_pic_sets R num (unat num) b3) = Out_Of_Bounds"
    using s within_not_out [OF within_ue, of "\<lambda>_. True" R b2]
    unfolding hevc_ref_sets_def
    by (auto simp: andThen_out_of_bounds ret_def stop_def le_64_iff split: if_splits)
  have "full_set_before R num (unat num) b3" using ref_pic_sets_cases [OF 2(2), of R num b3] 2(3) by auto
  then show ?thesis using 1 2(1) by (auto simp: andThen_def)
qed auto

text \<open>
  C29: with a reference set of 64 entries the parser writes behind the end of \<open>useDeltaFlag\<close>: this is
  what a predicted set does whose flags are all zero.
\<close>

theorem hevc_full_set_overflows:
  assumes "reader_ok R left" and "0 < i" and "i < num" and "num \<le> 64" and "length all = 64"
    and "numDeltaPocs (all ! (i - 1)) = 64" and "v < 2 ^ 32 - 1"
    and "left b = [True, sign] @ ue_code v @ replicate 130 False @ rest"
  shows "fst (skipStRefPicSet R (of_nat i) (of_nat num) all cur b) = Out_Of_Bounds"
proof -
  have ne: "(of_nat i :: u32) \<noteq> 0" "(of_nat i :: u32) \<noteq> of_nat num"
    using assms(2-4) by (auto simp: word_unat_eq_iff unat_of_nat)
  obtain b1 where 1: "bits R 1 b = (Ok 1, b1)" "left b1 = [sign] @ ue_code v @ replicate 130 False @ rest"
    using reads_flag [OF assms(1), of True] assms(8) unfolding reads_def by (metis append_Cons append_Nil of_bool_eq(2))
  obtain b2 where 2: "bits R 1 b1 = (Ok (of_bool sign), b2)" "left b2 = ue_code v @ replicate 130 False @ rest"
    using reads_flag [OF assms(1), of sign] 1(2) unfolding reads_def by metis
  obtain b3 where 3: "ue R b2 = (Ok (of_nat v), b3)" "left b3 = replicate 130 False @ rest"
    using reads_ue [OF assms(1,7)] 2(2) unfolding reads_def by metis
  obtain k where k: "i = Suc k" using assms(2) by (cases i) auto
  then have "(of_nat i :: u32) - (0 + 1) = of_nat k" by simp
  moreover have "unat (of_nat k :: u32) = k" using assms(3,4) k by (simp add: unat_of_nat)
  then have "sint (of_nat k :: u32) = int k" using assms(3,4) k sint_count [of "of_nat k"] by (metis Suc_leD less_imp_le_nat order_trans)
  ultimately have "at all (sint ((of_nat i :: u32) - (0 + 1))) b3 = (Ok (all ! (i - 1)), b3)"
    using assms(3-5) k by (simp add: at_def)
  then show ?thesis
    using ne 1(1) 2(1) 3(1) read_flags_overflow [OF assms(1,6) 3(2)]
    by (auto simp: skipStRefPicSet_def predicted_set_def Let_def andThen_out_of_bounds andThen_def ret_def
        simp del: One_nat_def split: prod.splits outcome.splits)
qed

text \<open>A stream whose first set has 64 negative pictures and whose second one is predicted from it.\<close>

definition full_then_predicted :: "bool list" where
  "full_then_predicted = ue_code 64 @ ue_code 0 @ concat (replicate 64 [True, False]) @ [True, False, True] @ replicate 130 False"

theorem hevc_full_set_overflows_witness:
  "fst (skipStRefPicSet list_reader 1 2 (replicate 64 (zero_set\<lparr>numNegativePics := 64, numDeltaPocs := 64\<rparr>)) zero_set
     ([True, False, True] @ replicate 130 False)) = Out_Of_Bounds \<and>
   fst (ref_pic_sets list_reader 2 2 full_then_predicted) = Out_Of_Bounds"
proof
  have "ue_code 0 = [True]" by code_simp
  then show "fst (skipStRefPicSet list_reader 1 2
      (replicate 64 (zero_set\<lparr>numNegativePics := 64, numDeltaPocs := 64\<rparr>)) zero_set
      ([True, False, True] @ replicate 130 False)) = Out_Of_Bounds"
    using hevc_full_set_overflows [OF list_reader_ok, of 1 2
        "replicate 64 (zero_set\<lparr>numNegativePics := 64, numDeltaPocs := 64\<rparr>)" 0
        "[True, False, True] @ replicate 130 False" False "[]" zero_set] by simp
  show "fst (ref_pic_sets list_reader 2 2 full_then_predicted) = Out_Of_Bounds" by code_simp
qed


end
