(* ===== verification/Flow_Parser.thy ===== *)
theory Flow_Parser
  imports Prelude
begin

text \<open>
  The parser of conntrack messages and the prefix test of the tethering offload service,
  \<^verbatim>\<open>src/bridges/tetheroffload/FlowParser.cpp\<close>.

  The numbers of the netlink protocol and \<open>inet_pton\<close> come from the system and are the parameter
  record \<open>net\<close>; \<open>net_ok\<close> says what is known of them, that the numbers a message distinguishes are
  different. The layouts of \<open>nlmsghdr\<close> (16 bytes), \<open>nfgenmsg\<close> and \<open>nlattr\<close> (4 bytes each) on a
  little-endian machine are written out. A pointer and a size are the list of bytes they delimit.
\<close>

record net =
  AF_INET :: int
  AF_INET6 :: int
  NFNL_SUBSYS_CTNETLINK :: u16
  IPCTNL_MSG_CT_NEW :: u16
  IPCTNL_MSG_CT_DELETE :: u16
  NFNETLINK_V0 :: u8
  NLA_TYPE_MASK :: u16
  CTA_TUPLE_ORIG :: u16
  CTA_TUPLE_REPLY :: u16
  CTA_STATUS :: u16
  CTA_TIMEOUT :: u16
  CTA_ID :: u16
  CTA_ZONE :: u16
  CTA_TUPLE_IP :: u16
  CTA_TUPLE_PROTO :: u16
  CTA_IP_V4_SRC :: u16
  CTA_IP_V4_DST :: u16
  CTA_IP_V6_SRC :: u16
  CTA_IP_V6_DST :: u16
  CTA_PROTO_NUM :: u16
  CTA_PROTO_SRC_PORT :: u16
  CTA_PROTO_DST_PORT :: u16
  IPPROTO_TCP :: u8
  IPPROTO_UDP :: u8
  inet_pton :: "int \<Rightarrow> string \<Rightarrow> bytes option"

text \<open>\<open>memcpy\<close> of an integer out of and into bytes.\<close>

definition load16 :: "bytes \<Rightarrow> nat \<Rightarrow> u16" where
  "load16 d i = ucast (get_bytes d i 2)"

definition load32 :: "bytes \<Rightarrow> nat \<Rightarrow> u32" where
  "load32 d i = ucast (get_bytes d i 4)"

definition store16 :: "u16 \<Rightarrow> bytes" where
  "store16 v = map (le_byte (ucast v)) [0..<2]"

definition store32 :: "u32 \<Rightarrow> bytes" where
  "store32 v = map (le_byte (ucast v)) [0..<4]"

definition ntohl :: "u32 \<Rightarrow> u32" where
  "ntohl v = ucast (bswap 4 (ucast v))"

subsection \<open>Attributes\<close>

type_synonym attrs = "u16 \<rightharpoonup> bytes"

definition NLA_ALIGN :: "nat \<Rightarrow> nat" where
  "NLA_ALIGN n = (n + 3) div 4 * 4"

function attributes :: "net \<Rightarrow> bytes \<Rightarrow> attrs \<Rightarrow> attrs option" where
  "attributes c data out =
     (if data = [] then Some out
      else if length data < 4 then None
      else
        let nla_len = unat (load16 data 0); nla_type = load16 data 2 AND NLA_TYPE_MASK c; aligned = NLA_ALIGN nla_len
        in if nla_len < 4 \<or> nla_len > length data then None
           else if aligned > length data then None
           else if out nla_type \<noteq> None then None
           else attributes c (drop aligned data) (out(nla_type \<mapsto> take (nla_len - 4) (drop 4 data))))"
  by auto
termination
  by (relation "measure (\<lambda>(_, data, _). length data)") (auto simp: NLA_ALIGN_def not_less)

declare attributes.simps [simp del]

definition nested :: "net \<Rightarrow> attrs \<Rightarrow> u16 \<Rightarrow> attrs option" where
  "nested c parent type = (case parent type of None \<Rightarrow> None | Some v \<Rightarrow> attributes c v Map.empty)"

definition copy :: "attrs \<Rightarrow> u16 \<Rightarrow> nat \<Rightarrow> bytes option" where
  "copy a type n = (case a type of None \<Rightarrow> None | Some v \<Rightarrow> if length v \<noteq> n then None else Some v)"

subsection \<open>Flows\<close>

record Flow =
  family :: int
  proto :: u8
  src :: bytes
  dst :: bytes
  pub :: bytes
  replySrc :: bytes
  sport :: u16
  dport :: u16
  publicPort :: u16
  replyPort :: u16
  timeout :: u32
  status :: u32
  flow_id :: u32
  destroy :: bool
  mac :: bytes

definition no_flow :: Flow where
  "no_flow = \<lparr>family = 0, proto = 0, src = replicate 16 0, dst = replicate 16 0, pub = replicate 16 0,
     replySrc = replicate 16 0, sport = 0, dport = 0, publicPort = 0, replyPort = 0, timeout = 0, status = 0, flow_id = 0,
     destroy = False, mac = replicate 6 0\<rparr>"

text \<open>\<open>tuple\<close> copies into the beginning of two zero arrays.\<close>

definition tuple :: "net \<Rightarrow> attrs \<Rightarrow> u16 \<Rightarrow> int \<Rightarrow> (bytes \<times> bytes \<times> u16 \<times> u16 \<times> u8) option" where
  "tuple c a type fam =
     (let v4 = (fam = AF_INET c); n = (if v4 then 4 else 16)
      in case nested c a type of
           None \<Rightarrow> None
         | Some tup \<Rightarrow>
             (case (nested c tup (CTA_TUPLE_IP c), nested c tup (CTA_TUPLE_PROTO c)) of
                (Some ip, Some pr) \<Rightarrow>
                  (case (copy ip (if v4 then CTA_IP_V4_SRC c else CTA_IP_V6_SRC c) n,
                         copy ip (if v4 then CTA_IP_V4_DST c else CTA_IP_V6_DST c) n,
                         copy pr (CTA_PROTO_NUM c) 1,
                         copy pr (CTA_PROTO_SRC_PORT c) 2,
                         copy pr (CTA_PROTO_DST_PORT c) 2) of
                     (Some s, Some d, Some num, Some sp, Some dp) \<Rightarrow>
                       Some (put_list (replicate 16 0) 0 s, put_list (replicate 16 0) 0 d,
                             load16 sp 0, load16 dp 0, hd num)
                   | _ \<Rightarrow> None)
              | _ \<Rightarrow> None))"

definition key :: "Flow \<Rightarrow> bytes" where
  "key f = [word_of_int (family f), proto f] @ src f @ dst f @ store16 (sport f) @ store16 (dport f)"

definition read_id :: "net \<Rightarrow> attrs \<Rightarrow> Flow \<Rightarrow> Flow option" where
  "read_id c a f =
     (if a (CTA_ID c) = None then Some f
      else case copy a (CTA_ID c) 4 of None \<Rightarrow> None | Some v \<Rightarrow> Some (f\<lparr>flow_id := load32 v 0\<rparr>))"

definition zone_ok :: "net \<Rightarrow> attrs \<Rightarrow> bool" where
  "zone_ok c a \<longleftrightarrow>
     a (CTA_ZONE c) = None \<or> (case copy a (CTA_ZONE c) 2 of None \<Rightarrow> False | Some v \<Rightarrow> load16 v 0 = 0)"

definition read_reply :: "net \<Rightarrow> attrs \<Rightarrow> Flow \<Rightarrow> Flow option" where
  "read_reply c a f =
     (if destroy f then Some f
      else
        (case tuple c a (CTA_TUPLE_REPLY c) (family f) of
           None \<Rightarrow> None
         | Some (s, d, sp, dp, replyProto) \<Rightarrow>
             if replyProto \<noteq> proto f then None
             else
               (case (copy a (CTA_TIMEOUT c) 4, copy a (CTA_STATUS c) 4) of
                  (Some t, Some st) \<Rightarrow>
                    Some (f\<lparr>replySrc := s, pub := d, replyPort := sp, publicPort := dp,
                            timeout := load32 t 0, status := load32 st 0\<rparr>)
                | _ \<Rightarrow> None)))"

definition parseFlow :: "net \<Rightarrow> bytes \<Rightarrow> Flow option" where
  "parseFlow c buffer =
     (if length buffer < 20 then None
      else
        let nlmsg_len = unat (load32 buffer 0); nlmsg_type = load16 buffer 4; command = nlmsg_type AND 255;
            nfgen_family = uint (buffer ! 16); version = buffer ! 17
        in if nlmsg_len \<noteq> length buffer \<or> drop_bit 8 nlmsg_type \<noteq> NFNL_SUBSYS_CTNETLINK c then None
           else if command \<noteq> IPCTNL_MSG_CT_NEW c \<and> command \<noteq> IPCTNL_MSG_CT_DELETE c then None
           else if (nfgen_family \<noteq> AF_INET c \<and> nfgen_family \<noteq> AF_INET6 c) \<or> version \<noteq> NFNETLINK_V0 c then None
           else
             (case attributes c (drop 20 buffer) Map.empty of
                None \<Rightarrow> None
              | Some a \<Rightarrow>
                  (case tuple c a (CTA_TUPLE_ORIG c) nfgen_family of
                     None \<Rightarrow> None
                   | Some (s, d, sp, dp, p) \<Rightarrow>
                       if p \<noteq> IPPROTO_TCP c \<and> p \<noteq> IPPROTO_UDP c then None
                       else
                         let f = no_flow\<lparr>family := nfgen_family, destroy := (command = IPCTNL_MSG_CT_DELETE c),
                                         src := s, dst := d, sport := sp, dport := dp, proto := p\<rparr>
                         in case read_id c a f of
                              None \<Rightarrow> None
                            | Some f1 \<Rightarrow>
                                if \<not> zone_ok c a then None
                                else
                                  (case read_reply c a f1 of
                                     None \<Rightarrow> None
                                   | Some f2 \<Rightarrow>
                                       Some (f2\<lparr>timeout := ntohl (timeout f2), status := ntohl (status f2)\<rparr>)))))"

subsection \<open>Prefixes\<close>

text \<open>The loop over the digits, \<open>None\<close> for \<open>return false\<close>; \<open>unsigned\<close> has 32 bits.\<close>

fun mask_bits :: "string \<Rightarrow> u32 \<Rightarrow> u32 option" where
  "mask_bits [] bits = Some bits"
| "mask_bits (ch # s) bits =
     (if \<not> is_digit ch \<or> bits > 128 then None
      else mask_bits s (bits * 10 + of_nat (of_char ch) - 48))"

definition bit_differs :: "bytes \<Rightarrow> bytes \<Rightarrow> nat \<Rightarrow> bool" where
  "bit_differs ip network i \<longleftrightarrow> (ip ! (i div 8) XOR network ! (i div 8)) AND drop_bit (i mod 8) 128 \<noteq> 0"

text \<open>The characters a C string keeps.\<close>

definition c_str :: "string \<Rightarrow> string" where
  "c_str s = takeWhile (\<lambda>x. x \<noteq> CHR 0x00) s"

definition contains :: "net \<Rightarrow> string \<Rightarrow> int \<Rightarrow> bytes \<Rightarrow> bool" where
  "contains c prefix fam ip =
     (if \<not> CHR ''/'' \<in> set prefix then False
      else
        (case inet_pton c fam (c_str (takeWhile (\<lambda>x. x \<noteq> CHR ''/'') prefix)) of
           None \<Rightarrow> False
         | Some address \<Rightarrow>
             (case mask_bits (tl (dropWhile (\<lambda>x. x \<noteq> CHR ''/'') prefix)) 0 of
                None \<Rightarrow> False
              | Some bits \<Rightarrow>
                  if bits > (if fam = AF_INET c then 32 else 128) then False
                  else list_all (\<lambda>i. \<not> bit_differs ip (put_list (replicate 16 0) 0 address) i) [0..<unat bits])))"

subsection \<open>Reading back what was stored\<close>

lemma length_store [simp]: "length (store16 v) = 2" "length (store32 w) = 4"
  by (simp_all add: store16_def store32_def)

lemma load16_at:
  assumes "\<And>i. i < 2 \<Longrightarrow> d ! (k + i) = store16 v ! i"
  shows "load16 d k = v"
proof -
  have "get_bytes d k 2 = take_bit (8 * 2) (ucast v)"
    using assms by (intro get_bytes_le_byte) (simp add: store16_def)
  then have "load16 d k = ucast (take_bit 16 (ucast v :: u64))" by (simp add: load16_def)
  also have "\<dots> = v" by (rule bit_eqI) (auto simp: bit_simps dest: bit_imp_le_length)
  finally show ?thesis .
qed

lemma load32_at:
  assumes "\<And>i. i < 4 \<Longrightarrow> d ! (k + i) = store32 v ! i"
  shows "load32 d k = v"
proof -
  have "get_bytes d k 4 = take_bit (8 * 4) (ucast v)"
    using assms by (intro get_bytes_le_byte) (simp add: store32_def)
  then have "load32 d k = ucast (take_bit 32 (ucast v :: u64))" by (simp add: load32_def)
  also have "\<dots> = v" by (rule bit_eqI) (auto simp: bit_simps dest: bit_imp_le_length)
  finally show ?thesis .
qed

lemma load_store [simp]:
  "load16 (store16 v) 0 = v" "load32 (store32 w) 0 = w"
  "load16 (store16 v @ ys) 0 = v" "load32 (store32 w @ ys) 0 = w"
  by (rule load16_at load32_at; simp add: nth_append)+

lemma store16_inj: "store16 v = store16 w \<longleftrightarrow> v = w"
  using load_store(1) by metis

lemma ntohl_ntohl [simp]: "ntohl (ntohl v) = v"
proof -
  have "(ucast (ntohl v) :: u64) = bswap 4 (ucast v)"
    unfolding ntohl_def bswap_def
    by (rule bit_eqI) (auto simp: bit_simps bit_get_bytes dest: bit_imp_le_length)
  then have "ntohl (ntohl v) = ucast (take_bit 32 (ucast v :: u64))"
    using bswap_bswap [of 4 "ucast v"] by (simp add: ntohl_def)
  then show ?thesis by (simp add: take_bit_ucast_u32)
qed

subsection \<open>Encoded attributes\<close>

text \<open>How the kernel lays an attribute out: header, payload, zero bytes up to a multiple of four.\<close>

definition attr_bytes :: "u16 \<times> bytes \<Rightarrow> bytes" where
  "attr_bytes = (\<lambda>(t, v). store16 (of_nat (length v + 4)) @ store16 t @ v @
     replicate (NLA_ALIGN (length v + 4) - (length v + 4)) 0)"

definition attrs_bytes :: "(u16 \<times> bytes) list \<Rightarrow> bytes" where
  "attrs_bytes as = concat (map attr_bytes as)"

definition fits :: "(u16 \<times> bytes) list \<Rightarrow> bool" where
  "fits as \<longleftrightarrow> list_all (\<lambda>(t, v). length v + 4 < 2 ^ 16) as"

definition masked :: "net \<Rightarrow> (u16 \<times> bytes) list \<Rightarrow> (u16 \<times> bytes) list" where
  "masked c as = map (\<lambda>(t, v). (t AND NLA_TYPE_MASK c, v)) as"

lemma NLA_ALIGN_ge: "n \<le> NLA_ALIGN n"
  unfolding NLA_ALIGN_def by presburger

lemma attributes_step:
  assumes "length v + 4 < 2 ^ 16" "out (t AND NLA_TYPE_MASK c) = None"
  shows "attributes c (attr_bytes (t, v) @ rest) out = attributes c rest (out(t AND NLA_TYPE_MASK c \<mapsto> v))"
proof -
  let ?d = "attr_bytes (t, v) @ rest"
  define n where "n = length v + 4"
  have "load16 ?d 0 = of_nat n" by (simp add: attr_bytes_def n_def)
  then have "unat (load16 ?d 0) = n" using assms(1) by (simp add: unat_of_nat n_def [symmetric])
  then have l: "unat (load16 ?d 0) = length v + 4" by (simp add: n_def)
  have t: "load16 ?d 2 = t"
    by (rule load16_at) (simp add: attr_bytes_def nth_append)
  have len: "length (attr_bytes (t, v)) = NLA_ALIGN (length v + 4)"
    using NLA_ALIGN_ge [of "length v + 4"] by (simp add: attr_bytes_def)
  have v: "take (length v) (drop 4 ?d) = v" by (simp add: attr_bytes_def numeral_eq_Suc)
  have "drop (NLA_ALIGN (length v + 4)) ?d = rest" using len by simp
  then show ?thesis
    using l t len v NLA_ALIGN_ge [of "length v + 4"] assms(2)
    by (subst attributes.simps) (auto simp: Let_def)
qed

lemma attributes_bytes:
  assumes "fits as" "distinct (map fst (masked c as))" "\<forall>t\<in>set (map fst (masked c as)). out t = None"
  shows "attributes c (attrs_bytes as) out = Some (out ++ map_of (masked c as))"
  using assms
proof (induction as arbitrary: out)
  case Nil
  show ?case by (simp add: attrs_bytes_def masked_def attributes.simps [of _ "[]"])
next
  case (Cons a as)
  obtain t v where a: "a = (t, v)" by (cases a)
  let ?t = "t AND NLA_TYPE_MASK c"
  have d: "?t \<notin> set (map fst (masked c as))" "distinct (map fst (masked c as))" "out ?t = None"
    using Cons.prems(2,3) by (simp_all add: a masked_def)
  have "attributes c (attrs_bytes (a # as)) out = attributes c (attrs_bytes as) (out(?t \<mapsto> v))"
    using attributes_step [of v out t c "attrs_bytes as"] Cons.prems(1) d(3)
    by (simp add: a attrs_bytes_def fits_def)
  also have "\<dots> = Some ((out(?t \<mapsto> v)) ++ map_of (masked c as))"
  proof (rule Cons.IH [OF _ d(2)])
    show "fits as" using Cons.prems(1) by (simp add: fits_def)
    show "\<forall>t\<in>set (map fst (masked c as)). (out(?t \<mapsto> v)) t = None"
    proof -
      have "\<forall>t\<in>set (map fst (masked c as)). out t = None" using Cons.prems(3) by (simp add: masked_def)
      then show ?thesis using d(1) by (metis fun_upd_other)
    qed
  qed
  also have "(out(?t \<mapsto> v)) ++ map_of (masked c as) = out ++ map_of (masked c (a # as))"
  proof -
    have "map_of (masked c as) ?t = None" using d(1) by (simp add: map_of_eq_None_iff)
    moreover have "masked c (a # as) = (?t, v) # masked c as" by (simp add: a masked_def)
    ultimately show ?thesis by (auto simp: fun_eq_iff map_add_def split: option.splits)
  qed
  finally show ?case .
qed


subsection \<open>Encoded flows\<close>

text \<open>What is known of the numbers of the protocol.\<close>

definition net_ok :: "net \<Rightarrow> bool" where
  "net_ok c \<longleftrightarrow>
     distinct [CTA_TUPLE_ORIG c, CTA_TUPLE_REPLY c, CTA_STATUS c, CTA_TIMEOUT c, CTA_ID c, CTA_ZONE c] \<and>
     CTA_TUPLE_IP c \<noteq> CTA_TUPLE_PROTO c \<and> CTA_IP_V4_SRC c \<noteq> CTA_IP_V4_DST c \<and> CTA_IP_V6_SRC c \<noteq> CTA_IP_V6_DST c \<and>
     distinct [CTA_PROTO_NUM c, CTA_PROTO_SRC_PORT c, CTA_PROTO_DST_PORT c] \<and>
     IPCTNL_MSG_CT_NEW c \<noteq> IPCTNL_MSG_CT_DELETE c \<and> IPCTNL_MSG_CT_NEW c < 256 \<and> NFNL_SUBSYS_CTNETLINK c < 256 \<and>
     AF_INET c \<noteq> AF_INET6 c \<and> 0 \<le> AF_INET c \<and> AF_INET c < 256 \<and> 0 \<le> AF_INET6 c \<and> AF_INET6 c < 256 \<and>
     (\<forall>t\<in>{CTA_TUPLE_ORIG c, CTA_TUPLE_REPLY c, CTA_STATUS c, CTA_TIMEOUT c, CTA_ID c, CTA_ZONE c,
          CTA_TUPLE_IP c, CTA_TUPLE_PROTO c, CTA_IP_V4_SRC c, CTA_IP_V4_DST c, CTA_IP_V6_SRC c, CTA_IP_V6_DST c,
          CTA_PROTO_NUM c, CTA_PROTO_SRC_PORT c, CTA_PROTO_DST_PORT c}. t AND NLA_TYPE_MASK c = t)"

lemma net_ok_neq:
  "net_ok c \<Longrightarrow> CTA_TUPLE_PROTO c \<noteq> CTA_TUPLE_IP c \<and> CTA_TUPLE_IP c \<noteq> CTA_TUPLE_PROTO c"
  "net_ok c \<Longrightarrow> CTA_IP_V4_SRC c \<noteq> CTA_IP_V4_DST c \<and> CTA_IP_V4_DST c \<noteq> CTA_IP_V4_SRC c"
  "net_ok c \<Longrightarrow> CTA_IP_V6_SRC c \<noteq> CTA_IP_V6_DST c \<and> CTA_IP_V6_DST c \<noteq> CTA_IP_V6_SRC c"
  "net_ok c \<Longrightarrow> CTA_PROTO_NUM c \<noteq> CTA_PROTO_SRC_PORT c \<and> CTA_PROTO_SRC_PORT c \<noteq> CTA_PROTO_NUM c"
  "net_ok c \<Longrightarrow> CTA_PROTO_NUM c \<noteq> CTA_PROTO_DST_PORT c \<and> CTA_PROTO_DST_PORT c \<noteq> CTA_PROTO_NUM c"
  "net_ok c \<Longrightarrow> CTA_PROTO_SRC_PORT c \<noteq> CTA_PROTO_DST_PORT c \<and> CTA_PROTO_DST_PORT c \<noteq> CTA_PROTO_SRC_PORT c"
  by (auto simp: net_ok_def)

text \<open>A tuple attribute: the addresses cut to their length, the protocol number and the ports.\<close>

definition tuple_bytes :: "net \<Rightarrow> int \<Rightarrow> bytes \<Rightarrow> bytes \<Rightarrow> u16 \<Rightarrow> u16 \<Rightarrow> u8 \<Rightarrow> bytes" where
  "tuple_bytes c fam s d sp dp p =
     (let n = (if fam = AF_INET c then 4 else 16)
      in attrs_bytes
          [(CTA_TUPLE_IP c, attrs_bytes
              [(if fam = AF_INET c then CTA_IP_V4_SRC c else CTA_IP_V6_SRC c, take n s),
               (if fam = AF_INET c then CTA_IP_V4_DST c else CTA_IP_V6_DST c, take n d)]),
           (CTA_TUPLE_PROTO c, attrs_bytes
              [(CTA_PROTO_NUM c, [p]), (CTA_PROTO_SRC_PORT c, store16 sp), (CTA_PROTO_DST_PORT c, store16 dp)])])"

definition address_ok :: "net \<Rightarrow> int \<Rightarrow> bytes \<Rightarrow> bool" where
  "address_ok c fam ip \<longleftrightarrow> length ip = 16 \<and> (fam = AF_INET c \<longrightarrow> drop 4 ip = replicate 12 0)"

lemma attr_bytes_length: "length (attr_bytes (t, v)) = NLA_ALIGN (length v + 4)"
  using NLA_ALIGN_ge [of "length v + 4"] by (simp add: attr_bytes_def)

lemma tuple_bytes_length: "length s = 16 \<Longrightarrow> length d = 16 \<Longrightarrow> length (tuple_bytes c fam s d sp dp p) \<le> 72"
  by (simp add: tuple_bytes_def Let_def attrs_bytes_def attr_bytes_length NLA_ALIGN_def min_def)

lemma put_address: "address_ok c fam ip \<Longrightarrow> put_list (replicate 16 0) 0 (take (if fam = AF_INET c then 4 else 16) ip) = ip"
  by (auto simp: address_ok_def put_list_def min_def) (metis append_take_drop_id)

lemma tuple_bytes_read:
  assumes c: "net_ok c" and a: "a t = Some (tuple_bytes c fam s d sp dp p)" and s: "address_ok c fam s" and d: "address_ok c fam d"
  shows "tuple c a t fam = Some (s, d, sp, dp, p)"
proof -
  let ?n = "if fam = AF_INET c then 4 else 16"
  let ?ip = "[(if fam = AF_INET c then CTA_IP_V4_SRC c else CTA_IP_V6_SRC c, take ?n s),
      (if fam = AF_INET c then CTA_IP_V4_DST c else CTA_IP_V6_DST c, take ?n d)]"
  let ?pr = "[(CTA_PROTO_NUM c, [p]), (CTA_PROTO_SRC_PORT c, store16 sp), (CTA_PROTO_DST_PORT c, store16 dp)]"
  let ?tu = "[(CTA_TUPLE_IP c, attrs_bytes ?ip), (CTA_TUPLE_PROTO c, attrs_bytes ?pr)]"
  have l: "length s = 16" "length d = 16" using s d by (simp_all add: address_ok_def)
  have m: "masked c ?ip = ?ip" "masked c ?pr = ?pr" "masked c ?tu = ?tu" using c by (simp_all add: net_ok_def masked_def)
  have ip: "attributes c (attrs_bytes ?ip) Map.empty = Some (map_of ?ip)"
    using attributes_bytes [of ?ip c Map.empty] c l by (simp add: m net_ok_def fits_def)
  have pr: "attributes c (attrs_bytes ?pr) Map.empty = Some (map_of ?pr)"
    using attributes_bytes [of ?pr c Map.empty] c by (simp add: m net_ok_def fits_def)
  have "fits ?tu" using l by (simp add: fits_def attrs_bytes_def attr_bytes_length NLA_ALIGN_def min_def)
  then have tu: "attributes c (attrs_bytes ?tu) Map.empty = Some (map_of ?tu)"
    using attributes_bytes [of ?tu c Map.empty] c by (simp add: m net_ok_def)
  have "tuple_bytes c fam s d sp dp p = attrs_bytes ?tu" by (simp add: tuple_bytes_def Let_def)
  then have 1: "nested c a t = Some (map_of ?tu)" using a tu by (simp add: nested_def)
  have 2: "nested c (map_of ?tu) (CTA_TUPLE_IP c) = Some (map_of ?ip)"
      "nested c (map_of ?tu) (CTA_TUPLE_PROTO c) = Some (map_of ?pr)"
    using ip pr net_ok_neq [OF c] by (simp_all add: nested_def)
  have 3: "copy (map_of ?ip) (if fam = AF_INET c then CTA_IP_V4_SRC c else CTA_IP_V6_SRC c) ?n = Some (take ?n s)"
      "copy (map_of ?ip) (if fam = AF_INET c then CTA_IP_V4_DST c else CTA_IP_V6_DST c) ?n = Some (take ?n d)"
    using net_ok_neq [OF c] l by (simp_all add: copy_def)
  have 4: "copy (map_of ?pr) (CTA_PROTO_NUM c) 1 = Some [p]" "copy (map_of ?pr) (CTA_PROTO_SRC_PORT c) 2 = Some (store16 sp)"
      "copy (map_of ?pr) (CTA_PROTO_DST_PORT c) 2 = Some (store16 dp)"
    using net_ok_neq [OF c] by (simp_all add: copy_def)
  show ?thesis
    unfolding tuple_def Let_def 1 option.case 2 prod.case 3 4 put_address [OF s] put_address [OF d] by simp
qed

text \<open>The message about a new connection, with arbitrary further attributes.\<close>

definition flow_attrs :: "net \<Rightarrow> Flow \<Rightarrow> (u16 \<times> bytes) list \<Rightarrow> (u16 \<times> bytes) list" where
  "flow_attrs c f extra =
     [(CTA_TUPLE_ORIG c, tuple_bytes c (family f) (src f) (dst f) (sport f) (dport f) (proto f)),
      (CTA_TUPLE_REPLY c, tuple_bytes c (family f) (replySrc f) (pub f) (replyPort f) (publicPort f) (proto f)),
      (CTA_STATUS c, store32 (ntohl (status f))), (CTA_TIMEOUT c, store32 (ntohl (timeout f))),
      (CTA_ID c, store32 (flow_id f))] @ extra"

definition message_bytes :: "net \<Rightarrow> u16 \<Rightarrow> int \<Rightarrow> bytes \<Rightarrow> bytes \<Rightarrow> bytes" where
  "message_bytes c command fam rest body =
     store32 (of_nat (20 + length body)) @ store16 (push_bit 8 (NFNL_SUBSYS_CTNETLINK c) OR command) @
     take 10 rest @ [word_of_int fam, NFNETLINK_V0 c] @ drop 10 rest @ body"

definition flow_ok :: "net \<Rightarrow> Flow \<Rightarrow> bool" where
  "flow_ok c f \<longleftrightarrow>
     (family f = AF_INET c \<or> family f = AF_INET6 c) \<and> (proto f = IPPROTO_TCP c \<or> proto f = IPPROTO_UDP c) \<and>
     address_ok c (family f) (src f) \<and> address_ok c (family f) (dst f) \<and>
     address_ok c (family f) (pub f) \<and> address_ok c (family f) (replySrc f) \<and>
     \<not> destroy f \<and> mac f = replicate 6 0"

lemma below_256: "(x :: u16) < 256 \<Longrightarrow> take_bit 8 x = x"
  by (simp add: take_bit_eq_mod mod_word_less)

lemma message_type:
  assumes "(s :: u16) < 256" "t < 256"
  shows "drop_bit 8 (push_bit 8 s OR t) = s" and "(push_bit 8 s OR t) AND 255 = t"
proof -
  have b: "bit s n \<Longrightarrow> n < 8" "bit t n \<Longrightarrow> n < 8" for n
    using below_256 [OF assms(1)] below_256 [OF assms(2)] by (metis bit_take_bit_iff)+
  show "drop_bit 8 (push_bit 8 s OR t) = s"
    by (rule bit_eqI) (use b in \<open>auto simp: bit_simps dest: bit_imp_le_length\<close>)
  have "(push_bit 8 s OR t) AND mask 8 = t"
    by (rule bit_eqI) (use b in \<open>auto simp: bit_simps\<close>)
  then show "(push_bit 8 s OR t) AND 255 = t" by (simp add: mask_eq_exp_minus_1)
qed

lemma message_header:
  assumes "length rest = 12" "length body + 20 < 2 ^ 32" "0 \<le> fam" "fam < 256"
  shows "length (message_bytes c t fam rest body) = 20 + length body"
    and "unat (load32 (message_bytes c t fam rest body) 0) = 20 + length body"
    and "load16 (message_bytes c t fam rest body) 4 = push_bit 8 (NFNL_SUBSYS_CTNETLINK c) OR t"
    and "uint (message_bytes c t fam rest body ! 16) = fam"
    and "message_bytes c t fam rest body ! 17 = NFNETLINK_V0 c"
    and "drop 20 (message_bytes c t fam rest body) = body"
proof -
  let ?m = "message_bytes c t fam rest body"
  define n where "n = 20 + length body"
  have n_lt: "n < 4294967296" using assms(2) by (simp add: n_def)
  show l: "length ?m = 20 + length body" using assms(1) by (simp add: message_bytes_def)
  have "load32 ?m 0 = of_nat n" by (simp add: message_bytes_def n_def)
  then have "unat (load32 ?m 0) = n" using assms(2) by (simp add: unat_of_nat n_lt)
  then show "unat (load32 ?m 0) = 20 + length body" by (simp add: n_def)
  show "load16 ?m 4 = push_bit 8 (NFNL_SUBSYS_CTNETLINK c) OR t"
    by (rule load16_at) (simp add: message_bytes_def nth_append)
  show "uint (?m ! 16) = fam"
    using assms by (simp add: message_bytes_def nth_append uint_word_of_int)
  show "?m ! 17 = NFNETLINK_V0 c"
    using assms(1) by (simp add: message_bytes_def nth_append)
  show "drop 20 ?m = body"
    using assms(1) by (simp add: message_bytes_def)
qed

lemma net_ok_top:
  "net_ok c \<Longrightarrow> distinct [CTA_TUPLE_ORIG c, CTA_TUPLE_REPLY c, CTA_STATUS c, CTA_TIMEOUT c, CTA_ID c, CTA_ZONE c]"
  by (simp add: net_ok_def)

lemma flow_attrs_map:
  assumes c: "net_ok c" and z: "CTA_ZONE c \<notin> fst ` set (masked c extra)"
    and "distinct (map fst (masked c (flow_attrs c f extra)))"
  defines "a \<equiv> map_of (masked c (flow_attrs c f extra))"
  shows "a (CTA_TUPLE_ORIG c) = Some (tuple_bytes c (family f) (src f) (dst f) (sport f) (dport f) (proto f))"
    and "a (CTA_TUPLE_REPLY c) =
           Some (tuple_bytes c (family f) (replySrc f) (pub f) (replyPort f) (publicPort f) (proto f))"
    and "a (CTA_STATUS c) = Some (store32 (ntohl (status f)))" and "a (CTA_TIMEOUT c) = Some (store32 (ntohl (timeout f)))"
    and "a (CTA_ID c) = Some (store32 (flow_id f))" and "a (CTA_ZONE c) = None"
proof -
  have m: "masked c (flow_attrs c f extra) = flow_attrs c f [] @ masked c extra"
    using c by (simp add: masked_def flow_attrs_def net_ok_def)
  have zn: "map_of (masked c extra) (CTA_ZONE c) = None" using z by (simp add: map_of_eq_None_iff)
  show "a (CTA_TUPLE_ORIG c) = Some (tuple_bytes c (family f) (src f) (dst f) (sport f) (dport f) (proto f))"
    "a (CTA_TUPLE_REPLY c) =
       Some (tuple_bytes c (family f) (replySrc f) (pub f) (replyPort f) (publicPort f) (proto f))"
    "a (CTA_STATUS c) = Some (store32 (ntohl (status f)))" "a (CTA_TIMEOUT c) = Some (store32 (ntohl (timeout f)))"
    "a (CTA_ID c) = Some (store32 (flow_id f))" "a (CTA_ZONE c) = None"
    using net_ok_top [OF c] zn unfolding a_def m by (auto simp: flow_attrs_def map_add_def)
qed


lemma flow_attrs_fit:
  assumes "flow_ok c f" "fits extra"
  shows "fits (flow_attrs c f extra)"
proof -
  have l: "length (src f) = 16" "length (dst f) = 16" "length (replySrc f) = 16" "length (pub f) = 16"
    using assms(1) by (simp_all add: flow_ok_def address_ok_def)
  have "length (tuple_bytes c (family f) s d sp dp p) < 65532" if "length s = 16" "length d = 16" for s d sp dp p
    using tuple_bytes_length [OF that, of c "family f" sp dp p] by simp
  then show ?thesis using assms(2) l by (simp add: fits_def flow_attrs_def)
qed

subsection \<open>Prefixes as lists of bits\<close>

definition bit_list :: "bytes \<Rightarrow> bool list" where
  "bit_list xs = concat (map (\<lambda>x. map (\<lambda>k. bit x (7 - k)) [0..<8]) xs)"

lemma length_bit_list: "length (bit_list xs) = 8 * length xs"
  by (induction xs) (simp_all add: bit_list_def)

lemma nth_bit_list: "i < 8 * length xs \<Longrightarrow> bit_list xs ! i = bit (xs ! (i div 8)) (7 - i mod 8)"
proof (induction xs arbitrary: i)
  case Nil
  then show ?case by simp
next
  case (Cons x xs)
  have b: "bit_list (x # xs) = map (\<lambda>k. bit x (7 - k)) [0..<8] @ bit_list xs" by (simp add: bit_list_def)
  show ?case
  proof (cases "i < 8")
    case True
    then show ?thesis by (simp add: b nth_append)
  next
    case False
    then obtain k where k: "i = k + 8" by (metis add.commute le_add_diff_inverse not_less)
    moreover have "(k + 8) div 8 = Suc (k div 8)" by simp
    ultimately show ?thesis using Cons.IH [of k] Cons.prems by (simp add: b nth_append)
  qed
qed

lemma bit_differs_iff: "bit_differs ip network i \<longleftrightarrow> bit (ip ! (i div 8)) (7 - i mod 8) \<noteq> bit (network ! (i div 8)) (7 - i mod 8)"
proof -
  define k where "k = 7 - i mod 8"
  have k: "k < 8" "i mod 8 + k = 7" using mod_less_divisor [of 8 i] by (simp_all add: k_def)
  have "drop_bit (i mod 8) (128 :: u8) = push_bit k 1"
  proof (rule bit_eqI)
    fix n
    have "bit (128 :: u8) m \<longleftrightarrow> m = 7" for m
    proof -
      have "bit (push_bit 7 1 :: u8) m \<longleftrightarrow> m = 7" by (simp only: bit_push_bit_iff bit_1_iff) auto
      then show ?thesis by simp
    qed
    then have "bit (drop_bit (i mod 8) (128 :: u8)) n \<longleftrightarrow> i mod 8 + n = 7"
      by (simp add: bit_drop_bit_eq)
    then show "bit (drop_bit (i mod 8) (128 :: u8)) n \<longleftrightarrow> bit (push_bit k 1 :: u8) n"
      using k by (auto simp: bit_simps)
  qed
  then have "bit_differs ip network i \<longleftrightarrow> (ip ! (i div 8) XOR network ! (i div 8)) AND push_bit k 1 \<noteq> 0"
    by (simp add: bit_differs_def)
  also have "\<dots> \<longleftrightarrow> bit (ip ! (i div 8) XOR network ! (i div 8)) k"
    by (simp add: push_bit_of_1 and_exp_eq_0_iff_not_bit)
  also have "\<dots> \<longleftrightarrow> bit (ip ! (i div 8)) k \<noteq> bit (network ! (i div 8)) k"
    using k(1) by (auto simp: bit_simps)
  finally show ?thesis by (simp add: k_def)
qed

lemma no_bit_differs:
  assumes "n \<le> 8 * length ip" "length network = length ip"
  shows "list_all (\<lambda>i. \<not> bit_differs ip network i) [0..<n] \<longleftrightarrow> take n (bit_list ip) = take n (bit_list network)"
proof -
  have "take n (bit_list ip) = take n (bit_list network) \<longleftrightarrow> (\<forall>i<n. bit_list ip ! i = bit_list network ! i)"
    using assms by (simp add: list_eq_iff_nth_eq length_bit_list)
  also have "\<dots> \<longleftrightarrow> (\<forall>i<n. \<not> bit_differs ip network i)"
    using assms by (simp add: nth_bit_list bit_differs_iff)
  finally show ?thesis by (auto simp: list_all_iff)
qed

lemma mask_step: "is_digit ch \<Longrightarrow> unat bits \<le> 128 \<Longrightarrow>
    unat (bits * 10 + of_nat (of_char ch) - 48 :: u32) = unat bits * 10 + digit_val ch"
proof -
  assume d: "is_digit ch" and b: "unat bits \<le> 128"
  define n where "n = unat bits * 10 + digit_val ch"
  have "n \<le> 1289" using b d unfolding n_def digit_val_def is_digit_def by linarith
  then have "n < 4294967296" by simp
  then have "unat (of_nat n :: u32) = n" by (simp add: unat_of_nat)
  moreover have "bits * 10 + of_nat (of_char ch) - 48 = (of_nat n :: u32)"
    using d by (simp add: n_def digit_val_def is_digit_def of_nat_diff)
  ultimately show ?thesis by (simp only: n_def)
qed

lemma mask_bits_read:
  assumes "mask_bits s b = Some n" "unat b \<le> 128"
  shows "list_all is_digit s \<and> unat n = foldl (\<lambda>a ch. a * 10 + digit_val ch) (unat b) s"
  using assms
proof (induction s arbitrary: b)
  case (Cons ch s)
  let ?b = "b * 10 + of_nat (of_char ch) - 48 :: u32"
  have ch: "is_digit ch" "mask_bits s ?b = Some n" using Cons.prems by (auto split: if_splits)
  show ?case
  proof (cases "unat ?b \<le> 128")
    case True
    then show ?thesis using Cons.IH [OF ch(2)] mask_step [OF ch(1) Cons.prems(2)] ch(1) by simp
  next
    case False
    then have "s = []" using ch(2) by (cases s) (auto simp: word_less_nat_alt split: if_splits)
    then show ?thesis using ch mask_step [OF ch(1) Cons.prems(2)] by simp
  qed
qed simp


lemma digits_grow: "(a :: nat) \<le> foldl (\<lambda>a ch. a * 10 + digit_val ch) a s"
proof (induction s arbitrary: a)
  case (Cons ch s)
  have "a \<le> a * 10 + digit_val ch" by simp
  also have "\<dots> \<le> foldl (\<lambda>a ch. a * 10 + digit_val ch) (a * 10 + digit_val ch) s" by (rule Cons.IH)
  finally show ?case by simp
qed simp

lemma mask_bits_total:
  assumes "list_all is_digit s" "foldl (\<lambda>a ch. a * 10 + digit_val ch) (unat b) s \<le> 128"
  shows "\<exists>n. mask_bits s b = Some n \<and> unat n = foldl (\<lambda>a ch. a * 10 + digit_val ch) (unat b) s"
  using assms
proof (induction s arbitrary: b)
  case (Cons ch s)
  let ?b = "b * 10 + of_nat (of_char ch) - 48 :: u32"
  have b: "unat b \<le> 128" using digits_grow [of "unat b" "ch # s"] Cons.prems(2) by linarith
  have st: "unat ?b = unat b * 10 + digit_val ch" using mask_step [OF _ b] Cons.prems(1) by simp
  then show ?case
    using Cons.IH [of ?b] Cons.prems b by (simp add: word_less_nat_alt)
qed simp

lemma contains_split:
  "CHR ''/'' \<notin> set s \<Longrightarrow> contains c (s @ CHR ''/'' # m) fam ip \<longleftrightarrow>
   (case inet_pton c fam (c_str s) of
      None \<Rightarrow> False
    | Some n \<Rightarrow>
        (case mask_bits m 0 of
           None \<Rightarrow> False
         | Some bits \<Rightarrow>
             bits \<le> (if fam = AF_INET c then 32 else 128) \<and>
             list_all (\<lambda>i. \<not> bit_differs ip (put_list (replicate 16 0) 0 n) i) [0..<unat bits]))"
proof -
  assume s: "CHR ''/'' \<notin> set s"
  then have "takeWhile (\<lambda>x. x \<noteq> CHR ''/'') (s @ CHR ''/'' # m) = s"
    "dropWhile (\<lambda>x. x \<noteq> CHR ''/'') (s @ CHR ''/'' # m) = CHR ''/'' # m"
    by (induction s) auto
  then show ?thesis by (auto simp: contains_def not_less split: option.splits)
qed

lemma contains_bits:
  assumes "length n \<le> 16" "length ip = 16" "unat (bits :: u32) \<le> 128"
  shows "list_all (\<lambda>i. \<not> bit_differs ip (put_list (replicate 16 0) 0 n) i) [0..<unat bits] \<longleftrightarrow>
    take (unat bits) (bit_list ip) = take (unat bits) (bit_list (n @ replicate (16 - length n) 0))"
  using no_bit_differs [of "unat bits" ip "put_list (replicate 16 0) 0 n"] assms by (simp add: put_list_def)

subsection \<open>Properties\<close>

text \<open>
  a conntrack message about a new TCP or UDP connection is read back exactly: addresses, ports,
  timeout, status and identifier come out as they went in, whatever further attributes the message has.
\<close>

theorem flow_roundtrip:
  assumes "net_ok c" and "flow_ok c f" and "fits extra" and "length rest = 12"
    and "distinct (map fst (masked c (flow_attrs c f extra)))" and "CTA_ZONE c \<notin> fst ` set (masked c extra)"
    and "length (attrs_bytes (flow_attrs c f extra)) + 20 < 2 ^ 32"
  shows "parseFlow c (message_bytes c (IPCTNL_MSG_CT_NEW c) (family f) rest (attrs_bytes (flow_attrs c f extra))) = Some f"
proof -
  let ?as = "flow_attrs c f extra" and ?c = "IPCTNL_MSG_CT_NEW c"
  let ?a = "map_of (masked c ?as)"
  have fam: "family f = AF_INET c \<or> family f = AF_INET6 c" "0 \<le> family f" "family f < 256"
    using assms(1,2) by (auto simp: flow_ok_def net_ok_def)
  have ad: "address_ok c (family f) (src f)" "address_ok c (family f) (dst f)"
      "address_ok c (family f) (replySrc f)" "address_ok c (family f) (pub f)"
    using assms(2) by (simp_all add: flow_ok_def)
  note h = message_header [OF assms(4,7) fam(2,3), of c ?c]
  note ty = message_type [of "NFNL_SUBSYS_CTNETLINK c" ?c]
  have t: "NFNL_SUBSYS_CTNETLINK c < 256" "?c < 256" "?c \<noteq> IPCTNL_MSG_CT_DELETE c" using assms(1) by (simp_all add: net_ok_def)
  have a: "attributes c (attrs_bytes ?as) Map.empty = Some ?a"
    using attributes_bytes [OF flow_attrs_fit [OF assms(2,3)] assms(5), of Map.empty] by simp
  note m = flow_attrs_map [OF assms(1,6,5)]
  have o: "tuple c ?a (CTA_TUPLE_ORIG c) (family f) = Some (src f, dst f, sport f, dport f, proto f)"
    by (rule tuple_bytes_read [OF assms(1) _ ad(1,2)]) (rule m(1))
  have r: "tuple c ?a (CTA_TUPLE_REPLY c) (family f) = Some (replySrc f, pub f, replyPort f, publicPort f, proto f)"
    by (rule tuple_bytes_read [OF assms(1) _ ad(3,4)]) (rule m(2))
  have p: "proto f = IPPROTO_TCP c \<or> proto f = IPPROTO_UDP c" "\<not> destroy f" "mac f = replicate 6 0"
    using assms(2) by (simp_all add: flow_ok_def)
  show ?thesis
    using h t ty(1) [OF t(1,2)] ty(2) [OF t(1,2)] fam(1) p m(3-6)
    by (simp add: parseFlow_def Let_def a o read_id_def zone_ok_def read_reply_def copy_def r no_flow_def)
qed

text \<open>The numbers as Linux has them, and a connection.\<close>

definition sample_net :: net where
  "sample_net = \<lparr>AF_INET = 2, AF_INET6 = 10, NFNL_SUBSYS_CTNETLINK = 1, IPCTNL_MSG_CT_NEW = 0, IPCTNL_MSG_CT_DELETE = 2,
     NFNETLINK_V0 = 0, NLA_TYPE_MASK = 0x3fff, CTA_TUPLE_ORIG = 1, CTA_TUPLE_REPLY = 2, CTA_STATUS = 3, CTA_TIMEOUT = 7,
     CTA_ID = 12, CTA_ZONE = 18, CTA_TUPLE_IP = 1, CTA_TUPLE_PROTO = 2, CTA_IP_V4_SRC = 1, CTA_IP_V4_DST = 2,
     CTA_IP_V6_SRC = 3, CTA_IP_V6_DST = 4, CTA_PROTO_NUM = 1, CTA_PROTO_SRC_PORT = 2, CTA_PROTO_DST_PORT = 3,
     IPPROTO_TCP = 6, IPPROTO_UDP = 17,
     inet_pton = (\<lambda>f s. if f = 2 \<and> s = ''192.168.0.0'' then Some [192, 168, 0, 0] else None)\<rparr>"

definition sample_flow :: Flow where
  "sample_flow = no_flow\<lparr>family := 2, proto := 6, src := [192, 168, 0, 7] @ replicate 12 0,
     dst := [8, 8, 8, 8] @ replicate 12 0, pub := [10, 0, 0, 1] @ replicate 12 0, replySrc := [8, 8, 8, 8] @ replicate 12 0,
     sport := 4660, dport := 80, publicPort := 4660, replyPort := 80, timeout := 120, status := 6, flow_id := 99\<rparr>"

lemma sample_net_ok: "net_ok sample_net"
  by (simp add: net_ok_def sample_net_def)

lemma sample_flow_ok: "flow_ok sample_net sample_flow"
  by (simp add: flow_ok_def sample_net_def sample_flow_def address_ok_def no_flow_def)

theorem flow_roundtrip_witness:
  "parseFlow sample_net (message_bytes sample_net 0 2 (replicate 12 0)
     (attrs_bytes (flow_attrs sample_net sample_flow [(9, [1, 2, 3, 4, 5])]))) = Some sample_flow"
proof -
  have d: "distinct (map fst (masked sample_net (flow_attrs sample_net sample_flow [(9, [1, 2, 3, 4, 5])])))"
    "CTA_ZONE sample_net \<notin> fst ` set (masked sample_net [(9, [1, 2, 3, 4, 5])])"
    by (simp_all add: masked_def flow_attrs_def sample_net_def)
  have "length (src sample_flow) = 16" "length (dst sample_flow) = 16" "length (replySrc sample_flow) = 16"
    "length (pub sample_flow) = 16" by (simp_all add: sample_flow_def)
  then have l: "length (attrs_bytes (flow_attrs sample_net sample_flow [(9, [1, 2, 3, 4, 5])])) + 20 < 2 ^ 32"
    by (simp add: attrs_bytes_def flow_attrs_def attr_bytes_length NLA_ALIGN_def tuple_bytes_def Let_def)
  show ?thesis
    using flow_roundtrip [OF sample_net_ok sample_flow_ok _ _ d l, of "replicate 12 0"]
    by (simp add: fits_def sample_net_def sample_flow_def)
qed

text \<open>
  The key under which flows are stored identifies the connection: two parsed flows have the same
  key exactly when family, protocol, addresses and ports agree.
\<close>

theorem flow_key_identifies:
  assumes "net_ok c" and "flow_ok c f" and "flow_ok c g"
  shows "key f = key g \<longleftrightarrow>
    (family f, proto f, src f, dst f, sport f, dport f) = (family g, proto g, src g, dst g, sport g, dport g)"
proof -
  have fam: "0 \<le> family x" "family x < 256" if "flow_ok c x" for x
    using that assms(1) by (auto simp: flow_ok_def net_ok_def)
  have "uint (word_of_int (family x) :: u8) = family x" if "flow_ok c x" for x
    using fam [OF that] by (simp add: uint_word_of_int)
  then have "(word_of_int (family f) :: u8) = word_of_int (family g) \<longleftrightarrow> family f = family g"
    using assms(2,3) by metis
  moreover have "length (src f) = length (src g)" "length (dst f) = length (dst g)"
    using assms(2,3) by (simp_all add: flow_ok_def address_ok_def)
  ultimately show ?thesis by (simp add: key_def store16_inj)
qed

theorem flow_key_identifies_witness: "key sample_flow \<noteq> key (sample_flow\<lparr>sport := 4661\<rparr>)"
proof -
  have "flow_ok sample_net (sample_flow\<lparr>sport := 4661\<rparr>)" using sample_flow_ok by (simp add: flow_ok_def)
  from flow_key_identifies [OF sample_net_ok sample_flow_ok this] show ?thesis by (simp add: sample_flow_def)
qed

text \<open>
  The prefix test is what it says: an address is contained in a prefix exactly when the text is a
  network address, a slash and a decimal length within the width of the family, and the first
  bits of the address, as many as the length says, are those of the network.
\<close>

theorem contains_is_prefix:
  assumes "length ip = 16" and "\<forall>s n. inet_pton c fam s = Some n \<longrightarrow> length n \<le> 16"
  shows "contains c p fam ip \<longleftrightarrow>
    (\<exists>net_s mask n. p = net_s @ CHR ''/'' # mask \<and> CHR ''/'' \<notin> set net_s \<and>
       inet_pton c fam (c_str net_s) = Some n \<and> list_all is_digit mask \<and>
       digits_val mask \<le> (if fam = AF_INET c then 32 else 128) \<and>
       take (digits_val mask) (bit_list ip) = take (digits_val mask) (bit_list (n @ replicate (16 - length n) 0)))"
    (is "_ \<longleftrightarrow> (\<exists>net_s mask n. ?Q net_s mask n)")
proof
  assume i: "contains c p fam ip"
  then have "CHR ''/'' \<in> set p" unfolding contains_def by metis
  then obtain s m where p: "p = s @ CHR ''/'' # m" "CHR ''/'' \<notin> set s" by (metis split_list_first)
  have t: "contains c (s @ CHR ''/'' # m) fam ip" using i p(1) by simp
  obtain n where n: "inet_pton c fam (c_str s) = Some n"
    using t by (cases "inet_pton c fam (c_str s)") (simp_all add: contains_split [OF p(2)])
  obtain bits where b: "mask_bits m 0 = Some bits"
    using t n by (cases "mask_bits m 0") (simp_all add: contains_split [OF p(2)])
  have m: "list_all is_digit m" "unat bits = digits_val m"
    using mask_bits_read [OF b] by (simp_all add: digits_val_def)
  have "take (unat bits) (bit_list ip) = take (unat bits) (bit_list (n @ replicate (16 - length n) 0)) \<and>
      unat bits \<le> (if fam = AF_INET c then 32 else 128)"
    using t n b assms contains_bits [of n ip bits]
    by (auto simp: contains_split [OF p(2)] word_le_nat_alt split: if_splits)
  then have "?Q s m n" using p n m by simp
  then show "\<exists>net_s mask n. ?Q net_s mask n" by blast
next
  assume "\<exists>net_s mask n. ?Q net_s mask n"
  then obtain s m n where q: "?Q s m n" by blast
  then have "digits_val m \<le> 128" by (auto split: if_splits)
  then obtain bits where b: "mask_bits m 0 = Some bits" "unat bits = digits_val m"
    using mask_bits_total [of m 0] q by (auto simp: digits_val_def)
  have "length n \<le> 16" using q assms(2) by blast
  then have "contains c (s @ CHR ''/'' # m) fam ip"
    using q b assms(1) contains_bits [of n ip bits] by (simp add: contains_split word_le_nat_alt split: if_splits)
  then show "contains c p fam ip" using q by simp
qed

theorem contains_is_prefix_witness:
  "contains sample_net ''192.168.0.0/16'' 2 (src sample_flow)"
proof -
  let ?n = "[192, 168, 0, 0] :: bytes"
  have q: "''192.168.0.0/16'' = ''192.168.0.0'' @ CHR ''/'' # ''16'' \<and> CHR ''/'' \<notin> set ''192.168.0.0'' \<and>
      inet_pton sample_net 2 (c_str ''192.168.0.0'') = Some ?n \<and> list_all is_digit ''16'' \<and>
      digits_val ''16'' \<le> (if 2 = AF_INET sample_net then 32 else 128) \<and>
      take (digits_val ''16'') (bit_list (src sample_flow)) =
      take (digits_val ''16'') (bit_list (?n @ replicate (16 - length ?n) 0))"
    by code_simp
  have l: "length (src sample_flow) = 16" "\<forall>s n. inet_pton sample_net 2 s = Some n \<longrightarrow> length n \<le> 16"
    by (simp_all add: sample_flow_def sample_net_def)
  show ?thesis
    by (rule contains_is_prefix [OF l, THEN iffD2], rule exI [of _ "''192.168.0.0''"], rule exI [of _ "''16''"],
        rule exI [of _ ?n], rule q)
qed

end
