(* ===== verification/Mddp_Backend.thy ===== *)
theory Mddp_Backend
  imports Flow_Parser "HOL-Library.List_Lexorder"
begin

text \<open>
  The tethering offload service, \<^verbatim>\<open>src/bridges/tetheroffload/MddpBackend.cpp\<close>: the validation of
  names and prefixes, the rtnetlink client that looks a neighbour up, the requests to the MDDP
  driver, the handlers of the binder interface and the event thread.

  Everything outside is a field of the parameter record \<open>env\<close> over a world \<open>'w\<close> that each call may
  change: the driver's \<open>ioctl\<close> (its result after the retries on \<open>EINTR\<close>, with the packet it leaves
  in the buffer) and \<open>read\<close>, files, sockets, and the number of turns the clock leaves a loop that
  waits for its deadline. A socket with a receive timeout is the list of datagrams that
  arrive before the timeout.

  Two fields of the state are not in the code: \<open>sent\<close> lists the requests made to the driver and
  \<open>delivered\<close> the calls made on the client's callback. \<open>mWakes\<close> counts the writes to the event
  descriptor. \<open>std::map\<close> is a list sorted by key where the code iterates over it, and a function
  where it does not.
\<close>

subsection \<open>The outside\<close>

datatype read_result = RInterrupted | RAgain | RError | RData bytes

record datagram =
  d_bytes :: bytes
  d_trunc :: bool
  d_namelen_ok :: bool
  d_pid :: u32

record 'w env =
  netc :: net
  IFNAMSIZ :: nat
  NLM_F_REQUEST :: u16
  NLM_F_DUMP :: u16
  NLM_F_ACK :: u16
  NLM_F_DUMP_INTR :: u16
  NLMSG_ERROR :: u16
  NLMSG_DONE :: u16
  NLMSG_OVERRUN :: u16
  RTM_GETNEIGH :: u16
  RTM_NEWNEIGH :: u16
  NDA_DST :: u16
  NDA_LLADDR :: u16
  NUD_VALID :: u16
  dev_ioctl :: "bytes \<Rightarrow> 'w \<Rightarrow> bytes option \<times> 'w"
  dev_read :: "'w \<Rightarrow> read_result \<times> 'w"
  turns_before_deadline :: "'w \<Rightarrow> nat"
  first_line :: "string \<Rightarrow> 'w \<Rightarrow> string option \<times> 'w"
  read_number :: "string \<Rightarrow> 'w \<Rightarrow> u64 option \<times> 'w"
  route_open :: "'w \<Rightarrow> bool \<times> 'w"
  route_send :: "bytes \<Rightarrow> 'w \<Rightarrow> bool \<times> 'w"
  route_replies :: "'w \<Rightarrow> datagram list \<times> 'w"
  if_nametoindex :: "string \<Rightarrow> 'w \<Rightarrow> u32 \<times> 'w"
  conntrack_recv :: "int \<Rightarrow> 'w \<Rightarrow> (datagram + bool) \<times> 'w"
  is_netfilter_socket :: "int \<Rightarrow> 'w \<Rightarrow> bool \<times> 'w"
  dup_fd :: "int \<Rightarrow> 'w \<Rightarrow> int \<times> 'w"

definition bytes_of :: "string \<Rightarrow> bytes" where
  "bytes_of s = map (\<lambda>ch. of_nat (of_char ch)) s"

subsection \<open>Validation\<close>

definition name_chars :: string where
  "name_chars = ''abcdefghijklmnopqrstuvwxyzABCDEFGHIJKLMNOPQRSTUVWXYZ0123456789_-.:''"

definition valid_name :: "'w env \<Rightarrow> string \<Rightarrow> bool" where
  "valid_name E s \<longleftrightarrow> s \<noteq> [] \<and> length s < IFNAMSIZ E \<and> list_all (\<lambda>ch. ch \<in> set name_chars) s"

definition address :: "'w env \<Rightarrow> string \<Rightarrow> int \<Rightarrow> bool" where
  "address E s fam \<longleftrightarrow> CHR 0x00 \<notin> set s \<and> inet_pton (netc E) fam (c_str s) \<noteq> None"

definition valid_prefix :: "'w env \<Rightarrow> string \<Rightarrow> bool" where
  "valid_prefix E s =
     (if CHR ''/'' \<notin> set s then False
      else
        let ip = takeWhile (\<lambda>x. x \<noteq> CHR ''/'') s; mask = tl (dropWhile (\<lambda>x. x \<noteq> CHR ''/'') s)
        in if mask = [] \<or> length mask > 3 \<or> \<not> list_all is_digit mask then False
           else
             let bits = foldl (\<lambda>bits ch. bits * 10 + of_nat (of_char ch) - 48) (0 :: u32) mask
             in (address E ip (AF_INET (netc E)) \<and> bits \<le> 32) \<or> (address E ip (AF_INET6 (netc E)) \<and> bits \<le> 128))"

definition sysctl :: "'w env \<Rightarrow> string \<Rightarrow> u32 \<Rightarrow> 'w \<Rightarrow> u32 \<times> 'w" where
  "sysctl E path fallback w =
     (case read_number E path w of
        (Some v, w1) \<Rightarrow> (if v > 0 \<and> v \<le> 0xFFFFFFFF then ucast v else fallback, w1)
      | (None, w1) \<Rightarrow> (fallback, w1))"

definition connectionMode :: "'w env \<Rightarrow> 'w \<Rightarrow> bool \<times> 'w" where
  "connectionMode E w =
     (case first_line E ''/sys/class/misc/mddp/mddp_method'' w of
        (Some l, w1) \<Rightarrow> (l = ''MDDP is Connection base now'', w1)
      | (None, w1) \<Rightarrow> (False, w1))"

subsection \<open>Route socket\<close>

text \<open>
  The loops \<open>NLMSG_OK\<close>/\<open>NLMSG_NEXT\<close> and \<open>RTA_OK\<close>/\<open>RTA_NEXT\<close>: the pieces of the data, each with its
  header of \<open>h\<close> bytes and the length written there, and what remains of the length, which is negative
  when the last piece is not padded.
\<close>

function chunks :: "nat \<Rightarrow> (bytes \<Rightarrow> nat) \<Rightarrow> bytes \<Rightarrow> bytes list \<times> int" where
  "chunks h len data =
     (if h = 0 \<or> length data < h \<or> len data < h \<or> len data > length data then ([], int (length data))
      else if NLA_ALIGN (len data) > length data then
        ([take (len data) data], int (length data) - int (NLA_ALIGN (len data)))
      else
        let (cs, remaining) = chunks h len (drop (NLA_ALIGN (len data)) data)
        in (take (len data) data # cs, remaining))"
  by auto
termination
  by (relation "measure (\<lambda>(_, _, data). length data)") (auto simp: NLA_ALIGN_def)

declare chunks.simps [simp del]

definition nl_messages :: "bytes \<Rightarrow> bytes list \<times> int" where
  "nl_messages data = chunks 16 (\<lambda>d. unat (load32 d 0)) data"

definition rt_attributes :: "bytes \<Rightarrow> bytes list \<times> int" where
  "rt_attributes data = chunks 4 (\<lambda>d. unat (load16 d 0)) data"

text \<open>
  The messages of one datagram: \<open>Inl\<close> ends the transaction, \<open>Inr\<close> goes on with the replies so far.
  \<open>replies\<close> is \<open>None\<close> where the code passes a null pointer.
\<close>

fun transact_messages ::
  "'w env \<Rightarrow> u32 \<Rightarrow> bytes list option \<Rightarrow> bytes list \<Rightarrow> (bytes list option option) + (bytes list option)" where
  "transact_messages E mSequence replies [] = Inr replies"
| "transact_messages E mSequence replies (m # ms) =
     (let nlmsg_type = load16 m 4; nlmsg_flags = load16 m 6; nlmsg_seq = load32 m 8
      in if nlmsg_seq \<noteq> mSequence then transact_messages E mSequence replies ms
         else if nlmsg_flags AND NLM_F_DUMP_INTR E \<noteq> 0 then Inl None
         else if nlmsg_type = NLMSG_ERROR E then
           (if length m < 36 then Inl None
            else if load32 m 16 \<noteq> 0 then Inl None
            else if replies = None then Inl (Some None)
            else transact_messages E mSequence replies ms)
         else if nlmsg_type = NLMSG_DONE E then
           (if replies = None then Inl None
            else if length m \<ge> 20 \<and> load32 m 16 \<noteq> 0 then Inl None
            else Inl (Some replies))
         else if nlmsg_type = NLMSG_OVERRUN E then Inl None
         else transact_messages E mSequence (map_option (\<lambda>r. r @ [m]) replies) ms)"

text \<open>The receiving loop, over the datagrams that arrive; \<open>None\<close> is \<open>return false\<close>.\<close>

fun transact_loop :: "'w env \<Rightarrow> u32 \<Rightarrow> bytes list option \<Rightarrow> datagram list \<Rightarrow> bytes list option option" where
  "transact_loop E mSequence replies [] = None"
| "transact_loop E mSequence replies (d # ds) =
     (if d_bytes d = [] \<or> d_trunc d then None
      else if \<not> d_namelen_ok d \<or> d_pid d \<noteq> 0 then None
      else
        let (ms, remaining) = nl_messages (d_bytes d)
        in case transact_messages E mSequence replies ms of
             Inl r \<Rightarrow> r
           | Inr replies1 \<Rightarrow> if remaining \<noteq> 0 then None else transact_loop E mSequence replies1 ds)"

definition transact ::
  "'w env \<Rightarrow> bool \<Rightarrow> u32 \<Rightarrow> bytes \<Rightarrow> bytes list option \<Rightarrow> 'w \<Rightarrow> bytes list option option \<times> 'w" where
  "transact E mFd mSequence msg replies w =
     (if \<not> mFd then (None, w)
      else
        let flags = NLM_F_REQUEST E OR (if replies \<noteq> None then NLM_F_DUMP E else NLM_F_ACK E);
            stamped = put_list (put_list msg 6 (store16 flags)) 8 (store32 (mSequence + 1))
        in case route_send E stamped w of
             (False, w1) \<Rightarrow> (None, w1)
           | (True, w1) \<Rightarrow>
               (case route_replies E w1 of (ds, w2) \<Rightarrow> (transact_loop E (mSequence + 1) replies ds, w2)))"

text \<open>One neighbour entry: whether it is the flow's source and which hardware address it has.\<close>

fun scan_neighbor :: "'w env \<Rightarrow> Flow \<Rightarrow> bytes list \<Rightarrow> bool \<Rightarrow> bytes option \<Rightarrow> bool \<times> bytes option" where
  "scan_neighbor E f [] found hardware = (found, hardware)"
| "scan_neighbor E f (a # as) found hardware =
     (let rta_type = load16 a 2; payload = drop 4 a
      in scan_neighbor E f as
           (if rta_type = NDA_DST E \<and> length payload = (if family f = AF_INET (netc E) then 4 else 16)
            then payload = take (length payload) (src f) else found)
           (if rta_type = NDA_LLADDR E \<and> length payload = 6 then Some payload else hardware))"

definition neighbor_entry :: "'w env \<Rightarrow> Flow \<Rightarrow> u32 \<Rightarrow> bytes \<Rightarrow> bytes option" where
  "neighbor_entry E f index reply =
     (if load16 reply 4 \<noteq> RTM_NEWNEIGH E \<or> length reply < 28 then None
      else if uint (reply ! 16) \<noteq> family f \<or> load32 reply 20 \<noteq> index \<or> load16 reply 24 AND NUD_VALID E = 0 then None
      else
        let (as, length_left) = rt_attributes (drop 28 reply)
        in case scan_neighbor E f as False None of
             (True, Some m) \<Rightarrow>
               if length_left = 0 \<and> hd m AND 1 = 0 \<and> m \<noteq> replicate 6 0 then Some m else None
           | _ \<Rightarrow> None)"

fun first_some :: "('a \<Rightarrow> 'b option) \<Rightarrow> 'a list \<Rightarrow> 'b option" where
  "first_some g [] = None"
| "first_some g (x # xs) = (case g x of Some y \<Rightarrow> Some y | None \<Rightarrow> first_some g xs)"

definition getneigh_message :: "'w env \<Rightarrow> Flow \<Rightarrow> bytes" where
  "getneigh_message E f = store32 28 @ store16 (RTM_GETNEIGH E) @ replicate 10 0 @ word_of_int (family f) # replicate 11 0"

definition neighbor :: "'w env \<Rightarrow> Flow \<Rightarrow> string \<Rightarrow> 'w \<Rightarrow> bytes option \<times> 'w" where
  "neighbor E f iface w =
     (case route_open E w of
        (fd, w1) \<Rightarrow>
          (case transact E fd 0 (getneigh_message E f) (Some []) w1 of
             (Some (Some replies), w2) \<Rightarrow>
               (case if_nametoindex E iface w2 of
                  (index, w3) \<Rightarrow> (first_some (neighbor_entry E f index) replies, w3))
           | (_, w2) \<Rightarrow> (None, w2)))"

subsection \<open>State\<close>

record Notice =
  n_generation :: u64
  n_event :: nat
  n_data :: bytes

record stats =
  rxBytes :: int
  txBytes :: int

datatype call = OnEvent nat | UpdateTimeout bytes bytes u16 u16 u8

record 'w mddp =
  mNotices :: "Notice list"
  mStats :: "string \<rightharpoonup> stats"
  mFlows :: "(bytes \<times> Flow) list"
  mV4 :: bool
  mV6 :: bool
  mQuota :: bool
  mWarned :: bool
  mV4Address :: string
  mDevice :: int
  mWake :: int
  mConntrack1 :: int
  mConntrack2 :: int
  mQuit :: bool
  mReaderFailed :: bool
  mInitialized :: bool
  mActive :: bool
  mGeneration :: u64
  mUpstream :: string
  mDownstream :: string
  mDownstreams :: "(string \<times> string) list"
  mPrefixes :: "string list"
  mCallback :: "nat option"
  mWakes :: nat
  world :: 'w
  sent :: "(u32 \<times> u32 \<times> bytes) list"
  delivered :: "(nat \<times> call) list"

definition with_world :: "('w \<Rightarrow> 'a \<times> 'w) \<Rightarrow> 'w mddp \<Rightarrow> 'a \<times> 'w mddp" where
  "with_world g s = (case g (world s) of (x, w) \<Rightarrow> (x, s\<lparr>world := w\<rparr>))"

definition connect :: "'w mddp \<Rightarrow> bool" where
  "connect s \<longleftrightarrow> mDevice s \<ge> 0 \<and> mWake s \<ge> 0 \<and> \<not> mReaderFailed s"

definition wake :: "'w mddp \<Rightarrow> 'w mddp" where
  "wake s = s\<lparr>mWakes := mWakes s + 1\<rparr>"

definition poison :: "'w mddp \<Rightarrow> 'w mddp" where
  "poison s = wake (s\<lparr>mReaderFailed := True\<rparr>)"

definition notice :: "nat \<Rightarrow> bytes \<Rightarrow> 'w mddp \<Rightarrow> 'w mddp" where
  "notice event data s =
     (if length (mNotices s) \<ge> 1024 then poison s
      else wake (s\<lparr>mNotices := mNotices s @ [\<lparr>n_generation = mGeneration s, n_event = event, n_data = data\<rparr>]\<rparr>))"

subsection \<open>Requests to the driver\<close>

definition packet :: "u16 \<Rightarrow> u16 \<Rightarrow> u32 \<Rightarrow> u32 \<Rightarrow> u32 \<Rightarrow> bytes \<Rightarrow> bytes" where
  "packet magic version app msg len data =
     store16 magic @ store16 version @ store32 app @ store32 msg @ store32 len @ put_list (replicate 256 0) 0 data"

text \<open>\<open>None\<close> is \<open>return false\<close>; for message 4 the answer is the 128 bytes copied out.\<close>

definition request :: "'w env \<Rightarrow> u32 \<Rightarrow> u32 \<Rightarrow> bytes \<Rightarrow> 'w mddp \<Rightarrow> bytes option \<times> 'w mddp" where
  "request E app msg data s =
     (if length data > 256 then (None, s)
      else
        (case with_world (dev_ioctl E (packet 0x2454 2 app msg (of_nat (length data)) data))
                (s\<lparr>sent := sent s @ [(app, msg, data)]\<rparr>) of
           (None, s1) \<Rightarrow> (None, s1)
         | (Some p, s1) \<Rightarrow>
             if msg = 4 then
               (if load16 p 0 \<noteq> 0x2454 \<or> load16 p 2 \<noteq> 0 \<or> load32 p 4 \<noteq> app \<or> load32 p 8 \<noteq> msg \<or> load32 p 12 \<noteq> 128
                then (None, s1)
                else (Some (take 128 (drop 16 p)), s1))
             else (Some [], s1)))"

definition disable :: "'w env \<Rightarrow> 'w mddp \<Rightarrow> bool \<times> 'w mddp" where
  "disable E s = (case request E 255 1 [] s of (r, s1) \<Rightarrow> (r \<noteq> None, s1))"

text \<open>A packet read from the driver: the test for a well-formed one and its fields.\<close>

definition packet_ok :: "bytes \<Rightarrow> bool" where
  "packet_ok p \<longleftrightarrow>
     \<not> (length p < 16 \<or> load16 p 0 \<noteq> 0x2454 \<or> load32 p 12 > 256 \<or> length p \<noteq> 16 + unat (load32 p 12))"

definition INT64_MAX :: int where
  "INT64_MAX = 2 ^ 63 - 1"

definition add_stat :: "int \<Rightarrow> u64 \<Rightarrow> int" where
  "add_stat current delta = (if uint delta > INT64_MAX - current then INT64_MAX else current + uint delta)"

definition no_stats :: stats where
  "no_stats = \<lparr>rxBytes = 0, txBytes = 0\<rparr>"

definition stats_of :: "'w mddp \<Rightarrow> string \<Rightarrow> stats" where
  "stats_of s u = (case mStats s u of None \<Rightarrow> no_stats | Some x \<Rightarrow> x)"

definition drain :: "'w env \<Rightarrow> 'w mddp \<Rightarrow> bool \<times> 'w mddp" where
  "drain E s =
     (if mUpstream s = [] then (True, s)
      else
        (case request E 255 4 [] s of
           (None, s1) \<Rightarrow> (False, s1)
         | (Some data, s1) \<Rightarrow>
             (let st = stats_of s1 (mUpstream s1)
              in (True, s1\<lparr>mStats := (mStats s1)(mUpstream s1 \<mapsto>
                   st\<lparr>txBytes := add_stat (txBytes st) (get_bytes data 0 8),
                      rxBytes := add_stat (rxBytes st) (get_bytes data 64 8)\<rparr>)\<rparr>))))"

subsection \<open>Flows in the hardware\<close>

fun map_insert :: "bytes \<Rightarrow> Flow \<Rightarrow> (bytes \<times> Flow) list \<Rightarrow> (bytes \<times> Flow) list" where
  "map_insert k f [] = [(k, f)]"
| "map_insert k f ((k1, f1) # xs) =
     (if k < k1 then (k, f) # (k1, f1) # xs
      else if k = k1 then (k, f) # xs
      else (k1, f1) # map_insert k f xs)"

definition map_erase :: "bytes \<Rightarrow> (bytes \<times> Flow) list \<Rightarrow> (bytes \<times> Flow) list" where
  "map_erase k xs = filter (\<lambda>x. fst x \<noteq> k) xs"

definition flow_data :: "'w env \<Rightarrow> Flow \<Rightarrow> bytes \<Rightarrow> bytes" where
  "flow_data E f m =
     (let v4 = (family f = AF_INET (netc E)); addressSize = (if v4 then 4 else 16); port = (if v4 then 12 else 32);
          d0 = replicate 52 0;
          d1 = put_list d0 0 (take addressSize (src f));
          d2 = put_list d1 addressSize (take addressSize (dst f));
          d3 = (if v4 then put_list d2 8 (take 4 (pub f)) else d2);
          d4 = put_list d3 port (store16 (sport f));
          d5 = put_list d4 (port + 2) (store16 (dport f));
          d6 = (if v4 then put_list d5 16 (store16 (publicPort f)) else d5);
          d7 = d6[(if v4 then 18 else 36) := proto f];
          d8 = put_list d7 (if v4 then 19 else 37) m;
          d9 = put_list d8 (if v4 then 32 else 48) (store32 (timeout f))
      in take (if v4 then 36 else 52) d9)"

definition inject_send :: "'w env \<Rightarrow> Flow \<Rightarrow> bool \<Rightarrow> bytes \<Rightarrow> 'w mddp \<Rightarrow> bool \<times> 'w mddp" where
  "inject_send E f destroying m s =
     (case request E 255 ((if family f = AF_INET (netc E) then 8 else 10) + (if destroying then 1 else 0)) (flow_data E f m) s of
        (None, s1) \<Rightarrow> (False, s1)
      | (Some _, s1) \<Rightarrow>
          (True, if destroying then s1 else s1\<lparr>mFlows := map_insert (key f) (f\<lparr>mac := m\<rparr>) (mFlows s1)\<rparr>))"

definition inject :: "'w env \<Rightarrow> Flow \<Rightarrow> bool \<Rightarrow> string \<Rightarrow> 'w mddp \<Rightarrow> bool \<times> 'w mddp" where
  "inject E f destroying downstream s =
     (if destroying then inject_send E f True (mac f) s
      else
        (case with_world (neighbor E f downstream) s of
           (None, s1) \<Rightarrow> (True, s1)
         | (Some m, s1) \<Rightarrow> inject_send E f False m s1))"

fun destroy_all :: "'w env \<Rightarrow> (bytes \<times> Flow) list \<Rightarrow> 'w mddp \<Rightarrow> bool \<times> 'w mddp" where
  "destroy_all E [] s = (True, s)"
| "destroy_all E ((k, f) # fs) s =
     (case inject E f True (mDownstream s) s of
        (False, s1) \<Rightarrow> (False, s1)
      | (True, s1) \<Rightarrow> destroy_all E fs s1)"

definition flushFlows :: "'w env \<Rightarrow> 'w mddp \<Rightarrow> bool \<times> 'w mddp" where
  "flushFlows E s =
     (case destroy_all E (mFlows s) s of
        (False, s1) \<Rightarrow> (False, s1)
      | (True, s1) \<Rightarrow> (True, s1\<lparr>mFlows := []\<rparr>))"


subsection \<open>Notifications, control and deactivation\<close>

text \<open>
  \<open>notification\<close>, \<open>receive\<close>, \<open>control\<close> and \<open>deactivate\<close> call each other. Each is first written with the
  function it calls as an argument. \<open>deactivate\<close> does nothing when the offload is inactive, and
  it makes it inactive before it calls \<open>control\<close>; so one unfolding of the recursion is enough, which
  \<open>deactivate_recursion\<close> below proves.
\<close>

definition limit_notice :: "u32 \<Rightarrow> u16 \<Rightarrow> 'w mddp \<Rightarrow> bool" where
  "limit_notice msg stat s \<longleftrightarrow> msg = 0x104 \<and> stat = 5 \<and> mQuota s \<and> mActive s"

definition loss_notice :: "u32 \<Rightarrow> u16 \<Rightarrow> bool" where
  "loss_notice msg stat \<longleftrightarrow> (msg = 0x103 \<and> stat = 3) \<or> (msg \<ge> 0x100 \<and> msg \<le> 0x103 \<and> stat = 2)"

definition forget_all :: "'w mddp \<Rightarrow> 'w mddp" where
  "forget_all s =
     s\<lparr>mGeneration := mGeneration s + 1, mNotices := [], mActive := False, mQuota := False, mWarned := False,
       mV4 := False, mV6 := False, mFlows := [], mUpstream := [], mV4Address := [], mDownstream := [],
       mDownstreams := [], mPrefixes := []\<rparr>"

definition offload_lost ::
  "'w env \<Rightarrow> ('w mddp \<Rightarrow> bool \<times> 'w mddp) \<Rightarrow> u32 \<Rightarrow> u16 \<Rightarrow> 'w mddp \<Rightarrow> 'w mddp" where
  "offload_lost E deact msg stat s =
     (let limit = limit_notice msg stat s;
          (stopped, s1) =
            (if limit \<or> (loss_notice msg stat \<and> mActive s \<and> msg \<noteq> 0x103) then deact (s\<lparr>mQuota := False\<rparr>)
             else (case drain E s of (r, s0) \<Rightarrow> (r, s0\<lparr>mActive := False, mFlows := []\<rparr>)));
          s2 = (if stopped then s1 else poison (snd (disable E s1)));
          s3 = s2\<lparr>mQuota := False, mDownstream := [], mDownstreams := [], mV4 := False, mV6 := False\<rparr>
      in notice (if stopped then (if limit then 5 else if stat = 3 then 3 else 2) else 2) [] s3)"

definition notification_with ::
  "'w env \<Rightarrow> ('w mddp \<Rightarrow> bool \<times> 'w mddp) \<Rightarrow> u32 \<Rightarrow> u32 \<Rightarrow> u16 \<Rightarrow> bytes \<Rightarrow> 'w mddp \<Rightarrow> 'w mddp" where
  "notification_with E deact app msg stat data s =
     (if \<not> mInitialized s \<or> (app \<noteq> 1 \<and> app \<noteq> 255) then s
      else if msg = 0x105 \<and> stat = 6 \<and> length data = 28 then
        (if data ! 18 = IPPROTO_TCP (netc E) \<or> data ! 18 = IPPROTO_UDP (netc E) then notice 0 data s else s)
      else if msg = 0x100 \<and> stat = 4 \<and> app = 1 \<and> length data = 4 then notice 4 [] (forget_all s)
      else if (msg = 0x104 \<or> msg = 0x106) \<and> (app \<noteq> 255 \<or> length data \<noteq> 0) then s
      else if msg = 0x106 \<and> stat = 7 \<and> mActive s \<and> mQuota s \<and> \<not> mWarned s then notice 6 [] (s\<lparr>mWarned := True\<rparr>)
      else if \<not> limit_notice msg stat s \<and> \<not> loss_notice msg stat then s
      else offload_lost E deact msg stat s)"

text \<open>A packet handed to a notification function.\<close>

definition notify_packet :: "(u32 \<Rightarrow> u32 \<Rightarrow> u16 \<Rightarrow> bytes \<Rightarrow> 'w mddp \<Rightarrow> 'w mddp) \<Rightarrow> bytes \<Rightarrow> 'w mddp \<Rightarrow> 'w mddp" where
  "notify_packet notif p s = notif (load32 p 4) (load32 p 8) (load16 p 2) (drop 16 p) s"

fun receive_loop ::
  "'w env \<Rightarrow> (u32 \<Rightarrow> u32 \<Rightarrow> u16 \<Rightarrow> bytes \<Rightarrow> 'w mddp \<Rightarrow> 'w mddp) \<Rightarrow> nat \<Rightarrow> 'w mddp \<Rightarrow> bool \<times> 'w mddp" where
  "receive_loop E notif 0 s = (False, poison s)"
| "receive_loop E notif (Suc n) s =
     (case with_world (dev_read E) s of
        (RInterrupted, s1) \<Rightarrow> receive_loop E notif n s1
      | (RAgain, s1) \<Rightarrow> (True, s1)
      | (RError, s1) \<Rightarrow> (False, poison s1)
      | (RData p, s1) \<Rightarrow>
          if \<not> packet_ok p then (False, poison s1)
          else
            let s2 = notify_packet notif p s1
            in if mReaderFailed s2 then (False, s2) else receive_loop E notif n s2)"

definition receive_with where
  "receive_with E notif s = receive_loop E notif 256 s"

fun control_loop ::
  "'w env \<Rightarrow> (u32 \<Rightarrow> u32 \<Rightarrow> u16 \<Rightarrow> bytes \<Rightarrow> 'w mddp \<Rightarrow> 'w mddp) \<Rightarrow> u32 \<Rightarrow> u16 \<Rightarrow> nat \<Rightarrow> 'w mddp \<Rightarrow> bool \<times> 'w mddp" where
  "control_loop E notif command expected 0 s = (False, snd (disable E (poison s)))"
| "control_loop E notif command expected (Suc n) s =
     (case with_world (dev_read E) s of
        (RInterrupted, s1) \<Rightarrow> control_loop E notif command expected n s1
      | (RAgain, s1) \<Rightarrow> control_loop E notif command expected n s1
      | (RError, s1) \<Rightarrow> (False, snd (disable E (poison s1)))
      | (RData p, s1) \<Rightarrow>
          if \<not> packet_ok p then (False, snd (disable E (poison s1)))
          else if load32 p 4 = 1 \<and> load32 p 8 = 0x100 + command \<and> load32 p 12 = 4 then
            (if load16 p 2 \<noteq> expected then (False, s1)
             else (True, if command = 0 then notice 4 [] s1 else s1))
          else control_loop E notif command expected n (notify_packet notif p s1))"

definition names_data :: "'w mddp \<Rightarrow> bytes" where
  "names_data s = put_list (put_list (replicate 32 0) 0 (bytes_of (mUpstream s))) 16 (bytes_of (mDownstream s))"

definition control_with where
  "control_with E notif command expected s =
     (case receive_with E notif s of
        (False, s1) \<Rightarrow> (False, s1)
      | (True, s1) \<Rightarrow>
          if command = 2 \<and> (mUpstream s1 = [] \<or> mDownstream s1 = [] \<or> (\<not> mV4 s1 \<and> \<not> mV6 s1)) then (False, s1)
          else
            (case request E (if command < 2 then 255 else 1) command (if command = 2 then names_data s1 else []) s1 of
               (None, s2) \<Rightarrow> (False, s2)
             | (Some _, s2) \<Rightarrow>
                 control_loop E notif command expected (turns_before_deadline E (world s2)) s2))"

text \<open>The body of \<open>deactivate\<close> behind its first test, with the call of \<open>control(3, 3)\<close> as argument.\<close>

definition deactivate_steps :: "'w env \<Rightarrow> ('w mddp \<Rightarrow> bool \<times> 'w mddp) \<Rightarrow> 'w mddp \<Rightarrow> bool \<times> 'w mddp" where
  "deactivate_steps E ctrl s =
     (case drain E s of
        (False, s1) \<Rightarrow> (False, s1)
      | (True, s1) \<Rightarrow>
          (case flushFlows E s1 of
             (False, s2) \<Rightarrow> (False, s2)
           | (True, s2) \<Rightarrow>
               (case ctrl s2 of
                  (False, s3) \<Rightarrow> (False, s3)
                | (True, s3) \<Rightarrow> drain E s3)))"

definition deactivate_with :: "'w env \<Rightarrow> ('w mddp \<Rightarrow> bool \<times> 'w mddp) \<Rightarrow> 'w mddp \<Rightarrow> bool \<times> 'w mddp" where
  "deactivate_with E ctrl s =
     (if \<not> mActive s then (True, s)
      else
        (case deactivate_steps E ctrl (s\<lparr>mActive := False, mQuota := False\<rparr>) of
           (False, s1) \<Rightarrow> (False, snd (disable E (poison s1)))
         | (True, s1) \<Rightarrow> (True, s1\<lparr>mDownstream := []\<rparr>)))"

text \<open>The recursion, unfolded once.\<close>

definition notification_inactive where
  "notification_inactive E = notification_with E (\<lambda>s. (True, s))"

definition deactivate :: "'w env \<Rightarrow> 'w mddp \<Rightarrow> bool \<times> 'w mddp" where
  "deactivate E s = deactivate_with E (control_with E (notification_inactive E) 3 3) s"

definition notification where
  "notification E = notification_with E (deactivate E)"

definition receive :: "'w env \<Rightarrow> 'w mddp \<Rightarrow> bool \<times> 'w mddp" where
  "receive E s = receive_with E (notification E) s"

definition control :: "'w env \<Rightarrow> u32 \<Rightarrow> u16 \<Rightarrow> 'w mddp \<Rightarrow> bool \<times> 'w mddp" where
  "control E command expected s = control_with E (notification E) command expected s"


subsection \<open>Reconciliation and conntrack events\<close>

text \<open>\<open>None\<close> where the loop over the downstreams returns false.\<close>

fun desired_of :: "(string \<times> string) list \<Rightarrow> string \<Rightarrow> string option" where
  "desired_of [] desired = Some desired"
| "desired_of (e # es) desired =
     (if desired \<noteq> [] \<and> desired \<noteq> fst e then None else desired_of es (fst e))"

definition activate :: "'w env \<Rightarrow> string \<Rightarrow> 'w mddp \<Rightarrow> bool \<times> 'w mddp" where
  "activate E desired s =
     (case with_world (connectionMode E) s of
        (False, s1) \<Rightarrow> (False, s1)
      | (True, s1) \<Rightarrow>
          (case control E 2 1 (s1\<lparr>mDownstream := desired\<rparr>) of
             (False, s2) \<Rightarrow> (False, s2)
           | (True, s2) \<Rightarrow>
               (case with_world (connectionMode E) (s2\<lparr>mActive := True\<rparr>) of
                  (False, s3) \<Rightarrow> (False, snd (deactivate E s3))
                | (True, s3) \<Rightarrow>
                    (case with_world (sysctl E ''/proc/sys/net/netfilter/nf_conntrack_udp_timeout_stream'' 180) s3 of
                       (udp, s4) \<Rightarrow>
                         (case with_world (sysctl E ''/proc/sys/net/netfilter/nf_conntrack_tcp_timeout_established'' 432000) s4 of
                            (tcp, s5) \<Rightarrow>
                              (case request E 255 6 (store32 udp @ store32 tcp) s5 of
                                 (None, s6) \<Rightarrow> (False, snd (deactivate E s6))
                               | (Some _, s6) \<Rightarrow> (True, notice 1 [] s6)))))))"

definition reconcile :: "'w env \<Rightarrow> 'w mddp \<Rightarrow> bool \<times> 'w mddp" where
  "reconcile E s =
     (if mReaderFailed s then (False, s)
      else
        (case (if mUpstream s \<noteq> [] \<and> (mV4 s \<or> mV6 s) then desired_of (mDownstreams s) [] else Some []) of
           None \<Rightarrow> (False, s)
         | Some desired \<Rightarrow>
             (case (if mActive s \<and> desired \<noteq> mDownstream s then deactivate E s else (True, s)) of
                (False, s1) \<Rightarrow> (False, s1)
              | (True, s1) \<Rightarrow>
                  if desired = [] \<or> mActive s1 then (True, s1) else activate E desired s1)))"

definition admit :: "'w env \<Rightarrow> Flow \<Rightarrow> 'w mddp \<Rightarrow> string option" where
  "admit E f s =
     (let c = netc E
      in if \<not> mActive s \<or> (if family f = AF_INET c then \<not> mV4 s else \<not> mV6 s) \<or> timeout f = 0 \<or>
            \<not> bit (status f) 1 \<or> (proto f = IPPROTO_TCP c \<and> \<not> bit (status f) 2) \<or>
            replySrc f \<noteq> dst f \<or> replyPort f \<noteq> dport f then None
         else if family f = AF_INET c \<and>
                 (case inet_pton c (AF_INET c) (c_str (mV4Address s)) of
                    None \<Rightarrow> True
                  | Some a \<Rightarrow> put_list (replicate 16 0) 0 a \<noteq> pub f) then None
         else if family f \<noteq> AF_INET c \<and> (src f \<noteq> pub f \<or> sport f \<noteq> publicPort f) then None
         else if list_ex (\<lambda>p. contains c p (family f) (src f) \<or> contains c p (family f) (dst f)) (mPrefixes s) then None
         else if list_ex (\<lambda>e. fst e = mDownstream s \<and> contains c (snd e) (family f) (src f)) (mDownstreams s)
         then Some (mDownstream s)
         else None)"

text \<open>One parsed flow in the loop of \<open>conntrack\<close>.\<close>

definition conntrack_flow :: "'w env \<Rightarrow> Flow \<Rightarrow> 'w mddp \<Rightarrow> bool \<times> 'w mddp" where
  "conntrack_flow E flow s =
     (case map_of (mFlows s) (key flow) of
        Some old \<Rightarrow>
          if destroy flow \<and> flow_id flow \<noteq> 0 \<and> flow_id old \<noteq> 0 \<and> flow_id flow \<noteq> flow_id old then (True, s)
          else
            let allowed = (if destroy flow then None else admit E flow s)
            in (case inject E old True (mDownstream s) s of
                  (False, s1) \<Rightarrow> (False, s1)
                | (True, s1) \<Rightarrow>
                    let s2 = s1\<lparr>mFlows := map_erase (key flow) (mFlows s1)\<rparr>
                    in case allowed of
                         None \<Rightarrow> (True, s2)
                       | Some downstream \<Rightarrow>
                           if length (mFlows s2) \<ge> 8192 then (True, s2) else inject E flow False downstream s2)
      | None \<Rightarrow>
          (case (if destroy flow then None else admit E flow s) of
             None \<Rightarrow> (True, s)
           | Some downstream \<Rightarrow>
               if length (mFlows s) \<ge> 8192 then (True, s) else inject E flow False downstream s))"

fun conntrack_messages :: "'w env \<Rightarrow> bytes list \<Rightarrow> 'w mddp \<Rightarrow> bool \<times> 'w mddp" where
  "conntrack_messages E [] s = (True, s)"
| "conntrack_messages E (m # ms) s =
     (if load16 m 4 = NLMSG_OVERRUN E \<or> load16 m 4 = NLMSG_ERROR E then (False, s)
      else
        (case parseFlow (netc E) m of
           None \<Rightarrow> conntrack_messages E ms s
         | Some flow \<Rightarrow>
             (case conntrack_flow E flow s of
                (False, s1) \<Rightarrow> (False, s1)
              | (True, s1) \<Rightarrow> conntrack_messages E ms s1)))"

text \<open>\<open>Inr\<close> is a failed \<open>recvmsg\<close>, with whether the error was \<open>EAGAIN\<close> or \<open>EINTR\<close>.\<close>

definition conntrack :: "'w env \<Rightarrow> int \<Rightarrow> 'w mddp \<Rightarrow> bool \<times> 'w mddp" where
  "conntrack E fd s =
     (case with_world (conntrack_recv E fd) s of
        (Inr retry, s1) \<Rightarrow> (retry, s1)
      | (Inl d, s1) \<Rightarrow>
          if d_bytes d = [] \<or> d_trunc d \<or> \<not> d_namelen_ok d \<or> d_pid d \<noteq> 0 then (False, s1)
          else
            (case nl_messages (d_bytes d) of
               (ms, remaining) \<Rightarrow>
                 (case conntrack_messages E ms s1 of
                    (False, s2) \<Rightarrow> (False, s2)
                  | (True, s2) \<Rightarrow> (remaining = 0, s2))))"

subsection \<open>The binder interface\<close>

datatype ret_status = Status_ok | Illegal_argument | Illegal_state | Service_error | Unsupported string

definition result :: "bool \<Rightarrow> ret_status" where
  "result ok = (if ok then Status_ok else Service_error)"

definition both_netfilter :: "'w env \<Rightarrow> int \<Rightarrow> int \<Rightarrow> 'w \<Rightarrow> bool \<times> 'w" where
  "both_netfilter E fd1 fd2 w =
     (case is_netfilter_socket E fd1 w of
        (False, w1) \<Rightarrow> (False, w1)
      | (True, w1) \<Rightarrow> is_netfilter_socket E fd2 w1)"

definition initOffload :: "'w env \<Rightarrow> int \<Rightarrow> int \<Rightarrow> nat option \<Rightarrow> 'w mddp \<Rightarrow> ret_status \<times> 'w mddp" where
  "initOffload E fd1 fd2 cb s =
     (if mInitialized s then (Illegal_state, s)
      else if cb = None \<or> fd1 < 0 \<or> fd2 < 0 then (Illegal_argument, s)
      else
        (case with_world (both_netfilter E fd1 fd2) s of
           (False, s1) \<Rightarrow> (Illegal_argument, s1)
         | (True, s1) \<Rightarrow>
             (case with_world (dup_fd E fd1) s1 of
                (one, s2) \<Rightarrow>
                  (case with_world (dup_fd E fd2) s2 of
                     (two, s3) \<Rightarrow>
                       if one < 0 \<or> two < 0 \<or> \<not> connect s3 then (Service_error, s3)
                       else
                         (case control E 0 4 (s3\<lparr>mGeneration := mGeneration s3 + 1, mNotices := []\<rparr>) of
                            (False, s4) \<Rightarrow> (Service_error, s4)
                          | (True, s4) \<Rightarrow>
                              (case with_world (connectionMode E) s4 of
                                 (False, s5) \<Rightarrow>
                                   (Unsupported ''UNSUPPORTED: Packet mode cannot enforce prefix policy'', snd (disable E s5))
                               | (True, s5) \<Rightarrow>
                                   (Status_ok, wake (s5\<lparr>mCallback := cb, mConntrack1 := one, mConntrack2 := two,
                                                        mInitialized := True\<rparr>))))))))"

definition stop_clear :: "'w mddp \<Rightarrow> 'w mddp" where
  "stop_clear s =
     wake (s\<lparr>mGeneration := mGeneration s + 1, mInitialized := False, mCallback := None, mConntrack1 := -1, mConntrack2 := -1,
       mUpstream := [], mDownstreams := [], mPrefixes := [], mStats := Map.empty, mNotices := [], mFlows := [],
       mV4 := False, mV6 := False, mQuota := False\<rparr>)"

definition stopOffload :: "'w env \<Rightarrow> 'w mddp \<Rightarrow> ret_status \<times> 'w mddp" where
  "stopOffload E s =
     (if \<not> mInitialized s then (Illegal_state, s)
      else
        (case (if mReaderFailed s then (True, s) else deactivate E s) of
           (False, s1) \<Rightarrow> (Service_error, s1)
         | (True, s1) \<Rightarrow>
             (case disable E s1 of
                (False, s2) \<Rightarrow> (Service_error, s2)
              | (True, s2) \<Rightarrow> (Status_ok, stop_clear s2))))"

definition setLocalPrefixes :: "'w env \<Rightarrow> string list \<Rightarrow> 'w mddp \<Rightarrow> ret_status \<times> 'w mddp" where
  "setLocalPrefixes E prefixes s =
     (if \<not> mInitialized s then (Illegal_state, s)
      else if mReaderFailed s then (Service_error, s)
      else if prefixes = [] then (Illegal_argument, s)
      else if \<not> list_all (valid_prefix E) prefixes then (Illegal_argument, s)
      else
        (case flushFlows E s of
           (False, s1) \<Rightarrow> (Service_error, s1)
         | (True, s1) \<Rightarrow> (Status_ok, s1\<lparr>mPrefixes := prefixes\<rparr>)))"

definition getForwardedStats :: "'w env \<Rightarrow> string \<Rightarrow> 'w mddp \<Rightarrow> (ret_status \<times> stats) \<times> 'w mddp" where
  "getForwardedStats E upstream s =
     (if \<not> valid_name E upstream then ((Illegal_argument, no_stats), s)
      else
        (case (if mInitialized s \<and> upstream = mUpstream s \<and> mActive s then drain E s else (True, s)) of
           (False, s1) \<Rightarrow> ((Service_error, no_stats), s1)
         | (True, s1) \<Rightarrow>
             (case mStats s1 upstream of
                None \<Rightarrow> ((Status_ok, no_stats), s1)
              | Some st \<Rightarrow> ((Status_ok, st), s1\<lparr>mStats := (mStats s1)(upstream := None)\<rparr>))))"

definition store64 :: "int \<Rightarrow> bytes" where
  "store64 v = map (le_byte (word_of_int v)) [0..<8]"

definition setDataWarningAndLimit :: "'w env \<Rightarrow> string \<Rightarrow> int \<Rightarrow> int \<Rightarrow> 'w mddp \<Rightarrow> ret_status \<times> 'w mddp" where
  "setDataWarningAndLimit E upstream warning limit s =
     (if \<not> mInitialized s then (Illegal_state, s)
      else if mReaderFailed s then (Service_error, s)
      else if \<not> valid_name E upstream \<or> warning < 0 \<or> limit < 0 \<or> warning > limit then (Illegal_argument, s)
      else
        (case receive E s of
           (False, s1) \<Rightarrow> (Service_error, s1)
         | (True, s1) \<Rightarrow>
             if upstream \<noteq> mUpstream s1 \<or> \<not> mActive s1 then (Service_error, s1)
             else
               (case request E 255 7 (put_list (replicate 16 0) 0 (bytes_of upstream) @ store64 limit @ store64 warning) s1 of
                  (None, s2) \<Rightarrow> (Service_error, s2)
                | (Some _, s2) \<Rightarrow>
                    (Status_ok, s2\<lparr>mNotices := filter (\<lambda>n. n_event n \<noteq> 6) (mNotices s2), mQuota := True, mWarned := False\<rparr>))))"

definition is_ccmni :: "string \<Rightarrow> bool" where
  "is_ccmni iface \<longleftrightarrow> take 5 iface = ''ccmni'' \<and> length iface \<noteq> 5 \<and> list_all is_digit (drop 5 iface)"

definition setUpstreamParameters ::
  "'w env \<Rightarrow> string \<Rightarrow> string \<Rightarrow> string \<Rightarrow> string list \<Rightarrow> 'w mddp \<Rightarrow> ret_status \<times> 'w mddp" where
  "setUpstreamParameters E iface v4Addr v4Gw v6Gws s =
     (let v4 = AF_INET (netc E)
      in if \<not> mInitialized s then (Illegal_state, s)
         else if mReaderFailed s then (Service_error, s)
         else if (iface \<noteq> [] \<and> \<not> valid_name E iface) \<or> (v4Addr \<noteq> [] \<and> \<not> address E v4Addr v4) \<or>
                 (v4Gw \<noteq> [] \<and> \<not> address E v4Gw v4) then (Illegal_argument, s)
         else if \<not> list_all (\<lambda>gw. address E gw (AF_INET6 (netc E))) v6Gws then (Illegal_argument, s)
         else if iface \<noteq> [] \<and> \<not> is_ccmni iface then
           (Unsupported ''UNSUPPORTED: upstream must be a modem CCMNI interface'', s)
         else
           (case receive E s of
              (False, s1) \<Rightarrow> (Service_error, s1)
            | (True, s1) \<Rightarrow>
                (case deactivate E s1 of
                   (False, s2) \<Rightarrow> (Service_error, s2)
                 | (True, s2) \<Rightarrow>
                     (case reconcile E (s2\<lparr>mUpstream := iface, mV4Address := v4Addr,
                                           mV4 := (iface \<noteq> [] \<and> v4Addr \<noteq> [] \<and> v4Gw \<noteq> []),
                                           mV6 := (iface \<noteq> [] \<and> v6Gws \<noteq> [])\<rparr>) of
                        (r, s3) \<Rightarrow> (result r, s3)))))"

definition addDownstream :: "'w env \<Rightarrow> string \<Rightarrow> string \<Rightarrow> 'w mddp \<Rightarrow> ret_status \<times> 'w mddp" where
  "addDownstream E iface p s =
     (if \<not> mInitialized s then (Illegal_state, s)
      else if mReaderFailed s then (Service_error, s)
      else if \<not> valid_name E iface \<or> \<not> valid_prefix E p then (Illegal_argument, s)
      else if take 2 iface \<noteq> ''ap'' then
        (Unsupported ''UNSUPPORTED: USB has no MDDP backend; only Wi-Fi AP is supported'', s)
      else if list_ex (\<lambda>e. fst e \<noteq> iface) (mDownstreams s) then
        (Unsupported ''UNSUPPORTED: only one Wi-Fi downstream is supported'', s)
      else
        let inserted = ((iface, p) \<notin> set (mDownstreams s));
            s1 = (if inserted then s\<lparr>mDownstreams := mDownstreams s @ [(iface, p)]\<rparr> else s)
        in case reconcile E s1 of
             (True, s2) \<Rightarrow> (Status_ok, s2)
           | (False, s2) \<Rightarrow>
               (Service_error,
                if inserted then s2\<lparr>mDownstreams := filter (\<lambda>e. e \<noteq> (iface, p)) (mDownstreams s2)\<rparr> else s2))"

definition removeDownstream :: "'w env \<Rightarrow> string \<Rightarrow> string \<Rightarrow> 'w mddp \<Rightarrow> ret_status \<times> 'w mddp" where
  "removeDownstream E iface p s =
     (if \<not> mInitialized s then (Illegal_state, s)
      else if mReaderFailed s then (Service_error, s)
      else if \<not> valid_name E iface \<or> \<not> valid_prefix E p then (Illegal_argument, s)
      else if (iface, p) \<notin> set (mDownstreams s) then (Status_ok, s)
      else
        (case flushFlows E s of
           (False, s1) \<Rightarrow> (Service_error, s1)
         | (True, s1) \<Rightarrow>
             (case reconcile E (s1\<lparr>mDownstreams := filter (\<lambda>e. e \<noteq> (iface, p)) (mDownstreams s1)\<rparr>) of
                (r, s2) \<Rightarrow> (result r, s2))))"

subsection \<open>The event thread\<close>

definition backend_new :: "int \<Rightarrow> int \<Rightarrow> 'w \<Rightarrow> 'w mddp" where
  "backend_new device wakefd w =
     \<lparr>mNotices = [], mStats = Map.empty, mFlows = [], mV4 = False, mV6 = False, mQuota = False, mWarned = False,
      mV4Address = [], mDevice = device, mWake = wakefd, mConntrack1 = -1, mConntrack2 = -1, mQuit = False,
      mReaderFailed = False, mInitialized = False, mActive = False, mGeneration = 0, mUpstream = [], mDownstream = [],
      mDownstreams = [], mPrefixes = [], mCallback = None, mWakes = 0, world = w, sent = [], delivered = []\<rparr>"

definition backend_destroy :: "'w env \<Rightarrow> 'w mddp \<Rightarrow> 'w mddp" where
  "backend_destroy E s =
     (let s1 = (if mWake s \<ge> 0 then wake (s\<lparr>mQuit := True\<rparr>) else s\<lparr>mQuit := True\<rparr>)
      in if mInitialized s1 then snd (disable E s1) else s1)"

text \<open>The first locked section of a turn.\<close>

definition events_input :: "'w env \<Rightarrow> 'w mddp \<Rightarrow> bool \<times> 'w mddp" where
  "events_input E s =
     (case receive E s of
        (False, s1) \<Rightarrow> (False, s1)
      | (True, s1) \<Rightarrow>
          (case (if mActive s1 then with_world (connectionMode E) s1 else (True, s1)) of
             (False, s2) \<Rightarrow> (False, s2)
           | (True, s2) \<Rightarrow>
               (case conntrack E (mConntrack1 s2) s2 of
                  (False, s3) \<Rightarrow> (False, s3)
                | (True, s3) \<Rightarrow> conntrack E (mConntrack2 s3) s3)))"

definition events_section :: "'w env \<Rightarrow> 'w mddp \<Rightarrow> 'w mddp" where
  "events_section E s =
     (if mInitialized s \<and> \<not> mReaderFailed s then
        (case events_input E s of
           (True, s1) \<Rightarrow> s1
         | (False, s1) \<Rightarrow> notice 2 [] (poison (snd (disable E (snd (deactivate E s1))))))
      else s)"

text \<open>
  One turn of the delivery loop. A turn holds \<open>mDelivery\<close>, so no handler that takes this lock runs between
  the notice being taken and the call of the client.
\<close>

definition timeout_call :: "bytes \<Rightarrow> call" where
  "timeout_call d =
     (let dstNat = (d ! 24 \<noteq> 0); so = (if dstNat then 4 else 0); de = (if dstNat then 8 else 4)
      in UpdateTimeout (take 4 (drop so d)) (take 4 (drop de d))
           (ucast (bswap 2 (get_bytes d (if dstNat then 14 else 12) 2)))
           (ucast (bswap 2 (get_bytes d (if dstNat then 16 else 14) 2))) (d ! 18))"

definition deliver :: "'w mddp \<Rightarrow> 'w mddp" where
  "deliver s =
     (case mNotices s of
        [] \<Rightarrow> s
      | n # ns \<Rightarrow>
          (let s1 = s\<lparr>mNotices := ns\<rparr>
           in if n_generation n \<noteq> mGeneration s1 then s1
              else
                (case mCallback s1 of
                   None \<Rightarrow> s1
                 | Some cb \<Rightarrow>
                     s1\<lparr>delivered := delivered s1 @
                          [(cb, if n_event n \<noteq> 0 then OnEvent (n_event n) else timeout_call (n_data n))]\<rparr>)))"

text \<open>The section that duplicates the descriptors before the poll, and the one behind the poll.\<close>

definition poll_prepare :: "'w env \<Rightarrow> 'w mddp \<Rightarrow> bool \<times> 'w mddp" where
  "poll_prepare E s =
     (if mInitialized s then
        (case with_world (dup_fd E (mConntrack1 s)) s of
           (one, s1) \<Rightarrow>
             (case with_world (dup_fd E (mConntrack2 s1)) s1 of
                (two, s2) \<Rightarrow> if one < 0 \<or> two < 0 then (False, poison s2) else (True, s2)))
      else (True, s))"

definition poll_result :: "'w env \<Rightarrow> u64 \<Rightarrow> bool \<Rightarrow> 'w mddp \<Rightarrow> 'w mddp" where
  "poll_result E generation failed s =
     (if generation \<noteq> mGeneration s then s
      else if failed then poison (snd (disable E s))
      else s)"


end
