(* ===== verification/Mddp_Policy.thy ===== *)
theory Mddp_Policy
  imports Mddp_Backend
begin

text \<open>
  What the tethering offload service guarantees: the locale \<open>driver_loops\<close> carries any invariant through the loops that read
  from the driver, \<open>session_property\<close> extends it to all operations for properties of the session fields, and the policy
  for offloaded flows is an invariant of the step relation \<open>mddp_step\<close>.
\<close>

subsection \<open>What an operation leaves alone\<close>

text \<open>Operations that only talk to the driver: they change the world, the list of requests and the statistics.\<close>

definition quiet :: "'w mddp \<Rightarrow> 'w mddp \<Rightarrow> bool" where
  "quiet s s' \<longleftrightarrow> (\<exists>st w l. s' = s\<lparr>mStats := st, world := w, sent := l\<rparr>)"

named_theorems quiet_intros \<open>operations that only talk to the driver\<close>

lemma quiet_refl [simp, quiet_intros]: "quiet s s"
proof -
  have "s = s\<lparr>mStats := mStats s, world := world s, sent := sent s\<rparr>" by simp
  then show ?thesis unfolding quiet_def by blast
qed

lemma quiet_trans: "quiet a b \<Longrightarrow> quiet b c \<Longrightarrow> quiet a c"
  unfolding quiet_def by (elim exE) (simp, blast)

lemma quiet_fields:
  assumes "quiet s s'"
  shows "mNotices s' = mNotices s" "mFlows s' = mFlows s" "mV4 s' = mV4 s" "mV6 s' = mV6 s" "mQuota s' = mQuota s"
    "mV4Address s' = mV4Address s" "mReaderFailed s' = mReaderFailed s" "mInitialized s' = mInitialized s"
    "mActive s' = mActive s" "mGeneration s' = mGeneration s" "mUpstream s' = mUpstream s"
    "mDownstream s' = mDownstream s" "mDownstreams s' = mDownstreams s" "mPrefixes s' = mPrefixes s"
    "mCallback s' = mCallback s" "delivered s' = delivered s" "mConntrack1 s' = mConntrack1 s" "mConntrack2 s' = mConntrack2 s"
  using assms by (auto simp: quiet_def)

lemma quiet_world [quiet_intros]: "quiet s (snd (with_world g s))"
proof -
  have "snd (with_world g s) = s\<lparr>mStats := mStats s, world := snd (g (world s)), sent := sent s\<rparr>"
    by (simp add: with_world_def split: prod.splits)
  then show ?thesis unfolding quiet_def by blast
qed

lemma quiet_sent: "quiet s (s\<lparr>sent := l\<rparr>)"
proof -
  have "s\<lparr>sent := l\<rparr> = s\<lparr>mStats := mStats s, world := world s, sent := l\<rparr>" by simp
  then show ?thesis unfolding quiet_def by blast
qed

lemma quiet_stats: "quiet s (s\<lparr>mStats := st\<rparr>)"
proof -
  have "s\<lparr>mStats := st\<rparr> = s\<lparr>mStats := st, world := world s, sent := sent s\<rparr>" by simp
  then show ?thesis unfolding quiet_def by blast
qed

lemma quiet_request [quiet_intros]: "quiet s (snd (request E app msg data s))"
proof -
  let ?s = "s\<lparr>sent := sent s @ [(app, msg, data)]\<rparr>"
  obtain r s1 where r: "with_world (dev_ioctl E (packet 0x2454 2 app msg (of_nat (length data)) data)) ?s = (r, s1)"
    by (metis surj_pair)
  have "quiet ?s s1" using quiet_world [of ?s] r by (metis snd_conv)
  then have "quiet s s1" by (rule quiet_trans [OF quiet_sent])
  then show ?thesis using r by (auto simp: request_def Let_def split: option.splits if_splits)
qed

lemma quiet_disable [quiet_intros]: "quiet s (snd (disable E s))"
  using quiet_request [of s E 255 1 "[]"] by (auto simp: disable_def split: prod.splits)

lemma quiet_drain [quiet_intros]: "quiet s (snd (drain E s))"
proof -
  obtain r s1 where r: "request E 255 4 [] s = (r, s1)" by (metis surj_pair)
  have "quiet s s1" using quiet_request [of s E 255 4 "[]"] r by simp
  then show ?thesis
    using r quiet_trans [OF _ quiet_stats] by (auto simp: drain_def Let_def split: option.splits)
qed

lemma quiet_inject_destroy [quiet_intros]: "quiet s (snd (inject E f True d s))"
proof -
  obtain r s1 where r: "request E 255 ((if family f = AF_INET (netc E) then 8 else 10) + 1) (flow_data E f (mac f)) s = (r, s1)"
    by (metis surj_pair)
  have "quiet s s1" using quiet_request r by (metis snd_conv)
  then show ?thesis using r by (auto simp: inject_def inject_send_def split: option.splits)
qed

lemma quiet_destroy_all [quiet_intros]: "quiet s (snd (destroy_all E fs s))"
proof (induction fs arbitrary: s)
  case (Cons kf fs)
  obtain k f where kf: "kf = (k, f)" by (cases kf)
  obtain r s1 where r: "inject E f True (mDownstream s) s = (r, s1)" by (metis surj_pair)
  have "quiet s s1" using quiet_inject_destroy r by (metis snd_conv)
  then show ?case using r Cons.IH [of s1] quiet_trans by (auto simp: kf split: bool.splits)
qed simp

lemma flushFlows_cases:
  obtains s1 where "flushFlows E s = (True, s1\<lparr>mFlows := []\<rparr>)" "quiet s s1"
  | s1 where "flushFlows E s = (False, s1)" "quiet s s1"
proof (cases "destroy_all E (mFlows s) s")
  case (Pair r s1)
  then have "quiet s s1" using quiet_destroy_all [of s E "mFlows s"] by simp
  then show ?thesis using that Pair by (cases r) (simp_all add: flushFlows_def)
qed


subsection \<open>Invariants of the loops that read from the driver\<close>

text \<open>
  The loops of \<open>receive\<close> and \<open>control\<close> keep every property of the state that talking to the driver,
  a failure, a queued notice and the notification function keep.
\<close>

locale driver_loops =
  fixes E :: "'w env"
    and notif :: "u32 \<Rightarrow> u32 \<Rightarrow> u16 \<Rightarrow> bytes \<Rightarrow> 'w mddp \<Rightarrow> 'w mddp"
    and I :: "'w mddp \<Rightarrow> bool"
  assumes keeps_quiet: "quiet s s' \<Longrightarrow> I s \<Longrightarrow> I s'"
    and keeps_poison: "I s \<Longrightarrow> I (poison s)"
    and keeps_notice: "I s \<Longrightarrow> I (notice e d s)"
    and keeps_notif: "I s \<Longrightarrow> I (notif app msg stat data s)"
begin

lemma keeps_disable: "I s \<Longrightarrow> I (snd (disable E s))"
  by (rule keeps_quiet [OF quiet_disable])

lemma keeps_receive_loop: "I s \<Longrightarrow> I (snd (receive_loop E notif n s))"
proof (induction n arbitrary: s)
  case 0
  then show ?case by (simp add: keeps_poison)
next
  case (Suc n)
  obtain r s1 where r: "with_world (dev_read E) s = (r, s1)" by (metis surj_pair)
  have 1: "I s1" using keeps_quiet [OF quiet_world Suc.prems] r by (metis snd_conv)
  have "I (notify_packet notif p s1)" for p unfolding notify_packet_def by (rule keeps_notif [OF 1])
  then show ?case
    using Suc.IH r 1 by (cases r) (auto simp: Let_def keeps_poison)
qed

lemma keeps_receive: "I s \<Longrightarrow> I (snd (receive_with E notif s))"
  by (simp add: receive_with_def keeps_receive_loop)

lemma keeps_control_loop: "I s \<Longrightarrow> I (snd (control_loop E notif command expected n s))"
proof (induction n arbitrary: s)
  case 0
  then show ?case by (simp add: keeps_poison keeps_disable)
next
  case (Suc n)
  obtain r s1 where r: "with_world (dev_read E) s = (r, s1)" by (metis surj_pair)
  have 1: "I s1" using keeps_quiet [OF quiet_world Suc.prems] r by (metis snd_conv)
  have "I (notify_packet notif p s1)" for p unfolding notify_packet_def by (rule keeps_notif [OF 1])
  then show ?case
    using Suc.IH r 1 by (cases r) (auto simp: keeps_poison keeps_disable keeps_notice)
qed

lemma keeps_control: "I s \<Longrightarrow> I (snd (control_with E notif command expected s))"
proof -
  assume "I s"
  obtain r s1 where r: "receive_with E notif s = (r, s1)" by (metis surj_pair)
  have 1: "I s1" using keeps_receive [OF \<open>I s\<close>] r by simp
  let ?q = "request E (if command < 2 then 255 else 1) command (if command = 2 then names_data s1 else []) s1"
  obtain q s2 where q: "?q = (q, s2)" by (metis surj_pair)
  have 2: "I s2" using keeps_quiet [OF quiet_request 1] q by (metis snd_conv)
  have 3: "I (snd (control_loop E notif command expected (turns_before_deadline E (world s2)) s2))"
    by (rule keeps_control_loop [OF 2])
  show ?thesis
  proof (cases r)
    case False
    then show ?thesis using r 1 by (simp add: control_with_def)
  next
    case True
    then show ?thesis
      unfolding control_with_def using r q 1 2 3 by (simp split: option.splits)
  qed
qed

end

subsection \<open>The recursion ends after one unfolding\<close>

lemma notice_fields [simp]:
  "mActive (notice e d s) = mActive s" "mFlows (notice e d s) = mFlows s" "mV4 (notice e d s) = mV4 s"
  "mV6 (notice e d s) = mV6 s" "mPrefixes (notice e d s) = mPrefixes s" "mDownstreams (notice e d s) = mDownstreams s"
  "mDownstream (notice e d s) = mDownstream s" "mInitialized (notice e d s) = mInitialized s"
  "mCallback (notice e d s) = mCallback s" "delivered (notice e d s) = delivered s" "mGeneration (notice e d s) = mGeneration s"
  by (simp_all add: notice_def poison_def wake_def)

lemma poison_fields [simp]:
  "mActive (poison s) = mActive s" "mFlows (poison s) = mFlows s" "mReaderFailed (poison s)"
  "mNotices (poison s) = mNotices s" "mInitialized (poison s) = mInitialized s" "mCallback (poison s) = mCallback s"
  "delivered (poison s) = delivered s"
  by (simp_all add: poison_def wake_def)

lemma notice_failed: "mReaderFailed s \<Longrightarrow> mReaderFailed (notice e d s)"
  by (simp add: notice_def poison_def wake_def)

text \<open>On an inactive state the notification does not call \<open>deactivate\<close>, and the state stays inactive.\<close>

lemma offload_lost_inactive:
  "\<not> mActive s \<Longrightarrow> offload_lost E deact msg stat s = offload_lost E deact' msg stat s"
  by (simp add: offload_lost_def limit_notice_def)

lemma notification_inactive_irrelevant:
  "\<not> mActive s \<Longrightarrow> notification_with E deact app msg stat data s = notification_inactive E app msg stat data s"
  using offload_lost_inactive by (auto simp: notification_with_def notification_inactive_def)

lemma offload_lost_stays_inactive:
  assumes "\<not> mActive s"
  shows "\<not> mActive (offload_lost E deact msg stat s)"
proof -
  obtain r s1 where r: "drain E s = (r, s1)" by (metis surj_pair)
  have "mActive (snd (disable E t)) = mActive t" for t using quiet_fields(9) [OF quiet_disable] .
  then show ?thesis using assms r by (simp add: offload_lost_def limit_notice_def Let_def)
qed

lemma notification_stays_inactive:
  "\<not> mActive s \<Longrightarrow> \<not> mActive (notification_with E deact app msg stat data s)"
  using offload_lost_stays_inactive [of s E deact] by (auto simp: notification_with_def forget_all_def)

interpretation inact: driver_loops E "notification_with E deact" "\<lambda>s. \<not> mActive s" for E deact
  by unfold_locales (auto simp: quiet_fields(9) notification_stays_inactive)

lemma receive_loop_inactive:
  "\<not> mActive s \<Longrightarrow> receive_loop E (notification_with E deact) n s = receive_loop E (notification_inactive E) n s"
proof (induction n arbitrary: s)
  case (Suc n)
  obtain r s1 where r: "with_world (dev_read E) s = (r, s1)" by (metis surj_pair)
  have 1: "\<not> mActive s1" using quiet_fields(9) [OF quiet_world [of s "dev_read E"]] Suc.prems r by simp
  have "notify_packet (notification_with E deact) p s1 = notify_packet (notification_inactive E) p s1" for p
    using notification_inactive_irrelevant [OF 1] by (simp add: notify_packet_def)
  moreover have "\<not> mActive (notify_packet (notification_with E deact) p s1)" for p
    using notification_stays_inactive [OF 1] by (simp add: notify_packet_def)
  ultimately show ?case using Suc.IH r 1 by (cases r) (auto simp: Let_def)
qed simp

lemma control_loop_inactive:
  "\<not> mActive s \<Longrightarrow>
   control_loop E (notification_with E deact) command expected n s =
   control_loop E (notification_inactive E) command expected n s"
proof (induction n arbitrary: s)
  case (Suc n)
  obtain r s1 where r: "with_world (dev_read E) s = (r, s1)" by (metis surj_pair)
  have 1: "\<not> mActive s1" using quiet_fields(9) [OF quiet_world [of s "dev_read E"]] Suc.prems r by simp
  have "notify_packet (notification_with E deact) p s1 = notify_packet (notification_inactive E) p s1" for p
    using notification_inactive_irrelevant [OF 1] by (simp add: notify_packet_def)
  moreover have "\<not> mActive (notify_packet (notification_with E deact) p s1)" for p
    using notification_stays_inactive [OF 1] by (simp add: notify_packet_def)
  ultimately show ?case using Suc.IH r 1 by (cases r) auto
qed simp

lemma control_inactive:
  assumes "\<not> mActive s"
  shows "control_with E (notification_with E deact) command expected s =
    control_with E (notification_inactive E) command expected s"
proof -
  obtain r s1 where r: "receive_with E (notification_inactive E) s = (r, s1)" by (metis surj_pair)
  have eq: "receive_with E (notification_with E deact) s = receive_with E (notification_inactive E) s"
    unfolding receive_with_def by (rule receive_loop_inactive [OF assms])
  have 1: "\<not> mActive s1" using inact.keeps_receive [OF assms, of E deact] r eq by simp
  have "\<not> mActive (snd (request E a m d s1))" for a m d using quiet_fields(9) [OF quiet_request] 1 by metis
  then show ?thesis
    unfolding control_with_def eq r
    by (auto split: bool.splits option.splits prod.splits dest!: sym [of _ "request _ _ _ _ _"]
        intro!: control_loop_inactive) (metis snd_conv)+
qed

lemma deactivate_steps_inactive:
  assumes "\<not> mActive s"
  shows "deactivate_steps E (control_with E (notification_with E deact) 3 3) s =
    deactivate_steps E (control_with E (notification_inactive E) 3 3) s"
proof -
  obtain r s1 where r: "drain E s = (r, s1)" by (metis surj_pair)
  have "\<not> mActive s1" using quiet_fields(9) [OF quiet_drain [of s E]] r assms by simp
  moreover obtain q s2 where q: "flushFlows E s1 = (q, s2)" by (metis surj_pair)
  ultimately have "\<not> mActive s2"
    by (cases rule: flushFlows_cases [of E s1]) (auto simp: quiet_fields(9))
  from control_inactive [OF this, of E deact 3 3] show ?thesis
    using r q by (simp add: deactivate_steps_def split: bool.splits)
qed

subsection \<open>The policy for flows in the hardware\<close>

text \<open>
  A flow is permitted when its family is forwarded, neither end is in a local prefix and its source is in a
  prefix of the current downstream. \<open>X\<close> are entries that do not count: \<open>addDownstream\<close> inserts one and takes
  it out again when it fails.
\<close>

definition permitted :: "'w env \<Rightarrow> (string \<times> string) set \<Rightarrow> 'w mddp \<Rightarrow> Flow \<Rightarrow> bool" where
  "permitted E X s f \<longleftrightarrow>
     (if family f = AF_INET (netc E) then mV4 s else mV6 s) \<and>
     (\<forall>p\<in>set (mPrefixes s). \<not> contains (netc E) p (family f) (src f) \<and> \<not> contains (netc E) p (family f) (dst f)) \<and>
     (\<exists>e\<in>set (mDownstreams s) - X. fst e = mDownstream s \<and> contains (netc E) (snd e) (family f) (src f))"

definition policy :: "'w env \<Rightarrow> (string \<times> string) set \<Rightarrow> 'w mddp \<Rightarrow> bool" where
  "policy E X s \<longleftrightarrow> mReaderFailed s \<or>
     ((mActive s \<or> mFlows s = []) \<and> (\<forall>(k, f)\<in>set (mFlows s). k = key f \<and> permitted E X s f))"

lemma policy_failed [simp]: "mReaderFailed s \<Longrightarrow> policy E X s"
  by (simp add: policy_def)

lemma policy_no_flows [simp]: "mFlows s = [] \<Longrightarrow> policy E X s"
  by (simp add: policy_def)

lemma policy_inactive: "policy E X s \<Longrightarrow> \<not> mActive s \<Longrightarrow> mReaderFailed s \<or> mFlows s = []"
  by (auto simp: policy_def)

lemma policy_cong:
  assumes "policy E X s" "mFlows s' = mFlows s" "mActive s' = mActive s" "mV4 s' = mV4 s" "mV6 s' = mV6 s"
    "mPrefixes s' = mPrefixes s" "mDownstreams s' = mDownstreams s" "mDownstream s' = mDownstream s"
    "mReaderFailed s \<longrightarrow> mReaderFailed s'"
  shows "policy E X s'"
proof -
  have "permitted E X s' = permitted E X s" using assms(4-8) by (simp add: permitted_def fun_eq_iff)
  then show ?thesis using assms by (auto simp: policy_def)
qed

lemma policy_quiet: "quiet s s' \<Longrightarrow> policy E X s \<Longrightarrow> policy E X s'"
  by (erule policy_cong) (simp_all add: quiet_fields)

lemma policy_notice: "policy E X s \<Longrightarrow> policy E X (notice e d s)"
  by (erule policy_cong) (simp_all add: notice_failed)

text \<open>The contract of \<open>deactivate\<close>.\<close>

definition deactivates :: "'w env \<Rightarrow> (string \<times> string) set \<Rightarrow> ('w mddp \<Rightarrow> bool \<times> 'w mddp) \<Rightarrow> bool" where
  "deactivates E X deact \<longleftrightarrow>
     (\<forall>s. policy E X s \<longrightarrow> (case deact s of (r, s') \<Rightarrow>
        policy E X s' \<and> \<not> mActive s' \<and> (\<not> r \<longrightarrow> mReaderFailed s')))"

lemma failed_disable: "mReaderFailed (snd (disable E s)) = mReaderFailed s"
  by (rule quiet_fields(7) [OF quiet_disable])

lemma policy_offload_lost:
  assumes "policy E X s" "mActive s \<Longrightarrow> deactivates E X deact"
  shows "policy E X (offload_lost E deact msg stat s)"
proof -
  let ?c = "limit_notice msg stat s \<or> (loss_notice msg stat \<and> mActive s \<and> msg \<noteq> 0x103)"
  let ?p = "if ?c then deact (s\<lparr>mQuota := False\<rparr>)
    else (case drain E s of (r, s0) \<Rightarrow> (r, s0\<lparr>mActive := False, mFlows := []\<rparr>))"
  obtain r s1 where r: "?p = (r, s1)" by (metis surj_pair)
  have "mReaderFailed s1 \<or> mFlows s1 = []"
  proof (cases ?c)
    case True
    then have a: "mActive s" by (auto simp: limit_notice_def)
    have "policy E X (s\<lparr>mQuota := False\<rparr>)" using assms(1) by (rule policy_cong) simp_all
    then have "policy E X s1 \<and> \<not> mActive s1" using assms(2) [OF a] True r by (auto simp: deactivates_def)
    then show ?thesis using policy_inactive by blast
  next
    case False
    then show ?thesis using r by (auto split: prod.splits)
  qed
  moreover have "mFlows (snd (disable E t)) = mFlows t" for t by (rule quiet_fields(2) [OF quiet_disable])
  ultimately have "policy E X (notice e [] ((if r then s1 else poison (snd (disable E s1)))
      \<lparr>mQuota := False, mDownstream := [], mDownstreams := [], mV4 := False, mV6 := False\<rparr>))" for e
    by (intro policy_notice) auto
  then show ?thesis unfolding offload_lost_def Let_def r prod.case .
qed

lemma policy_notification:
  assumes "policy E X s" "mActive s \<Longrightarrow> deactivates E X deact"
  shows "policy E X (notification_with E deact app msg stat data s)"
proof -
  have "policy E X (s\<lparr>mWarned := True\<rparr>)" using assms(1) by (rule policy_cong) simp_all
  then have 1: "policy E X (notice 6 [] (s\<lparr>mWarned := True\<rparr>))" by (rule policy_notice)
  have "policy E X (forget_all s)" by (simp add: forget_all_def)
  then have 2: "policy E X (notice 4 [] (forget_all s))" by (rule policy_notice)
  show ?thesis
    unfolding notification_with_def
    using 1 2 policy_notice [OF assms(1), of 0 data] policy_offload_lost [OF assms] assms(1) by presburger
qed

interpretation polin: driver_loops E "notification_inactive E" "\<lambda>s. policy E X s \<and> \<not> mActive s" for E X
proof unfold_locales
  fix s :: "'a mddp" and app msg stat data
  assume s: "policy E X s \<and> \<not> mActive s"
  then show "policy E X (notification_inactive E app msg stat data s) \<and> \<not> mActive (notification_inactive E app msg stat data s)"
    unfolding notification_inactive_def by (auto intro: policy_notification simp: notification_stays_inactive)
qed (auto simp: policy_quiet quiet_fields(9) policy_notice)

lemma deactivates_deactivate: "deactivates E X (deactivate E)"
proof -
  have steps: "case deactivate_steps E (control_with E (notification_inactive E) 3 3) s of (r, s') \<Rightarrow>
      \<not> mActive s' \<and> (r \<longrightarrow> mReaderFailed s' \<or> mFlows s' = [])" if a: "\<not> mActive s" for s :: "'a mddp"
  proof -
    obtain r s1 where r: "drain E s = (r, s1)" by (metis surj_pair)
    have 1: "\<not> mActive s1" using quiet_fields(9) [OF quiet_drain [of s E]] r a by simp
    obtain q s2 where q: "flushFlows E s1 = (q, s2)" by (metis surj_pair)
    have 2: "\<not> mActive s2 \<and> (q \<longrightarrow> mFlows s2 = [])"
      using 1 q by (cases rule: flushFlows_cases [of E s1]) (auto simp: quiet_fields(9))
    obtain p s3 where p: "control_with E (notification_inactive E) 3 3 s2 = (p, s3)" by (metis surj_pair)
    have 3: "q \<Longrightarrow> policy E X s3 \<and> \<not> mActive s3" using polin.keeps_control [of E X s2 3 3] 2 p by simp
    obtain t s4 where t: "drain E s3 = (t, s4)" by (metis surj_pair)
    have "quiet s3 s4" using quiet_drain [of s3 E] t by simp
    then have "q \<Longrightarrow> \<not> mActive s4 \<and> (mReaderFailed s4 \<or> mFlows s4 = [])"
      using 3 policy_inactive by (metis quiet_fields(2,7,9))
    then show ?thesis
      using r q p t 1 2 3 by (auto simp: deactivate_steps_def split: bool.splits)
  qed
  show ?thesis
    unfolding deactivates_def
  proof (intro allI impI)
    fix s :: "'a mddp"
    assume s: "policy E X s"
    let ?s = "s\<lparr>mActive := False, mQuota := False\<rparr>"
    obtain r s1 where r: "deactivate_steps E (control_with E (notification_inactive E) 3 3) ?s = (r, s1)" by (metis surj_pair)
    have "\<not> mActive s1 \<and> (r \<longrightarrow> mReaderFailed s1 \<or> mFlows s1 = [])" using steps [of ?s] r by simp
    moreover have "mActive (snd (disable E (poison s1))) = mActive s1" using quiet_fields(9) [OF quiet_disable, of E "poison s1"] by simp
    ultimately show "case deactivate E s of (r, s') \<Rightarrow> policy E X s' \<and> \<not> mActive s' \<and> (\<not> r \<longrightarrow> mReaderFailed s')"
      using s r by (auto simp: deactivate_def deactivate_with_def failed_disable split: bool.splits)
  qed
qed

interpretation pol: driver_loops E "notification E" "policy E X" for E X
  by unfold_locales
    (auto simp: notification_def policy_quiet policy_notice intro: policy_notification deactivates_deactivate)


lemma deactivate_policy:
  assumes "policy E X s" "deactivate E s = (r, s')"
  shows "policy E X s'" "\<not> mActive s'" "\<not> r \<Longrightarrow> mReaderFailed s'"
  using deactivates_deactivate [of E X] assms by (auto simp: deactivates_def)

lemma policy_receive: "policy E X s \<Longrightarrow> receive E s = (r, s') \<Longrightarrow> policy E X s'"
  using pol.keeps_receive [of E X s] by (simp add: receive_def)

lemma policy_control: "policy E X s \<Longrightarrow> control E command expected s = (r, s') \<Longrightarrow> policy E X s'"
  using pol.keeps_control [of E X s command expected] by (simp add: control_def)

lemma policy_world: "policy E X s \<Longrightarrow> with_world g s = (x, s') \<Longrightarrow> policy E X s'"
  by (metis policy_quiet quiet_world snd_conv)

lemma policy_request: "policy E X s \<Longrightarrow> request E app msg data s = (x, s') \<Longrightarrow> policy E X s'"
  by (metis policy_quiet quiet_request snd_conv)

lemmas policy_steps = policy_receive policy_control policy_world policy_request deactivate_policy(1)

lemma activate_policy:
  assumes "policy E X s" "\<not> mActive s" "activate E desired s = (r, s')"
  shows "policy E X s'"
proof -
  obtain x1 s1 where 1: "with_world (connectionMode E) s = (x1, s1)" by (metis surj_pair)
  have p1: "policy E X s1" by (rule policy_world [OF assms(1) 1])
  have a1: "\<not> mActive s1" using quiet_fields(9) [OF quiet_world [of s "connectionMode E"]] 1 assms(2) by simp
  have p1': "policy E X (s1\<lparr>mDownstream := desired\<rparr>)"
    using policy_inactive [OF p1 a1] by auto
  obtain x2 s2 where 2: "control E 2 1 (s1\<lparr>mDownstream := desired\<rparr>) = (x2, s2)" by (metis surj_pair)
  have p2: "policy E X s2" by (rule policy_control [OF p1' 2])
  have "permitted E X (s2\<lparr>mActive := True\<rparr>) = permitted E X s2" by (simp add: permitted_def fun_eq_iff)
  then have p2': "policy E X (s2\<lparr>mActive := True\<rparr>)" using p2 by (auto simp: policy_def)
  obtain x3 s3 where 3: "with_world (connectionMode E) (s2\<lparr>mActive := True\<rparr>) = (x3, s3)" by (metis surj_pair)
  have p3: "policy E X s3" by (rule policy_world [OF p2' 3])
  obtain x4 s4 where 4: "with_world (sysctl E ''/proc/sys/net/netfilter/nf_conntrack_udp_timeout_stream'' 180) s3 = (x4, s4)"
    by (metis surj_pair)
  have p4: "policy E X s4" by (rule policy_world [OF p3 4])
  obtain x5 s5 where 5: "with_world (sysctl E ''/proc/sys/net/netfilter/nf_conntrack_tcp_timeout_established'' 432000) s4 = (x5, s5)"
    by (metis surj_pair)
  have p5: "policy E X s5" by (rule policy_world [OF p4 5])
  obtain x6 s6 where 6: "request E 255 6 (store32 x4 @ store32 x5) s5 = (x6, s6)" by (metis surj_pair)
  have p6: "policy E X s6" by (rule policy_request [OF p5 6])
  have d: "policy E X (snd (deactivate E t))" if "policy E X t" for t
    using deactivate_policy(1) [OF that] by (metis prod.collapse)
  show ?thesis
    using assms(3) p1 p2 policy_notice [OF p6] d [OF p3] d [OF p6]
    unfolding activate_def 1 prod.case 2 3 4 5 6 by (auto split: bool.splits option.splits)
qed

lemma reconcile_policy:
  assumes "policy E X s" "reconcile E s = (r, s')"
  shows "policy E X s'"
proof (cases "mReaderFailed s")
  case True
  then show ?thesis using assms(2) by (simp add: reconcile_def)
next
  case False
  let ?d = "if mUpstream s \<noteq> [] \<and> (mV4 s \<or> mV6 s) then desired_of (mDownstreams s) [] else Some []"
  show ?thesis
  proof (cases ?d)
    case None
    then show ?thesis using assms False unfolding reconcile_def by (simp only: option.case if_False) auto
  next
    case (Some desired)
    let ?t = "if mActive s \<and> desired \<noteq> mDownstream s then deactivate E s else (True, s)"
    obtain q s1 where q: "?t = (q, s1)" by (metis surj_pair)
    have 1: "policy E X s1"
      using q assms(1) deactivate_policy(1) by (auto split: if_splits)
    have "(case ?t of (False, s1) \<Rightarrow> (False, s1)
        | (True, s1) \<Rightarrow> if desired = [] \<or> mActive s1 then (True, s1) else activate E desired s1) = (r, s')"
      using assms(2) False unfolding reconcile_def Some by simp
    then show ?thesis unfolding q using 1 activate_policy [OF 1] by (auto split: bool.splits if_splits)
  qed
qed


lemma set_map_insert: "set (map_insert k f xs) \<subseteq> insert (k, f) (set xs)"
  by (induction k f xs rule: map_insert.induct) auto

lemma set_map_erase: "set (map_erase k xs) \<subseteq> set xs"
  by (auto simp: map_erase_def)

lemma admit_permitted:
  assumes "admit E f s = Some d"
  shows "mActive s \<and> permitted E {} s f"
proof -
  have a: "mActive s" "if family f = AF_INET (netc E) then mV4 s else mV6 s"
    using assms by (auto simp: admit_def Let_def split: if_splits)
  have "\<not> list_ex (\<lambda>p. contains (netc E) p (family f) (src f) \<or> contains (netc E) p (family f) (dst f)) (mPrefixes s)"
    "list_ex (\<lambda>e. fst e = mDownstream s \<and> contains (netc E) (snd e) (family f) (src f)) (mDownstreams s)"
    using assms unfolding admit_def Let_def by (simp_all only: split: if_splits) simp_all
  then show ?thesis using a by (auto simp: permitted_def list_ex_iff)
qed

lemma permitted_quiet: "quiet s s1 \<Longrightarrow> permitted E X (s1\<lparr>mFlows := fs\<rparr>) f = permitted E X s f"
  by (simp add: permitted_def quiet_fields)

lemma policy_update:
  assumes "policy E X s" "quiet s s1" "mActive s \<or> fs = []"
    and "\<And>k f. (k, f) \<in> set fs \<Longrightarrow> (k, f) \<in> set (mFlows s) \<or> k = key f \<and> permitted E X s f"
  shows "policy E X (s1\<lparr>mFlows := fs\<rparr>)"
proof (cases "mReaderFailed s")
  case True
  then show ?thesis using quiet_fields(7) [OF assms(2)] by simp
next
  case False
  have "k = key f \<and> permitted E X s f" if "(k, f) \<in> set fs" for k f
    using assms(1) assms(4) [OF that] False by (auto simp: policy_def)
  then show ?thesis
    unfolding policy_def permitted_quiet [OF assms(2)] using assms(3) quiet_fields(9) [OF assms(2)] by auto
qed

lemma policy_inject:
  assumes "policy E X s" "mActive s" "permitted E X s f" "inject E f False d s = (r, s')"
  shows "policy E X s'"
proof -
  obtain x s1 where x: "with_world (neighbor E f d) s = (x, s1)" by (metis surj_pair)
  have q1: "quiet s s1" using quiet_world [of s "neighbor E f d"] x by simp
  show ?thesis
  proof (cases x)
    case None
    then show ?thesis using assms(4) x policy_quiet [OF q1 assms(1)] by (auto simp: inject_def)
  next
    case (Some m)
    obtain y s2 where y: "request E 255 (if family f = AF_INET (netc E) then 8 else 10) (flow_data E f m) s1 = (y, s2)"
      by (metis surj_pair)
    have q2: "quiet s s2" using quiet_trans [OF q1 quiet_request] y by (metis snd_conv)
    have "key (f\<lparr>mac := m\<rparr>) = key f" "permitted E X s (f\<lparr>mac := m\<rparr>)"
      using assms(3) by (simp_all add: key_def permitted_def)
    then have "policy E X (s2\<lparr>mFlows := map_insert (key f) (f\<lparr>mac := m\<rparr>) (mFlows s2)\<rparr>)"
      using set_map_insert [of "key f" "f\<lparr>mac := m\<rparr>" "mFlows s2"] quiet_fields(2) [OF q2] assms(2)
      by (intro policy_update [OF assms(1) q2]) auto
    moreover have "policy E X s2" by (rule policy_quiet [OF q2 assms(1)])
    ultimately show ?thesis
      using assms(4) x Some y unfolding inject_def inject_send_def by (cases y) auto
  qed
qed

lemma policy_conntrack_flow:
  assumes s: "policy E {} s" and r: "conntrack_flow E flow s = (r, s')"
  shows "policy E {} s'"
proof -
  have e: "policy E {} (s1\<lparr>mFlows := fs\<rparr>)" if "quiet s s1" "set fs \<subseteq> set (mFlows s)" for s1 fs
  proof (cases "mReaderFailed s")
    case True
    then show ?thesis using quiet_fields(7) [OF that(1)] by simp
  next
    case False
    then show ?thesis using that(2) s by (intro policy_update [OF s that(1)]) (auto simp: policy_def)
  qed
  have p: "policy E {} s2" if "admit E flow s = Some d" "quiet s s1" "set fs \<subseteq> set (mFlows s)"
      "inject E flow False d (s1\<lparr>mFlows := fs\<rparr>) = (x, s2)" for d s1 fs x s2
    using admit_permitted [OF that(1)] quiet_fields(9) [OF that(2)]
    by (intro policy_inject [OF e [OF that(2,3)] _ _ that(4)]) (auto simp: permitted_quiet [OF that(2)])
  show ?thesis
  proof (cases "map_of (mFlows s) (key flow)")
    case None
    have "policy E {} s2" if "admit E flow s = Some d" "inject E flow False d s = (x, s2)" for d x s2
      using p [OF that(1) quiet_refl subset_refl] that(2) by simp
    then show ?thesis
      using r s unfolding conntrack_flow_def None by (auto split: option.splits if_splits)
  next
    case (Some old)
    obtain x s1 where x: "inject E old True (mDownstream s) s = (x, s1)" by (metis surj_pair)
    have q: "quiet s s1" using quiet_inject_destroy [of s E old "mDownstream s"] x by simp
    have sub: "set (map_erase (key flow) (mFlows s1)) \<subseteq> set (mFlows s)"
      using set_map_erase quiet_fields(2) [OF q] by metis
    let ?t = "s1\<lparr>mFlows := map_erase (key flow) (mFlows s1)\<rparr>"
    have i: "policy E {} s2" if "admit E flow s = Some d" "inject E flow False d ?t = (y, s2)" for d y s2
      by (rule p [OF that(1) q sub that(2)])
    show ?thesis
    proof (cases x)
      case False
      then show ?thesis using r s x policy_quiet [OF q s] unfolding conntrack_flow_def Some Let_def
        by (auto split: if_splits)
    next
      case True
      then show ?thesis using r s x e [OF q sub] i unfolding conntrack_flow_def Some Let_def
        by (auto split: option.splits if_splits)
    qed
  qed
qed

lemma policy_conntrack:
  assumes "policy E {} s" "conntrack E fd s = (r, s')"
  shows "policy E {} s'"
proof -
  have m: "policy E {} t'" if "policy E {} t" "conntrack_messages E ms t = (x, t')" for ms t x t'
    using that
  proof (induction ms arbitrary: t)
    case (Cons m ms)
    then show ?case using policy_conntrack_flow by (fastforce split: if_splits option.splits bool.splits prod.splits)
  qed simp
  obtain x s1 where x: "with_world (conntrack_recv E fd) s = (x, s1)" by (metis surj_pair)
  have 1: "policy E {} s1" by (rule policy_world [OF assms(1) x])
  then show ?thesis
    using assms(2) x m [OF 1] by (auto simp: conntrack_def split: sum.splits if_splits prod.splits bool.splits)
qed


subsection \<open>Every operation keeps the policy\<close>

lemma policy_wake: "policy E X s \<Longrightarrow> policy E X (wake s)"
  by (erule policy_cong) (simp_all add: wake_def)

lemma policy_disable: "policy E X s \<Longrightarrow> policy E X (snd (disable E s))"
  by (rule policy_quiet [OF quiet_disable])

lemma flush_policy:
  assumes "policy E X s" "flushFlows E s = (r, s')"
  shows "policy E X s'" "r \<Longrightarrow> mFlows s' = []"
  using assms(2) policy_quiet [OF _ assms(1)] by (cases rule: flushFlows_cases [of E s]; auto)+

lemma policy_initOffload:
  assumes "policy E X s" "initOffload E fd1 fd2 cb s = (r, s')"
  shows "policy E X s'"
proof -
  obtain x1 s1 where 1: "with_world (both_netfilter E fd1 fd2) s = (x1, s1)" by (metis surj_pair)
  note p1 = policy_world [OF assms(1) 1]
  obtain one s2 where 2: "with_world (dup_fd E fd1) s1 = (one, s2)" by (metis surj_pair)
  note p2 = policy_world [OF p1 2]
  obtain two s3 where 3: "with_world (dup_fd E fd2) s2 = (two, s3)" by (metis surj_pair)
  note p3 = policy_world [OF p2 3]
  let ?s = "s3\<lparr>mGeneration := mGeneration s3 + 1, mNotices := []\<rparr>"
  have p3': "policy E X ?s" using p3 by (rule policy_cong) simp_all
  obtain x4 s4 where 4: "control E 0 4 ?s = (x4, s4)" by (metis surj_pair)
  note p4 = policy_control [OF p3' 4]
  obtain x5 s5 where 5: "with_world (connectionMode E) s4 = (x5, s5)" by (metis surj_pair)
  note p5 = policy_world [OF p4 5]
  have p6: "policy E X (wake (s5\<lparr>mCallback := cb, mConntrack1 := one, mConntrack2 := two, mInitialized := True\<rparr>))"
    by (rule policy_wake, rule policy_cong [OF p5]) simp_all
  show ?thesis
    using assms p1 p3 p4 p6 policy_disable [OF p5] unfolding initOffload_def 1 prod.case 2 3 4 5
    by (auto split: if_splits bool.splits)
qed

lemma policy_stopOffload:
  assumes "policy E X s" "stopOffload E s = (r, s')"
  shows "policy E X s'"
proof -
  obtain x1 s1 where 1: "(if mReaderFailed s then (True, s) else deactivate E s) = (x1, s1)" by (metis surj_pair)
  have p1: "policy E X s1" using 1 assms(1) deactivate_policy(1) by (auto split: if_splits)
  obtain x2 s2 where 2: "disable E s1 = (x2, s2)" by (metis surj_pair)
  have p2: "policy E X s2" using policy_disable [OF p1] 2 by simp
  have "policy E X (stop_clear s2)" by (simp add: stop_clear_def wake_def)
  then show ?thesis
    using assms p1 p2 unfolding stopOffload_def 1 prod.case 2 by (auto split: if_splits bool.splits)
qed

lemma policy_setLocalPrefixes:
  assumes "policy E X s" "setLocalPrefixes E ps s = (r, s')"
  shows "policy E X s'"
proof -
  obtain x1 s1 where 1: "flushFlows E s = (x1, s1)" by (metis surj_pair)
  show ?thesis
    using assms flush_policy [OF assms(1) 1] unfolding setLocalPrefixes_def 1 prod.case
    by (auto split: if_splits bool.splits)
qed

lemma policy_getForwardedStats:
  assumes "policy E X s" "getForwardedStats E u s = (r, s')"
  shows "policy E X s'"
proof -
  obtain x1 s1 where 1: "(if mInitialized s \<and> u = mUpstream s \<and> mActive s then drain E s else (True, s)) = (x1, s1)"
    by (metis surj_pair)
  have "quiet s s1" using 1 quiet_drain [of s E] by (auto split: if_splits)
  then have p1: "policy E X s1" using policy_quiet assms(1) by blast
  then have "policy E X (s1\<lparr>mStats := st\<rparr>)" for st by (rule policy_quiet [OF quiet_stats])
  then show ?thesis
    using assms p1 unfolding getForwardedStats_def 1 prod.case by (auto split: if_splits bool.splits option.splits)
qed

lemma policy_setDataWarningAndLimit:
  assumes "policy E X s" "setDataWarningAndLimit E u w l s = (r, s')"
  shows "policy E X s'"
proof -
  obtain x1 s1 where 1: "receive E s = (x1, s1)" by (metis surj_pair)
  note p1 = policy_receive [OF assms(1) 1]
  obtain x2 s2 where 2: "request E 255 7 (put_list (replicate 16 0) 0 (bytes_of u) @ store64 l @ store64 w) s1 = (x2, s2)"
    by (metis surj_pair)
  note p2 = policy_request [OF p1 2]
  have "policy E X (s2\<lparr>mNotices := filter (\<lambda>n. n_event n \<noteq> 6) (mNotices s2), mQuota := True, mWarned := False\<rparr>)"
    by (rule policy_cong [OF p2]) simp_all
  then show ?thesis
    using assms p1 p2 unfolding setDataWarningAndLimit_def 1 prod.case 2
    by (auto split: if_splits bool.splits option.splits)
qed

lemma policy_setUpstreamParameters:
  assumes "policy E X s" "setUpstreamParameters E iface a g gs s = (r, s')"
  shows "policy E X s'"
proof -
  obtain x1 s1 where 1: "receive E s = (x1, s1)" by (metis surj_pair)
  note p1 = policy_receive [OF assms(1) 1]
  obtain x2 s2 where 2: "deactivate E s1 = (x2, s2)" by (metis surj_pair)
  note p2 = deactivate_policy(1,2) [OF p1 2]
  let ?s = "s2\<lparr>mUpstream := iface, mV4Address := a, mV4 := (iface \<noteq> [] \<and> a \<noteq> [] \<and> g \<noteq> []), mV6 := (iface \<noteq> [] \<and> gs \<noteq> [])\<rparr>"
  have p2': "policy E X ?s" using policy_inactive [OF p2] by auto
  obtain x3 s3 where 3: "reconcile E ?s = (x3, s3)" by (metis surj_pair)
  note p3 = reconcile_policy [OF p2' 3]
  show ?thesis
    using assms p1 p2(1) p3 unfolding setUpstreamParameters_def Let_def 1 prod.case 2 3
    by (auto split: if_splits bool.splits)
qed

lemma policy_addDownstream:
  assumes "policy E {} s" "addDownstream E iface p s = (r, s')"
  shows "policy E {} s'"
proof -
  let ?e = "(iface, p)"
  let ?i = "?e \<notin> set (mDownstreams s)"
  let ?s = "if ?i then s\<lparr>mDownstreams := mDownstreams s @ [?e]\<rparr> else s"
  let ?X = "if ?i then {?e} else {}"
  obtain x1 s1 where 1: "reconcile E ?s = (x1, s1)" by (metis surj_pair)
  have "policy E ?X ?s"
  proof (cases ?i)
    case True
    have "permitted E {} s f \<Longrightarrow> permitted E {?e} (s\<lparr>mDownstreams := mDownstreams s @ [?e]\<rparr>) f" for f
      using True by (auto simp: permitted_def)
    then show ?thesis using assms(1) True by (auto simp: policy_def)
  qed (use assms in simp)
  note p1 = reconcile_policy [OF this 1]
  have mono: "policy E {} t" if "policy E {?e} t" for t
  proof -
    have "permitted E {?e} t f \<Longrightarrow> permitted E {} t f" for f by (auto simp: permitted_def)
    then show ?thesis using that by (auto simp: policy_def)
  qed
  have "policy E {} (s1\<lparr>mDownstreams := filter (\<lambda>e. e \<noteq> ?e) (mDownstreams s1)\<rparr>)" if "?i"
  proof -
    have "permitted E {?e} s1 f \<Longrightarrow> permitted E {} (s1\<lparr>mDownstreams := filter (\<lambda>e. e \<noteq> ?e) (mDownstreams s1)\<rparr>) f" for f
      by (auto simp: permitted_def)
    then show ?thesis using p1 that by (auto simp: policy_def)
  qed
  moreover have "policy E {} s1" using p1 mono by (auto split: if_splits)
  ultimately show ?thesis
    using assms unfolding addDownstream_def Let_def 1 prod.case by (auto split: if_splits bool.splits)
qed

lemma policy_removeDownstream:
  assumes "policy E X s" "removeDownstream E iface p s = (r, s')"
  shows "policy E X s'"
proof -
  obtain x1 s1 where 1: "flushFlows E s = (x1, s1)" by (metis surj_pair)
  let ?s = "s1\<lparr>mDownstreams := filter (\<lambda>e. e \<noteq> (iface, p)) (mDownstreams s1)\<rparr>"
  obtain x2 s2 where 2: "reconcile E ?s = (x2, s2)" by (metis surj_pair)
  have "x1 \<Longrightarrow> policy E X s2" using flush_policy [OF assms(1) 1] reconcile_policy [OF _ 2] by simp
  then show ?thesis
    using assms flush_policy(1) [OF assms(1) 1] unfolding removeDownstream_def 1 prod.case 2
    by (auto split: if_splits bool.splits)
qed


lemma policy_events_section:
  assumes "policy E {} s"
  shows "policy E {} (events_section E s)"
proof -
  obtain x s1 where 1: "events_input E s = (x, s1)" by (metis surj_pair)
  have "policy E {} s1"
  proof -
    obtain a t1 where a: "receive E s = (a, t1)" by (metis surj_pair)
    note pa = policy_receive [OF assms a]
    obtain b t2 where b: "(if mActive t1 then with_world (connectionMode E) t1 else (True, t1)) = (b, t2)" by (metis surj_pair)
    have pb: "policy E {} t2" using b pa policy_world [OF pa] by (auto split: if_splits)
    obtain c t3 where c: "conntrack E (mConntrack1 t2) t2 = (c, t3)" by (metis surj_pair)
    note pc = policy_conntrack [OF pb c]
    show ?thesis
      using 1 pa pb pc policy_conntrack [OF pc] unfolding events_input_def a prod.case b c by (auto split: bool.splits)
  qed
  then show ?thesis using assms 1 by (auto simp: events_section_def intro!: policy_notice split: bool.splits)
qed

lemma policy_deliver:
  assumes "policy E X s"
  shows "policy E X (deliver s)"
proof -
  have "policy E X (s\<lparr>mNotices := ns\<rparr>)" "policy E X (s\<lparr>mNotices := ns, delivered := d\<rparr>)" for ns d
    using assms by (rule policy_cong; simp)+
  then show ?thesis using assms by (auto simp: deliver_def Let_def split: list.splits option.splits)
qed

lemma policy_poll: "policy E X s \<Longrightarrow> policy E X (snd (poll_prepare E s))" "policy E X s \<Longrightarrow> policy E X (poll_result E g b s)"
proof -
  assume s: "policy E X s"
  obtain a t1 where a: "with_world (dup_fd E (mConntrack1 s)) s = (a, t1)" by (metis surj_pair)
  obtain b t2 where b: "with_world (dup_fd E (mConntrack2 t1)) t1 = (b, t2)" by (metis surj_pair)
  note p = policy_world [OF policy_world [OF s a] b]
  show "policy E X (snd (poll_prepare E s))"
    using s p unfolding poll_prepare_def a prod.case b by auto
  show "policy E X (poll_result E g b s)" for g b
    using s by (auto simp: poll_result_def)
qed

subsection \<open>The session: initialised, callback and queued notices\<close>

text \<open>A property of these three fields that survives a shorter queue and a new notice is kept by all operations between initialisation and stop.\<close>

locale session_property =
  fixes E :: "'w env" and I :: "'w mddp \<Rightarrow> bool"
  assumes anchored: "I s \<Longrightarrow> mInitialized s' = mInitialized s \<Longrightarrow> mCallback s' = mCallback s \<Longrightarrow>
      length (mNotices s') \<le> length (mNotices s) \<Longrightarrow> I s'"
    and keeps_notice': "I s \<Longrightarrow> I (notice e d s)"
begin

lemma I_quiet: "quiet s s' \<Longrightarrow> I s \<Longrightarrow> I s'"
  using anchored [of s s'] quiet_fields(1,8,15) [of s s'] by simp

lemma I_offload_lost:
  assumes "I s" "\<And>t. I t \<Longrightarrow> I (snd (deact t))"
  shows "I (offload_lost E deact msg stat s)"
proof -
  let ?c = "limit_notice msg stat s \<or> (loss_notice msg stat \<and> mActive s \<and> msg \<noteq> 0x103)"
  let ?p = "if ?c then deact (s\<lparr>mQuota := False\<rparr>)
    else (case drain E s of (r, s0) \<Rightarrow> (r, s0\<lparr>mActive := False, mFlows := []\<rparr>))"
  obtain r s1 where r: "?p = (r, s1)" by (metis surj_pair)
  have "I (s\<lparr>mQuota := False\<rparr>)" by (rule anchored [OF assms(1)]) simp_all
  then have a: "I (snd (deact (s\<lparr>mQuota := False\<rparr>)))" by (rule assms(2))
  have "I (snd (drain E s))" by (rule I_quiet [OF quiet_drain assms(1)])
  then have "I ((snd (drain E s))\<lparr>mActive := False, mFlows := []\<rparr>)" by (rule anchored) simp_all
  then have 1: "I s1" using r a by (auto split: if_splits prod.splits)
  have "I (if r then s1 else poison (snd (disable E s1)))"
    using 1 anchored [OF I_quiet [OF quiet_disable 1], where s' = "poison (snd (disable E s1))"] by simp
  then have "I (notice e [] ((if r then s1 else poison (snd (disable E s1)))
      \<lparr>mQuota := False, mDownstream := [], mDownstreams := [], mV4 := False, mV6 := False\<rparr>))" for e
    by (intro keeps_notice', elim anchored) simp_all
  then show ?thesis unfolding offload_lost_def Let_def r prod.case .
qed

lemma I_notification:
  assumes "I s" "\<And>t. I t \<Longrightarrow> I (snd (deact t))"
  shows "I (notification_with E deact app msg stat data s)"
proof -
  have 1: "I (notice 6 [] (s\<lparr>mWarned := True\<rparr>))" by (rule keeps_notice', rule anchored [OF assms(1)]) simp_all
  have 2: "I (notice 4 [] (forget_all s))" by (rule keeps_notice', rule anchored [OF assms(1)]) (simp_all add: forget_all_def)
  show ?thesis
    unfolding notification_with_def
    using 1 2 keeps_notice' [OF assms(1), of 0 data] I_offload_lost [OF assms] assms(1) by presburger
qed

end

sublocale session_property \<subseteq> quietly: driver_loops E "notification_inactive E" I
  by unfold_locales
    (auto simp: notification_inactive_def keeps_notice' intro: I_quiet I_notification elim: anchored)

context session_property
begin

lemma I_flush: "I s \<Longrightarrow> flushFlows E s = (r, s') \<Longrightarrow> I s'"
proof -
  assume s: "I s" and r: "flushFlows E s = (r, s')"
  have "I (t\<lparr>mFlows := []\<rparr>)" if "quiet s t" for t by (rule anchored [OF I_quiet [OF that s]]) simp_all
  then show ?thesis using r I_quiet [OF _ s] by (cases rule: flushFlows_cases [of E s]) auto
qed

lemma I_deactivate: "I s \<Longrightarrow> I (snd (deactivate E s))"
proof -
  assume s: "I s"
  let ?s = "s\<lparr>mActive := False, mQuota := False\<rparr>"
  have 0: "I ?s" by (rule anchored [OF s]) simp_all
  obtain a t1 where a: "drain E ?s = (a, t1)" by (metis surj_pair)
  have 1: "I t1" using I_quiet [OF quiet_drain 0] a by (metis snd_conv)
  obtain b t2 where b: "flushFlows E t1 = (b, t2)" by (metis surj_pair)
  note 2 = I_flush [OF 1 b]
  obtain c t3 where c: "control_with E (notification_inactive E) 3 3 t2 = (c, t3)" by (metis surj_pair)
  have 3: "I t3" using quietly.keeps_control [OF 2] c by (metis snd_conv)
  obtain d t4 where d: "drain E t3 = (d, t4)" by (metis surj_pair)
  have 4: "I t4" using I_quiet [OF quiet_drain 3] d by (metis snd_conv)
  obtain e t5 where e: "deactivate_steps E (control_with E (notification_inactive E) 3 3) ?s = (e, t5)" by (metis surj_pair)
  have 5: "I t5" using e 1 2 3 4 unfolding deactivate_steps_def a prod.case b c d by (auto split: bool.splits)
  have 6: "I (t5\<lparr>mDownstream := []\<rparr>)" by (rule anchored [OF 5]) simp_all
  have 7: "I (snd (disable E (poison t5)))"
    by (rule I_quiet [OF quiet_disable], rule anchored [OF 5]) simp_all
  show ?thesis
    using s 6 7 unfolding deactivate_def deactivate_with_def e prod.case by (auto split: bool.splits)
qed

end

sublocale session_property \<subseteq> fully: driver_loops E "notification E" I
  by unfold_locales
    (auto simp: notification_def quietly.keeps_poison keeps_notice' intro: I_quiet I_notification I_deactivate)


context session_property
begin

lemma I_steps:
  assumes "I s"
  shows "receive E s = (r, s') \<Longrightarrow> I s'" "control E command expected s = (r, s') \<Longrightarrow> I s'"
    "with_world g s = (x, s') \<Longrightarrow> I s'" "request E app msg data s = (y, s') \<Longrightarrow> I s'"
    "deactivate E s = (r, s') \<Longrightarrow> I s'" "disable E s = (r, s') \<Longrightarrow> I s'"
  using fully.keeps_receive [OF assms] fully.keeps_control [OF assms] I_quiet [OF quiet_world assms]
    I_quiet [OF quiet_request assms] I_deactivate [OF assms] I_quiet [OF quiet_disable assms]
  unfolding receive_def control_def by (metis snd_conv)+

lemma I_activate:
  assumes "I s" "activate E desired s = (r, s')"
  shows "I s'"
proof -
  obtain x1 s1 where 1: "with_world (connectionMode E) s = (x1, s1)" by (metis surj_pair)
  note p1 = I_steps(3) [OF assms(1) 1]
  have p1': "I (s1\<lparr>mDownstream := desired\<rparr>)" by (rule anchored [OF p1]) simp_all
  obtain x2 s2 where 2: "control E 2 1 (s1\<lparr>mDownstream := desired\<rparr>) = (x2, s2)" by (metis surj_pair)
  note p2 = I_steps(2) [OF p1' 2]
  have p2': "I (s2\<lparr>mActive := True\<rparr>)" by (rule anchored [OF p2]) simp_all
  obtain x3 s3 where 3: "with_world (connectionMode E) (s2\<lparr>mActive := True\<rparr>) = (x3, s3)" by (metis surj_pair)
  note p3 = I_steps(3) [OF p2' 3]
  obtain x4 s4 where 4: "with_world (sysctl E ''/proc/sys/net/netfilter/nf_conntrack_udp_timeout_stream'' 180) s3 = (x4, s4)"
    by (metis surj_pair)
  note p4 = I_steps(3) [OF p3 4]
  obtain x5 s5 where 5: "with_world (sysctl E ''/proc/sys/net/netfilter/nf_conntrack_tcp_timeout_established'' 432000) s4 = (x5, s5)"
    by (metis surj_pair)
  note p5 = I_steps(3) [OF p4 5]
  obtain x6 s6 where 6: "request E 255 6 (store32 x4 @ store32 x5) s5 = (x6, s6)" by (metis surj_pair)
  note p6 = I_steps(4) [OF p5 6]
  show ?thesis
    using assms(2) p1 p2 keeps_notice' [OF p6] I_deactivate [OF p3] I_deactivate [OF p6]
    unfolding activate_def 1 prod.case 2 3 4 5 6 by (auto split: bool.splits option.splits)
qed

lemma I_reconcile:
  assumes "I s" "reconcile E s = (r, s')"
  shows "I s'"
proof -
  have d: "I t" if "(if c then deactivate E s else (True, s)) = (q, t)" for c q t
    using that assms(1) I_steps(5) [OF assms(1)] by (auto split: if_splits)
  show ?thesis
    using assms d I_activate unfolding reconcile_def by (fastforce split: if_splits option.splits prod.splits bool.splits)
qed

lemma I_inject: "I s \<Longrightarrow> inject E f b d s = (r, s') \<Longrightarrow> I s'"
proof -
  assume s: "I s" and r: "inject E f b d s = (r, s')"
  have send: "I t'" if "I t" "inject_send E f b m t = (q, t')" for m t q t'
  proof -
    obtain y u where y: "request E 255 ((if family f = AF_INET (netc E) then 8 else 10) + (if b then 1 else 0)) (flow_data E f m) t = (y, u)"
      by (metis surj_pair)
    note p = I_steps(4) [OF that(1) y]
    have "I (u\<lparr>mFlows := fs\<rparr>)" for fs by (rule anchored [OF p]) simp_all
    then show ?thesis using that(2) p unfolding inject_send_def y prod.case by (auto split: option.splits if_splits)
  qed
  obtain x s1 where x: "with_world (neighbor E f d) s = (x, s1)" by (metis surj_pair)
  show ?thesis
    using r send [OF s] send [OF I_steps(3) [OF s x]] I_steps(3) [OF s x] unfolding inject_def x prod.case
    by (auto split: if_splits option.splits)
qed

lemma I_conntrack_flow:
  assumes "I s" "conntrack_flow E flow s = (r, s')"
  shows "I s'"
proof (cases "map_of (mFlows s) (key flow)")
  case None
  then show ?thesis using assms I_inject [OF assms(1)] by (auto simp: conntrack_flow_def split: option.splits if_splits)
next
  case (Some old)
  obtain x s1 where x: "inject E old True (mDownstream s) s = (x, s1)" by (metis surj_pair)
  note p1 = I_inject [OF assms(1) x]
  have p2: "I (s1\<lparr>mFlows := fs\<rparr>)" for fs by (rule anchored [OF p1]) simp_all
  show ?thesis
    using assms p1 p2 I_inject [OF p2] unfolding conntrack_flow_def Some option.case Let_def x prod.case
    by (cases x) (auto split: option.splits if_splits)
qed

lemma I_conntrack:
  assumes "I s" "conntrack E fd s = (r, s')"
  shows "I s'"
proof -
  have m: "I t'" if "I t" "conntrack_messages E ms t = (x, t')" for ms t x t'
    using that
  proof (induction ms arbitrary: t)
    case (Cons m ms)
    then show ?case using I_conntrack_flow by (fastforce split: if_splits option.splits bool.splits prod.splits)
  qed simp
  obtain x s1 where x: "with_world (conntrack_recv E fd) s = (x, s1)" by (metis surj_pair)
  show ?thesis
    using assms(2) x I_steps(3) [OF assms(1) x] m [OF I_steps(3) [OF assms(1) x]]
    by (auto simp: conntrack_def split: sum.splits if_splits prod.splits bool.splits)
qed

end


context session_property
begin

lemma I_handlers:
  assumes "I s"
  shows "I (snd (setLocalPrefixes E ps s))" "I (snd (getForwardedStats E u s))" "I (snd (setDataWarningAndLimit E u w l s))"
    "I (snd (setUpstreamParameters E iface a g gs s))" "I (snd (addDownstream E iface p s))" "I (snd (removeDownstream E iface p s))"
proof -
  obtain r t where r: "flushFlows E s = (r, t)" by (metis surj_pair)
  note pr = I_flush [OF assms r]
  have ps: "I (t\<lparr>mPrefixes := ps\<rparr>)" for ps by (rule anchored [OF pr]) simp_all
  show "I (snd (setLocalPrefixes E ps s))"
    using assms pr ps unfolding setLocalPrefixes_def r prod.case by (auto split: bool.splits)
  obtain x1 s1 where x: "(if mInitialized s \<and> u = mUpstream s \<and> mActive s then drain E s else (True, s)) = (x1, s1)"
    by (metis surj_pair)
  have "quiet s s1" using x quiet_drain [of s E] by (auto split: if_splits)
  then have px: "I s1" using I_quiet assms by blast
  have "I (s1\<lparr>mStats := st\<rparr>)" for st by (rule I_quiet [OF quiet_stats px])
  then show "I (snd (getForwardedStats E u s))"
    using assms px unfolding getForwardedStats_def x prod.case by (auto split: bool.splits option.splits)
  obtain y s2 where y: "receive E s = (y, s2)" by (metis surj_pair)
  note py = I_steps(1) [OF assms y]
  obtain z s3 where z: "request E 255 7 (put_list (replicate 16 0) 0 (bytes_of u) @ store64 l @ store64 w) s2 = (z, s3)"
    by (metis surj_pair)
  note pz = I_steps(4) [OF py z]
  have "I (s3\<lparr>mNotices := filter (\<lambda>n. n_event n \<noteq> 6) (mNotices s3), mQuota := True, mWarned := False\<rparr>)"
    by (rule anchored [OF pz]) simp_all
  then show "I (snd (setDataWarningAndLimit E u w l s))"
    using assms py pz unfolding setDataWarningAndLimit_def y prod.case z by (auto split: bool.splits option.splits)
  obtain d s4 where d: "deactivate E s2 = (d, s4)" by (metis surj_pair)
  note pd = I_steps(5) [OF py d]
  let ?s = "s4\<lparr>mUpstream := iface, mV4Address := a, mV4 := (iface \<noteq> [] \<and> a \<noteq> [] \<and> g \<noteq> []), mV6 := (iface \<noteq> [] \<and> gs \<noteq> [])\<rparr>"
  have "I ?s" by (rule anchored [OF pd]) simp_all
  then have "I (snd (reconcile E ?s))" using I_reconcile by (metis prod.collapse)
  then show "I (snd (setUpstreamParameters E iface a g gs s))"
    using assms py pd unfolding setUpstreamParameters_def Let_def y prod.case d by (auto split: bool.splits prod.splits)
  let ?e = "(iface, p)"
  let ?t = "if ?e \<notin> set (mDownstreams s) then s\<lparr>mDownstreams := mDownstreams s @ [?e]\<rparr> else s"
  obtain e s5 where e: "reconcile E ?t = (e, s5)" by (metis surj_pair)
  have "I ?t" by (rule anchored [OF assms]) simp_all
  note pe = I_reconcile [OF this e]
  have "I (s5\<lparr>mDownstreams := ds\<rparr>)" for ds by (rule anchored [OF pe]) simp_all
  then show "I (snd (addDownstream E iface p s))"
    using assms pe unfolding addDownstream_def Let_def e prod.case by (auto split: bool.splits)
  have "I (t\<lparr>mDownstreams := ds\<rparr>)" for ds by (rule anchored [OF pr]) simp_all
  then have "I t'" if "reconcile E (t\<lparr>mDownstreams := ds\<rparr>) = (q, t')" for ds q t' using I_reconcile that by blast
  then show "I (snd (removeDownstream E iface p s))"
    using assms pr unfolding removeDownstream_def r prod.case by (auto split: bool.splits prod.splits)
qed

lemma I_thread:
  assumes "I s"
  shows "I (events_section E s)" "I (deliver s)" "I (snd (poll_prepare E s))" "I (poll_result E gen failed s)"
proof -
  obtain a t1 where a: "receive E s = (a, t1)" by (metis surj_pair)
  note pa = I_steps(1) [OF assms a]
  obtain b t2 where b: "(if mActive t1 then with_world (connectionMode E) t1 else (True, t1)) = (b, t2)" by (metis surj_pair)
  have pb: "I t2" using b pa I_steps(3) [OF pa] by (auto split: if_splits)
  obtain c t3 where c: "conntrack E (mConntrack1 t2) t2 = (c, t3)" by (metis surj_pair)
  note pc = I_conntrack [OF pb c]
  obtain x t4 where x: "events_input E s = (x, t4)" by (metis surj_pair)
  have "I t4" using x pa pb pc I_conntrack [OF pc] unfolding events_input_def a prod.case b c by (auto split: bool.splits)
  then show "I (events_section E s)"
    using assms x fully.keeps_poison keeps_notice' I_quiet [OF quiet_disable] I_deactivate
    by (auto simp: events_section_def split: bool.splits)
  have d: "I (s\<lparr>mNotices := ns\<rparr>)" "I (s\<lparr>mNotices := ns, delivered := ds\<rparr>)" if "mNotices s = n # ns" for n ns ds
    by (rule anchored [OF assms]; simp add: that)+
  show "I (deliver s)"
    using assms d unfolding deliver_def Let_def by (auto split: list.splits option.splits)
  obtain y s1 where y: "with_world (dup_fd E (mConntrack1 s)) s = (y, s1)" by (metis surj_pair)
  obtain z s2 where z: "with_world (dup_fd E (mConntrack2 s1)) s1 = (z, s2)" by (metis surj_pair)
  note pz = I_steps(3) [OF I_steps(3) [OF assms y] z]
  show "I (snd (poll_prepare E s))"
    using assms pz fully.keeps_poison [OF pz] unfolding poll_prepare_def y prod.case z by auto
  show "I (poll_result E gen failed s)"
    using assms fully.keeps_poison I_quiet [OF quiet_disable assms] by (auto simp: poll_result_def)
qed

end

definition session_ok :: "'w mddp \<Rightarrow> bool" where
  "session_ok s \<longleftrightarrow> (\<not> mInitialized s \<longrightarrow> mCallback s = None) \<and> length (mNotices s) \<le> 1024"

interpretation ses: session_property E session_ok for E
  by unfold_locales (auto simp: session_ok_def notice_def poison_def wake_def)

lemma session_initOffload:
  assumes "session_ok s"
  shows "session_ok (snd (initOffload E fd1 fd2 cb s))"
proof -
  obtain x1 s1 where 1: "with_world (both_netfilter E fd1 fd2) s = (x1, s1)" by (metis surj_pair)
  note p1 = ses.I_steps(3) [OF assms 1]
  obtain one s2 where 2: "with_world (dup_fd E fd1) s1 = (one, s2)" by (metis surj_pair)
  note p2 = ses.I_steps(3) [OF p1 2]
  obtain two s3 where 3: "with_world (dup_fd E fd2) s2 = (two, s3)" by (metis surj_pair)
  note p3 = ses.I_steps(3) [OF p2 3]
  let ?s = "s3\<lparr>mGeneration := mGeneration s3 + 1, mNotices := []\<rparr>"
  have p3': "session_ok ?s" using p3 by (simp add: session_ok_def)
  obtain x4 s4 where 4: "control E 0 4 ?s = (x4, s4)" by (metis surj_pair)
  note p4 = ses.I_steps(2) [OF p3' 4]
  obtain x5 s5 where 5: "with_world (connectionMode E) s4 = (x5, s5)" by (metis surj_pair)
  note p5 = ses.I_steps(3) [OF p4 5]
  have p6: "session_ok (wake (s5\<lparr>mCallback := cb, mConntrack1 := one, mConntrack2 := two, mInitialized := True\<rparr>))"
    using p5 by (simp add: session_ok_def wake_def)
  show ?thesis
    using assms p1 p3 p4 p6 ses.I_quiet [OF quiet_disable p5] unfolding initOffload_def 1 prod.case 2 3 4 5
    by (auto split: if_splits bool.splits)
qed

lemma session_stopOffload:
  assumes "session_ok s"
  shows "session_ok (snd (stopOffload E s))"
proof -
  obtain x1 s1 where 1: "(if mReaderFailed s then (True, s) else deactivate E s) = (x1, s1)" by (metis surj_pair)
  have p1: "session_ok s1" using 1 assms ses.I_steps(5) [OF assms] by (auto split: if_splits)
  obtain x2 s2 where 2: "disable E s1 = (x2, s2)" by (metis surj_pair)
  note p2 = ses.I_steps(6) [OF p1 2]
  have "session_ok (stop_clear s2)" by (simp add: stop_clear_def session_ok_def wake_def)
  then show ?thesis
    using assms p1 p2 unfolding stopOffload_def 1 prod.case 2 by (auto split: if_splits bool.splits)
qed


subsection \<open>Reachable states\<close>

text \<open>
  The sections that hold \<open>mLock\<close> interleave freely: calls of the binder interface with any arguments, and
  the sections of the event thread.
\<close>

inductive mddp_step :: "'w env \<Rightarrow> 'w mddp \<Rightarrow> 'w mddp \<Rightarrow> bool" for E where
  step_init: "mddp_step E s (snd (initOffload E fd1 fd2 cb s))"
| step_stop: "mddp_step E s (snd (stopOffload E s))"
| step_prefixes: "mddp_step E s (snd (setLocalPrefixes E ps s))"
| step_stats: "mddp_step E s (snd (getForwardedStats E u s))"
| step_quota: "mddp_step E s (snd (setDataWarningAndLimit E u w l s))"
| step_upstream: "mddp_step E s (snd (setUpstreamParameters E iface a g gs s))"
| step_add: "mddp_step E s (snd (addDownstream E iface p s))"
| step_remove: "mddp_step E s (snd (removeDownstream E iface p s))"
| step_events: "mddp_step E s (events_section E s)"
| step_deliver: "mddp_step E s (deliver s)"
| step_poll_prepare: "mddp_step E s (snd (poll_prepare E s))"
| step_poll_result: "mddp_step E s (poll_result E gen failed s)"

inductive reachable :: "'w env \<Rightarrow> 'w mddp \<Rightarrow> bool" for E where
  reach_new: "reachable E (backend_new device wakefd w)"
| reach_step: "reachable E s \<Longrightarrow> mddp_step E s s' \<Longrightarrow> reachable E s'"

lemma step_policy: "mddp_step E s s' \<Longrightarrow> policy E {} s \<Longrightarrow> policy E {} s'"
proof (induction rule: mddp_step.induct)
  case (step_init s fd1 fd2 cb)
  then show ?case using policy_initOffload by (metis prod.collapse)
next
  case (step_stop s)
  then show ?case using policy_stopOffload by (metis prod.collapse)
next
  case (step_prefixes s ps)
  then show ?case using policy_setLocalPrefixes by (metis prod.collapse)
next
  case (step_stats s u)
  then show ?case using policy_getForwardedStats by (metis prod.collapse)
next
  case (step_quota s u w l)
  then show ?case using policy_setDataWarningAndLimit by (metis prod.collapse)
next
  case (step_upstream s iface a g gs)
  then show ?case using policy_setUpstreamParameters by (metis prod.collapse)
next
  case (step_add s iface p)
  then show ?case using policy_addDownstream by (metis prod.collapse)
next
  case (step_remove s iface p)
  then show ?case using policy_removeDownstream by (metis prod.collapse)
qed (simp_all add: policy_events_section policy_deliver policy_poll)

lemma step_session: "mddp_step E s s' \<Longrightarrow> session_ok s \<Longrightarrow> session_ok s'"
  by (induction rule: mddp_step.induct)
    (simp_all add: session_initOffload session_stopOffload ses.I_handlers ses.I_thread)

lemma reachable_invariants: "reachable E s \<Longrightarrow> policy E {} s \<and> session_ok s"
proof (induction rule: reachable.induct)
  case (reach_new device wakefd w)
  show ?case by (simp add: backend_new_def session_ok_def)
next
  case (reach_step s s')
  then show ?case using step_policy step_session by blast
qed

subsection \<open>A sample environment\<close>

text \<open>
  The world is what the driver has to say, the conntrack datagrams to come, and the text of the mode file. The
  driver answers each control message as it should and each counter query with zeros.
\<close>

definition sample_env :: "(read_result list \<times> datagram list) env" where
  "sample_env =
     \<lparr>netc = sample_net\<lparr>inet_pton := (\<lambda>f s. if f \<noteq> 2 then None
          else if s = ''192.168.0.0'' then Some [192, 168, 0, 0]
          else if s = ''10.0.0.1'' then Some [10, 0, 0, 1] else if s = ''127.0.0.0'' then Some [127, 0, 0, 0] else None)\<rparr>,
      IFNAMSIZ = 16, NLM_F_REQUEST = 1, NLM_F_DUMP = 0x300, NLM_F_ACK = 4, NLM_F_DUMP_INTR = 16, NLMSG_ERROR = 2,
      NLMSG_DONE = 3, NLMSG_OVERRUN = 4, RTM_GETNEIGH = 30, RTM_NEWNEIGH = 28, NDA_DST = 1, NDA_LLADDR = 2, NUD_VALID = 0xde,
      dev_ioctl = (\<lambda>p (rs, cs).
        let msg = load32 p 8
        in if msg = 4 then (Some (packet 0x2454 0 (load32 p 4) 4 128 []), rs, cs)
           else if msg = 0 then (Some p, rs @ [RData (take 20 (packet 0x2454 4 1 0x100 4 []))], cs)
           else if msg = 2 then (Some p, rs @ [RData (take 20 (packet 0x2454 1 1 0x102 4 []))], cs)
           else if msg = 3 then (Some p, rs @ [RData (take 20 (packet 0x2454 3 1 0x103 4 []))], cs)
           else (Some p, rs, cs)),
      dev_read = (\<lambda>(rs, cs). case rs of [] \<Rightarrow> (RAgain, rs, cs) | r # rs' \<Rightarrow> (r, rs', cs)),
      turns_before_deadline = (\<lambda>_. 500),
      first_line = (\<lambda>_ w. (Some ''MDDP is Connection base now'', w)),
      read_number = (\<lambda>_ w. (None, w)),
      route_open = (\<lambda>w. (True, w)),
      route_send = (\<lambda>_ w. (True, w)),
      route_replies = (\<lambda>w.
        ([\<lparr>d_bytes = store32 48 @ store16 28 @ [0, 0] @ store32 1 @ store32 0 @ [2, 0, 0, 0] @ store32 7 @ store16 2 @ [0, 0] @
             store16 8 @ store16 1 @ [192, 168, 0, 7] @ store16 10 @ store16 2 @ [2, 1, 2, 3, 4, 5] @ [0, 0],
           d_trunc = False, d_namelen_ok = True, d_pid = 0\<rparr>,
          \<lparr>d_bytes = store32 20 @ store16 3 @ [0, 0] @ store32 1 @ store32 0 @ store32 0,
           d_trunc = False, d_namelen_ok = True, d_pid = 0\<rparr>], w)),
      if_nametoindex = (\<lambda>_ w. (7, w)),
      conntrack_recv = (\<lambda>_ (rs, cs). case cs of [] \<Rightarrow> (Inr True, rs, cs) | d # cs' \<Rightarrow> (Inl d, rs, cs')),
      is_netfilter_socket = (\<lambda>_ w. (True, w)),
      dup_fd = (\<lambda>fd w. (fd + 10, w))\<rparr>"

definition sample_message :: bytes where
  "sample_message = message_bytes sample_net 0 2 (replicate 12 0) (attrs_bytes (flow_attrs sample_net sample_flow []))"

definition run1 where
  "run1 = (snd (initOffload sample_env 3 4 (Some 1)
     (backend_new 5 6 ([], [\<lparr>d_bytes = sample_message, d_trunc = False, d_namelen_ok = True, d_pid = 0\<rparr>]))))"

definition run2 where
  "run2 = snd (setUpstreamParameters sample_env ''ccmni0'' ''10.0.0.1'' ''10.0.0.1'' [] run1)"

definition run3 where
  "run3 = snd (addDownstream sample_env ''ap0'' ''192.168.0.0/16'' run2)"

definition run4 where
  "run4 = events_section sample_env run3"

lemma run4_reachable: "reachable sample_env run3" "reachable sample_env run4"
proof -
  have 1: "reachable sample_env run1" unfolding run1_def by (rule reach_step [OF reach_new step_init])
  have 2: "reachable sample_env run2" unfolding run2_def by (rule reach_step [OF 1 step_upstream])
  show 3: "reachable sample_env run3" unfolding run3_def by (rule reach_step [OF 2 step_add])
  show "reachable sample_env run4" unfolding run4_def by (rule reach_step [OF 3 step_events])
qed

lemma run4_alive: "\<not> mReaderFailed run4"
  by code_simp

lemma run4_flows: "mFlows run4 = [(key sample_flow, sample_flow\<lparr>mac := [2, 1, 2, 3, 4, 5]\<rparr>)]"
  by code_simp

subsection \<open>Properties\<close>

text \<open>
  C30: what the hardware forwards obeys the policy, in every interleaving of calls, driver notifications and
  conntrack events: as long as the session has not failed, every stored flow is stored under its key,
  the offload is active, the flow's family is enabled, neither of its ends lies in a local prefix and its source
  lies in a prefix of the current downstream.
\<close>

theorem offloaded_flows_permitted:
  assumes "reachable E s" and "\<not> mReaderFailed s" and "(k, f) \<in> set (mFlows s)"
  shows "k = key f \<and> mActive s \<and> (if family f = AF_INET (netc E) then mV4 s else mV6 s) \<and>
    (\<forall>p\<in>set (mPrefixes s). \<not> contains (netc E) p (family f) (src f) \<and> \<not> contains (netc E) p (family f) (dst f)) \<and>
    (\<exists>p. (mDownstream s, p) \<in> set (mDownstreams s) \<and> contains (netc E) p (family f) (src f))"
proof -
  have "policy E {} s" using reachable_invariants [OF assms(1)] by simp
  then have "k = key f" "mActive s" "permitted E {} s f" using assms(2,3) by (auto simp: policy_def)
  then show ?thesis unfolding permitted_def by auto
qed

theorem offloaded_flows_permitted_witness:
  "mActive run4 \<and> mV4 run4 \<and>
   (\<exists>p. (mDownstream run4, p) \<in> set (mDownstreams run4) \<and> contains (netc sample_env) p 2 (src sample_flow))"
proof -
  have "(key sample_flow, sample_flow\<lparr>mac := [2, 1, 2, 3, 4, 5]\<rparr>) \<in> set (mFlows run4)" by (simp add: run4_flows)
  moreover have "family sample_flow = AF_INET (netc sample_env)" "AF_INET (netc sample_env) = 2"
    by (simp_all add: sample_flow_def sample_env_def sample_net_def)
  ultimately show ?thesis using offloaded_flows_permitted [OF run4_reachable(2) run4_alive] by fastforce
qed

text \<open>
  C31: the mutual recursion of \<open>notification\<close>, \<open>receive\<close>, \<open>control\<close> and \<open>deactivate\<close> ends: the total functions defined
  by unfolding it once satisfy the recursive equations of the code.
\<close>

theorem deactivate_recursion:
  "deactivate E s = deactivate_with E (control E 3 3) s \<and>
   notification E app msg stat data s = notification_with E (deactivate E) app msg stat data s \<and>
   receive E s = receive_with E (notification E) s \<and>
   control E command expected s = control_with E (notification E) command expected s"
proof -
  let ?s = "s\<lparr>mActive := False, mQuota := False\<rparr>"
  have "deactivate_steps E (control_with E (notification E) 3 3) ?s =
      deactivate_steps E (control_with E (notification_inactive E) 3 3) ?s"
    unfolding notification_def by (rule deactivate_steps_inactive) simp
  moreover have "control_with E (notification E) 3 3 = control E 3 3" by (rule ext) (simp only: control_def)
  ultimately have 1: "deactivate E s = deactivate_with E (control E 3 3) s"
    unfolding deactivate_def deactivate_with_def by (simp only:)
  show ?thesis
    by (intro conjI, rule 1, simp only: notification_def, rule receive_def, rule control_def)
qed

text \<open>
  the client hears something only during a session: when the event thread calls the callback, the
  service is initialised, the callback is the one of this session and the notice was queued in the current
  generation; and never more than 1024 notices wait.
\<close>

theorem callbacks_only_in_session:
  assumes "reachable E s" and "delivered (deliver s) \<noteq> delivered s"
  shows "mInitialized s \<and> (\<exists>n cb x. hd (mNotices s) = n \<and> mCallback s = Some cb \<and> n_generation n = mGeneration s \<and>
    delivered (deliver s) = delivered s @ [(cb, x)]) \<and> length (mNotices s) \<le> 1024"
proof -
  have ok: "session_ok s" using reachable_invariants [OF assms(1)] by simp
  obtain n ns where n: "mNotices s = n # ns" using assms(2) by (cases "mNotices s") (simp_all add: deliver_def)
  have g: "n_generation n = mGeneration s" using assms(2) n by (rule_tac ccontr) (simp add: deliver_def Let_def)
  obtain cb where cb: "mCallback s = Some cb"
    using assms(2) n g by (cases "mCallback s") (simp_all add: deliver_def)
  then have "mInitialized s" using ok by (auto simp: session_ok_def)
  moreover have "\<exists>x. delivered (deliver s) = delivered s @ [(cb, x)]" using n g cb by (simp add: deliver_def)
  ultimately show ?thesis using n g cb ok by (simp add: session_ok_def)
qed

theorem callbacks_only_in_session_witness: "mInitialized run3 \<and> length (mNotices run3) \<le> 1024"
proof -
  have "delivered (deliver run3) \<noteq> delivered run3" by code_simp
  from callbacks_only_in_session [OF run4_reachable(1) this] show ?thesis by simp
qed

text \<open>
  a call that is refused as illegal changes nothing but what asking the kernel about a descriptor changes:
  no request reaches the driver and no field of the service moves.
\<close>

theorem illegal_calls_change_nothing:
  assumes "call \<in> {initOffload E fd1 fd2 cb, stopOffload E, setLocalPrefixes E ps, setDataWarningAndLimit E u w l,
      setUpstreamParameters E iface a g gs, addDownstream E iface p, removeDownstream E iface p}"
    and "call s = (r, s')" and "r = Illegal_state \<or> r = Illegal_argument"
  shows "\<exists>v. s' = s\<lparr>world := v\<rparr>"
proof -
  have same: "\<exists>v. s = s\<lparr>world := v\<rparr>" by (rule exI [of _ "world s"]) simp
  have w: "\<exists>v. snd (with_world q s) = s\<lparr>world := v\<rparr>" for q by (auto simp: with_world_def split: prod.splits)
  have "s' = s \<or> s' = snd (with_world (both_netfilter E fd1 fd2) s)"
    using assms
    by (elim insertE emptyE)
      (auto simp: initOffload_def stopOffload_def setLocalPrefixes_def setDataWarningAndLimit_def
        setUpstreamParameters_def addDownstream_def removeDownstream_def result_def Let_def
        split: if_splits prod.splits bool.splits option.splits)
  then show ?thesis using same w by metis
qed

definition sample_new :: "(read_result list \<times> datagram list) mddp" where
  "sample_new = backend_new 5 6 ([], [])"

theorem illegal_calls_change_nothing_witness:
  "\<exists>v. snd (stopOffload sample_env sample_new) = sample_new\<lparr>world := v\<rparr>"
proof -
  have i: "stopOffload sample_env sample_new = (Illegal_state, sample_new)"
    by (simp add: stopOffload_def sample_new_def backend_new_def)
  have "\<exists>v. sample_new = sample_new\<lparr>world := v\<rparr>"
    by (rule illegal_calls_change_nothing [where call = "stopOffload sample_env" and E = sample_env, OF _ i]) simp_all
  then show ?thesis using i by simp
qed

text \<open>
  forwarded bytes are counted once: asking for the statistics of the active upstream returns what was
  stored plus what the driver has counted since, saturated at the largest 64-bit number, and leaves nothing stored.
\<close>

theorem forwarded_stats_exact:
  assumes "valid_name E u" and "u = mUpstream s" and "mInitialized s" and "mActive s"
    and "request E 255 4 [] s = (Some data, s1)"
    and "0 \<le> txBytes (stats_of s u)" and "0 \<le> rxBytes (stats_of s u)"
  shows "\<exists>st s'. getForwardedStats E u s = ((Status_ok, st), s') \<and> stats_of s' u = no_stats \<and>
    txBytes st = min INT64_MAX (txBytes (stats_of s u) + uint (get_bytes data 0 8)) \<and>
    rxBytes st = min INT64_MAX (rxBytes (stats_of s u) + uint (get_bytes data 64 8))"
proof -
  have u: "mUpstream s \<noteq> []" using assms(1,2) by (auto simp: valid_name_def)
  have q: "mStats s1 = mStats s" "mUpstream s1 = mUpstream s"
    using assms(5) by (auto simp: request_def with_world_def split: if_splits prod.splits option.splits)
  have add: "add_stat a d = min INT64_MAX (a + uint d)" for a d by (auto simp: add_stat_def)
  show ?thesis
    using assms(1-5) u q by (simp add: getForwardedStats_def drain_def Let_def stats_of_def add)
qed

definition sample_active :: "(read_result list \<times> datagram list) mddp" where
  "sample_active = sample_new\<lparr>mInitialized := True, mActive := True, mUpstream := ''ccmni0'',
     mStats := [''ccmni0'' \<mapsto> \<lparr>rxBytes = 5, txBytes = 7\<rparr>]\<rparr>"

theorem forwarded_stats_exact_witness:
  "\<exists>st s'. getForwardedStats sample_env ''ccmni0'' sample_active = ((Status_ok, st), s') \<and> txBytes st = 7 \<and> rxBytes st = 5"
proof -
  have r: "fst (request sample_env 255 4 [] sample_active) = Some (replicate 128 0)" by code_simp
  have n: "valid_name sample_env ''ccmni0''" by code_simp
  have z: "uint (get_bytes (replicate 128 0) 0 8) = 0" "uint (get_bytes (replicate 128 0) 64 8) = 0" by code_simp+
  have s: "stats_of sample_active ''ccmni0'' = \<lparr>rxBytes = 5, txBytes = 7\<rparr>" "mUpstream sample_active = ''ccmni0''"
      "mInitialized sample_active" "mActive sample_active"
    by (simp_all add: sample_active_def stats_of_def)
  obtain s1 where "request sample_env 255 4 [] sample_active = (Some (replicate 128 0), s1)"
    using r by (metis prod.collapse)
  from forwarded_stats_exact [OF n s(2) [symmetric] s(3,4) this] show ?thesis
    using s(1) z by (auto simp: INT64_MAX_def)
qed

end
