(* ===== verification/Nvcfg_Json.thy ===== *)
theory Nvcfg_Json
  imports Lockout_Store
begin

text \<open>
  Calibration files of the sensor service, \<^verbatim>\<open>src/sensors-hf/NvcfgJson.cpp\<close>: one named array of 32-bit
  integers per file, read by a hand-written parser and replaced through a temporary file. The
  directory, the outcomes of system calls and the contents visible to a crashed process are those of
  \<open>Lockout_Store\<close>; a position in the text is the rest of the text from there.
\<close>

type_synonym i32 = "32 word"

subsection \<open>Text and bytes\<close>

definition text_bytes :: "string \<Rightarrow> bytes" where
  "text_bytes s = map (\<lambda>c. word_of_nat (of_char c)) s"

definition bytes_text :: "bytes \<Rightarrow> string" where
  "bytes_text bs = map (\<lambda>b. char_of (unat b)) bs"

subsection \<open>Reading\<close>

definition isspace :: "char \<Rightarrow> bool" where
  "isspace c \<longleftrightarrow> c = CHR '' '' \<or> (9 \<le> (of_char c :: nat) \<and> (of_char c :: nat) \<le> 13)"

definition skipWs :: "string \<Rightarrow> string" where
  "skipWs s = dropWhile isspace s"

text \<open>\<open>skipWs\<close>, then the check that the next character is \<open>c\<close>, then the step over it.\<close>

definition expect :: "char \<Rightarrow> string \<Rightarrow> string option" where
  "expect c s = (case skipWs s of [] \<Rightarrow> None | x # r \<Rightarrow> if x = c then Some r else None)"

text \<open>The part of \<open>readIntArray\<close> up to the opening bracket: the key and the rest.\<close>

definition read_head :: "string \<Rightarrow> (string \<times> string) option" where
  "read_head text =
     Option.bind (expect CHR ''{'' text) (\<lambda>s.
     Option.bind (expect (CHR 0x22) s) (\<lambda>s.
       let key = takeWhile (\<lambda>c. c \<noteq> CHR 0x22) s in
       case dropWhile (\<lambda>c. c \<noteq> CHR 0x22) s of
         [] \<Rightarrow> None
       | _ # s \<Rightarrow>
           Option.bind (expect CHR '':'' s) (\<lambda>s.
           Option.bind (expect CHR ''['' s) (\<lambda>s. Some (key, s)))))"

text \<open>
  \<open>strtoll\<close> in base ten on an optional sign and digits: the value, clamped to 64 bits, and whether
  \<open>errno\<close> is \<open>ERANGE\<close>.
\<close>

definition strtoll :: "bool \<Rightarrow> string \<Rightarrow> int \<times> bool" where
  "strtoll neg digits =
     (let v = (if neg then - int (digits_val digits) else int (digits_val digits))
      in if v < - (2 ^ 63) then (- (2 ^ 63), True)
         else if v > 2 ^ 63 - 1 then (2 ^ 63 - 1, True)
         else (v, False))"

text \<open>One number: sign, digits, range check.\<close>

definition read_sign :: "string \<Rightarrow> bool \<times> string" where
  "read_sign s =
     (case s of
        [] \<Rightarrow> (False, s)
      | c # r \<Rightarrow> if c = CHR ''-'' then (True, r) else if c = CHR ''+'' then (False, r) else (False, s))"

definition read_number :: "string \<Rightarrow> (i32 \<times> string) option" where
  "read_number s =
     (case read_sign (skipWs s) of (neg, r) \<Rightarrow>
        let digits = takeWhile is_digit r in
        if digits = [] then None
        else
          (case strtoll neg digits of (v, erange) \<Rightarrow>
             if erange \<or> v < - (2 ^ 31) \<or> v > 2 ^ 31 - 1 then None
             else Some (word_of_int v, dropWhile is_digit r)))"

lemma length_skipWs [simp]: "length (skipWs s) \<le> length s"
  by (simp add: skipWs_def length_dropWhile_le)

lemma shorter_dropWhile: "takeWhile P t \<noteq> [] \<Longrightarrow> length (dropWhile P t) < length t"
  by (cases t) (auto simp: length_dropWhile_le less_Suc_eq_le split: if_splits)

lemma read_number_shorter: "read_number s = Some (v, r) \<Longrightarrow> length r < length s"
proof -
  assume a: "read_number s = Some (v, r)"
  obtain neg t where t: "read_sign (skipWs s) = (neg, t)" by (cases "read_sign (skipWs s)")
  have "length t \<le> length s"
    using t by (cases "skipWs s") (auto simp: read_sign_def length_skipWs split: if_splits
        intro: order_trans [OF _ length_skipWs] dest: sym)
  moreover have "length r < length t"
    using a t by (auto simp: read_number_def Let_def shorter_dropWhile split: if_splits prod.splits)
  ultimately show ?thesis by simp
qed

text \<open>The loop over the numbers, behind the opening bracket; the closing bracket is consumed.\<close>

function read_numbers :: "i32 list \<Rightarrow> string \<Rightarrow> (i32 list \<times> string) option" where
  "read_numbers acc s =
     (case read_number s of
        None \<Rightarrow> None
      | Some (v, r) \<Rightarrow>
          (case skipWs r of
             [] \<Rightarrow> None
           | c # r' \<Rightarrow>
               if c = CHR '','' then read_numbers (acc @ [v]) r'
               else if c = CHR '']'' then Some (acc @ [v], r')
               else None))"
  by pat_completeness auto
termination
proof (relation "measure (\<lambda>(acc, s). length s)")
  fix acc :: "i32 list" and s v r c r' and x :: "i32 \<times> string"
  assume "read_number s = Some x" "(v, r) = x" "skipWs r = c # r'"
  then show "((acc @ [v], r'), (acc, s)) \<in> measure (\<lambda>(acc, s). length s)"
    using read_number_shorter [of s v r] length_skipWs [of r] by simp
qed simp

declare read_numbers.simps [simp del]

definition read_array :: "string \<Rightarrow> (i32 list \<times> string) option" where
  "read_array s =
     (case skipWs s of
        c # r \<Rightarrow> if c = CHR '']'' then Some ([], r) else read_numbers [] (c # r)
      | [] \<Rightarrow> read_numbers [] [])"

definition read_end :: "string \<Rightarrow> bool" where
  "read_end s = (case expect CHR ''}'' s of None \<Rightarrow> False | Some r \<Rightarrow> skipWs r = [])"

text \<open>The values, \<open>*outKeyMismatch\<close>, and \<open>*outActualKey\<close> when it is assigned.\<close>

type_synonym parsed = "i32 list option \<times> bool \<times> string option"

definition parse_int_array :: "string \<Rightarrow> string \<Rightarrow> parsed" where
  "parse_int_array expectedKey text =
     (case read_head text of
        None \<Rightarrow> (None, False, None)
      | Some (key, s) \<Rightarrow>
          ((case read_array s of
              None \<Rightarrow> None
            | Some (vs, r) \<Rightarrow> if read_end r then Some vs else None),
           key \<noteq> expectedKey, Some key))"

text \<open>
  \<open>ss << f.rdbuf()\<close>: the stream buffer reads until the end of the file and stops, silently, at the
  first read that fails.
\<close>

fun slurp :: "bytes \<Rightarrow> sysres list \<Rightarrow> bytes \<times> sysres list" where
  "slurp c [] = (c, [])"
| "slurp c (Done # rs) = (c, rs)"
| "slurp c (Fail e # rs) = ([], rs)"
| "slurp c (Short n # rs) =
     (if c = [] then ([], rs)
      else case slurp (drop (Suc n) c) rs of (d, rs') \<Rightarrow> (take (Suc n) c @ d, rs'))"

definition readIntArray :: "string \<Rightarrow> string \<Rightarrow> disk \<Rightarrow> parsed \<times> disk" where
  "readIntArray path expectedKey w =
     (case open_read path w of
        (Inl e, w1) \<Rightarrow> ((None, False, None), w1)
      | (Inr c, w1) \<Rightarrow>
          (case slurp c (script w1) of (d, rs) \<Rightarrow>
             (parse_int_array expectedKey (bytes_text d), w1\<lparr>script := rs\<rparr>)))"

subsection \<open>Writing\<close>

fun render_values :: "i32 list \<Rightarrow> string" where
  "render_values [] = []"
| "render_values [v] = ''      '' @ dec_int (sint v) @ [CHR 0x0A]"
| "render_values (v # vs) = ''      '' @ dec_int (sint v) @ '','' @ [CHR 0x0A] @ render_values vs"

definition render :: "string \<Rightarrow> i32 list \<Rightarrow> string" where
  "render key vs =
     ''{'' @ [CHR 0x0A] @ ''  '' @ [CHR 0x22] @ key @ [CHR 0x22] @ '': ['' @ [CHR 0x0A] @
     render_values vs @ ''    ]'' @ [CHR 0x0A] @ ''}'' @ [CHR 0x0A]"

text \<open>\<open>while (written < text.size())\<close>: whether no write failed, and the disk.\<close>

function put_text :: "bytes \<Rightarrow> string \<Rightarrow> nat \<Rightarrow> disk \<Rightarrow> bool \<times> disk" where
  "put_text text tmp written w =
     (if written < length text then
        (case pop_res (script w) of
           (Fail e, rs) \<Rightarrow>
             if e = EINTR then put_text text tmp written (w\<lparr>script := rs\<rparr>)
             else (False, w\<lparr>script := rs\<rparr>)
         | (q, rs) \<Rightarrow>
             let n = write_count q (length text - written)
             in put_text text tmp (written + n)
                  (set_files ((files w)(tmp \<mapsto> take (written + n) text)) (w\<lparr>script := rs\<rparr>)))
      else (True, w))"
  by pat_completeness auto
termination
  by (relation "measure (\<lambda>(text, t, written, w). length (script w) + (length text - written))")
    (auto simp: set_files_def pop_res_eq)

declare put_text.simps [simp del]

text \<open>\<open>unlink\<close>, its result ignored.\<close>

definition unlink :: "string \<Rightarrow> disk \<Rightarrow> disk" where
  "unlink n w =
     (case sys_call w of
        (Some e, w1) \<Rightarrow> w1
      | (None, w1) \<Rightarrow> set_files ((files w1)(n := None)) w1)"

definition writeIntArrayTmp :: "string \<Rightarrow> string \<Rightarrow> i32 list \<Rightarrow> disk \<Rightarrow> string option \<times> disk" where
  "writeIntArrayTmp path key vs w =
     (let text = text_bytes (render key vs); tmpPath = path @ ''.tmp'' in
      case sys_call w of
        (Some e, w1) \<Rightarrow> (None, w1)
      | (None, w1) \<Rightarrow>
          (case put_text text tmpPath 0 (set_files ((files w1)(tmpPath \<mapsto> [])) w1) of (ok, w2) \<Rightarrow>
             (let (ok', w3) = (if ok then (case sys_call w2 of (e, u) \<Rightarrow> (e = None, u)) else (False, w2));
                  w4 = snd (sys_call w3)
              in if ok' then (Some tmpPath, w4) else (None, unlink tmpPath w4))))"

definition commitAtomicWrite :: "string \<Rightarrow> string \<Rightarrow> disk \<Rightarrow> bool \<times> disk" where
  "commitAtomicWrite tmpPath path w =
     (case sys_call w of
        (Some e, w1) \<Rightarrow> (False, unlink tmpPath w1)
      | (None, w1) \<Rightarrow>
          (let w2 = set_files ((files w1)(path := files w1 tmpPath, tmpPath := None)) w1
           in case sys_call w2 of
                (Some e, w3) \<Rightarrow> (True, w3)
              | (None, w3) \<Rightarrow> (True, snd (sys_call (snd (sys_call w3))))))"

definition writeIntArray :: "string \<Rightarrow> string \<Rightarrow> i32 list \<Rightarrow> disk \<Rightarrow> bool \<times> disk" where
  "writeIntArray path key vs w =
     (case writeIntArrayTmp path key vs w of
        (None, w1) \<Rightarrow> (False, w1)
      | (Some tmpPath, w1) \<Rightarrow> commitAtomicWrite tmpPath path w1)"

subsection \<open>The parser inverts the writer\<close>

lemma bytes_text_bytes [simp]: "bytes_text (text_bytes s) = s"
proof -
  have "char_of (unat (word_of_nat (of_char c) :: u8)) = c" for c
    by (simp add: unat_of_nat take_bit_eq_mod)
  then show ?thesis by (simp add: bytes_text_def text_bytes_def comp_def)
qed

lemma isspace_simps [simp]:
  "isspace CHR '' ''" "isspace (CHR 0x0A)" "\<not> isspace CHR ''{''" "\<not> isspace CHR ''}''"
  "\<not> isspace (CHR 0x22)" "\<not> isspace CHR '':''" "\<not> isspace CHR ''[''" "\<not> isspace CHR '']''"
  "\<not> isspace CHR '',''" "\<not> isspace CHR ''-''"
  by (simp_all add: isspace_def)

lemma skipWs_simps [simp]:
  "skipWs [] = []" "isspace c \<Longrightarrow> skipWs (c # s) = skipWs s" "\<not> isspace c \<Longrightarrow> skipWs (c # s) = c # s"
  by (simp_all add: skipWs_def)

lemma digit_not_special:
  assumes "is_digit c"
  shows "\<not> isspace c" "c \<noteq> CHR ''-''" "c \<noteq> CHR ''+''" "c \<noteq> CHR '']''"
  using assms by (auto simp: is_digit_def isspace_def)

lemma not_digit_simps [simp]: "\<not> is_digit CHR '',''" "\<not> is_digit (CHR 0x0A)"
  by (simp_all add: is_digit_def)

lemma span_dec_nat:
  assumes "\<not> is_digit c"
  shows "takeWhile is_digit (dec_nat n @ c # r) = dec_nat n"
    and "dropWhile is_digit (dec_nat n @ c # r) = c # r"
  using dec_nat_digits [of n] assms
  by (auto simp: list_all_iff takeWhile_append dropWhile_append)

lemma read_number_dec:
  assumes "\<not> is_digit c"
  shows "read_number (dec_int (sint v) @ c # r) = Some (v :: i32, c # r)"
proof -
  have rng: "- (2 ^ 31) \<le> sint v" "sint v < 2 ^ 31"
    using sint_range_size [of v] by (simp_all add: word_size)
  obtain d ds where d: "dec_nat (nat (sint v)) = d # ds" "is_digit d"
    using dec_nat_hd_digit [of "nat (sint v)"] dec_nat_not_Nil [of "nat (sint v)"]
    by (cases "dec_nat (nat (sint v))") auto
  show ?thesis
  proof (cases "sint v < 0")
    case True
    with rng show ?thesis
      by (simp add: dec_int_def read_number_def read_sign_def span_dec_nat [OF assms] strtoll_def)
  next
    case False
    have "read_sign (skipWs (dec_nat (nat (sint v)) @ c # r)) = (False, dec_nat (nat (sint v)) @ c # r)"
      using d digit_not_special [OF d(2)] by (simp add: read_sign_def)
    with False rng show ?thesis
      by (simp add: dec_int_def read_number_def span_dec_nat [OF assms] strtoll_def)
  qed
qed

lemma read_number_indent: "read_number (CHR '' '' # s) = read_number s"
  by (simp add: read_number_def)

lemma read_numbers_render:
  "vs \<noteq> [] \<Longrightarrow> read_numbers acc (render_values vs @ ''    ]'' @ r) = Some (acc @ vs, r)"
proof (induction vs arbitrary: acc rule: render_values.induct)
  case (2 v)
  then show ?case
    by (simp add: read_numbers.simps [of acc] read_number_indent read_number_dec)
next
  case (3 v u vs)
  have "read_numbers (acc @ [v]) (CHR 0x0A # s) = read_numbers (acc @ [v]) s" for s
    by (simp add: read_numbers.simps [of "acc @ [v]"] read_number_def)
  with 3 show ?case
    by (simp add: read_numbers.simps [of acc] read_number_indent read_number_dec)
qed simp

lemma read_array_indent: "read_array (CHR '' '' # s) = read_array s" "read_array (CHR 0x0A # s) = read_array s"
  by (simp_all add: read_array_def)

lemma dec_int_starts:
  obtains c cs where "dec_int i = c # cs" "\<not> isspace c" "c \<noteq> CHR '']''"
proof (cases "i < 0")
  case True
  then show ?thesis by (intro that [of "CHR ''-''"]) (simp_all add: dec_int_def)
next
  case False
  then show ?thesis
    using dec_nat_hd_digit [of "nat i"] dec_nat_not_Nil [of "nat i"]
    by (cases "dec_nat (nat i)") (auto simp: dec_int_def dest: digit_not_special intro!: that)
qed

lemma read_numbers_indent: "read_numbers acc (CHR '' '' # s) = read_numbers acc s"
  by (simp add: read_numbers.simps [of acc] read_number_indent)

lemma read_array_render: "read_array (render_values vs @ ''    ]'' @ r) = Some (vs, r)"
proof (cases vs)
  case Nil
  then show ?thesis by (simp add: read_array_def)
next
  case (Cons v us)
  obtain c cs where "dec_int (sint v) = c # cs" "\<not> isspace c" "c \<noteq> CHR '']''"
    by (rule dec_int_starts)
  then have "read_array (render_values vs @ ''    ]'' @ r) =
      read_numbers [] (render_values vs @ ''    ]'' @ r)"
    using Cons by (cases us) (simp_all add: read_array_def read_numbers_indent)
  with Cons show ?thesis using read_numbers_render [of vs "[]" r] by simp
qed

lemma read_head_render:
  assumes "CHR 0x22 \<notin> set key"
  shows "read_head (render key vs) =
    Some (key, CHR 0x0A # render_values vs @ ''    ]'' @ CHR 0x0A # ''}'' @ [CHR 0x0A])"
proof -
  have "takeWhile (\<lambda>c. c \<noteq> CHR 0x22) (key @ CHR 0x22 # s) = key"
    "dropWhile (\<lambda>c. c \<noteq> CHR 0x22) (key @ CHR 0x22 # s) = CHR 0x22 # s" for s
    using assms by (auto simp: takeWhile_append dropWhile_append)
  then show ?thesis
    by (simp add: read_head_def render_def expect_def)
qed

lemma parse_render:
  "CHR 0x22 \<notin> set key \<Longrightarrow> parse_int_array k (render key vs) = (Some vs, key \<noteq> k, Some key)"
  using read_array_render [of vs "CHR 0x0A # ''}'' @ [CHR 0x0A]"]
  by (simp add: parse_int_array_def read_head_render read_array_indent read_end_def expect_def)


subsection \<open>Replacing a file\<close>

lemma put_text_visits:
  assumes "put_text bs t written w = (ok, w')" "files w t = Some (take written bs)"
  shows "visits (only t (files w)) w w' \<and> (ok \<longrightarrow> files w' t = Some bs)"
  using assms
proof (induction bs t written w arbitrary: ok w' rule: put_text.induct)
  case (1 bs t written w)
  show ?case
  proof (cases "written < length bs")
    case False
    with 1 show ?thesis by (auto simp: put_text.simps [of bs t written w] only_def visits_refl)
  next
    case True
    obtain q rs where pop: "pop_res (script w) = (q, rs)" by (cases "pop_res (script w)")
    let ?w = "w\<lparr>script := rs\<rparr>"
    show ?thesis
    proof (cases "\<exists>e. q = Fail e")
      case fail: True
      have "visits (only t (files w)) w ?w" by (simp add: visits_def only_def)
      with 1 True pop fail show ?thesis
        by (fastforce simp: put_text.simps [of bs t written w] visits_def split: if_splits)
    next
      case False
      let ?n = "write_count q (length bs - written)"
      let ?d = "(files w)(t \<mapsto> take (written + ?n) bs)"
      have rec: "put_text bs t (written + ?n) (set_files ?d ?w) = (ok, w')"
        using "1.prems"(1) True pop False by (cases q) (simp_all add: put_text.simps [of bs t written w] Let_def)
      have "visits (only t ?d) (set_files ?d ?w) w' \<and> (ok \<longrightarrow> files w' t = Some bs)"
      proof (cases q)
        case Done
        show ?thesis
          using "1.IH"(1) [OF True pop [symmetric] Done _ rec] by (simp add: Done fun_upd_def)
      next
        case (Short k)
        show ?thesis
          using "1.IH"(3) [OF True pop [symmetric] Short _ rec] by (simp add: Short fun_upd_def)
      qed (use False in simp)
      then show ?thesis
        by (auto simp: visits_def only_def set_files_def)
    qed
  qed
qed

lemma put_text_clean:
  assumes "script w = []"
  shows "\<exists>w'. put_text bs t 0 w = (True, w') \<and> script w' = []"
proof (cases "bs = []")
  case True
  with assms show ?thesis by (simp add: put_text.simps [of "[]"])
next
  case False
  with assms show ?thesis
    by (simp add: put_text.simps [of bs t 0] put_text.simps [of bs t "length bs"] set_files_def)
qed

lemma writeIntArray_clean:
  assumes "script w = []"
  shows "\<exists>w'. writeIntArray path key vs w = (True, w') \<and> script w' = []"
proof -
  let ?t = "path @ ''.tmp''"
  obtain w1 where w1: "put_text (text_bytes (render key vs)) ?t 0 (set_files ((files w)(?t \<mapsto> [])) w) = (True, w1)"
    "script w1 = []"
    using put_text_clean [of "set_files ((files w)(?t \<mapsto> [])) w"] assms by auto
  then show ?thesis
    using assms by (simp add: writeIntArray_def writeIntArrayTmp_def commitAtomicWrite_def Let_def)
qed

lemma unlink_frame: "files (unlink n w) = files w \<or> files (unlink n w) = (files w)(n := None)"
    "set (hist (unlink n w)) \<subseteq> insert (files (unlink n w)) (set (hist w))"
  using sys_call_frame [of w]
  by (auto simp: unlink_def set_files_def split: prod.splits option.splits)

lemma visits_unlink:
  assumes "visits P v w" "P (files w)" "P ((files w)(n := None))"
  shows "visits P v (unlink n w)"
  using assms unlink_frame [where n = n and w = w] by (auto simp: visits_def)

lemma visits_mono: "visits P w w' \<Longrightarrow> (\<And>d. P d \<Longrightarrow> Q d) \<Longrightarrow> visits Q w w'"
  by (auto simp: visits_def)

lemma visits_call: "sys_call v = (e, v') \<Longrightarrow> visits P w v' \<longleftrightarrow> visits P w v"
  using sys_call_frame [of v] by (simp add: visits_def)

lemma writeIntArrayTmp_visits:
  assumes "writeIntArrayTmp path key vs w = (q, w')"
  shows "visits (only (path @ ''.tmp'') (files w)) w w' \<and>
    (\<forall>t. q = Some t \<longrightarrow> t = path @ ''.tmp'' \<and> files w' t = Some (text_bytes (render key vs)))"
proof -
  let ?t = "path @ ''.tmp''" and ?text = "text_bytes (render key vs)"
  let ?P = "only ?t (files w)"
  obtain e w1 where c1: "sys_call w = (e, w1)" by (cases "sys_call w")
  then have v1: "visits ?P w w1" "files w1 = files w"
    using sys_call_frame [of w] by (simp_all add: visits_def only_def)
  let ?w1 = "set_files ((files w1)(?t \<mapsto> [])) w1"
  obtain ok w2 where p: "put_text ?text ?t 0 ?w1 = (ok, w2)" by (cases "put_text ?text ?t 0 ?w1")
  note pv = put_text_visits [OF p]
  obtain f w3 where c3: "sys_call w2 = (f, w3)" by (cases "sys_call w2")
  have v2: "visits ?P w w2"
    using pv v1 by (auto simp: visits_def only_def set_files_def)
  moreover have "?P (files w2)" "?P ((files w2)(?t := None))"
    using v2 by (simp_all add: visits_def only_def)
  ultimately show ?thesis
    using assms c1 v1 p pv c3 sys_call_frame [of w2] sys_call_frame [of w3]
    by (auto simp: writeIntArrayTmp_def Let_def visits_sys_call frame_simps visits_call [OF c3]
        intro!: visits_unlink split: option.splits if_splits)
qed

lemma commitAtomicWrite_visits:
  assumes "commitAtomicWrite (path @ ''.tmp'') path w = (ok, w')" "files w (path @ ''.tmp'') = Some text"
  shows "visits (evolved path text (files w)) w w' \<and> (ok \<longrightarrow> files w' path = Some text)"
proof -
  let ?t = "path @ ''.tmp''"
  obtain e w1 where c1: "sys_call w = (e, w1)" by (cases "sys_call w")
  then have f1: "files w1 = files w" "hist w1 = hist w"
    using sys_call_frame [of w] by simp_all
  let ?w2 = "set_files ((files w1)(path := files w1 ?t, ?t := None)) w1"
  obtain f w3 where c2: "sys_call ?w2 = (f, w3)" by (cases "sys_call ?w2")
  then have f3: "files w3 = files ?w2" "hist w3 = hist ?w2"
    using sys_call_frame [of ?w2] by simp_all
  have v1: "visits (evolved path text (files w)) w (unlink ?t w1)"
    using f1 by (intro visits_unlink) (auto simp: visits_def evolved_def)
  have v2: "visits (evolved path text (files w)) w v"
    if "files v = files ?w2" "hist v = hist ?w2" for v
    using that f1 assms(2) by (auto simp: visits_def evolved_def set_files_def)
  show ?thesis
    using assms c1 c2 v1 v2 f1 f3
    by (auto simp: commitAtomicWrite_def Let_def frame_simps split: option.splits)
qed

lemma writeIntArray_visits:
  assumes "writeIntArray path key vs w = (ok, w')"
  shows "visits (evolved path (text_bytes (render key vs)) (files w)) w w' \<and>
    (ok \<longrightarrow> files w' path = Some (text_bytes (render key vs)))"
proof -
  obtain q w1 where t: "writeIntArrayTmp path key vs w = (q, w1)"
    by (cases "writeIntArrayTmp path key vs w")
  note tv = writeIntArrayTmp_visits [OF t]
  have evolve: "only (path @ ''.tmp'') (files w) d \<Longrightarrow> evolved path r (files w) d" for d r
    by (simp add: only_def evolved_def)
  show ?thesis
  proof (cases q)
    case None
    with assms t tv evolve show ?thesis by (auto simp: writeIntArray_def visits_def)
  next
    case (Some tmp)
    with tv have tmp: "tmp = path @ ''.tmp''" "files w1 (path @ ''.tmp'') = Some (text_bytes (render key vs))"
      by auto
    with assms t Some have c: "commitAtomicWrite (path @ ''.tmp'') path w1 = (ok, w')"
      by (simp add: writeIntArray_def)
    have step: "evolved path r (files w1) d \<Longrightarrow> evolved path r (files w) d" for d r
      using tv by (auto simp: visits_def only_def evolved_def)
    note cv = commitAtomicWrite_visits [OF c tmp(2)]
    from cv visits_trans [OF conjunct1 [OF tv] conjunct1 [OF cv] evolve step] show ?thesis
      by simp
  qed
qed


subsection \<open>The contract of an atomic file replacement\<close>

text \<open>
  A writer replaces the file \<open>name\<close>: at every moment the file holds what it held or the whole new
  contents, and it holds the new contents after a success. Both the lockout store's and the
  calibration files' writer satisfy it; the consequence for a history of writes is proved once.
\<close>

locale file_replacer =
  fixes wr :: "'v \<Rightarrow> disk \<Rightarrow> bool \<times> disk"
    and name :: string
    and enc :: "'v \<Rightarrow> bytes"
  assumes replaces: "wr v w = (ok, w') \<Longrightarrow>
    visits (evolved name (enc v) (files w)) w w' \<and> (ok \<longrightarrow> files w' name = Some (enc v))"
begin

abbreviation wr_all :: "'v list \<Rightarrow> disk \<Rightarrow> disk" where
  "wr_all vs w \<equiv> foldl (\<lambda>u v. snd (wr v u)) w vs"

lemma old_or_written:
  "visits (\<lambda>d. d name = files w name \<or> d name \<in> (\<lambda>v. Some (enc v)) ` set vs) w (wr_all vs w)"
proof (induction vs arbitrary: w)
  case Nil
  show ?case by (simp add: visits_def)
next
  case (Cons v vs)
  obtain ok w1 where w1: "wr v w = (ok, w1)" by (cases "wr v w")
  have first: "visits (evolved name (enc v) (files w)) w w1"
    using replaces [OF w1] by simp
  then have "files w1 name = files w name \<or> files w1 name = Some (enc v)"
    by (simp add: visits_def evolved_def)
  then have "visits (\<lambda>d. d name = files w name \<or> d name \<in> (\<lambda>v. Some (enc v)) ` set (v # vs)) w (wr_all vs w1)"
    by (intro visits_trans [OF first Cons.IH [of w1]]) (auto simp: evolved_def)
  with w1 show ?case by simp
qed

lemma others_kept:
  assumes "n \<noteq> name" "n \<noteq> name @ ''.tmp''"
  shows "files (wr_all vs w) n = files w n"
proof (induction vs arbitrary: w)
  case (Cons v vs)
  obtain ok w1 where w1: "wr v w = (ok, w1)" by (cases "wr v w")
  with replaces [OF w1] assms Cons.IH [of w1] show ?case
    by (simp add: visits_def evolved_def)
qed simp

end

interpretation ints: file_replacer "writeIntArray path key" path "\<lambda>vs. text_bytes (render key vs)" for path key
  by unfold_locales (rule writeIntArray_visits)

interpretation recs: file_replacer "\<lambda>st. writeRecord name (encode u st m)" name "\<lambda>st. encode u st m" for name u m
  by unfold_locales (rule writeRecord_visits [OF _ length_encode])

subsection \<open>Properties\<close>

text \<open>What a process reads from a directory when no system call fails.\<close>

definition stored_values :: "string \<Rightarrow> string \<Rightarrow> directory \<Rightarrow> i32 list option" where
  "stored_values path key d =
     fst (fst (readIntArray path key \<lparr>files = d, script = [], hist = []\<rparr>))"

lemma stored_values_eq:
  "stored_values path key d =
     (case d path of None \<Rightarrow> None | Some c \<Rightarrow> fst (parse_int_array key (bytes_text c)))"
  by (auto simp: stored_values_def readIntArray_def open_read_def split: option.splits)

lemma stored_after_write:
  "d path = Some (text_bytes (render key vs)) \<Longrightarrow> CHR 0x22 \<notin> set key \<Longrightarrow>
   stored_values path k d = Some vs"
  by (simp add: stored_values_eq parse_render)

text \<open>
  C38: after any sequence of writes of a calibration file, whatever system calls failed, were short or
  were interrupted, a process started at any moment (also in the middle of a write) reads either the
  values stored before or exactly the values of one of these writes, never a mixture; and a write
  that reported success is read back exactly.
\<close>

theorem nvcfg_write_atomic:
  assumes "CHR 0x22 \<notin> set key"
  shows "visits (\<lambda>d. stored_values path k d = stored_values path k (files w) \<or>
             stored_values path k d \<in> Some ` set vss) w
           (foldl (\<lambda>u vs. snd (writeIntArray path key vs u)) w vss) \<and>
         (writeIntArray path key vs w = (True, w') \<longrightarrow> stored_values path k (files w') = Some vs)"
proof
  have "stored_values path k d = stored_values path k (files w) \<or> stored_values path k d \<in> Some ` set vss"
    if "d path = files w path \<or> d path \<in> (\<lambda>vs. Some (text_bytes (render key vs))) ` set vss" for d
    using that stored_after_write [OF _ assms] by (auto simp: stored_values_eq)
  then show "visits (\<lambda>d. stored_values path k d = stored_values path k (files w) \<or>
      stored_values path k d \<in> Some ` set vss) w (foldl (\<lambda>u vs. snd (writeIntArray path key vs u)) w vss)"
    by (rule visits_mono [OF ints.old_or_written])
  show "writeIntArray path key vs w = (True, w') \<longrightarrow> stored_values path k (files w') = Some vs"
    using ints.replaces [of path key vs w True w'] stored_after_write [OF _ assms] by simp
qed

theorem nvcfg_write_atomic_witness:
  "visits (\<lambda>d. stored_values ''a'' ''k'' d = None \<or> stored_values ''a'' ''k'' d \<in> {Some [1], Some [2, -3]})
     blank_disk (snd (writeIntArray ''a'' ''k'' [2, -3] (snd (writeIntArray ''a'' ''k'' [1] blank_disk)))) \<and>
   fst (writeIntArray ''a'' ''k'' [1, -1] blank_disk)"
proof
  show "visits (\<lambda>d. stored_values ''a'' ''k'' d = None \<or> stored_values ''a'' ''k'' d \<in> {Some [1], Some [2, -3]})
     blank_disk (snd (writeIntArray ''a'' ''k'' [2, -3] (snd (writeIntArray ''a'' ''k'' [1] blank_disk))))"
    using nvcfg_write_atomic [of "''k''" "''a''" "''k''" blank_disk "[[1], [2, -3]]"]
    by (simp add: stored_values_eq)
  show "fst (writeIntArray ''a'' ''k'' [1, -1] blank_disk)"
    using writeIntArray_clean [of blank_disk "''a''" "''k''" "[1, -1]"] by auto
qed

end
