(* ===== verification/Hf_Client.thy ===== *)
theory Hf_Client
  imports Nvcfg_Json
begin

text \<open>
  The client of the sensor hub driver, \<^verbatim>\<open>src/sensors-hf/HfManagerClient.cpp\<close>, with the record layouts
  of \<^verbatim>\<open>hf_manager_uapi.h\<close> and the wire core \<^verbatim>\<open>rust/lib.rs\<close> behind \<^verbatim>\<open>rust/ffi.rs\<close>.

  The source has two builds: plain C++, and one with \<^verbatim>\<open>MINDONE_HF_RUST_WIRE\<close> in which commands are
  encoded and events decoded by the Rust core. The switch is the Boolean argument \<open>rust\<close> of every
  operation whose body depends on it.

  The driver behind \<^verbatim>\<open>/dev/hf_manager\<close> is a parameter: a record of functions on a kernel state of any
  type. A failing system call returns \<open>Inl\<close> of its error number. Times are in milliseconds.
\<close>

subsection \<open>Records of the driver interface\<close>

record hf_manager_cmd =
  c_sensor_type :: u8
  c_action :: u8
  c_down_sample :: u8
  c_length :: u8
  c_data :: bytes

text \<open>The value \<^verbatim>\<open>hf_manager_cmd cmd{}\<close> and the bytes of a command in memory: \<open>action\<close> has 4 bits.\<close>

definition zero_cmd :: hf_manager_cmd where
  "zero_cmd = \<lparr>c_sensor_type = 0, c_action = 0, c_down_sample = 0, c_length = 0, c_data = replicate 48 0\<rparr>"

definition cmd_bytes :: "hf_manager_cmd \<Rightarrow> bytes" where
  "cmd_bytes c =
     [c_sensor_type c, take_bit 4 (c_action c) OR push_bit 4 (take_bit 1 (c_down_sample c)), c_length c, 0] @ c_data c"

record hf_manager_event =
  e_timestamp :: u64
  e_sensor_type :: u8
  e_accurancy :: u8
  e_action :: u8
  e_padding :: u8
  e_word :: "i32 list"

definition event_words :: "bytes \<Rightarrow> i32 list" where
  "event_words b = map (\<lambda>i. ucast (get_bytes b (12 + 4 * i) 4)) [0..<16]"

text \<open>A record of 76 bytes read as the structure.\<close>

definition event_of_bytes :: "bytes \<Rightarrow> hf_manager_event" where
  "event_of_bytes b =
     \<lparr>e_timestamp = get_bytes b 0 8, e_sensor_type = b ! 8, e_accurancy = b ! 9, e_action = b ! 10,
      e_padding = b ! 11, e_word = event_words b\<rparr>"

record sensor_info =
  si_sensor_type :: u8
  si_gain :: u32
  si_name :: bytes
  si_vendor :: bytes

definition info_of_bytes :: "bytes \<Rightarrow> sensor_info" where
  "info_of_bytes b =
     \<lparr>si_sensor_type = b ! 0, si_gain = ucast (get_bytes b 4 4), si_name = take 16 (drop 8 b),
      si_vendor = take 16 (drop 24 b)\<rparr>"

text \<open>\<open>ioctl_packet\<close>: \<open>status\<close> is the first byte of the union.\<close>

record ioctl_packet =
  p_sensor_type :: u8
  p_byte :: bytes

definition packet_for :: "u8 \<Rightarrow> ioctl_packet" where
  "packet_for t = \<lparr>p_sensor_type = t, p_byte = replicate 64 0\<rparr>"

definition SENSOR_TYPE_SENSOR_MAX :: nat where
  "SENSOR_TYPE_SENSOR_MAX = 78"

datatype hf_request = REGISTER_STATUS | BIAS_DATA | CALI_DATA | TEMP_DATA | SENSOR_INFO | READY_STATUS

record 'k driver =
  dv_open :: "'k \<Rightarrow> nat option \<times> 'k"
  dv_ioctl :: "hf_request \<Rightarrow> ioctl_packet \<Rightarrow> 'k \<Rightarrow> (nat + ioctl_packet) \<times> 'k"
  dv_write :: "bytes \<Rightarrow> 'k \<Rightarrow> (nat + nat) \<times> 'k"
  dv_poll :: "int \<Rightarrow> 'k \<Rightarrow> (nat + (nat \<times> u16)) \<times> 'k"
  dv_read :: "nat \<Rightarrow> 'k \<Rightarrow> (nat + bytes) \<times> 'k"
  dv_sleep :: "nat \<Rightarrow> 'k \<Rightarrow> 'k"
  dv_now :: "'k \<Rightarrow> int \<times> 'k"

record 'k hf =
  hf_open :: bool
  kern :: 'k

definition EBADF :: nat where
  "EBADF = 9"

text \<open>System calls on \<open>fd_\<close>: without an open device they fail.\<close>

definition hf_ioctl :: "'k driver \<Rightarrow> hf_request \<Rightarrow> ioctl_packet \<Rightarrow> 'k hf \<Rightarrow> (nat + ioctl_packet) \<times> 'k hf" where
  "hf_ioctl dv r p h =
     (if hf_open h then (case dv_ioctl dv r p (kern h) of (q, k) \<Rightarrow> (q, h\<lparr>kern := k\<rparr>)) else (Inl EBADF, h))"

definition hf_write :: "'k driver \<Rightarrow> bytes \<Rightarrow> 'k hf \<Rightarrow> bool \<times> 'k hf" where
  "hf_write dv b h =
     (if hf_open h then
        (case dv_write dv b (kern h) of
           (Inl e, k) \<Rightarrow> (False, h\<lparr>kern := k\<rparr>)
         | (Inr n, k) \<Rightarrow> (True, h\<lparr>kern := k\<rparr>))
      else (False, h))"

subsection \<open>The Rust core\<close>

datatype rs_error = RLength | RSensor | RAction | RAccuracy | RTiming | RCapacity | RState

fun rs_status :: "rs_error \<Rightarrow> int" where
  "rs_status RLength = -1"
| "rs_status RSensor = -2"
| "rs_status RAction = -3"
| "rs_status RAccuracy = -4"
| "rs_status RTiming = -5"
| "rs_status RCapacity = -6"
| "rs_status RState = -7"

definition rs_sensor :: "u8 \<Rightarrow> rs_error + u8" where
  "rs_sensor t = (if t = 0 \<or> unat t \<ge> SENSOR_TYPE_SENSOR_MAX then Inl RSensor else Inr t)"

definition rs_enable_command :: "u8 \<Rightarrow> bool \<Rightarrow> u64 \<Rightarrow> u64 \<Rightarrow> rs_error + bytes" where
  "rs_enable_command t enabled delay latency =
     (case rs_sensor t of
        Inl e \<Rightarrow> Inl e
      | Inr _ \<Rightarrow>
          if sint delay < 0 \<or> sint latency < 0 then Inl RTiming
          else Inr (put_bytes (put_bytes ((replicate 52 0)[0 := t, 1 := if enabled then 1 else 0, 2 := 16])
                 4 delay 8) 12 latency 8))"

definition rs_flush_command :: "u8 \<Rightarrow> rs_error + bytes" where
  "rs_flush_command t =
     (case rs_sensor t of Inl e \<Rightarrow> Inl e | Inr _ \<Rightarrow> Inr ((replicate 52 0)[0 := t, 1 := 2]))"

definition rs_calibration_command :: "u8 \<Rightarrow> bytes \<Rightarrow> rs_error + bytes" where
  "rs_calibration_command t data =
     (case rs_sensor t of
        Inl e \<Rightarrow> Inl e
      | Inr _ \<Rightarrow>
          if length data > 48 then Inl RLength
          else Inr (put_list ((replicate 52 0)[0 := t, 1 := 4, 2 := word_of_nat (length data)]) 4 data))"

text \<open>\<open>store_command\<close> of the foreign-function layer: the status, and the bytes written on status 0.\<close>

definition store_command :: "rs_error + bytes \<Rightarrow> bytes \<Rightarrow> int \<times> bytes" where
  "store_command r out = (case r of Inl e \<Rightarrow> (rs_status e, out) | Inr b \<Rightarrow> (0, b @ drop (length b) out))"

definition mindone_hf_enable_command :: "u8 \<Rightarrow> u8 \<Rightarrow> u64 \<Rightarrow> u64 \<Rightarrow> bytes \<Rightarrow> int \<times> bytes" where
  "mindone_hf_enable_command t enabled delay latency out =
     (if enabled > 1 then (-1, out)
      else if length out < 52 then (-1, out)
      else store_command (rs_enable_command t (enabled \<noteq> 0) delay latency) out)"

definition mindone_hf_flush_command :: "u8 \<Rightarrow> bytes \<Rightarrow> int \<times> bytes" where
  "mindone_hf_flush_command t out =
     (if length out < 52 then (-1, out) else store_command (rs_flush_command t) out)"

definition mindone_hf_calibration_command :: "u8 \<Rightarrow> bytes \<Rightarrow> bytes \<Rightarrow> int \<times> bytes" where
  "mindone_hf_calibration_command t data out =
     (if length data > 48 then (-1, out)
      else if length out < 52 then (-1, out)
      else store_command (rs_calibration_command t data) out)"

text \<open>\<open>Action::try_from\<close> accepts 0 to 6.\<close>

definition rs_action :: "u8 \<Rightarrow> rs_error + u8" where
  "rs_action a = (if a \<le> 6 then Inr a else Inl RAction)"

definition rs_decode_event :: "bytes \<Rightarrow> rs_error + hf_manager_event" where
  "rs_decode_event b =
     (if length b \<noteq> 76 then Inl RLength
      else case rs_sensor (b ! 8) of
        Inl e \<Rightarrow> Inl e
      | Inr t \<Rightarrow>
          (case rs_action (b ! 10) of
             Inl e \<Rightarrow> Inl e
           | Inr a \<Rightarrow>
               if a = 0 \<and> b ! 9 > 3 then Inl RAccuracy
               else Inr \<lparr>e_timestamp = get_bytes b 0 8, e_sensor_type = t, e_accurancy = b ! 9, e_action = a,
                         e_padding = 0, e_word = event_words b\<rparr>))"

definition rs_decode_info :: "bytes \<Rightarrow> rs_error + sensor_info" where
  "rs_decode_info b =
     (if length b \<noteq> 40 then Inl RLength
      else case rs_sensor (b ! 0) of
        Inl e \<Rightarrow> Inl e
      | Inr t \<Rightarrow> Inr (info_of_bytes b\<lparr>si_sensor_type := t\<rparr>))"

subsection \<open>The client\<close>

definition kOpenRetries :: nat where
  "kOpenRetries = 20"

definition kOpenRetryDelayMs :: nat where
  "kOpenRetryDelayMs = 100"

text \<open>\<open>for (attempt = 0; attempt < kOpenRetries; ++attempt)\<close>, counted by the attempts left.\<close>

primrec open_loop :: "'k driver \<Rightarrow> nat \<Rightarrow> 'k hf \<Rightarrow> bool \<times> 'k hf" where
  "open_loop dv 0 h = (False, h)"
| "open_loop dv (Suc left) h =
     (case dv_open dv (kern h) of
        (None, k) \<Rightarrow> (True, h\<lparr>hf_open := True, kern := k\<rparr>)
      | (Some e, k) \<Rightarrow>
          if e \<noteq> ENOENT then (False, h\<lparr>hf_open := False, kern := k\<rparr>)
          else open_loop dv left (h\<lparr>hf_open := False, kern := dv_sleep dv kOpenRetryDelayMs k\<rparr>))"

definition open_device :: "'k driver \<Rightarrow> 'k hf \<Rightarrow> bool \<times> 'k hf" where
  "open_device dv h = open_loop dv kOpenRetries h"

definition p_status :: "ioctl_packet \<Rightarrow> u8" where
  "p_status p = p_byte p ! 0"

definition queryReady :: "'k driver \<Rightarrow> 'k hf \<Rightarrow> bool \<times> 'k hf" where
  "queryReady dv h =
     (case hf_ioctl dv READY_STATUS (packet_for 0) h of
        (Inl e, h1) \<Rightarrow> (False, h1)
      | (Inr p, h1) \<Rightarrow> (p_status p \<noteq> 0, h1))"

definition queryRegistered :: "'k driver \<Rightarrow> u8 \<Rightarrow> 'k hf \<Rightarrow> bool \<times> 'k hf" where
  "queryRegistered dv t h =
     (case hf_ioctl dv REGISTER_STATUS (packet_for t) h of
        (Inl e, h1) \<Rightarrow> (False, h1)
      | (Inr p, h1) \<Rightarrow> (p_status p \<noteq> 0, h1))"

text \<open>The information copied out on success.\<close>

definition querySensorInfo :: "bool \<Rightarrow> 'k driver \<Rightarrow> u8 \<Rightarrow> 'k hf \<Rightarrow> sensor_info option \<times> 'k hf" where
  "querySensorInfo rust dv t h =
     (case hf_ioctl dv SENSOR_INFO (packet_for t) h of
        (Inl e, h1) \<Rightarrow> (None, h1)
      | (Inr p, h1) \<Rightarrow>
          if rust then
            (case rs_decode_info (take 40 (p_byte p)) of
               Inl e \<Rightarrow> (None, h1)
             | Inr i \<Rightarrow> (if si_sensor_type i \<noteq> t then None else Some i, h1))
          else (Some (info_of_bytes (take 40 (p_byte p))), h1))"

text \<open>\<open>for (int t = 1; t < SENSOR_TYPE_SENSOR_MAX; ++t)\<close> over the given types.\<close>

primrec count_loop :: "'k driver \<Rightarrow> nat list \<Rightarrow> nat \<Rightarrow> 'k hf \<Rightarrow> nat \<times> 'k hf" where
  "count_loop dv [] n h = (n, h)"
| "count_loop dv (t # ts) n h =
     (case queryRegistered dv (word_of_nat t) h of (b, h1) \<Rightarrow> count_loop dv ts (if b then n + 1 else n) h1)"

definition countRegisteredSensors :: "'k driver \<Rightarrow> 'k hf \<Rightarrow> nat \<times> 'k hf" where
  "countRegisteredSensors dv h = count_loop dv [1..<SENSOR_TYPE_SENSOR_MAX] 0 h"

definition hf_now :: "'k driver \<Rightarrow> 'k hf \<Rightarrow> int \<times> 'k hf" where
  "hf_now dv h = (case dv_now dv (kern h) of (t, k) \<Rightarrow> (t, h\<lparr>kern := k\<rparr>))"

definition hf_sleep :: "'k driver \<Rightarrow> nat \<Rightarrow> 'k hf \<Rightarrow> 'k hf" where
  "hf_sleep dv ms h = h\<lparr>kern := dv_sleep dv ms (kern h)\<rparr>"

text \<open>
  One turn of the readiness loop: the poll, and the new \<open>lastCount\<close> and \<open>stableHits\<close>; \<open>None\<close> when the
  turn ends the loop with success.
\<close>

definition ready_turn :: "'k driver \<Rightarrow> int \<Rightarrow> nat \<Rightarrow> 'k hf \<Rightarrow> (int \<times> nat) option \<times> 'k hf" where
  "ready_turn dv lastCount stableHits h =
     (let (ready, h1) = queryReady dv h; (count, h2) = countRegisteredSensors dv h1 in
      if ready \<and> count > 0 then
        if int count = lastCount then
          if stableHits + 1 \<ge> 2 then (None, h2) else (Some (lastCount, stableHits + 1), h2)
        else (Some (int count, 1), h2)
      else (Some (-1, 0), h2))"

text \<open>The loop runs as long as the clock is before the deadline; \<open>None\<close> stands for a loop that never ends.\<close>

partial_function (option) ready_loop ::
    "'k driver \<Rightarrow> int \<Rightarrow> nat \<Rightarrow> int \<Rightarrow> nat \<Rightarrow> 'k hf \<Rightarrow> (bool \<times> 'k hf) option" where
  "ready_loop dv deadline pollIntervalMs lastCount stableHits h =
     (case hf_now dv h of (now, h1) \<Rightarrow>
        if now < deadline then
          (case ready_turn dv lastCount stableHits h1 of
             (None, h2) \<Rightarrow> Some (True, h2)
           | (Some (lastCount', stableHits'), h2) \<Rightarrow>
               ready_loop dv deadline pollIntervalMs lastCount' stableHits' (hf_sleep dv pollIntervalMs h2))
        else Some (False, h1))"

definition waitUntilReady :: "'k driver \<Rightarrow> nat \<Rightarrow> nat \<Rightarrow> 'k hf \<Rightarrow> (bool \<times> 'k hf) option" where
  "waitUntilReady dv timeoutMs pollIntervalMs h =
     (case hf_now dv h of (now, h1) \<Rightarrow>
        ready_loop dv (now + int timeoutMs) pollIntervalMs (-1) 0 h1)"

subsection \<open>Commands\<close>

definition setEnable :: "bool \<Rightarrow> 'k driver \<Rightarrow> u8 \<Rightarrow> bool \<Rightarrow> u64 \<Rightarrow> u64 \<Rightarrow> 'k hf \<Rightarrow> bool \<times> 'k hf" where
  "setEnable rust dv t enabled delayNs latencyNs h =
     (if rust then
        (case mindone_hf_enable_command t (if enabled then 1 else 0) delayNs latencyNs (cmd_bytes zero_cmd) of
           (encoded, b) \<Rightarrow> if encoded \<noteq> 0 then (False, h) else hf_write dv b h)
      else
        hf_write dv (cmd_bytes (zero_cmd\<lparr>c_sensor_type := t, c_action := if enabled then 1 else 0,
          c_down_sample := 0, c_length := 16,
          c_data := put_bytes (put_bytes (replicate 48 0) 0 delayNs 8) 8 latencyNs 8\<rparr>)) h)"

definition requestFlush :: "bool \<Rightarrow> 'k driver \<Rightarrow> u8 \<Rightarrow> 'k hf \<Rightarrow> bool \<times> 'k hf" where
  "requestFlush rust dv t h =
     (if rust then
        (case mindone_hf_flush_command t (cmd_bytes zero_cmd) of
           (encoded, b) \<Rightarrow> if encoded \<noteq> 0 then (False, h) else hf_write dv b h)
      else hf_write dv (cmd_bytes (zero_cmd\<lparr>c_sensor_type := t, c_action := 2, c_down_sample := 0, c_length := 0\<rparr>)) h)"

definition configCalibration :: "bool \<Rightarrow> 'k driver \<Rightarrow> u8 \<Rightarrow> bytes \<Rightarrow> 'k hf \<Rightarrow> bool \<times> 'k hf" where
  "configCalibration rust dv t data h =
     (if length data > 48 then (False, h)
      else if rust then
        (case mindone_hf_calibration_command t data (cmd_bytes zero_cmd) of
           (encoded, b) \<Rightarrow> if encoded \<noteq> 0 then (False, h) else hf_write dv b h)
      else
        hf_write dv (cmd_bytes (zero_cmd\<lparr>c_sensor_type := t, c_action := 4, c_down_sample := 0,
          c_length := word_of_nat (length data), c_data := put_list (replicate 48 0) 0 data\<rparr>)) h)"

definition requestCaliData :: "'k driver \<Rightarrow> hf_request \<Rightarrow> u8 \<Rightarrow> bool \<Rightarrow> 'k hf \<Rightarrow> bool \<times> 'k hf" where
  "requestCaliData dv r t enable h =
     (case hf_ioctl dv r ((packet_for t)\<lparr>p_byte := (replicate 64 0)[0 := if enable then 1 else 0]\<rparr>) h of
        (Inl e, h1) \<Rightarrow> (False, h1)
      | (Inr p, h1) \<Rightarrow> (True, h1))"

definition requestBiasReports :: "'k driver \<Rightarrow> u8 \<Rightarrow> bool \<Rightarrow> 'k hf \<Rightarrow> bool \<times> 'k hf" where
  "requestBiasReports dv t enable h = requestCaliData dv BIAS_DATA t enable h"

definition requestCaliReports :: "'k driver \<Rightarrow> u8 \<Rightarrow> bool \<Rightarrow> 'k hf \<Rightarrow> bool \<times> 'k hf" where
  "requestCaliReports dv t enable h = requestCaliData dv CALI_DATA t enable h"

definition requestTempReports :: "'k driver \<Rightarrow> u8 \<Rightarrow> bool \<Rightarrow> 'k hf \<Rightarrow> bool \<times> 'k hf" where
  "requestTempReports dv t enable h = requestCaliData dv TEMP_DATA t enable h"

subsection \<open>Events\<close>

definition kBatch :: nat where
  "kBatch = 64"

definition kMaxEvents :: nat where
  "kMaxEvents = 128"

definition kMaxReads :: nat where
  "kMaxReads = 16"

text \<open>The records of a read, one after the other; the Rust build decodes and checks each.\<close>

fun decode_all :: "bool \<Rightarrow> nat \<Rightarrow> bytes \<Rightarrow> hf_manager_event list option" where
  "decode_all rust 0 b = Some []"
| "decode_all rust (Suc n) b =
     (if rust then
        (case rs_decode_event (take 76 b) of
           Inl e \<Rightarrow> None
         | Inr ev \<Rightarrow> map_option ((#) ev) (decode_all rust n (drop 76 b)))
      else map_option ((#) (event_of_bytes (take 76 b))) (decode_all rust n (drop 76 b)))"

text \<open>The read loop, by the reads left; \<open>None\<close> for \<open>return false\<close> with the output cleared.\<close>

primrec read_loop_events ::
    "bool \<Rightarrow> 'k driver \<Rightarrow> nat \<Rightarrow> hf_manager_event list \<Rightarrow> 'k hf \<Rightarrow> hf_manager_event list option \<times> 'k hf" where
  "read_loop_events rust dv 0 out h = (Some out, h)"
| "read_loop_events rust dv (Suc left) out h =
     (if length out < kMaxEvents then
        (let capacity = min (kMaxEvents - length out) kBatch; bytes = capacity * 76 in
         case dv_read dv bytes (kern h) of
           (Inl e, k) \<Rightarrow>
             if e = EINTR then read_loop_events rust dv left out (h\<lparr>kern := k\<rparr>)
             else (None, h\<lparr>kern := k\<rparr>)
         | (Inr b, k) \<Rightarrow>
             if length b = 0 then (Some out, h\<lparr>kern := k\<rparr>)
             else if length b > bytes \<or> length b mod 76 \<noteq> 0 then (None, h\<lparr>kern := k\<rparr>)
             else
               (case decode_all rust (length b div 76) b of
                  None \<Rightarrow> (None, h\<lparr>kern := k\<rparr>)
                | Some evs \<Rightarrow>
                    if length b div 76 < capacity then (Some (out @ evs), h\<lparr>kern := k\<rparr>)
                    else read_loop_events rust dv left (out @ evs) (h\<lparr>kern := k\<rparr>)))
      else (Some out, h))"

definition POLLIN :: u16 where
  "POLLIN = 1"

definition POLL_FAULTS :: u16 where
  "POLL_FAULTS = 8 OR 16 OR 32"

text \<open>
  \<open>None\<close> stands for \<open>return false\<close>, which always leaves \<open>out\<close> empty; otherwise the events in \<open>out\<close>. A closed
  descriptor makes \<open>poll\<close> report \<open>POLLNVAL\<close> only for descriptors that are not negative; a negative one is
  skipped, so that the call waits for the timeout.
\<close>

definition waitAndReadEvents ::
    "bool \<Rightarrow> 'k driver \<Rightarrow> int \<Rightarrow> 'k hf \<Rightarrow> hf_manager_event list option \<times> 'k hf" where
  "waitAndReadEvents rust dv timeoutMs h =
     (if \<not> hf_open h then (Some [], hf_sleep dv (nat timeoutMs) h)
      else case dv_poll dv timeoutMs (kern h) of
        (Inl e, k) \<Rightarrow> (if e = EINTR then Some [] else None, h\<lparr>kern := k\<rparr>)
      | (Inr (r, revents), k) \<Rightarrow>
          if r = 0 then (Some [], h\<lparr>kern := k\<rparr>)
          else if revents AND POLL_FAULTS \<noteq> 0 then (None, h\<lparr>kern := k\<rparr>)
          else if revents AND POLLIN = 0 then (Some [], h\<lparr>kern := k\<rparr>)
          else read_loop_events rust dv kMaxReads [] (h\<lparr>kern := k\<rparr>))"

subsection \<open>The two builds send the same commands\<close>

definition known_sensor :: "u8 \<Rightarrow> bool" where
  "known_sensor t \<longleftrightarrow> t \<noteq> 0 \<and> unat t < SENSOR_TYPE_SENSOR_MAX"

lemma rs_sensor_eq: "rs_sensor t = (if known_sensor t then Inr t else Inl RSensor)"
  by (auto simp: rs_sensor_def known_sensor_def)

lemma rs_status_nonzero [simp]: "rs_status e \<noteq> 0"
  by (cases e) simp_all

lemma length_cmd_bytes: "length (c_data c) = 48 \<Longrightarrow> length (cmd_bytes c) = 52"
  by (simp add: cmd_bytes_def)

lemma length_zero_cmd [simp]: "length (cmd_bytes zero_cmd) = 52"
  by (simp add: length_cmd_bytes zero_cmd_def)

lemma cmd_head:
  "cmd_bytes \<lparr>c_sensor_type = t, c_action = a, c_down_sample = 0, c_length = n, c_data = d\<rparr> =
     [t, take_bit 4 a, n, 0] @ d"
  by (simp add: cmd_bytes_def)

lemma put_bytes_append: "put_bytes (xs @ ys) (length xs + off) v n = xs @ put_bytes ys off v n"
  by (induction n) (simp_all add: list_update_append add.assoc)

lemma put_bytes_header: "put_bytes ([t, a, n, 0] @ ys) (4 + off) v m = [t, a, n, 0] @ put_bytes ys off v m"
proof -
  have "length [t, a, n, 0 :: u8] + off = 4 + off" by simp
  then show ?thesis by (metis put_bytes_append)
qed

lemma zero_header:
  "(replicate 52 (0 :: u8))[0 := t, 1 := a, 2 := n] = [t, a, n, 0] @ replicate 48 0"
  "(replicate 52 (0 :: u8))[0 := t, 1 := a] = [t, a, 0, 0] @ replicate 48 0"
  by (simp_all add: numeral_eq_Suc)

lemma enable_bytes:
  "put_bytes (put_bytes ((replicate 52 0)[0 := t, 1 := a, 2 := n]) 4 d 8) 12 l 8 =
     [t, a, n, 0] @ put_bytes (put_bytes (replicate 48 0) 0 d 8) 8 l 8"
  using put_bytes_header [of t a n "replicate 48 0" 0 d 8]
    put_bytes_header [of t a n "put_bytes (replicate 48 0) 0 d 8" 8 l 8]
  unfolding zero_header by simp

lemma cali_bytes:
  assumes "length data \<le> 48"
  shows "put_list ((replicate 52 0)[0 := t, 1 := a, 2 := n]) 4 data =
    [t, a, n, 0] @ put_list (replicate 48 0) 0 data"
proof -
  have "drop (4 + length data) ([t, a, n, 0] @ replicate 48 0) = drop (length data) (replicate 48 0)"
    by (simp only: drop_append) simp
  then show ?thesis unfolding zero_header by (simp add: put_list_def)
qed

lemma setEnable_rust:
  "setEnable True dv t en d l h =
     (if known_sensor t \<and> 0 \<le> sint d \<and> 0 \<le> sint l then setEnable False dv t en d l h else (False, h))"
  by (auto simp: setEnable_def mindone_hf_enable_command_def rs_enable_command_def rs_sensor_eq
      store_command_def enable_bytes zero_cmd_def cmd_head simp del: One_nat_def)

lemma requestFlush_rust:
  "requestFlush True dv t h = (if known_sensor t then requestFlush False dv t h else (False, h))"
  by (simp add: requestFlush_def mindone_hf_flush_command_def rs_flush_command_def rs_sensor_eq
      store_command_def zero_header zero_cmd_def cmd_head del: One_nat_def)

lemma configCalibration_rust:
  "configCalibration True dv t data h =
     (if known_sensor t then configCalibration False dv t data h else (False, h))"
  by (auto simp: configCalibration_def mindone_hf_calibration_command_def rs_calibration_command_def
      rs_sensor_eq store_command_def cali_bytes zero_cmd_def cmd_head simp del: One_nat_def)

subsection \<open>The two builds deliver the same events\<close>

text \<open>The events the Rust core accepts.\<close>

definition good_event :: "hf_manager_event \<Rightarrow> bool" where
  "good_event ev \<longleftrightarrow> known_sensor (e_sensor_type ev) \<and> e_action ev \<le> 6 \<and> (e_action ev = 0 \<longrightarrow> e_accurancy ev \<le> 3)"

definition clear_padding :: "hf_manager_event \<Rightarrow> hf_manager_event" where
  "clear_padding ev = ev\<lparr>e_padding := 0\<rparr>"

lemma rs_decode_event_good:
  assumes "length b = 76"
  shows "good_event (event_of_bytes b) \<Longrightarrow> rs_decode_event b = Inr (clear_padding (event_of_bytes b))"
    and "\<not> good_event (event_of_bytes b) \<Longrightarrow> \<exists>e. rs_decode_event b = Inl e"
  using assms by (auto simp: rs_decode_event_def rs_sensor_eq rs_action_def good_event_def event_of_bytes_def
      clear_padding_def not_less)

lemma decode_all_plain: "\<exists>evs. decode_all False n b = Some evs \<and> length evs = n"
  by (induction n arbitrary: b) (simp, fastforce)

lemma decode_all_rust:
  "length b = n * 76 \<Longrightarrow> decode_all True n b = Some evs \<longleftrightarrow>
     (\<exists>raw. decode_all False n b = Some raw \<and> list_all good_event raw \<and> evs = map clear_padding raw)"
proof (induction n arbitrary: b evs)
  case (Suc n)
  let ?r = "event_of_bytes (take 76 b)"
  obtain raw where raw: "decode_all False n (drop 76 b) = Some raw"
    using decode_all_plain [of n "drop 76 b"] by blast
  have len: "length (take 76 b) = 76" "length (drop 76 b) = n * 76"
    using Suc.prems by simp_all
  have "decode_all True (Suc n) b = Some evs \<longleftrightarrow>
      good_event ?r \<and> (\<exists>es. decode_all True n (drop 76 b) = Some es \<and> evs = clear_padding ?r # es)"
    using rs_decode_event_good [OF len(1)] by (cases "good_event ?r") auto
  also have "\<dots> \<longleftrightarrow> good_event ?r \<and> list_all good_event raw \<and> evs = map clear_padding (?r # raw)"
    using Suc.IH [OF len(2)] raw by auto
  finally show ?case using raw by simp
qed auto

lemma read_loop_rust:
  assumes "read_loop_events True dv n (map clear_padding out) h = (Some evs, h')"
  shows "\<exists>raw. read_loop_events False dv n out h = (Some (out @ raw), h') \<and>
    list_all good_event raw \<and> evs = map clear_padding (out @ raw)"
  using assms
proof (induction n arbitrary: out h)
  case 0
  then show ?case by (auto intro: exI [of _ "[]"])
next
  case (Suc n)
  let ?cap = "min (kMaxEvents - length out) kBatch"
  obtain q k where r: "dv_read dv (?cap * 76) (kern h) = (q, k)"
    by (cases "dv_read dv (?cap * 76) (kern h)")
  consider "\<not> length out < kMaxEvents" | e where "length out < kMaxEvents" "q = Inl e"
    | b where "length out < kMaxEvents" "q = Inr b" by (cases q) auto
  then show ?case
  proof cases
    case 1
    with Suc.prems show ?thesis by (auto intro: exI [of _ "[]"])
  next
    case (2 e)
    with Suc r show ?thesis by (auto simp: Let_def split: if_splits)
  next
    case (3 b)
    show ?thesis
    proof (cases "length b = 0")
      case True
      with Suc.prems 3 r show ?thesis by (auto simp: Let_def intro: exI [of _ "[]"])
    next
      case False
      let ?m = "length b div 76"
      from Suc.prems 3 r False have ok: "\<not> length b > ?cap * 76" "length b mod 76 = 0"
        by (auto simp: Let_def split: if_splits)
      then have "length b = ?m * 76" by (metis div_mult_mod_eq add.right_neutral)
      then obtain raw where raw: "decode_all False ?m b = Some raw" "list_all good_event raw"
        "decode_all True ?m b = Some (map clear_padding raw)"
        using decode_all_rust [of b ?m] Suc.prems 3 r False ok
        by (auto simp: Let_def split: option.splits)
      show ?thesis
      proof (cases "?m < ?cap")
        case True
        with Suc.prems 3 r False ok raw show ?thesis
          by (auto simp: Let_def intro: exI [of _ raw])
      next
        case full: False
        with Suc.prems 3 r False ok raw
        have "read_loop_events True dv n (map clear_padding (out @ raw)) (h\<lparr>kern := k\<rparr>) = (Some evs, h')"
          by (auto simp: Let_def split: if_splits)
        from Suc.IH [OF this] obtain more where
          "read_loop_events False dv n (out @ raw) (h\<lparr>kern := k\<rparr>) = (Some ((out @ raw) @ more), h')"
          "list_all good_event more" "evs = map clear_padding ((out @ raw) @ more)" by blast
        with 3 r False ok raw full show ?thesis
          by (auto simp: Let_def intro: exI [of _ "raw @ more"])
      qed
    qed
  qed
qed

lemma length_decode_all: "decode_all rust n b = Some evs \<Longrightarrow> length evs = n"
  by (induction n arbitrary: b evs) (auto split: if_splits sum.splits)

lemma read_loop_length:
  "read_loop_events rust dv n out h = (Some evs, h') \<Longrightarrow> length out \<le> kMaxEvents \<Longrightarrow> length evs \<le> kMaxEvents"
proof (induction n arbitrary: out h)
  case (Suc n)
  have step: "length (out @ es) \<le> kMaxEvents"
    if "decode_all rust (length b div 76) b = Some es" "\<not> length b > min (kMaxEvents - length out) kBatch * 76" for b es
  proof -
    have "length b div 76 \<le> min (kMaxEvents - length out) kBatch"
      using that(2) by (metis div_le_mono div_mult_self_is_m not_less zero_less_numeral)
    then show ?thesis using length_decode_all [OF that(1)] Suc.prems(2) by simp linarith
  qed
  show ?case
    using Suc.prems Suc.IH step
    by (auto simp: Let_def split: if_splits prod.splits sum.splits option.splits)
qed simp

text \<open>Every record that the events come from was read as a whole; \<open>waitAndReadEvents\<close> in the Rust build.\<close>

lemma waitAndReadEvents_rust:
  assumes "waitAndReadEvents True dv ms h = (Some evs, h')"
  shows "\<exists>raw. waitAndReadEvents False dv ms h = (Some raw, h') \<and> list_all good_event raw \<and>
    evs = map clear_padding raw"
proof (cases "hf_open h")
  case True
  show ?thesis
    using assms read_loop_rust [where out = "[]"] True
    by (auto simp: waitAndReadEvents_def split: prod.splits sum.splits if_splits)
qed (use assms in \<open>auto simp: waitAndReadEvents_def\<close>)

lemma waitAndReadEvents_length:
  "waitAndReadEvents rust dv ms h = (Some evs, h') \<Longrightarrow> length evs \<le> 128"
  using read_loop_length [of rust dv kMaxReads "[]" _ evs h']
  by (auto simp: waitAndReadEvents_def kMaxEvents_def split: prod.splits sum.splits if_splits)

subsection \<open>Waiting for the driver ends\<close>

text \<open>One readiness poll that found the driver ready with \<open>n\<close> registered sensors.\<close>

definition polled :: "'k driver \<Rightarrow> nat \<Rightarrow> 'k hf \<Rightarrow> 'k hf \<Rightarrow> bool" where
  "polled dv n h h' \<longleftrightarrow> n > 0 \<and> (\<exists>h1. queryReady dv h = (True, h1) \<and> countRegisteredSensors dv h1 = (n, h'))"

text \<open>
  A clock that time passes on: reading it does not change it, sleeping moves it by the time slept at
  least, and device calls do not turn it back.
\<close>

definition ticks :: "'k driver \<Rightarrow> ('k \<Rightarrow> int) \<Rightarrow> bool" where
  "ticks dv ck \<longleftrightarrow>
     (\<forall>k. dv_now dv k = (ck k, k)) \<and> (\<forall>ms k. ck k + int ms \<le> ck (dv_sleep dv ms k)) \<and>
     (\<forall>r p k. ck k \<le> ck (snd (dv_ioctl dv r p k)))"

lemma hf_ioctl_ticks: "ticks dv ck \<Longrightarrow> hf_ioctl dv r p h = (q, h') \<Longrightarrow> ck (kern h) \<le> ck (kern h')"
proof -
  assume a: "ticks dv ck" "hf_ioctl dv r p h = (q, h')"
  then have "ck (kern h) \<le> ck (snd (dv_ioctl dv r p (kern h)))" by (simp add: ticks_def)
  with a(2) show ?thesis by (auto simp: hf_ioctl_def split: if_splits prod.splits)
qed

lemma queryReady_ticks: "ticks dv ck \<Longrightarrow> queryReady dv h = (b, h') \<Longrightarrow> ck (kern h) \<le> ck (kern h')"
  by (auto simp: queryReady_def split: prod.splits sum.splits dest!: hf_ioctl_ticks)

lemma count_loop_ticks: "ticks dv ck \<Longrightarrow> count_loop dv ts n h = (m, h') \<Longrightarrow> ck (kern h) \<le> ck (kern h')"
proof (induction ts arbitrary: n h)
  case (Cons t ts)
  obtain b h1 where q: "queryRegistered dv (word_of_nat t) h = (b, h1)"
    by (cases "queryRegistered dv (word_of_nat t) h")
  then have "ck (kern h) \<le> ck (kern h1)"
    using Cons.prems(1) by (auto simp: queryRegistered_def split: prod.splits sum.splits dest!: hf_ioctl_ticks)
  also have "\<dots> \<le> ck (kern h')"
    using Cons.IH [OF Cons.prems(1)] Cons.prems(2) q by auto
  finally show ?case .
qed simp

lemma ready_turn_cases:
  assumes "ready_turn dv lc sh h = (r, h')"
  obtains n where "polled dv n h h'" "r = None" "int n = lc" "sh \<ge> 1"
  | n where "polled dv n h h'" "r = Some (int n, 1)" "int n \<noteq> lc \<or> sh = 0"
  | "r = Some (-1, 0)"
  using assms
  by (auto simp: ready_turn_def polled_def Let_def split: prod.splits if_splits)

lemma ready_turn_ticks:
  assumes "ticks dv ck" "ready_turn dv lc sh h = (r, h')"
  shows "ck (kern h) \<le> ck (kern h')"
proof -
  obtain b h1 where q: "queryReady dv h = (b, h1)" by (cases "queryReady dv h")
  obtain n h2 where c: "countRegisteredSensors dv h1 = (n, h2)" by (cases "countRegisteredSensors dv h1")
  have "ck (kern h) \<le> ck (kern h1)" "ck (kern h1) \<le> ck (kern h2)" "h' = h2"
    using assms q c queryReady_ticks [OF assms(1) q] count_loop_ticks [OF assms(1)]
    by (auto simp: ready_turn_def countRegisteredSensors_def split: if_splits)
  then show ?thesis by simp
qed

text \<open>What the loop remembers: nothing, or the poll that ended right before the last sleep.\<close>

definition remembers :: "'k driver \<Rightarrow> nat \<Rightarrow> int \<Rightarrow> nat \<Rightarrow> 'k hf \<Rightarrow> bool" where
  "remembers dv poll lc sh h \<longleftrightarrow>
     lc = -1 \<and> sh = 0 \<or>
     (\<exists>n ha hb. lc = int n \<and> sh = 1 \<and> polled dv n ha hb \<and> h = hf_sleep dv poll hb)"

lemma ready_loop_returns:
  assumes "ticks dv ck" "poll > 0" "remembers dv poll lc sh h"
  shows "\<exists>b h'. ready_loop dv deadline poll lc sh h = Some (b, h') \<and>
    (b \<longrightarrow> (\<exists>n ha hb hc. polled dv n ha hb \<and> hc = hf_sleep dv poll hb \<and> polled dv n hc h'))"
  using assms(3)
proof (induction "nat (deadline - ck (kern h))" arbitrary: lc sh h rule: less_induct)
  case less
  have now: "hf_now dv h = (ck (kern h), h)"
    using assms(1) by (simp add: hf_now_def ticks_def)
  show ?case
  proof (cases "ck (kern h) < deadline")
    case False
    with now show ?thesis by (auto simp: ready_loop.simps [of dv deadline poll lc sh h] intro!: exI [of _ False])
  next
    case True
    obtain r h2 where t: "ready_turn dv lc sh h = (r, h2)" by (cases "ready_turn dv lc sh h")
    let ?h = "hf_sleep dv poll h2"
    have "ck (kern h2) + int poll \<le> ck (kern ?h)"
      using assms(1) by (simp add: ticks_def hf_sleep_def)
    then have later: "nat (deadline - ck (kern ?h)) < nat (deadline - ck (kern h))"
      using ready_turn_ticks [OF assms(1) t] True assms(2) by linarith
    note unfold = ready_loop.simps [of dv deadline poll lc sh h]
    from t show ?thesis
    proof (cases rule: ready_turn_cases)
      case (1 n)
      with less.prems have "\<exists>ha hb. polled dv n ha hb \<and> h = hf_sleep dv poll hb"
        unfolding remembers_def by fastforce
      with 1 now True t unfold show ?thesis by auto
    next
      case (2 n)
      then have "remembers dv poll (int n) 1 ?h" by (auto simp: remembers_def)
      from less.hyps [OF later this] 2 now True t unfold show ?thesis by simp
    next
      case 3
      then have "remembers dv poll (-1) 0 ?h" by (simp add: remembers_def)
      from less.hyps [OF later this] 3 now True t unfold show ?thesis by simp
    qed
  qed
qed

lemma waitUntilReady_returns:
  assumes "ticks dv ck" "poll > 0"
  shows "\<exists>b h'. waitUntilReady dv timeout poll h = Some (b, h') \<and>
    (b \<longrightarrow> (\<exists>n ha hb. polled dv n ha hb \<and> polled dv n (hf_sleep dv poll hb) h'))"
proof -
  have "hf_now dv h = (ck (kern h), h)"
    using assms(1) by (simp add: hf_now_def ticks_def)
  with ready_loop_returns [OF assms, of "-1" 0 h "ck (kern h) + int timeout"] show ?thesis
    by (auto simp: waitUntilReady_def remembers_def)
qed

subsection \<open>Properties\<close>


text \<open>
  C40: waiting for the driver ends, for every timeout and every behaviour of the driver, on a clock that time
  passes on; and it reports success only after two polls in a row found the driver ready with the same,
  positive number of sensors.
\<close>

theorem wait_until_ready_returns:
  assumes "ticks dv ck" and "poll > 0"
  shows "\<exists>b h'. waitUntilReady dv timeout poll h = Some (b, h') \<and>
    (b \<longrightarrow> (\<exists>n ha hb. polled dv n ha hb \<and> polled dv n (hf_sleep dv poll hb) h'))"
  using assms by (rule waitUntilReady_returns)

text \<open>A driver whose state is its clock and that answers every request with the same packet.\<close>

definition steady_driver :: "u8 \<Rightarrow> int driver" where
  "steady_driver s =
     \<lparr>dv_open = (\<lambda>k. (None, k)), dv_ioctl = (\<lambda>r p k. (Inr (p\<lparr>p_byte := replicate 64 s\<rparr>), k)),
      dv_write = (\<lambda>b k. (Inr (length b), k)), dv_poll = (\<lambda>ms k. (Inr (0, 0), k + max 0 ms)),
      dv_read = (\<lambda>n k. (Inr [], k)), dv_sleep = (\<lambda>ms k. k + int ms), dv_now = (\<lambda>k. (k, k))\<rparr>"

lemma steady_driver_ticks: "ticks (steady_driver s) (\<lambda>k. k)"
  by (simp add: ticks_def steady_driver_def)


theorem wait_until_ready_returns_witness:
  "\<exists>b h'. waitUntilReady (steady_driver 1) 40000 300 \<lparr>hf_open = True, kern = 0\<rparr> = Some (b, h') \<and>
    (b \<longrightarrow> (\<exists>n ha hb. polled (steady_driver 1) n ha hb \<and>
      polled (steady_driver 1) n (hf_sleep (steady_driver 1) 300 hb) h'))"
  by (rule wait_until_ready_returns [OF steady_driver_ticks]) simp

end
