(* ===== verification/Calibration_Store.thy ===== *)
theory Calibration_Store
  imports Hf_Client
begin

text \<open>
  The calibration store of the sensor service, \<^verbatim>\<open>src/sensors-hf/CalibrationStore.cpp\<close>, in both builds, with
  the calibration part of the Rust core (\<^verbatim>\<open>rust/calibration.rs\<close> behind \<^verbatim>\<open>rust/ffi.rs\<close>).

  All state is guarded by \<open>mutex_\<close>, so that every public operation and every turn of the writer thread up to
  its wait is one atomic step. The clock is the list \<open>readings\<close> that successive calls of \<open>nowMs\<close> see, raised to
  the latest time seen so far (it is monotonic) and standing still once it is used up. Two fields only record
  what happened: \<open>attempts\<close>, the writes that were tried, newest first, and \<open>notified\<close>, the number of
  \<open>changed_.notify_one()\<close> calls.
\<close>

subsection \<open>Layouts\<close>

datatype region = Bias | Cali | Temp

record sensor_layout =
  l_sensorType :: u8
  l_totalLength :: nat
  l_bias :: "nat \<times> nat"
  l_cali :: "nat \<times> nat"
  l_temp :: "nat \<times> nat"
  l_name :: string
  l_biasFile :: "string option"
  l_biasKey :: "string option"
  l_caliFile :: "string option"
  l_caliKey :: "string option"

definition allLayouts :: "sensor_layout list" where
  "allLayouts =
     [\<lparr>l_sensorType = 1, l_totalLength = 24, l_bias = (0, 12), l_cali = (12, 12), l_temp = (0, 0), l_name = ''acc'',
       l_biasFile = Some ''acc_bias.json'', l_biasKey = Some ''acc_bias'',
       l_caliFile = Some ''acc_cali.json'', l_caliKey = Some ''acc_cali''\<rparr>,
      \<lparr>l_sensorType = 2, l_totalLength = 36, l_bias = (0, 12), l_cali = (12, 24), l_temp = (0, 0), l_name = ''mag'',
       l_biasFile = Some ''mag_bias.json'', l_biasKey = Some ''mag_bias'',
       l_caliFile = Some ''mag_cali.json'', l_caliKey = Some ''mag_cali''\<rparr>,
      \<lparr>l_sensorType = 4, l_totalLength = 48, l_bias = (0, 12), l_cali = (12, 12), l_temp = (24, 24), l_name = ''gyro'',
       l_biasFile = Some ''gyro_bias.json'', l_biasKey = Some ''gyro_bias'',
       l_caliFile = Some ''gyro_cali.json'', l_caliKey = Some ''gyro_cali''\<rparr>,
      \<lparr>l_sensorType = 5, l_totalLength = 4, l_bias = (0, 0), l_cali = (0, 4), l_temp = (0, 0), l_name = ''light'',
       l_biasFile = None, l_biasKey = None,
       l_caliFile = Some ''als_cali.json'', l_caliKey = Some ''als_cali''\<rparr>]"

definition layoutFor :: "u8 \<Rightarrow> sensor_layout option" where
  "layoutFor t = find (\<lambda>l. l_sensorType l = t) allLayouts"

subsection \<open>State\<close>

definition kMinRewriteIntervalMs :: int where
  "kMinRewriteIntervalMs = 2000"

record cached_region =
  cr_values :: "i32 list"
  cr_persistedValues :: "i32 list"
  cr_lastAttemptMs :: int
  cr_haveValue :: bool
  cr_havePersistedValue :: bool
  cr_pending :: bool

definition new_region :: cached_region where
  "new_region = \<lparr>cr_values = [], cr_persistedValues = [], cr_lastAttemptMs = - kMinRewriteIntervalMs,
     cr_haveValue = False, cr_havePersistedValue = False, cr_pending = False\<rparr>"

record attempt_log =
  a_sensor :: u8
  a_region :: region
  a_time :: int
  a_values :: "i32 list"

record cal_store =
  baseDir :: string
  caches :: "region \<Rightarrow> u8 \<Rightarrow> cached_region option"
  stopping :: bool
  cs_disk :: disk
  cs_time :: int
  readings :: "int list"
  attempts :: "attempt_log list"
  notified :: nat

definition nowMs :: "cal_store \<Rightarrow> int \<times> cal_store" where
  "nowMs s =
     (case readings s of
        [] \<Rightarrow> (cs_time s, s)
      | t # ts \<Rightarrow> let now = max t (cs_time s) in (now, s\<lparr>cs_time := now, readings := ts\<rparr>))"

definition allZero :: "i32 list \<Rightarrow> bool" where
  "allZero v = list_all (\<lambda>x. x = 0) v"

text \<open>\<open>cacheFor(region)[sensorType]\<close>: a missing entry is created.\<close>

definition cacheFor :: "region \<Rightarrow> u8 \<Rightarrow> cal_store \<Rightarrow> cached_region" where
  "cacheFor r t s = (case caches s r t of None \<Rightarrow> new_region | Some c \<Rightarrow> c)"

definition put_cache :: "region \<Rightarrow> u8 \<Rightarrow> cached_region \<Rightarrow> cal_store \<Rightarrow> cal_store" where
  "put_cache r t c s = s\<lparr>caches := (caches s)(r := (caches s r)(t \<mapsto> c))\<rparr>"

definition seed_region :: "i32 list \<Rightarrow> cached_region \<Rightarrow> cached_region" where
  "seed_region v c =
     (if cr_haveValue c \<and> (\<not> cr_havePersistedValue c \<or> cr_values c \<noteq> cr_persistedValues c) then c
      else c\<lparr>cr_values := v, cr_persistedValues := v, cr_haveValue := True, cr_havePersistedValue := True\<rparr>)"

definition seedCache :: "region \<Rightarrow> u8 \<Rightarrow> i32 list \<Rightarrow> cal_store \<Rightarrow> cal_store" where
  "seedCache r t v s = put_cache r t (seed_region v (cacheFor r t s)) s"

subsection \<open>Payloads\<close>

definition i32_bytes :: "i32 \<Rightarrow> bytes" where
  "i32_bytes v = map (le_byte (ucast v)) [0..<4]"

text \<open>\<open>writeRegion\<close>: as many values as the region takes are copied.\<close>

definition writeRegion :: "bytes \<Rightarrow> nat \<times> nat \<Rightarrow> i32 list \<Rightarrow> bytes" where
  "writeRegion buf reg v =
     (let n = min (snd reg div 4) (length v) in
      if n > 0 then put_list buf (fst reg) (concat (map i32_bytes (take n v))) else buf)"

definition read_values :: "string \<Rightarrow> string \<Rightarrow> cal_store \<Rightarrow> i32 list option \<times> cal_store" where
  "read_values file key s =
     (case readIntArray (baseDir s @ ''/'' @ file) key (cs_disk s) of
        ((v, _, _), w) \<Rightarrow> (v, s\<lparr>cs_disk := w\<rparr>))"

text \<open>The three reads of \<open>buildPayload\<close>, under their conditions.\<close>

definition read_bias :: "sensor_layout \<Rightarrow> cal_store \<Rightarrow> i32 list option \<times> cal_store" where
  "read_bias l s =
     (case (l_biasFile l, l_biasKey l) of
        (Some f, Some k) \<Rightarrow> if snd (l_bias l) > 0 then read_values f k s else (None, s)
      | _ \<Rightarrow> (None, s))"

definition read_cali :: "sensor_layout \<Rightarrow> cal_store \<Rightarrow> i32 list option \<times> cal_store" where
  "read_cali l s =
     (case (l_caliFile l, l_caliKey l) of
        (Some f, Some k) \<Rightarrow> if snd (l_cali l) > 0 then read_values f k s else (None, s)
      | _ \<Rightarrow> (None, s))"

definition read_temp :: "sensor_layout \<Rightarrow> cal_store \<Rightarrow> i32 list option \<times> cal_store" where
  "read_temp l s =
     (if snd (l_temp l) > 0 then read_values (l_name l @ ''_temp.json'') (l_name l @ ''_temp'') s else (None, s))"

definition buildPayload_cpp :: "sensor_layout \<Rightarrow> cal_store \<Rightarrow> bytes \<times> cal_store" where
  "buildPayload_cpp l s =
     (let t = l_sensorType l; buf = replicate (l_totalLength l) 0;
          (bias, s1) = read_bias l s;
          (buf1, s2) = (case bias of None \<Rightarrow> (buf, s1) | Some v \<Rightarrow> (writeRegion buf (l_bias l) v, seedCache Bias t v s1));
          (cali, s3) = read_cali l s2;
          (buf2, s4) =
            (case cali of
               None \<Rightarrow> (buf1, s3)
             | Some v \<Rightarrow>
                 let biasCount = snd (l_bias l) div 4; caliCount = snd (l_cali l) div 4 in
                 if snd (l_bias l) > 0 \<and> length v = biasCount + caliCount then
                   let biasPart = take biasCount v; caliPart = drop biasCount v in
                   (writeRegion (writeRegion buf1 (l_bias l) biasPart) (l_cali l) caliPart,
                    seedCache Cali t caliPart (seedCache Bias t biasPart s3))
                 else (writeRegion buf1 (l_cali l) v, seedCache Cali t v s3));
          (temp, s5) = read_temp l s4
      in case temp of None \<Rightarrow> (buf2, s5) | Some v \<Rightarrow> (writeRegion buf2 (l_temp l) v, seedCache Temp t v s5))"

subsection \<open>The Rust core\<close>

record rs_layout =
  rl_length :: nat
  rl_bias :: "nat \<times> nat"
  rl_cali :: "nat \<times> nat"
  rl_temp :: "nat \<times> nat"

definition rs_layout_for :: "u8 \<Rightarrow> rs_error + rs_layout" where
  "rs_layout_for t =
     (if t = 1 then Inr \<lparr>rl_length = 24, rl_bias = (0, 12), rl_cali = (12, 12), rl_temp = (0, 0)\<rparr>
      else if t = 2 then Inr \<lparr>rl_length = 36, rl_bias = (0, 12), rl_cali = (12, 24), rl_temp = (0, 0)\<rparr>
      else if t = 4 then Inr \<lparr>rl_length = 48, rl_bias = (0, 12), rl_cali = (12, 12), rl_temp = (24, 24)\<rparr>
      else if t = 5 then Inr \<lparr>rl_length = 4, rl_bias = (0, 0), rl_cali = (0, 4), rl_temp = (0, 0)\<rparr>
      else Inl RSensor)"

text \<open>\<open>chunks_exact_mut(4).zip(values)\<close>: the loop over the chunks left and the values left.\<close>

fun rs_write_chunks :: "bytes \<Rightarrow> nat \<Rightarrow> nat \<Rightarrow> i32 list \<Rightarrow> bytes" where
  "rs_write_chunks b off (Suc n) (v # vs) = rs_write_chunks (put_bytes b off (ucast v) 4) (off + 4) n vs"
| "rs_write_chunks b off _ _ = b"

definition rs_write_region :: "bytes \<Rightarrow> nat \<times> nat \<Rightarrow> i32 list \<Rightarrow> bytes" where
  "rs_write_region b reg v = rs_write_chunks b (fst reg) (snd reg div 4) v"

record rs_payload =
  rp_bytes :: bytes
  rp_layout :: rs_layout
  rp_combined :: bool

definition rs_payload_for :: "u8 \<Rightarrow> i32 list \<Rightarrow> i32 list \<Rightarrow> i32 list \<Rightarrow> rs_error + rs_payload" where
  "rs_payload_for t bias cali temp =
     (case rs_layout_for t of
        Inl e \<Rightarrow> Inl e
      | Inr l \<Rightarrow>
          let b1 = rs_write_region (replicate 48 0) (rl_bias l) bias;
              bias_count = snd (rl_bias l) div 4; cali_count = snd (rl_cali l) div 4;
              combined = (bias_count > 0 \<and> length cali = bias_count + cali_count);
              b2 = (if combined then
                      rs_write_region (rs_write_region b1 (rl_bias l) (take bias_count cali))
                        (rl_cali l) (drop bias_count cali)
                    else rs_write_region b1 (rl_cali l) cali);
              b3 = rs_write_region b2 (rl_temp l) temp
          in Inr \<lparr>rp_bytes = b3, rp_layout = l, rp_combined = combined\<rparr>)"

record rs_cal_event =
  re_words :: "i32 list"
  re_count :: nat
  re_region :: nat

definition rs_event_for :: "u8 \<Rightarrow> u8 \<Rightarrow> i32 list \<Rightarrow> rs_error + rs_cal_event" where
  "rs_event_for t action words =
     (if length words \<noteq> 16 then Inl RLength
      else case rs_layout_for t of
        Inl e \<Rightarrow> Inl e
      | Inr l \<Rightarrow>
          (case (if action = 2 then Inr (0, rl_bias l) else if action = 3 then Inr (1, rl_cali l)
                 else if action = 4 then Inr (2, rl_temp l) else Inl RAction) of
             Inl e \<Rightarrow> Inl e
           | Inr (kind, reg) \<Rightarrow>
               if snd reg = 0 then Inl RAction
               else let count = snd reg div 4 in
                 Inr \<lparr>re_words = take count words @ replicate (6 - count) 0, re_count = count, re_region = kind\<rparr>))"

text \<open>
  \<open>buildPayload\<close> of the Rust build. An absent array is passed with length 0. A layout or a selector that differs
  from the store's own makes it return no payload.
\<close>

definition buildPayload_rust :: "sensor_layout \<Rightarrow> cal_store \<Rightarrow> bytes \<times> cal_store" where
  "buildPayload_rust l s =
     (let t = l_sensorType l;
          (bias, s1) = read_bias l s; (cali, s2) = read_cali l s1; (temp, s3) = read_temp l s2;
          arr = (\<lambda>x. case x of None \<Rightarrow> [] | Some v \<Rightarrow> v)
      in case rs_payload_for t (arr bias) (arr cali) (arr temp) of
           Inl e \<Rightarrow> ([], s3)
         | Inr p \<Rightarrow>
             let a = rp_layout p in
             if rl_length a \<noteq> l_totalLength l \<or> rl_bias a \<noteq> l_bias l \<or> rl_cali a \<noteq> l_cali l \<or>
                rl_temp a \<noteq> l_temp l \<or>
                (rp_combined p \<and> (cali = None \<or> snd (rl_bias a) = 0 \<or>
                   length (arr cali) \<noteq> (snd (rl_bias a) + snd (rl_cali a)) div 4)) then ([], s3)
             else
               let s4 = (case bias of None \<Rightarrow> s3 | Some v \<Rightarrow> seedCache Bias t v s3);
                   s5 = (case cali of
                           None \<Rightarrow> s4
                         | Some v \<Rightarrow>
                             if rp_combined p then
                               let biasCount = snd (rl_bias a) div 4 in
                               seedCache Cali t (drop biasCount v) (seedCache Bias t (take biasCount v) s4)
                             else seedCache Cali t v s4);
                   s6 = (case temp of None \<Rightarrow> s5 | Some v \<Rightarrow> seedCache Temp t v s5)
               in (take (rl_length a) (rp_bytes p), s6))"

definition buildPayload :: "bool \<Rightarrow> sensor_layout \<Rightarrow> cal_store \<Rightarrow> bytes \<times> cal_store" where
  "buildPayload rust l s = (if rust then buildPayload_rust l s else buildPayload_cpp l s)"

subsection \<open>Pushing to the driver\<close>

definition request_reports :: "'k driver \<Rightarrow> sensor_layout \<Rightarrow> 'k hf \<Rightarrow> 'k hf" where
  "request_reports dv l h =
     (let t = l_sensorType l;
          h1 = (if snd (l_bias l) > 0 then snd (requestBiasReports dv t True h) else h);
          h2 = (if snd (l_cali l) > 0 then snd (requestCaliReports dv t True h1) else h1)
      in if snd (l_temp l) > 0 then snd (requestTempReports dv t True h2) else h2)"

definition push_layout :: "bool \<Rightarrow> 'k driver \<Rightarrow> sensor_layout \<Rightarrow> cal_store \<times> 'k hf \<Rightarrow> cal_store \<times> 'k hf" where
  "push_layout rust dv l sh =
     (case sh of (s, h) \<Rightarrow>
        (case queryRegistered dv (l_sensorType l) h of
           (False, h1) \<Rightarrow> (s, h1)
         | (True, h1) \<Rightarrow>
             (case buildPayload rust l s of (payload, s1) \<Rightarrow>
                if length payload \<noteq> l_totalLength l then (s1, h1)
                else
                  (case configCalibration rust dv (l_sensorType l) payload h1 of
                     (False, h2) \<Rightarrow> (s1, h2)
                   | (True, h2) \<Rightarrow> (s1, request_reports dv l h2)))))"

definition pushAll :: "bool \<Rightarrow> 'k driver \<Rightarrow> cal_store \<times> 'k hf \<Rightarrow> cal_store \<times> 'k hf" where
  "pushAll rust dv sh = foldl (\<lambda>sh l. push_layout rust dv l sh) sh allLayouts"

subsection \<open>Persisting\<close>

definition region_file :: "sensor_layout \<Rightarrow> region \<Rightarrow> string option" where
  "region_file l r = (case r of Bias \<Rightarrow> l_biasFile l | Cali \<Rightarrow> l_caliFile l | Temp \<Rightarrow> Some (l_name l @ ''_temp.json''))"

definition region_key :: "sensor_layout \<Rightarrow> region \<Rightarrow> string option" where
  "region_key l r = (case r of Bias \<Rightarrow> l_biasKey l | Cali \<Rightarrow> l_caliKey l | Temp \<Rightarrow> Some (l_name l @ ''_temp''))"

definition writePending :: "sensor_layout \<Rightarrow> region \<Rightarrow> cal_store \<Rightarrow> cal_store" where
  "writePending l r s =
     (let t = l_sensorType l;
          (now, s1) = nowMs s;
          c = (cacheFor r t s)\<lparr>cr_pending := False, cr_lastAttemptMs := now\<rparr>;
          s2 = put_cache r t c s1
      in case (region_file l r, region_key l r) of
           (Some file, Some key) \<Rightarrow>
             (case writeIntArray (baseDir s @ ''/'' @ file) key (cr_values c) (cs_disk s2) of (ok, w) \<Rightarrow>
                let s3 = s2\<lparr>cs_disk := w,
                      attempts := \<lparr>a_sensor = t, a_region = r, a_time = now, a_values = cr_values c\<rparr> # attempts s2\<rparr>
                in if ok then put_cache r t (c\<lparr>cr_persistedValues := cr_values c, cr_havePersistedValue := True\<rparr>) s3
                   else s3)
         | _ \<Rightarrow> s2)"

definition notify_one :: "cal_store \<Rightarrow> cal_store" where
  "notify_one s = s\<lparr>notified := notified s + 1\<rparr>"

definition persistRegion :: "sensor_layout \<Rightarrow> region \<Rightarrow> i32 list \<Rightarrow> cal_store \<Rightarrow> cal_store" where
  "persistRegion l r newValues s =
     (let t = l_sensorType l; c = cacheFor r t s;
          unchanged = (cr_haveValue c \<and> cr_values c = newValues)
      in if unchanged \<and> (cr_pending c \<or> allZero newValues \<or>
              (cr_havePersistedValue c \<and> cr_persistedValues c = newValues)) then s
         else
           let wasPending = cr_pending c;
               c1 = c\<lparr>cr_values := newValues, cr_haveValue := True,
                 cr_pending := (\<not> allZero newValues \<and>
                   (\<not> cr_havePersistedValue c \<or> cr_persistedValues c \<noteq> newValues))\<rparr>;
               s1 = put_cache r t c1 s;
               s2 = (if cr_pending c1 then
                       (case nowMs s1 of (now, s') \<Rightarrow>
                          if now - cr_lastAttemptMs c1 \<ge> kMinRewriteIntervalMs then writePending l r s' else s')
                     else s1)
           in if cr_pending (cacheFor r t s2) \<noteq> wasPending then notify_one s2 else s2)"

definition onKernelEvent_cpp :: "hf_manager_event \<Rightarrow> cal_store \<Rightarrow> cal_store" where
  "onKernelEvent_cpp ke s =
     (case layoutFor (e_sensor_type ke) of
        None \<Rightarrow> s
      | Some l \<Rightarrow>
          if e_action ke = 2 \<and> snd (l_bias l) > 0 then persistRegion l Bias (take (snd (l_bias l) div 4) (e_word ke)) s
          else if e_action ke = 3 \<and> snd (l_cali l) > 0 then persistRegion l Cali (take (snd (l_cali l) div 4) (e_word ke)) s
          else if e_action ke = 4 \<and> snd (l_temp l) > 0 then persistRegion l Temp (take (snd (l_temp l) div 4) (e_word ke)) s
          else s)"

definition onKernelEvent_rust :: "hf_manager_event \<Rightarrow> cal_store \<Rightarrow> cal_store" where
  "onKernelEvent_rust ke s =
     (case layoutFor (e_sensor_type ke) of
        None \<Rightarrow> s
      | Some l \<Rightarrow>
          (case rs_event_for (e_sensor_type ke) (e_action ke) (e_word ke) of
             Inl e \<Rightarrow> s
           | Inr ev \<Rightarrow>
               (case (if re_region ev = 0 then Some (Bias, snd (l_bias l) div 4)
                      else if re_region ev = 1 then Some (Cali, snd (l_cali l) div 4)
                      else if re_region ev = 2 then Some (Temp, snd (l_temp l) div 4) else None) of
                  None \<Rightarrow> s
                | Some (r, expected) \<Rightarrow>
                    if re_count ev \<noteq> expected \<or> expected = 0 \<or> expected > 6 then s
                    else persistRegion l r (take (re_count ev) (re_words ev)) s)))"

definition onKernelEvent :: "bool \<Rightarrow> hf_manager_event \<Rightarrow> cal_store \<Rightarrow> cal_store" where
  "onKernelEvent rust ke s = (if rust then onKernelEvent_rust ke s else onKernelEvent_cpp ke s)"

subsection \<open>The writer thread\<close>

definition kInt64Max :: int where
  "kInt64Max = 2 ^ 63 - 1"

text \<open>The body of the two loops over layouts and regions, with \<open>next\<close>.\<close>

definition visit_region :: "sensor_layout \<Rightarrow> region \<Rightarrow> int \<times> cal_store \<Rightarrow> int \<times> cal_store" where
  "visit_region l r ns =
     (case ns of (nxt, s) \<Rightarrow>
        let t = l_sensorType l in
        case caches s r t of
          None \<Rightarrow> (nxt, s)
        | Some c0 \<Rightarrow>
            let c = (if stopping s then
                       c0\<lparr>cr_pending := (cr_haveValue c0 \<and> \<not> allZero (cr_values c0) \<and>
                         (\<not> cr_havePersistedValue c0 \<or> cr_values c0 \<noteq> cr_persistedValues c0))\<rparr>
                     else c0);
                s1 = put_cache r t c s
            in if \<not> cr_pending c then (nxt, s1)
               else
                 let due = cr_lastAttemptMs c + kMinRewriteIntervalMs in
                 if stopping s1 then (nxt, writePending l r s1)
                 else (case nowMs s1 of (now, s2) \<Rightarrow>
                         if now \<ge> due then (nxt, writePending l r s2) else (min nxt due, s2)))"

definition slots :: "(sensor_layout \<times> region) list" where
  "slots = concat (map (\<lambda>l. map (\<lambda>r. (l, r)) [Bias, Cali, Temp]) allLayouts)"

definition scan :: "cal_store \<Rightarrow> int \<times> cal_store" where
  "scan s = foldl (\<lambda>ns (l, r). visit_region l r ns) (kInt64Max, s) slots"

text \<open>How a turn of the loop ends: the thread returns, waits to be notified, or waits for a time.\<close>

datatype turn_end = Return | Wait | WaitFor int

definition persistence_turn :: "cal_store \<Rightarrow> turn_end \<times> cal_store" where
  "persistence_turn s =
     (case scan s of (nxt, s1) \<Rightarrow>
        if stopping s1 then (Return, s1)
        else if nxt = kInt64Max then (Wait, s1)
        else (case nowMs s1 of (now, s2) \<Rightarrow> (WaitFor (max 0 (nxt - now)), s2)))"

text \<open>The destructor: it sets \<open>stopping_\<close>, wakes the writer and joins it; the writer makes one more turn.\<close>

definition destroy :: "cal_store \<Rightarrow> cal_store" where
  "destroy s = snd (persistence_turn (notify_one (s\<lparr>stopping := True\<rparr>)))"

definition new_store :: "string \<Rightarrow> disk \<Rightarrow> int list \<Rightarrow> cal_store" where
  "new_store dir w ts =
     \<lparr>baseDir = dir, caches = (\<lambda>_ _. None), stopping = False, cs_disk = w, cs_time = 0, readings = ts,
      attempts = [], notified = 0\<rparr>"

subsection \<open>The two builds prepare the same payload\<close>

lemma length_i32_bytes [simp]: "length (i32_bytes v) = 4"
  by (simp add: i32_bytes_def)

lemma length_concat_i32 [simp]: "length (concat (map i32_bytes vs)) = 4 * length vs"
  by (induction vs) simp_all

lemma put_bytes_put_list: "off + 4 \<le> length b \<Longrightarrow> put_bytes b off (ucast v) 4 = put_list b off (i32_bytes v)"
  by (rule nth_equalityI) (auto simp: nth_put_bytes nth_put_list i32_bytes_def)

lemma put_list_put_list:
  "off + length xs + length ys \<le> length b \<Longrightarrow>
   put_list (put_list b off xs) (off + length xs) ys = put_list b off (xs @ ys)"
  by (rule nth_equalityI) (auto simp: nth_put_list nth_append)

lemma rs_write_chunks_eq:
  "off + 4 * n \<le> length b \<Longrightarrow> rs_write_chunks b off n v = put_list b off (concat (map i32_bytes (take n v)))"
proof (induction b off n v rule: rs_write_chunks.induct)
  case (1 b off n v vs)
  then have "rs_write_chunks b off (Suc n) (v # vs) =
      put_list (put_list b off (i32_bytes v)) (off + length (i32_bytes v)) (concat (map i32_bytes (take n vs)))"
    by (simp add: put_bytes_put_list)
  also have "\<dots> = put_list b off (i32_bytes v @ concat (map i32_bytes (take n vs)))"
    using "1.prems" by (intro put_list_put_list) (simp add: min_def)
  finally show ?case by simp
qed (simp_all add: put_list_def)

text \<open>A region that lies inside a buffer of \<open>n\<close> bytes.\<close>

definition inside :: "nat \<times> nat \<Rightarrow> nat \<Rightarrow> bool" where
  "inside reg n \<longleftrightarrow> fst reg + snd reg \<le> n \<and> snd reg mod 4 = 0"

lemma inside_count: "inside reg n \<Longrightarrow> fst reg + 4 * (snd reg div 4) \<le> n"
  by (auto simp: inside_def)

lemma writeRegion_put: "writeRegion b reg v = put_list b (fst reg) (concat (map i32_bytes (take (snd reg div 4) v)))"
  by (cases "snd reg div 4 = 0 \<or> v = []") (auto simp: writeRegion_def put_list_def min_def Let_def)

lemma rs_write_region_eq: "inside reg (length b) \<Longrightarrow> rs_write_region b reg v = writeRegion b reg v"
  by (simp add: rs_write_region_def rs_write_chunks_eq inside_count writeRegion_put)

lemma taken_count: "inside reg n \<Longrightarrow> fst reg + 4 * min (length v) (snd reg div 4) \<le> n"
  using inside_count [of reg n] by (auto simp: min_def)

lemma length_writeRegion: "inside reg (length b) \<Longrightarrow> length (writeRegion b reg v) = length b"
  using taken_count [of reg "length b" v] by (simp add: writeRegion_put)

lemma take_writeRegion:
  assumes "inside reg n" "n \<le> length b"
  shows "take n (writeRegion b reg v) = writeRegion (take n b) reg v"
  using taken_count [OF assms(1), of v] assms(2)
  by (intro nth_equalityI) (auto simp: writeRegion_put nth_put_list length_put_list)

lemma inside_mono: "inside reg n \<Longrightarrow> n \<le> m \<Longrightarrow> inside reg m"
  by (simp add: inside_def)

lemma layouts_match:
  assumes "l \<in> set allLayouts"
  shows "rs_layout_for (l_sensorType l) =
      Inr \<lparr>rl_length = l_totalLength l, rl_bias = l_bias l, rl_cali = l_cali l, rl_temp = l_temp l\<rparr>"
    and "l_totalLength l \<le> 48" "inside (l_bias l) (l_totalLength l)" "inside (l_cali l) (l_totalLength l)"
    and "inside (l_temp l) (l_totalLength l)" "known_sensor (l_sensorType l)"
  using assms
  by (auto simp: allLayouts_def rs_layout_for_def inside_def known_sensor_def SENSOR_TYPE_SENSOR_MAX_def)

text \<open>Reading a file and seeding a cache do not affect each other.\<close>

lemma seedCache_frame [simp]:
  "cs_disk (seedCache r t v s) = cs_disk s" "baseDir (seedCache r t v s) = baseDir s"
  "seedCache r t v (s\<lparr>cs_disk := w\<rparr>) = (seedCache r t v s)\<lparr>cs_disk := w\<rparr>"
  by (simp_all add: seedCache_def put_cache_def cacheFor_def)

lemma read_values_seed:
  "read_values f k (seedCache r t v s) = (fst (read_values f k s), seedCache r t v (snd (read_values f k s)))"
  by (simp add: read_values_def split: prod.splits)

lemma reads_seed:
  "read_cali l (seedCache r t v s) = (fst (read_cali l s), seedCache r t v (snd (read_cali l s)))"
  "read_temp l (seedCache r t v s) = (fst (read_temp l s), seedCache r t v (snd (read_temp l s)))"
  by (auto simp: read_cali_def read_temp_def read_values_seed split: option.splits)

lemma payload_bytes:
  assumes "inside bias n" "inside cali n" "inside temp n" "n \<le> 48"
  shows "take n (rs_write_region (rs_write_region (rs_write_region (replicate 48 0) bias b) cali c) temp t) =
      writeRegion (writeRegion (writeRegion (replicate n 0) bias b) cali c) temp t"
    and "take n (rs_write_region (rs_write_region (rs_write_region (rs_write_region (replicate 48 0) bias b) bias b') cali c) temp t) =
      writeRegion (writeRegion (writeRegion (writeRegion (replicate n 0) bias b) bias b') cali c) temp t"
  using assms
  by (simp_all add: rs_write_region_eq length_writeRegion take_writeRegion inside_mono min_def)

lemma writeRegion_Nil [simp]: "writeRegion b reg [] = b"
  by (simp add: writeRegion_def)

lemma buildPayload_rust_eq:
  assumes l: "l \<in> set allLayouts"
  shows "buildPayload_rust l s = buildPayload_cpp l s"
proof -
  obtain bias s1 where b: "read_bias l s = (bias, s1)" by (cases "read_bias l s")
  obtain cali s2 where c: "read_cali l s1 = (cali, s2)" by (cases "read_cali l s1")
  obtain temp s3 where t: "read_temp l s2 = (temp, s3)" by (cases "read_temp l s2")
  let ?bc = "snd (l_bias l) div 4" and ?cc = "snd (l_cali l) div 4"
  have split: "(snd (l_bias l) + snd (l_cali l)) div 4 = ?bc + ?cc" "0 < snd (l_bias l) \<longleftrightarrow> 0 < ?bc"
    using layouts_match(3,4) [OF l] by (auto simp: inside_def)
  note bytes = payload_bytes [OF layouts_match(3-5,2) [OF l]]
  show ?thesis
    unfolding buildPayload_rust_def buildPayload_cpp_def rs_payload_for_def
    using b c t
    by (cases bias; cases cali; cases temp)
      (auto simp: Let_def reads_seed layouts_match(1) [OF l] split bytes
        bytes(1) [where t = "[]", simplified])
qed

lemma layoutFor_Some: "layoutFor t = Some l \<Longrightarrow> l \<in> set allLayouts \<and> l_sensorType l = t"
  by (auto simp: layoutFor_def find_Some_iff)

lemma onKernelEvent_rust_eq:
  assumes "length (e_word ke) = 16"
  shows "onKernelEvent_rust ke s = onKernelEvent_cpp ke s"
proof (cases "layoutFor (e_sensor_type ke)")
  case (Some l)
  then have l: "l \<in> set allLayouts" "l_sensorType l = e_sensor_type ke"
    by (simp_all add: layoutFor_Some)
  have small: "snd reg div 4 \<le> 6 \<and> (snd reg div 4 = 0 \<longleftrightarrow> snd reg = 0)"
    if "reg \<in> {l_bias l, l_cali l, l_temp l}" for reg
    using that l(1) by (auto simp: allLayouts_def)
  note defs = onKernelEvent_rust_def onKernelEvent_cpp_def Some rs_event_for_def
    layouts_match(1) [OF l(1), unfolded l(2)] Let_def min_def assms
  consider "e_action ke = 2" | "e_action ke = 3" | "e_action ke = 4"
    | "e_action ke \<noteq> 2" "e_action ke \<noteq> 3" "e_action ke \<noteq> 4" by blast
  then show ?thesis
  proof cases
    case 1
    with small [of "l_bias l"] show ?thesis by (simp add: defs)
  next
    case 2
    with small [of "l_cali l"] show ?thesis by (simp add: defs)
  next
    case 3
    with small [of "l_temp l"] show ?thesis by (simp add: defs)
  next
    case 4
    then show ?thesis by (simp add: defs)
  qed
qed (simp add: onKernelEvent_rust_def onKernelEvent_cpp_def)

lemma push_layout_rust_eq: "l \<in> set allLayouts \<Longrightarrow> push_layout True dv l sh = push_layout False dv l sh"
proof -
  assume l: "l \<in> set allLayouts"
  have "buildPayload True l = buildPayload False l" "configCalibration True dv (l_sensorType l) = configCalibration False dv (l_sensorType l)"
    using l by (auto simp: buildPayload_def buildPayload_rust_eq configCalibration_rust layouts_match(6) intro!: ext)
  then show ?thesis unfolding push_layout_def by (simp only:)
qed

lemma pushAll_rust_eq: "pushAll True dv sh = pushAll False dv sh"
  unfolding pushAll_def by (rule foldl_cong) (simp_all add: push_layout_rust_eq)

subsection \<open>What the operations keep\<close>

lemma nowMs_cases:
  assumes "nowMs s = (now, s')"
  obtains ts where "s' = s\<lparr>cs_time := now, readings := ts\<rparr>" "cs_time s \<le> now"
  using assms by (cases s) (auto simp: nowMs_def Let_def split: list.splits)

text \<open>A region waits to be written only if it has a value that differs from the stored one and is not all zero.\<close>

definition region_ok :: "cached_region \<Rightarrow> bool" where
  "region_ok c \<longleftrightarrow> (cr_pending c \<longrightarrow> cr_haveValue c \<and> \<not> allZero (cr_values c) \<and>
     (\<not> cr_havePersistedValue c \<or> cr_values c \<noteq> cr_persistedValues c))"

definition never_zero :: "cal_store \<Rightarrow> bool" where
  "never_zero s \<longleftrightarrow> (\<forall>r t c. caches s r t = Some c \<longrightarrow> region_ok c) \<and> (\<forall>a \<in> set (attempts s). \<not> allZero (a_values a))"

text \<open>Writes of the same region lie at least \<open>kMinRewriteIntervalMs\<close> apart; the cache remembers the last.\<close>

definition apart :: "attempt_log \<Rightarrow> attempt_log \<Rightarrow> bool" where
  "apart a b \<longleftrightarrow> (a_sensor a = a_sensor b \<and> a_region a = a_region b \<longrightarrow> a_time b + kMinRewriteIntervalMs \<le> a_time a)"

definition spaced :: "cal_store \<Rightarrow> bool" where
  "spaced s \<longleftrightarrow> sorted_wrt apart (attempts s) \<and>
     (\<forall>a \<in> set (attempts s). \<exists>c. caches s (a_region a) (a_sensor a) = Some c \<and> a_time a \<le> cr_lastAttemptMs c)"

lemma cacheFor_put [simp]:
  "cacheFor r t (put_cache r' t' c s) = (if r' = r \<and> t' = t then c else cacheFor r t s)"
  by (auto simp: cacheFor_def put_cache_def)

lemma cacheFor_frame [simp]:
  "cacheFor r t (s\<lparr>cs_time := x, readings := ts\<rparr>) = cacheFor r t s"
  by (simp add: cacheFor_def)

lemma put_cache_frame [simp]:
  "attempts (put_cache r t c s) = attempts s" "cs_disk (put_cache r t c s) = cs_disk s"
  "cs_time (put_cache r t c s) = cs_time s" "baseDir (put_cache r t c s) = baseDir s"
  "stopping (put_cache r t c s) = stopping s" "readings (put_cache r t c s) = readings s"
  "notified (put_cache r t c s) = notified s"
  "caches (put_cache r t c s) r' t' = (if r' = r \<and> t' = t then Some c else caches s r' t')"
  by (auto simp: put_cache_def)

lemma put_cache_clock [simp]:
  "(put_cache r t c s)\<lparr>cs_time := cs_time s, readings := readings s\<rparr> = put_cache r t c s"
  by (cases s) (simp add: put_cache_def)

lemma never_zero_frame [simp]:
  "never_zero (s\<lparr>cs_time := x, readings := ts\<rparr>) = never_zero s" "never_zero (notify_one s) = never_zero s"
  "never_zero (s\<lparr>cs_disk := w\<rparr>) = never_zero s" "never_zero (s\<lparr>stopping := b\<rparr>) = never_zero s"
  by (simp_all add: never_zero_def notify_one_def)

lemma spaced_frame [simp]:
  "spaced (s\<lparr>cs_time := x, readings := ts\<rparr>) = spaced s" "spaced (notify_one s) = spaced s"
  "spaced (s\<lparr>cs_disk := w\<rparr>) = spaced s"
  by (simp_all add: spaced_def notify_one_def)

lemma never_zero_put: "never_zero s \<Longrightarrow> region_ok c \<Longrightarrow> never_zero (put_cache r t c s)"
  by (simp add: never_zero_def)

lemma spaced_put:
  "spaced s \<Longrightarrow> cr_lastAttemptMs (cacheFor r t s) \<le> cr_lastAttemptMs c \<Longrightarrow> spaced (put_cache r t c s)"
  by (fastforce simp: spaced_def cacheFor_def)

lemma region_ok_cacheFor: "never_zero s \<Longrightarrow> region_ok (cacheFor r t s)"
  by (auto simp: never_zero_def cacheFor_def region_ok_def new_region_def split: option.splits)

lemma writePending_cases:
  assumes "writePending l r s = s'"
  obtains (plain) c now ts where "cs_time s \<le> now"
    "c = (cacheFor r (l_sensorType l) s)\<lparr>cr_pending := False, cr_lastAttemptMs := now\<rparr>"
    "s' = put_cache r (l_sensorType l) c (s\<lparr>cs_time := now, readings := ts\<rparr>)"
  | (tried) c now ts ok w where "cs_time s \<le> now"
    "c = (cacheFor r (l_sensorType l) s)\<lparr>cr_pending := False, cr_lastAttemptMs := now\<rparr>"
    "s' = put_cache r (l_sensorType l) (if ok then c\<lparr>cr_persistedValues := cr_values c, cr_havePersistedValue := True\<rparr> else c)
       (s\<lparr>cs_time := now, readings := ts, cs_disk := w,
          attempts := \<lparr>a_sensor = l_sensorType l, a_region = r, a_time = now, a_values = cr_values c\<rparr> # attempts s\<rparr>)"
proof -
  obtain now s1 where n: "nowMs s = (now, s1)" by (cases "nowMs s")
  obtain ts where ts: "s1 = s\<lparr>cs_time := now, readings := ts\<rparr>" "cs_time s \<le> now"
    by (rule nowMs_cases [OF n])
  let ?t = "l_sensorType l"
  let ?c = "(cacheFor r ?t s)\<lparr>cr_pending := False, cr_lastAttemptMs := now\<rparr>"
  show thesis
  proof (cases "\<exists>f k. region_file l r = Some f \<and> region_key l r = Some k")
    case True
    then obtain f k where fk: "region_file l r = Some f" "region_key l r = Some k" by blast
    obtain ok w where "writeIntArray (baseDir s @ ''/'' @ f) k (cr_values ?c) (cs_disk s) = (ok, w)"
      by (cases "writeIntArray (baseDir s @ ''/'' @ f) k (cr_values ?c) (cs_disk s)")
    then show thesis
      using assms n ts fk by (intro tried [where now = now and c = ?c and ok = ok and ts = ts and w = w]) (auto simp: writePending_def Let_def put_cache_def)
  next
    case False
    then show thesis
      using assms n ts by (intro plain [where now = now and c = ?c and ts = ts]) (auto simp: writePending_def Let_def split: option.splits)
  qed
qed

lemma writePending_never_zero:
  assumes "never_zero s" "\<not> allZero (cr_values (cacheFor r (l_sensorType l) s))"
  shows "never_zero (writePending l r s)"
proof (rule writePending_cases [where l = l and r = r and s = s, OF refl], goal_cases plain tried)
  case (plain c now ts)
  with assms show ?thesis by (simp add: never_zero_put region_ok_def)
next
  case (tried c now ts ok w)
  with assms show ?thesis by (auto simp: never_zero_def region_ok_def)
qed

lemma writePending_spaced:
  assumes "spaced s" "cr_lastAttemptMs (cacheFor r (l_sensorType l) s) + kMinRewriteIntervalMs \<le> cs_time s"
  shows "spaced (writePending l r s)"
proof (rule writePending_cases [where l = l and r = r and s = s, OF refl], goal_cases plain tried)
  case (plain c now ts)
  with assms show ?thesis by (auto intro!: spaced_put simp: cacheFor_def kMinRewriteIntervalMs_def)
next
  case (tried c now ts ok w)
  have "a_time b \<le> cr_lastAttemptMs (cacheFor r (l_sensorType l) s)"
    if "b \<in> set (attempts s)" "a_region b = r" "a_sensor b = l_sensorType l" for b
    using assms(1) that by (fastforce simp: spaced_def cacheFor_def)
  with assms tried show ?thesis
    by (fastforce simp: spaced_def apart_def cacheFor_def kMinRewriteIntervalMs_def)
qed

lemma persistRegion_cases:
  assumes "persistRegion l r v s = s'"
  obtains (same) "s' = s" "cr_haveValue (cacheFor r (l_sensorType l) s)" "cr_values (cacheFor r (l_sensorType l) s) = v"
  | (new) c s1 s2 ts now where
    "c = (cacheFor r (l_sensorType l) s)\<lparr>cr_values := v, cr_haveValue := True,
       cr_pending := (\<not> allZero v \<and> (\<not> cr_havePersistedValue (cacheFor r (l_sensorType l) s) \<or>
         cr_persistedValues (cacheFor r (l_sensorType l) s) \<noteq> v))\<rparr>"
    "region_ok c" "s1 = put_cache r (l_sensorType l) c s"
    "s2 = s1 \<or> cr_pending c \<and> cs_time s \<le> now \<and>
       (s2 = s1\<lparr>cs_time := now, readings := ts\<rparr> \<or>
        cr_lastAttemptMs c + kMinRewriteIntervalMs \<le> now \<and> s2 = writePending l r (s1\<lparr>cs_time := now, readings := ts\<rparr>))"
    "s' = (if cr_pending (cacheFor r (l_sensorType l) s2) \<noteq> cr_pending (cacheFor r (l_sensorType l) s)
       then notify_one s2 else s2)"
proof -
  let ?t = "l_sensorType l"
  let ?old = "cacheFor r ?t s"
  let ?c = "?old\<lparr>cr_values := v, cr_haveValue := True,
       cr_pending := (\<not> allZero v \<and> (\<not> cr_havePersistedValue ?old \<or> cr_persistedValues ?old \<noteq> v))\<rparr>"
  let ?s1 = "put_cache r ?t ?c s"
  show thesis
  proof (cases "(cr_haveValue ?old \<and> cr_values ?old = v) \<and> (cr_pending ?old \<or> allZero v \<or>
      (cr_havePersistedValue ?old \<and> cr_persistedValues ?old = v))")
    case True
    then have "persistRegion l r v s = s" unfolding persistRegion_def Let_def by (rule if_P)
    with assms True same show thesis by simp
  next
    case False
    obtain now s2 where n: "nowMs ?s1 = (now, s2)" by (cases "nowMs ?s1")
    obtain ts where ts: "s2 = ?s1\<lparr>cs_time := now, readings := ts\<rparr>" "cs_time ?s1 \<le> now"
      by (rule nowMs_cases [OF n])
    let ?s2 = "if cr_pending ?c then (if now - cr_lastAttemptMs ?c \<ge> kMinRewriteIntervalMs then writePending l r s2 else s2) else ?s1"
    have s': "s' = (if cr_pending (cacheFor r ?t ?s2) \<noteq> cr_pending ?old then notify_one ?s2 else ?s2)"
      using assms unfolding persistRegion_def Let_def if_not_P [OF False] n prod.case by (rule sym)
    show thesis
      by (rule new [OF refl _ refl _ s']) (use ts in \<open>auto simp: region_ok_def\<close>)
  qed
qed

lemma persistRegion_never_zero:
  assumes "never_zero s"
  shows "never_zero (persistRegion l r v s)"
proof (rule persistRegion_cases [where l = l and r = r and v = v and s = s, OF refl], goal_cases same new)
  case (new c s1 s2 ts now)
  from new assms have "never_zero s1" by (simp add: never_zero_put)
  moreover have "cr_pending c \<Longrightarrow> \<not> allZero (cr_values (cacheFor r (l_sensorType l) (s1\<lparr>cs_time := now, readings := ts\<rparr>)))"
    using new(1-3) by simp
  ultimately show ?thesis using new(4,5) writePending_never_zero by auto
qed (simp add: assms)

lemma persistRegion_spaced:
  assumes "spaced s"
  shows "spaced (persistRegion l r v s)"
proof (rule persistRegion_cases [where l = l and r = r and v = v and s = s, OF refl], goal_cases same new)
  case (new c s1 s2 ts now)
  from new assms have "spaced s1" by (simp add: spaced_put)
  with new(3) have "spaced (writePending l r (s1\<lparr>cs_time := now, readings := ts\<rparr>))"
    if "cr_lastAttemptMs c + kMinRewriteIntervalMs \<le> now"
    using that \<open>spaced s1\<close> by (intro writePending_spaced) simp_all
  with \<open>spaced s1\<close> new(4,5) show ?thesis by auto
qed (simp add: assms)

lemma onKernelEvent_keeps:
  assumes "\<And>l r v. P s \<Longrightarrow> P (persistRegion l r v s)" "length (e_word ke) = 16" "P s"
  shows "P (onKernelEvent rust ke s)"
  using assms by (auto simp: onKernelEvent_def onKernelEvent_rust_eq onKernelEvent_cpp_def split: option.splits)

text \<open>What the writer thread finds in a region: at shutdown everything not yet stored counts as waiting.\<close>

definition found :: "bool \<Rightarrow> cached_region \<Rightarrow> cached_region" where
  "found stop c = (if stop then
     c\<lparr>cr_pending := (cr_haveValue c \<and> \<not> allZero (cr_values c) \<and>
       (\<not> cr_havePersistedValue c \<or> cr_values c \<noteq> cr_persistedValues c))\<rparr> else c)"

lemma found_simps [simp]:
  "cr_values (found b c) = cr_values c" "cr_lastAttemptMs (found b c) = cr_lastAttemptMs c"
  "cr_haveValue (found b c) = cr_haveValue c" "cr_persistedValues (found b c) = cr_persistedValues c"
  "cr_havePersistedValue (found b c) = cr_havePersistedValue c" "found False c = c"
  by (simp_all add: found_def)

lemma region_ok_found: "region_ok c \<Longrightarrow> region_ok (found b c)"
  by (simp add: found_def region_ok_def)

lemma visit_region_cases:
  assumes "visit_region l r (n, s) = (n', s')"
  obtains (absent) "caches s r (l_sensorType l) = None" "n' = n" "s' = s"
  | (idle) c where "caches s r (l_sensorType l) = Some c" "\<not> cr_pending (found (stopping s) c)" "n' = n"
    "s' = put_cache r (l_sensorType l) (found (stopping s) c) s"
  | (due) c now ts where "caches s r (l_sensorType l) = Some c" "cr_pending (found (stopping s) c)" "n' = n"
    "s' = writePending l r ((put_cache r (l_sensorType l) (found (stopping s) c) s)\<lparr>cs_time := now, readings := ts\<rparr>)"
    "cs_time s \<le> now" "stopping s \<or> cr_lastAttemptMs c + kMinRewriteIntervalMs \<le> now"
  | (later) c now ts where "caches s r (l_sensorType l) = Some c" "cr_pending c" "\<not> stopping s"
    "now < cr_lastAttemptMs c + kMinRewriteIntervalMs" "cs_time s \<le> now"
    "n' = min n (cr_lastAttemptMs c + kMinRewriteIntervalMs)"
    "s' = (put_cache r (l_sensorType l) c s)\<lparr>cs_time := now, readings := ts\<rparr>"
proof (cases "caches s r (l_sensorType l)")
  case None
  with assms have "n' = n" "s' = s" by (simp_all add: visit_region_def)
  with None show thesis by (rule absent)
next
  case (Some c)
  let ?t = "l_sensorType l"
  let ?s = "put_cache r ?t (found (stopping s) c) s"
  note vis = assms [unfolded visit_region_def Let_def Some prod.case option.case found_def [symmetric]]
  show thesis
  proof (cases "cr_pending (found (stopping s) c)")
    case False
    with vis Some show thesis by (intro idle [of c]) simp_all
  next
    case pend: True
    show thesis
    proof (cases "stopping s")
      case True
      then show thesis
        using vis pend Some by (intro due [where c = c and now = "cs_time ?s" and ts = "readings ?s"]) simp_all
    next
      case False
      obtain now u where n: "nowMs ?s = (now, u)" by (cases "nowMs ?s")
      obtain ts where ts: "u = ?s\<lparr>cs_time := now, readings := ts\<rparr>" "cs_time ?s \<le> now"
        by (rule nowMs_cases [OF n])
      show thesis
      proof (cases "cr_lastAttemptMs c + kMinRewriteIntervalMs \<le> now")
        case True
        with vis pend Some False n ts show thesis by (intro due [where c = c and now = now and ts = ts]) simp_all
      next
        case late: False
        with vis pend Some False n ts show thesis by (intro later [where c = c and now = now and ts = ts]) simp_all
      qed
    qed
  qed
qed

lemma visit_never_zero:
  assumes "never_zero s"
  shows "never_zero (snd (visit_region l r (n, s)))"
proof -
  obtain n' s' where v: "visit_region l r (n, s) = (n', s')" by (cases "visit_region l r (n, s)")
  have ok: "region_ok c" if "caches s r (l_sensorType l) = Some c" for c
    using assms that by (simp add: never_zero_def)
  from v show ?thesis
  proof (cases rule: visit_region_cases)
    case (due c now ts)
    with ok [of c] have "region_ok (found (stopping s) c)" by (simp add: region_ok_found)
    with due assms v show ?thesis
      by (auto intro!: writePending_never_zero never_zero_put simp: region_ok_def)
  qed (use assms ok v in \<open>auto intro!: never_zero_put simp: region_ok_found\<close>)
qed

lemma visit_spaced:
  assumes "spaced s" "\<not> stopping s"
  shows "spaced (snd (visit_region l r (n, s)))"
proof -
  obtain n' s' where v: "visit_region l r (n, s) = (n', s')" by (cases "visit_region l r (n, s)")
  have put: "spaced (put_cache r (l_sensorType l) c s)" if "caches s r (l_sensorType l) = Some c" for c
    using assms that by (intro spaced_put) (simp_all add: cacheFor_def)
  from v show ?thesis
  proof (cases rule: visit_region_cases)
    case (due c now ts)
    with assms put [of c] v show ?thesis by (auto intro!: writePending_spaced)
  qed (use assms put v in auto)
qed

lemma writePending_stopping [simp]: "stopping (writePending l r s) = stopping s"
  by (rule writePending_cases [where l = l and r = r and s = s, OF refl]) auto

lemma visit_stopping [simp]: "stopping (snd (visit_region l r (n, s))) = stopping s"
proof -
  obtain n' s' where v: "visit_region l r (n, s) = (n', s')" by (cases "visit_region l r (n, s)")
  then show ?thesis by (cases rule: visit_region_cases) (auto simp: v)
qed

text \<open>A property that every visit keeps is kept by the whole scan.\<close>

lemma scan_keeps:
  assumes "\<And>l r n u. P u \<Longrightarrow> P (snd (visit_region l r (n, u)))" "P s"
  shows "P (snd (scan s))"
proof -
  have "P (snd (foldl (\<lambda>ns (l, r). visit_region l r ns) ns xs))" if "P (snd ns)" for ns xs
    using that
  proof (induction xs arbitrary: ns)
    case (Cons x xs)
    obtain l r where x: "x = (l, r)" by (cases x)
    have "P (snd (visit_region l r ns))"
      using assms(1) [of "snd ns" l r "fst ns"] Cons.prems by simp
    from Cons.IH [OF this] x show ?case by simp
  qed simp
  from this [of "(kInt64Max, s)" slots] assms(2) show ?thesis by (simp add: scan_def)
qed

lemma persistence_turn_keeps:
  assumes "\<And>l r n u. P u \<Longrightarrow> P (snd (visit_region l r (n, u)))"
    and "\<And>u x ts. cs_time u \<le> x \<Longrightarrow> P u \<Longrightarrow> P (u\<lparr>cs_time := x, readings := ts\<rparr>)" "P s"
  shows "P (snd (persistence_turn s))"
proof -
  obtain n s1 where sc: "scan s = (n, s1)" by (cases "scan s")
  have P1: "P s1" using scan_keeps [of P, OF assms(1) assms(3)] sc by simp
  obtain now s2 where nw: "nowMs s1 = (now, s2)" by (cases "nowMs s1")
  obtain ts where "s2 = s1\<lparr>cs_time := now, readings := ts\<rparr>" "cs_time s1 \<le> now"
    by (rule nowMs_cases [OF nw])
  with P1 assms(2) have "P s2" by simp
  with P1 sc nw show ?thesis by (simp add: persistence_turn_def)
qed

lemma reads_keep:
  assumes "\<And>u w. P u \<Longrightarrow> P (u\<lparr>cs_disk := w\<rparr>)" "P s"
  shows "P (snd (read_bias l s))" "P (snd (read_cali l s))" "P (snd (read_temp l s))"
  using assms by (auto simp: read_bias_def read_cali_def read_temp_def read_values_def split: option.splits prod.splits)

lemma pushAll_keeps:
  assumes "\<And>u w. P u \<Longrightarrow> P (u\<lparr>cs_disk := w\<rparr>)"
    and "\<And>u l r v. l \<in> set allLayouts \<Longrightarrow> P u \<Longrightarrow> P (seedCache r (l_sensorType l) v u)" "P s"
  shows "P (fst (pushAll rust dv (s, h)))"
proof -
  have build: "P (snd (buildPayload_cpp l u))" if "P u" "l \<in> set allLayouts" for l u
  proof -
    obtain bias s1 where b: "read_bias l u = (bias, s1)" by (cases "read_bias l u")
    obtain cali s2 where c: "read_cali l s1 = (cali, s2)" by (cases "read_cali l s1")
    obtain temp s3 where t: "read_temp l s2 = (temp, s3)" by (cases "read_temp l s2")
    have keep: "P v \<Longrightarrow> P (snd (read_bias l v))" "P v \<Longrightarrow> P (snd (read_cali l v))" "P v \<Longrightarrow> P (snd (read_temp l v))" for v
      using reads_keep [where P = P and s = v and l = l] assms(1) by blast+
    have "P s3" using keep(1) [OF that(1)] keep(2) [of s1] keep(3) [of s2] b c t by simp
    then show ?thesis
      using b c t by (auto simp: buildPayload_cpp_def Let_def reads_seed split: option.splits intro!: assms(2) [OF that(2)])
  qed
  have push: "P (fst (push_layout rust dv l sh))" if "P (fst sh)" "l \<in> set allLayouts" for l sh
    using build [OF that] that
    by (cases sh) (auto simp: push_layout_def buildPayload_def buildPayload_rust_eq split: prod.splits bool.splits)
  have "P (fst (foldl (\<lambda>sh l. push_layout rust dv l sh) sh ls))" if "P (fst sh)" "set ls \<subseteq> set allLayouts" for sh ls
    using that
  proof (induction ls arbitrary: sh)
    case (Cons l ls)
    from Cons.IH [of "push_layout rust dv l sh"] push [of sh l] Cons.prems show ?case by simp
  qed simp
  from this [of "(s, h)" allLayouts] assms(3) show ?thesis by (simp add: pushAll_def)
qed

lemma seed_never_zero: "never_zero s \<Longrightarrow> never_zero (seedCache r t v s)"
  using region_ok_cacheFor [of s r t]
  by (auto simp: seedCache_def seed_region_def region_ok_def intro!: never_zero_put)

lemma seed_stopping: "stopping (seedCache r t v s) = stopping s"
  by (simp add: seedCache_def)

lemma seed_spaced: "spaced s \<Longrightarrow> spaced (seedCache r t v s)"
  by (auto simp: seedCache_def seed_region_def intro!: spaced_put)

text \<open>Regions exist for known layouts only, and nothing was tried in the future.\<close>

definition timed :: "cal_store \<Rightarrow> bool" where
  "timed s \<longleftrightarrow> 0 \<le> cs_time s \<and>
     (\<forall>r t c. caches s r t = Some c \<longrightarrow> cr_lastAttemptMs c \<le> cs_time s \<and> t \<in> l_sensorType ` set allLayouts)"

lemma timed_put:
  "timed s \<Longrightarrow> cr_lastAttemptMs c \<le> cs_time s \<Longrightarrow> t \<in> l_sensorType ` set allLayouts \<Longrightarrow> timed (put_cache r t c s)"
  by (simp add: timed_def)

lemma timed_clock: "cs_time s \<le> x \<Longrightarrow> timed s \<Longrightarrow> timed (s\<lparr>cs_time := x, readings := ts\<rparr>)"
  by (fastforce simp: timed_def)

lemma timed_frame [simp]: "timed (notify_one s) = timed s" "timed (s\<lparr>cs_disk := w\<rparr>) = timed s"
  by (simp_all add: timed_def notify_one_def)

lemma timed_cacheFor: "timed s \<Longrightarrow> cr_lastAttemptMs (cacheFor r t s) \<le> cs_time s"
  by (auto simp: timed_def cacheFor_def new_region_def kMinRewriteIntervalMs_def split: option.splits)

lemma writePending_timed:
  "timed s \<Longrightarrow> l_sensorType l \<in> l_sensorType ` set allLayouts \<Longrightarrow> timed (writePending l r s)"
proof (rule writePending_cases [where l = l and r = r and s = s, OF refl], goal_cases plain tried)
  case (plain c now ts)
  then show ?case by (simp add: timed_put timed_clock)
next
  case (tried c now ts ok w)
  then have "timed (s\<lparr>cs_time := now, readings := ts\<rparr>)" by (simp add: timed_clock)
  with tried show ?case by (auto simp: timed_def)
qed


lemma visit_timed: 
  assumes "timed s"
  shows "timed (snd (visit_region l r (n, s)))"
proof -
  obtain n' s' where v: "visit_region l r (n, s) = (n', s')" by (cases "visit_region l r (n, s)")
  let ?t = "l_sensorType l"
  have put: "timed (put_cache r ?t (found b c) s)" if "caches s r ?t = Some c" for b c
    using assms that by (intro timed_put) (auto simp: timed_def)
  from v show ?thesis
  proof (cases rule: visit_region_cases)
    case (due c now ts)
    have "timed ((put_cache r ?t (found (stopping s) c) s)\<lparr>cs_time := now, readings := ts\<rparr>)"
      using put [OF due(1)] due(5) by (intro timed_clock) simp_all
    moreover have "?t \<in> l_sensorType ` set allLayouts" using due(1) assms by (auto simp: timed_def)
    ultimately show ?thesis
      using due(4) v writePending_timed by auto
  next
    case (later c now ts)
    with put [of c False] v show ?thesis by (simp add: timed_clock)
  qed (use assms put v in auto)
qed

lemma persistRegion_timed:
  assumes "timed s" "l \<in> set allLayouts"
  shows "timed (persistRegion l r v s)"
proof (rule persistRegion_cases [where l = l and r = r and v = v and s = s, OF refl], goal_cases same new)
  case (new c s1 s2 ts now)
  then have "timed s1"
    using assms timed_cacheFor [OF assms(1), of r "l_sensorType l"] by (auto intro!: timed_put)
  moreover have "cs_time s \<le> now \<Longrightarrow> timed (s1\<lparr>cs_time := now, readings := ts\<rparr>)"
    using \<open>timed s1\<close> new(3) by (intro timed_clock) simp_all
  ultimately show ?case using new(4,5) writePending_timed assms(2) by auto
qed (simp add: assms)

lemma seed_timed: "timed s \<Longrightarrow> l \<in> set allLayouts \<Longrightarrow> timed (seedCache r (l_sensorType l) v s)"
  using timed_cacheFor [of s r "l_sensorType l"]
  by (auto simp: seedCache_def seed_region_def intro!: timed_put)

subsection \<open>Runs\<close>

text \<open>Everything that can happen to a store before it is destroyed, in any order.\<close>

inductive cal_step :: "'k driver \<Rightarrow> cal_store \<Rightarrow> cal_store \<Rightarrow> bool" for dv where
  event: "length (e_word ke) = 16 \<Longrightarrow> cal_step dv s (onKernelEvent rust ke s)"
| push: "cal_step dv s (fst (pushAll rust dv (s, h)))"
| turn: "cal_step dv s (snd (persistence_turn s))"

inductive cal_reach :: "'k driver \<Rightarrow> cal_store \<Rightarrow> bool" for dv where
  start: "cal_reach dv (new_store dir w ts)"
| step: "cal_reach dv s \<Longrightarrow> cal_step dv s s' \<Longrightarrow> cal_reach dv s'"

definition cal_ok :: "cal_store \<Rightarrow> bool" where
  "cal_ok s \<longleftrightarrow> \<not> stopping s \<and> never_zero s \<and> spaced s \<and> timed s"

lemma persistRegion_stopping [simp]: "stopping (persistRegion l r v s) = stopping s"
  by (rule persistRegion_cases [where l = l and r = r and v = v and s = s, OF refl]) (auto simp: notify_one_def)

lemma cal_ok_persist: "cal_ok s \<Longrightarrow> l \<in> set allLayouts \<Longrightarrow> cal_ok (persistRegion l r v s)"
  by (simp add: cal_ok_def persistRegion_never_zero persistRegion_spaced persistRegion_timed)

lemma cal_ok_step: "cal_step dv s s' \<Longrightarrow> cal_ok s \<Longrightarrow> cal_ok s'"
proof (induction rule: cal_step.induct)
  case (event ke s rust)
  then show ?case
    by (auto simp: onKernelEvent_def onKernelEvent_rust_eq onKernelEvent_cpp_def dest: layoutFor_Some
        intro: cal_ok_persist split: option.splits)
next
  case (push s rust h)
  show ?case
    by (rule pushAll_keeps [of cal_ok])
      (use push in \<open>auto simp: cal_ok_def seed_stopping seed_never_zero seed_spaced seed_timed\<close>)
next
  case (turn s)
  show ?case
    by (rule persistence_turn_keeps [of cal_ok])
      (use turn in \<open>auto simp: cal_ok_def visit_never_zero visit_spaced visit_timed timed_clock\<close>)
qed

lemma cal_reach_ok: "cal_reach dv s \<Longrightarrow> cal_ok s"
proof (induction rule: cal_reach.induct)
  case (start dir w ts)
  show ?case by (simp add: new_store_def cal_ok_def never_zero_def spaced_def timed_def)
qed (rule cal_ok_step)

subsection \<open>No write is forgotten\<close>

lemma writePending_caches:
  "caches (writePending l r s) r' t =
     (if r' = r \<and> t = l_sensorType l then Some (cacheFor r t (writePending l r s)) else caches s r' t)"
  "\<not> cr_pending (cacheFor r (l_sensorType l) (writePending l r s))"
  "cs_time s \<le> cs_time (writePending l r s)" "notified (writePending l r s) = notified s"
  by (rule writePending_cases [where l = l and r = r and s = s, OF refl]; auto simp: cacheFor_def)+

text \<open>After a visit of a region, \<open>next\<close> is at most the time at which that region, if it waits, is due.\<close>

definition covered :: "(sensor_layout \<times> region) set \<Rightarrow> int \<Rightarrow> cal_store \<Rightarrow> bool" where
  "covered A n s \<longleftrightarrow> (\<forall>(l, r) \<in> A. \<forall>c. caches s r (l_sensorType l) = Some c \<and> cr_pending c \<longrightarrow>
     n \<le> cr_lastAttemptMs c + kMinRewriteIntervalMs)"

lemma visit_covers:
  assumes "visit_region l r (n, s) = (n', s')" "covered A n s" "\<not> stopping s"
    and "\<And>l' r'. (l', r') \<in> A \<Longrightarrow> r' \<noteq> r \<or> l_sensorType l' \<noteq> l_sensorType l"
  shows "covered (insert (l, r) A) n' s'"
  using assms(1)
proof (cases rule: visit_region_cases)
  case absent
  with assms show ?thesis by (auto simp: covered_def)
next
  case (idle c)
  with assms show ?thesis by (fastforce simp: covered_def)
next
  case (due c now ts)
  with assms(2-4) show ?thesis
    using writePending_caches(2) [of r l]
    by (fastforce simp: covered_def writePending_caches(1))
next
  case (later c now ts)
  with assms(2-4) show ?thesis by (fastforce simp: covered_def)
qed

lemma slots_distinct:
  "distinct (map (\<lambda>(l, r). (l_sensorType l, r)) slots)"
  by (simp add: slots_def allLayouts_def)

lemma slots_complete: "t \<in> l_sensorType ` set allLayouts \<Longrightarrow> \<exists>l. l_sensorType l = t \<and> (l, r) \<in> set slots"
  by (cases r) (auto simp: slots_def)

lemma scan_covers:
  assumes "\<not> stopping s" "scan s = (n, s')"
  shows "covered (set slots) n s'"
proof -
  have "covered (A \<union> set xs) n' u'"
    if "foldl (\<lambda>ns (l, r). visit_region l r ns) (m, u) xs = (n', u')" "covered A m u" "\<not> stopping u"
      "distinct (map (\<lambda>(l, r). (l_sensorType l, r)) xs)"
      "\<And>l r l' r'. (l', r') \<in> A \<Longrightarrow> (l, r) \<in> set xs \<Longrightarrow> r' \<noteq> r \<or> l_sensorType l' \<noteq> l_sensorType l"
    for A m u xs n' u'
    using that
  proof (induction xs arbitrary: A m u)
    case (Cons x xs)
    obtain l r where x: "x = (l, r)" by (cases x)
    obtain m1 u1 where v: "visit_region l r (m, u) = (m1, u1)" by (cases "visit_region l r (m, u)")
    have cov: "covered (insert (l, r) A) m1 u1"
      using v Cons.prems(2,3) Cons.prems(5) x by (intro visit_covers) auto
    have run: "\<not> stopping u1" using visit_stopping [of l r m u] v Cons.prems(3) by simp
    have apart: "r' \<noteq> r'' \<or> l_sensorType l' \<noteq> l_sensorType l''"
      if "(l', r') \<in> insert (l, r) A" "(l'', r'') \<in> set xs" for l' r' l'' r''
      using that Cons.prems(4) Cons.prems(5) [of l' r' l'' r''] x by force
    have "covered (insert (l, r) A \<union> set xs) n' u'"
      by (rule Cons.IH [OF _ cov run _ apart]) (use Cons.prems(1,4) v x in simp_all)
    with x show ?case by simp
  qed simp
  from this [of kInt64Max s slots n s' "{}"] assms slots_distinct show ?thesis
    by (simp add: scan_def covered_def)
qed

lemma persistence_turn_covers:
  assumes "cal_ok s" "persistence_turn s = (e, s')" "caches s' r t = Some c" "cr_pending c"
    and "cs_time s' < kInt64Max - kMinRewriteIntervalMs"
  shows "\<exists>d. e = WaitFor d \<and> cs_time s' + d \<le> max (cs_time s') (cr_lastAttemptMs c + kMinRewriteIntervalMs)"
proof -
  have ok: "cal_ok s'"
    using cal_ok_step [OF cal_step.turn assms(1)] assms(2) by simp
  obtain n s1 where sc: "scan s = (n, s1)" by (cases "scan s")
  have run: "\<not> stopping s1"
    using scan_keeps [of "\<lambda>u. \<not> stopping u" s] assms(1) sc by (simp add: cal_ok_def)
  obtain now s2 where nw: "nowMs s1 = (now, s2)" by (cases "nowMs s1")
  obtain ts where s2: "s2 = s1\<lparr>cs_time := now, readings := ts\<rparr>" by (rule nowMs_cases [OF nw])
  have cov: "covered (set slots) n s1"
    using scan_covers [OF _ sc] assms(1) by (simp add: cal_ok_def)
  have same: "caches s' = caches s1"
    using assms(2) sc nw s2 run by (auto simp: persistence_turn_def split: if_splits)
  have t: "t \<in> l_sensorType ` set allLayouts" "cr_lastAttemptMs c \<le> cs_time s'"
    using ok assms(3) by (auto simp: cal_ok_def timed_def)
  have due: "n \<le> cr_lastAttemptMs c + kMinRewriteIntervalMs"
    using cov slots_complete [OF t(1), of r] assms(3,4) same by (fastforce simp: covered_def)
  with t(2) assms(5) have "n \<noteq> kInt64Max" by simp
  then have "e = WaitFor (max 0 (n - now))" "cs_time s' = now"
    using assms(2) sc nw s2 run by (auto simp: persistence_turn_def)
  with due show ?thesis by auto
qed

lemma persistRegion_notifies:
  assumes "caches (persistRegion l r v s) r' t = Some c" "cr_pending c"
  shows "notified s < notified (persistRegion l r v s) \<or>
    (\<exists>old. caches s r' t = Some old \<and> cr_pending old \<and> cr_lastAttemptMs old = cr_lastAttemptMs c)"
proof (rule persistRegion_cases [where l = l and r = r and v = v and s = s, OF refl], goal_cases same new)
  case same
  with assms show ?case by simp
next
  case (new d s1 s2 ts now)
  let ?t = "l_sensorType l"
  show ?case
  proof (cases "r' = r \<and> t = ?t")
    case False
    with assms new show ?thesis
      by (auto simp: notify_one_def writePending_caches(1) split: if_splits)
  next
    case True
    have c: "cacheFor r ?t s2 = c"
      using assms(1) new(5) True by (auto simp: notify_one_def cacheFor_def split: if_splits)
    have kept: "cr_lastAttemptMs c = cr_lastAttemptMs (cacheFor r ?t s)"
      using new(1,3,4) c assms(2) writePending_caches(2) [of r l] by auto
    have old: "cr_pending (cacheFor r ?t s) \<Longrightarrow> caches s r ?t = Some (cacheFor r ?t s)"
      by (auto simp: cacheFor_def new_region_def split: option.splits)
    have count: "notified s2 = notified s"
      using new(3,4) writePending_caches(4) by auto
    show ?thesis
    proof (cases "cr_pending (cacheFor r ?t s)")
      case True
      with old kept \<open>r' = r \<and> t = ?t\<close> show ?thesis by simp
    next
      case False
      with c assms(2) new(5) count show ?thesis by (simp add: notify_one_def)
    qed
  qed
qed

lemma onKernelEvent_notifies:
  assumes "length (e_word ke) = 16" "caches (onKernelEvent rust ke s) r t = Some c" "cr_pending c"
  shows "notified s < notified (onKernelEvent rust ke s) \<or>
    (\<exists>old. caches s r t = Some old \<and> cr_pending old \<and> cr_lastAttemptMs old = cr_lastAttemptMs c)"
proof -
  have cpp: "onKernelEvent rust ke s = onKernelEvent_cpp ke s"
    using assms(1) by (simp add: onKernelEvent_def onKernelEvent_rust_eq)
  then have "onKernelEvent rust ke s = s \<or> (\<exists>l r v. onKernelEvent rust ke s = persistRegion l r v s)"
    unfolding cpp onKernelEvent_cpp_def by (auto split: option.split)
  with persistRegion_notifies assms(2,3) show ?thesis by metis
qed

subsection \<open>Shutdown writes what is not stored\<close>

definition unsaved :: "cached_region \<Rightarrow> bool" where
  "unsaved c \<longleftrightarrow> cr_haveValue c \<and> \<not> allZero (cr_values c) \<and>
     (\<not> cr_havePersistedValue c \<or> cr_values c \<noteq> cr_persistedValues c)"

lemma found_True: "cr_pending (found True c) = unsaved c"
  by (simp add: found_def unsaved_def)

definition path_of :: "string \<Rightarrow> string \<Rightarrow> string" where
  "path_of dir f = dir @ ''/'' @ f"

text \<open>The files of a region: its own name and the temporary one.\<close>

definition own_paths :: "string \<Rightarrow> sensor_layout \<times> region \<Rightarrow> string set" where
  "own_paths dir x = (case region_file (fst x) (snd x) of
     None \<Rightarrow> {} | Some f \<Rightarrow> {path_of dir f, path_of dir f @ ''.tmp''})"

lemma writePending_disk:
  "baseDir (writePending l r s) = baseDir s"
  "region_file l r = Some f \<Longrightarrow> region_key l r = Some k \<Longrightarrow>
    cs_disk (writePending l r s) = snd (writeIntArray (path_of (baseDir s) f) k (cr_values (cacheFor r (l_sensorType l) s)) (cs_disk s))"
  "region_file l r = None \<or> region_key l r = None \<Longrightarrow> cs_disk (writePending l r s) = cs_disk s"
proof -
  obtain now s1 where n: "nowMs s = (now, s1)" by (cases "nowMs s")
  obtain ts where ts: "s1 = s\<lparr>cs_time := now, readings := ts\<rparr>" by (rule nowMs_cases [OF n])
  note defs = writePending_def Let_def n ts path_of_def
  show "baseDir (writePending l r s) = baseDir s"
    by (auto simp: defs split: option.splits prod.splits)
  show "region_file l r = Some f \<Longrightarrow> region_key l r = Some k \<Longrightarrow>
    cs_disk (writePending l r s) = snd (writeIntArray (path_of (baseDir s) f) k (cr_values (cacheFor r (l_sensorType l) s)) (cs_disk s))"
    by (auto simp: defs split: prod.splits)
  show "region_file l r = None \<or> region_key l r = None \<Longrightarrow> cs_disk (writePending l r s) = cs_disk s"
    by (auto simp: defs split: option.splits)
qed

lemma writeIntArray_success:
  assumes "script w = []"
  shows "script (snd (writeIntArray p k v w)) = []"
    and "files (snd (writeIntArray p k v w)) p = Some (text_bytes (render k v))"
    and "q \<noteq> p \<Longrightarrow> q \<noteq> p @ ''.tmp'' \<Longrightarrow> files (snd (writeIntArray p k v w)) q = files w q"
  using writeIntArray_clean [OF assms, of p k v] writeIntArray_visits [of p k v w]
  by (auto simp: visits_def evolved_def)

lemma writePending_flush:
  assumes "script (cs_disk s) = []"
  shows "script (cs_disk (writePending l r s)) = []"
    and "q \<notin> own_paths (baseDir s) (l, r) \<Longrightarrow> files (cs_disk (writePending l r s)) q = files (cs_disk s) q"
    and "region_file l r = Some f \<Longrightarrow> region_key l r = Some k \<Longrightarrow>
      files (cs_disk (writePending l r s)) (path_of (baseDir s) f) =
        Some (text_bytes (render k (cr_values (cacheFor r (l_sensorType l) s))))"
  using assms writePending_disk(2,3) [where l = l and r = r and s = s]
  by (cases "region_file l r"; cases "region_key l r"; simp add: writeIntArray_success own_paths_def)+

text \<open>One visit at shutdown.\<close>

lemma visit_flush:
  assumes "visit_region l r (n, s) = (n', s')" "stopping s" "script (cs_disk s) = []"
  shows "script (cs_disk s') = []" "baseDir s' = baseDir s"
    and "r' \<noteq> r \<or> t \<noteq> l_sensorType l \<Longrightarrow> caches s' r' t = caches s r' t"
    and "q \<notin> own_paths (baseDir s) (l, r) \<Longrightarrow> files (cs_disk s') q = files (cs_disk s) q"
    and "caches s r (l_sensorType l) = Some c \<Longrightarrow> unsaved c \<Longrightarrow> region_file l r = Some f \<Longrightarrow> region_key l r = Some k \<Longrightarrow>
      files (cs_disk s') (path_of (baseDir s) f) = Some (text_bytes (render k (cr_values c)))"
proof -
  have flush: "script (cs_disk s') = [] \<and> baseDir s' = baseDir s \<and>
      (r' \<noteq> r \<or> t \<noteq> l_sensorType l \<longrightarrow> caches s' r' t = caches s r' t) \<and>
      (q \<notin> own_paths (baseDir s) (l, r) \<longrightarrow> files (cs_disk s') q = files (cs_disk s) q) \<and>
      (caches s r (l_sensorType l) = Some c \<longrightarrow> unsaved c \<longrightarrow> region_file l r = Some f \<longrightarrow> region_key l r = Some k \<longrightarrow>
        files (cs_disk s') (path_of (baseDir s) f) = Some (text_bytes (render k (cr_values c))))"
    using assms(1)
  proof (cases rule: visit_region_cases)
    case (due d now ts)
    let ?u = "(put_cache r (l_sensorType l) (found (stopping s) d) s)\<lparr>cs_time := now, readings := ts\<rparr>"
    have "script (cs_disk ?u) = []" by (simp add: assms(3))
    from writePending_flush [OF this, where l = l and r = r] writePending_disk(1) [where l = l and r = r and s = ?u] due(1,4) show ?thesis
      by (auto simp: writePending_caches(1))
  qed (use assms(2,3) in \<open>auto simp: found_True\<close>)
  then show "script (cs_disk s') = []" "baseDir s' = baseDir s"
    "r' \<noteq> r \<or> t \<noteq> l_sensorType l \<Longrightarrow> caches s' r' t = caches s r' t"
    "q \<notin> own_paths (baseDir s) (l, r) \<Longrightarrow> files (cs_disk s') q = files (cs_disk s) q"
    "caches s r (l_sensorType l) = Some c \<Longrightarrow> unsaved c \<Longrightarrow> region_file l r = Some f \<Longrightarrow> region_key l r = Some k \<Longrightarrow>
      files (cs_disk s') (path_of (baseDir s) f) = Some (text_bytes (render k (cr_values c)))"
    by simp_all
qed

text \<open>Different regions have different files.\<close>

definition names_apart :: "sensor_layout \<times> region \<Rightarrow> sensor_layout \<times> region \<Rightarrow> bool" where
  "names_apart x y \<longleftrightarrow>
     (case (region_file (fst x) (snd x), region_file (fst y) (snd y)) of
        (Some f, Some g) \<Rightarrow> f \<noteq> g \<and> f \<noteq> g @ ''.tmp'' \<and> f @ ''.tmp'' \<noteq> g
      | _ \<Rightarrow> True)"

lemma slot_names_apart:
  "list_all (\<lambda>x. list_all (\<lambda>y. snd x = snd y \<and> l_sensorType (fst x) = l_sensorType (fst y) \<or> names_apart x y) slots) slots"
  by code_simp

lemma files_apart:
  assumes "(l, r) \<in> set slots" "(l', r') \<in> set slots" "r \<noteq> r' \<or> l_sensorType l \<noteq> l_sensorType l'"
  shows "own_paths dir (l, r) \<inter> own_paths dir (l', r') = {}"
proof -
  have "names_apart (l, r) (l', r')"
    using slot_names_apart assms unfolding list_all_iff by fastforce
  then show ?thesis
    by (auto simp: names_apart_def own_paths_def path_of_def split: option.splits)
qed

lemma slot_keys:
  assumes "(l, r) \<in> set slots"
  shows "(region_file l r = None \<longleftrightarrow> region_key l r = None) \<and> (\<forall>k. region_key l r = Some k \<longrightarrow> CHR 0x22 \<notin> set k)"
  using assms by (auto simp: slots_def allLayouts_def region_file_def region_key_def)

lemma scan_flush:
  assumes "foldl (\<lambda>ns (l, r). visit_region l r ns) (n, s) xs = (n', s')" "stopping s" "script (cs_disk s) = []"
    and "set xs \<subseteq> set slots" "distinct (map (\<lambda>(l, r). (l_sensorType l, r)) xs)"
  shows "(\<forall>q. (\<forall>x \<in> set xs. q \<notin> own_paths (baseDir s) x) \<longrightarrow> files (cs_disk s') q = files (cs_disk s) q) \<and>
    (\<forall>(l, r) \<in> set xs. \<forall>c f k. caches s r (l_sensorType l) = Some c \<longrightarrow> unsaved c \<longrightarrow>
       region_file l r = Some f \<longrightarrow> region_key l r = Some k \<longrightarrow>
       files (cs_disk s') (path_of (baseDir s) f) = Some (text_bytes (render k (cr_values c))))"
  using assms
proof (induction xs arbitrary: n s)
  case (Cons x xs)
  obtain l r where x: "x = (l, r)" by (cases x)
  obtain m u where v: "visit_region l r (n, s) = (m, u)" by (cases "visit_region l r (n, s)")
  note fl = visit_flush [OF v Cons.prems(2,3)]
  have run: "stopping u" using visit_stopping [of l r n s] v Cons.prems(2) by simp
  have rest: "foldl (\<lambda>ns (l, r). visit_region l r ns) (m, u) xs = (n', s')"
    using Cons.prems(1) x v by simp
  have other: "r' \<noteq> r \<or> l_sensorType l' \<noteq> l_sensorType l" if "(l', r') \<in> set xs" for l' r'
    using Cons.prems(5) that x by force
  have IH: "(\<forall>q. (\<forall>x \<in> set xs. q \<notin> own_paths (baseDir u) x) \<longrightarrow> files (cs_disk s') q = files (cs_disk u) q) \<and>
    (\<forall>(l, r) \<in> set xs. \<forall>c f k. caches u r (l_sensorType l) = Some c \<longrightarrow> unsaved c \<longrightarrow>
       region_file l r = Some f \<longrightarrow> region_key l r = Some k \<longrightarrow>
       files (cs_disk s') (path_of (baseDir u) f) = Some (text_bytes (render k (cr_values c))))"
    by (rule Cons.IH [OF rest run fl(1)]) (use Cons.prems(4,5) x in auto)
  have here: "files (cs_disk s') (path_of (baseDir s) f) = Some (text_bytes (render k (cr_values c)))"
    if a: "caches s r (l_sensorType l) = Some c" "unsaved c" "region_file l r = Some f" "region_key l r = Some k" for c f k
  proof -
    have "path_of (baseDir s) f \<notin> own_paths (baseDir s) y" if y: "y \<in> set xs" for y
    proof -
      obtain l' r' where "y = (l', r')" by (cases y)
      with y files_apart [of l r l' r' "baseDir s"] other [of l' r'] Cons.prems(4) x a(3) show ?thesis
        by (auto simp: own_paths_def)
    qed
    with IH fl(2) have "files (cs_disk s') (path_of (baseDir s) f) = files (cs_disk u) (path_of (baseDir s) f)"
      by simp
    with fl(5) [OF a] show ?thesis by simp
  qed
  have there: "files (cs_disk s') (path_of (baseDir s) f) = Some (text_bytes (render k (cr_values c)))"
    if "(l', r') \<in> set xs" "caches s r' (l_sensorType l') = Some c" "unsaved c" "region_file l' r' = Some f"
      "region_key l' r' = Some k" for l' r' c f k
    using IH that fl(2) fl(3) [OF other [OF that(1)]] by fastforce
  have kept: "files (cs_disk s') q = files (cs_disk s) q"
    if "\<forall>y \<in> set (x # xs). q \<notin> own_paths (baseDir s) y" for q
    using IH fl(2) fl(4) [of q] that x by simp
  show ?case
    using here there kept x by auto
qed auto

lemma destroy_flush:
  assumes "script (cs_disk s) = []" "(l, r) \<in> set slots" "caches s r (l_sensorType l) = Some c" "unsaved c"
    and "region_file l r = Some f" "region_key l r = Some k"
  shows "stored_values (baseDir s @ ''/'' @ f) k (files (cs_disk (destroy s))) = Some (cr_values c)"
proof -
  let ?s = "notify_one (s\<lparr>stopping := True\<rparr>)"
  obtain n u where sc: "scan ?s = (n, u)" by (cases "scan ?s")
  have st: "stopping u"
    using scan_keeps [of "\<lambda>u. stopping u" ?s] sc by (simp add: notify_one_def)
  then have d: "destroy s = u" using sc by (simp add: destroy_def persistence_turn_def)
  have "files (cs_disk u) (path_of (baseDir s) f) = Some (text_bytes (render k (cr_values c)))"
    using scan_flush [OF sc [unfolded scan_def] _ _ _ slots_distinct] assms
    by (fastforce simp: notify_one_def)
  with d slot_keys [OF assms(2)] assms(6) show ?thesis
    by (simp add: stored_after_write path_of_def)
qed

subsection \<open>Properties\<close>

text \<open>
  the build on the Rust core and the plain build have the same effect on the calibration: they push the same
  payloads to the driver, leave the same caches and files behind, and treat every event of the driver alike.
\<close>

theorem calibration_builds_agree:
  "pushAll True dv (s, h) = pushAll False dv (s, h) \<and>
   (length (e_word ke) = 16 \<longrightarrow> onKernelEvent True ke s = onKernelEvent False ke s)"
  by (simp add: pushAll_rust_eq onKernelEvent_def onKernelEvent_rust_eq)


text \<open>
  C37: no calibration value waits for ever. When the writer thread goes to sleep it wakes up by the time the next
  waiting region is due, and it sleeps without a limit only if no region waits; a report that makes a region wait
  wakes it up.
\<close>

theorem calibration_wakeups:
  assumes "cal_reach dv s" and "persistence_turn s = (e, s')" and "cs_time s' < kInt64Max - kMinRewriteIntervalMs"
  shows "(\<forall>r t c. caches s' r t = Some c \<and> cr_pending c \<longrightarrow>
       (\<exists>d. e = WaitFor d \<and> cs_time s' + d \<le> max (cs_time s') (cr_lastAttemptMs c + kMinRewriteIntervalMs))) \<and>
    (\<forall>rust ke r t c. length (e_word ke) = 16 \<and> caches (onKernelEvent rust ke s) r t = Some c \<and> cr_pending c \<longrightarrow>
       notified s < notified (onKernelEvent rust ke s) \<or>
       (\<exists>old. caches s r t = Some old \<and> cr_pending old \<and> cr_lastAttemptMs old = cr_lastAttemptMs c))"
proof (intro conjI allI impI)
  fix r t c
  assume "caches s' r t = Some c \<and> cr_pending c"
  with persistence_turn_covers [OF cal_reach_ok [OF assms(1)] assms(2) _ _ assms(3)]
  show "\<exists>d. e = WaitFor d \<and> cs_time s' + d \<le> max (cs_time s') (cr_lastAttemptMs c + kMinRewriteIntervalMs)"
    by blast
next
  fix rust ke r t c
  assume "length (e_word ke) = 16 \<and> caches (onKernelEvent rust ke s) r t = Some c \<and> cr_pending c"
  then show "notified s < notified (onKernelEvent rust ke s) \<or>
      (\<exists>old. caches s r t = Some old \<and> cr_pending old \<and> cr_lastAttemptMs old = cr_lastAttemptMs c)"
    using onKernelEvent_notifies [of ke rust s r t c] by simp
qed

text \<open>
  on a working disk, shutting down stores every calibration value that is not all zero and not yet stored: a new
  process reads exactly these values back from the region's file.
\<close>

theorem calibration_shutdown_flush:
  assumes "script (cs_disk s) = []" and "(l, r) \<in> set slots" and "caches s r (l_sensorType l) = Some c"
    and "unsaved c" and "region_file l r = Some f" and "region_key l r = Some k"
  shows "stored_values (baseDir s @ ''/'' @ f) k (files (cs_disk (destroy s))) = Some (cr_values c)"
  using assms by (rule destroy_flush)

text \<open>A store that has been told the bias of the accelerometer once.\<close>

definition acc_report :: hf_manager_event where
  "acc_report = \<lparr>e_timestamp = 0, e_sensor_type = 1, e_accurancy = 0, e_action = 2, e_padding = 0,
     e_word = [5, 6, 7] @ replicate 13 0\<rparr>"

definition told_once :: cal_store where
  "told_once = onKernelEvent False acc_report (new_store ''cfg'' blank_disk [])"

lemma told_once_reached: "cal_reach (steady_driver 1) told_once"
  unfolding told_once_def
  by (rule cal_reach.step [OF cal_reach.start cal_step.event]) (simp add: acc_report_def)

theorem calibration_builds_agree_witness:
  "onKernelEvent True acc_report (new_store ''cfg'' blank_disk []) = told_once"
  using calibration_builds_agree [of "steady_driver 1" "new_store ''cfg'' blank_disk []" undefined acc_report]
  by (simp add: told_once_def acc_report_def)


text \<open>After the first value is stored, a second one has to wait.\<close>

definition told_twice :: cal_store where
  "told_twice = onKernelEvent False (acc_report\<lparr>e_word := [8, 6, 7] @ replicate 13 0\<rparr>) (snd (persistence_turn told_once))"

lemma told_twice_reached: "cal_reach (steady_driver 1) told_twice"
  unfolding told_twice_def
  by (rule cal_reach.step [OF cal_reach.step [OF told_once_reached cal_step.turn] cal_step.event]) simp

theorem calibration_wakeups_witness:
  "\<exists>d. fst (persistence_turn told_twice) = WaitFor d"
proof -
  have "cs_time (snd (persistence_turn told_twice)) = 0"
    by code_simp
  moreover have "map_option cr_pending (caches (snd (persistence_turn told_twice)) Bias 1) = Some True"
    by code_simp
  ultimately show ?thesis
    using calibration_wakeups [OF told_twice_reached, of "fst (persistence_turn told_twice)" "snd (persistence_turn told_twice)"]
    by (simp add: kInt64Max_def kMinRewriteIntervalMs_def) blast
qed

theorem calibration_shutdown_flush_witness:
  "stored_values ''cfg/acc_bias.json'' ''acc_bias''
     (files (cs_disk (destroy (put_cache Bias 1 (new_region\<lparr>cr_values := [5, 6, 7], cr_haveValue := True\<rparr>)
        (new_store ''cfg'' blank_disk []))))) = Some [5, 6, 7]"
  using calibration_shutdown_flush [of "put_cache Bias 1 (new_region\<lparr>cr_values := [5, 6, 7], cr_haveValue := True\<rparr>)
        (new_store ''cfg'' blank_disk [])" "hd allLayouts" Bias "new_region\<lparr>cr_values := [5, 6, 7], cr_haveValue := True\<rparr>"
        "''acc_bias.json''" "''acc_bias''"]
  by (simp add: new_store_def slots_def allLayouts_def unsaved_def new_region_def allZero_def region_file_def region_key_def)

end
