(* ===== verification/Sensor_Types.thy ===== *)
theory Sensor_Types
  imports Hf_Client
begin

text \<open>
  The table of sensor types, \<^verbatim>\<open>src/sensors-hf/SensorTypeMap.cpp\<close>: for every type of the driver that has one, the
  type of the Android interface and the constants reported for it. A floating-point literal is kept as written,
  \<open>(m, n)\<close> standing for \<open>m / 10 ^ n\<close>.
\<close>

datatype aidl_sensor_type =
  ST_ACCELEROMETER | ST_MAGNETIC_FIELD | ST_ORIENTATION | ST_GYROSCOPE | ST_LIGHT | ST_PRESSURE | ST_PROXIMITY |
  ST_RELATIVE_HUMIDITY | ST_AMBIENT_TEMPERATURE | ST_HEART_RATE | ST_GRAVITY | ST_LINEAR_ACCELERATION |
  ST_ROTATION_VECTOR | ST_MAGNETIC_FIELD_UNCALIBRATED | ST_GAME_ROTATION_VECTOR | ST_GYROSCOPE_UNCALIBRATED |
  ST_SIGNIFICANT_MOTION | ST_STEP_DETECTOR | ST_STEP_COUNTER | ST_GEOMAGNETIC_ROTATION_VECTOR | ST_TILT_DETECTOR
  | ST_WAKE_GESTURE | ST_GLANCE_GESTURE | ST_PICK_UP_GESTURE | ST_WRIST_TILT_GESTURE | ST_DEVICE_ORIENTATION |
  ST_POSE_6DOF | ST_STATIONARY_DETECT | ST_MOTION_DETECT | ST_HEART_BEAT | ST_LOW_LATENCY_OFFBODY_DETECT |
  ST_ACCELEROMETER_UNCALIBRATED | ST_META_DATA

type_synonym decimal = "int \<times> nat"

definition kFlagWakeUp :: i32 where
  "kFlagWakeUp = 1"

definition kReportingModeContinuous :: i32 where
  "kReportingModeContinuous = 0"

definition kReportingModeOnChange :: i32 where
  "kReportingModeOnChange = 2"

definition kReportingModeOneShot :: i32 where
  "kReportingModeOneShot = 4"

definition kReportingModeSpecial :: i32 where
  "kReportingModeSpecial = 6"

record sensor_type_info =
  ti_aidlType :: aidl_sensor_type
  ti_typeAsString :: string
  ti_maxRange :: decimal
  ti_resolution :: decimal
  ti_power :: decimal
  ti_minDelayUs :: int
  ti_maxDelayUs :: int
  ti_fifoReserved :: int
  ti_fifoMax :: int
  ti_flags :: i32
  ti_requiredPermission :: string
  ti_verified :: bool

definition info where
  "info ty s mr re po mi ma fr fm fl pe ve =
     \<lparr>ti_aidlType = ty, ti_typeAsString = s, ti_maxRange = mr, ti_resolution = re, ti_power = po, ti_minDelayUs = mi,
      ti_maxDelayUs = ma, ti_fifoReserved = fr, ti_fifoMax = fm, ti_flags = fl, ti_requiredPermission = pe,
      ti_verified = ve\<rparr>"

definition table :: "(u8 \<times> sensor_type_info) list" where
  "table =
     [(1, info ST_ACCELEROMETER ''android.sensor.accelerometer'' (784532, 4) (12, 4) (27, 2) (2500) 80000 3000 4500 (kReportingModeContinuous) '''' True),
      (2, info ST_MAGNETIC_FIELD ''android.sensor.magnetic_field'' (4912, 0) (15, 2) (3, 1) (20000) 200000 0 0 (kReportingModeContinuous) '''' True),
      (3, info ST_ORIENTATION ''android.sensor.orientation'' (360, 0) (390625, 8) (9, 1) (5000) 20000 0 0 (kReportingModeContinuous) '''' True),
      (4, info ST_GYROSCOPE ''android.sensor.gyroscope'' (349066, 4) (11, 4) (55, 2) (2500) 80000 3000 4500 (kReportingModeContinuous) '''' True),
      (5, info ST_LIGHT ''android.sensor.light'' (65535, 0) (1, 0) (11, 2) (0) 0 0 0 (kReportingModeOnChange) '''' True),
      (6, info ST_PRESSURE ''android.sensor.pressure'' (1100, 0) (5, 3) (4, 3) (66666) 1000000 0 300 (kReportingModeContinuous) '''' False),
      (8, info ST_PROXIMITY ''android.sensor.proximity'' (5, 0) (5, 0) (75, 2) (0) 0 0 0 (kReportingModeOnChange) '''' False),
      (12, info ST_RELATIVE_HUMIDITY ''android.sensor.relative_humidity'' (100, 0) (1, 1) (2, 2) (100000) 0 0 0 (kReportingModeOnChange) '''' False),
      (13, info ST_AMBIENT_TEMPERATURE ''android.sensor.ambient_temperature'' (80, 0) (1, 1) (2, 2) (100000) 0 0 0 (kReportingModeOnChange) '''' False),
      (21, info ST_HEART_RATE ''android.sensor.heart_rate'' (250, 0) (1, 0) (1, 1) (200000) 0 0 0 (kReportingModeOnChange) ''android.permission.BODY_SENSORS'' False),
      (9, info ST_GRAVITY ''android.sensor.gravity'' (392266, 4) (12, 4) (23, 2) (5000) 200000 300 4500 (kReportingModeContinuous) '''' True),
      (10, info ST_LINEAR_ACCELERATION ''android.sensor.linear_acceleration'' (392266, 4) (12, 4) (23, 2) (5000) 200000 300 4500 (kReportingModeContinuous) '''' True),
      (11, info ST_ROTATION_VECTOR ''android.sensor.rotation_vector'' (1, 0) (59604645, 15) (1, 0) (5000) 200000 300 4500 (kReportingModeContinuous) '''' True),
      (14, info ST_MAGNETIC_FIELD_UNCALIBRATED ''android.sensor.magnetic_field_uncalibrated'' (4912, 0) (15, 2) (3, 1) (20000) 200000 600 4500 (kReportingModeContinuous) '''' True),
      (15, info ST_GAME_ROTATION_VECTOR ''android.sensor.game_rotation_vector'' (1, 0) (59604645, 15) (103, 2) (5000) 200000 300 4500 (kReportingModeContinuous) '''' True),
      (16, info ST_GYROSCOPE_UNCALIBRATED ''android.sensor.gyroscope_uncalibrated'' (349066, 4) (11, 4) (55, 2) (2500) 80000 3000 4500 (kReportingModeContinuous) '''' True),
      (17, info ST_SIGNIFICANT_MOTION ''android.sensor.significant_motion'' (1, 0) (1, 0) (0, 0) (-1) 0 0 0 (kReportingModeOneShot OR kFlagWakeUp) '''' False),
      (18, info ST_STEP_DETECTOR ''android.sensor.step_detector'' (1, 0) (1, 0) (0, 0) (0) 0 100 4500 (kReportingModeSpecial) ''android.permission.ACTIVITY_RECOGNITION'' False),
      (19, info ST_STEP_COUNTER ''android.sensor.step_counter'' (2147483648, 0) (1, 0) (0, 0) (0) 0 0 0 (kReportingModeOnChange) ''android.permission.ACTIVITY_RECOGNITION'' True),
      (20, info ST_GEOMAGNETIC_ROTATION_VECTOR ''android.sensor.geomagnetic_rotation_vector'' (1, 0) (59604645, 15) (7, 1) (5000) 200000 300 4500 (kReportingModeContinuous) '''' True),
      (22, info ST_TILT_DETECTOR ''android.sensor.tilt_detector'' (1, 0) (1, 0) (0, 0) (0) 0 0 0 (kReportingModeSpecial OR kFlagWakeUp) '''' False),
      (23, info ST_WAKE_GESTURE ''android.sensor.wake_gesture'' (1, 0) (1, 0) (0, 0) (-1) 0 0 0 (kReportingModeOneShot OR kFlagWakeUp) '''' False),
      (24, info ST_GLANCE_GESTURE ''android.sensor.glance_gesture'' (1, 0) (1, 0) (0, 0) (-1) 0 0 0 (kReportingModeOneShot) '''' False),
      (25, info ST_PICK_UP_GESTURE ''android.sensor.pick_up_gesture'' (1, 0) (1, 0) (0, 0) (-1) 0 0 0 (kReportingModeOneShot) '''' False),
      (26, info ST_WRIST_TILT_GESTURE ''android.sensor.wrist_tilt_gesture'' (1, 0) (1, 0) (5, 1) (0) 0 0 0 (kReportingModeSpecial) '''' False),
      (27, info ST_DEVICE_ORIENTATION ''android.sensor.device_orientation'' (3, 0) (1, 0) (0, 0) (0) 0 0 0 (kReportingModeOnChange) '''' True),
      (28, info ST_POSE_6DOF ''android.sensor.pose_6dof'' (1, 0) (1, 4) (1, 0) (10000) 200000 0 0 (kReportingModeContinuous) '''' False),
      (29, info ST_STATIONARY_DETECT ''android.sensor.stationary_detect'' (1, 0) (1, 0) (0, 0) (-1) 0 0 0 (kReportingModeOneShot) '''' False),
      (30, info ST_MOTION_DETECT ''android.sensor.motion_detect'' (1, 0) (1, 0) (0, 0) (-1) 0 0 0 (kReportingModeOneShot) '''' False),
      (31, info ST_HEART_BEAT ''android.sensor.heart_beat'' (1, 0) (1, 0) (1, 1) (0) 0 0 0 (kReportingModeSpecial) ''android.permission.BODY_SENSORS'' False),
      (34, info ST_LOW_LATENCY_OFFBODY_DETECT ''android.sensor.low_latency_offbody_detect'' (1, 0) (1, 0) (5, 1) (0) 0 0 0 (kReportingModeSpecial) '''' False),
      (35, info ST_ACCELEROMETER_UNCALIBRATED ''android.sensor.accelerometer_uncalibrated'' (784532, 4) (12, 4) (27, 2) (2500) 80000 3000 4500 (kReportingModeContinuous) '''' True)]"

definition lookupSensorTypeInfo :: "u8 \<Rightarrow> sensor_type_info option" where
  "lookupSensorTypeInfo t =
     (if t = 0 \<or> t = 32 \<or> t = 33 \<or> t \<ge> 55 then None else map_of table t)"

definition reporting_mode :: "i32 \<Rightarrow> i32" where
  "reporting_mode f = f AND 0xE"

text \<open>
  The rules an entry of the table has to obey: the reporting mode is one of the four, a one-shot sensor announces
  the delay -1 and no queue, a continuous one a positive range of delays, and no queue is reserved beyond its size.
\<close>

definition entry_ok :: "sensor_type_info \<Rightarrow> bool" where
  "entry_ok i \<longleftrightarrow>
     reporting_mode (ti_flags i) \<in> {kReportingModeContinuous, kReportingModeOnChange, kReportingModeOneShot, kReportingModeSpecial} \<and>
     (reporting_mode (ti_flags i) = kReportingModeOneShot \<longleftrightarrow> ti_minDelayUs i = -1) \<and>
     (reporting_mode (ti_flags i) = kReportingModeContinuous \<longrightarrow> 0 < ti_minDelayUs i \<and> ti_minDelayUs i \<le> ti_maxDelayUs i) \<and>
     ti_fifoReserved i \<le> ti_fifoMax i \<and> ti_aidlType i \<noteq> ST_META_DATA"

lemma table_ok:
  "distinct (map fst table)" "distinct (map (\<lambda>e. ti_aidlType (snd e)) table)"
  "list_all (\<lambda>e. entry_ok (snd e)) table" "list_all (\<lambda>e. known_sensor (fst e)) table"
  by code_simp+

lemma lookup_in_table: "lookupSensorTypeInfo t = Some i \<Longrightarrow> (t, i) \<in> set table"
  by (auto simp: lookupSensorTypeInfo_def split: if_splits dest: map_of_SomeD)

lemma lookup_ok:
  assumes "lookupSensorTypeInfo t = Some i"
  shows "entry_ok i" "known_sensor t"
  using table_ok(3,4) lookup_in_table [OF assms] by (auto simp: list_all_iff)

lemma lookup_inj:
  assumes "lookupSensorTypeInfo t = Some i" "lookupSensorTypeInfo u = Some j" "ti_aidlType i = ti_aidlType j"
  shows "t = u"
proof -
  have "(t, i) = (u, j)"
    using table_ok(2) lookup_in_table [OF assms(1)] lookup_in_table [OF assms(2)] assms(3)
    by (intro inj_onD [of "\<lambda>e. ti_aidlType (snd e)" "set table"]) (simp_all add: distinct_map)
  then show ?thesis by simp
qed

end
