(* ===== verification/Sensors_Hal.thy ===== *)
theory Sensors_Hal
  imports Calibration_Store Sensor_Types
begin

text \<open>
  The sensor service, \<^verbatim>\<open>src/sensors-hf/Sensors.cpp\<close>: enumeration, the calls that switch sensors, translation of
  driver events, delivery through the event queue, and the wake lock that covers wake-up events.

  The message queues and the wake lock belong to the platform. What they do during one turn of a loop is the
  argument of that turn: how much room the queue has, whether a write succeeds, the uptime, and whether the lock is
  granted and released. \<open>posted\<close> records, batch by batch, what was written and whether the lock was held.
\<close>

subsection \<open>Data\<close>

record sensor_info_aidl =
  sensorHandle :: int
  sName :: string
  sVendor :: string
  sInfo :: sensor_type_info

record sensor_state =
  active :: bool
  samplingPeriodNs :: u64
  maxReportLatencyNs :: u64

definition default_state :: sensor_state where
  "default_state = \<lparr>active = False, samplingPeriodNs = 200000000, maxReportLatencyNs = 0\<rparr>"

text \<open>A reading divided by the gain: \<open>Scaled w g\<close> is \<open>static_cast<float>(w) / static_cast<float>(g)\<close>.\<close>

datatype reading = Scaled i32 u32

datatype payload =
    FlushComplete
  | Vec3 reading reading reading u8
  | Uncal reading reading reading reading reading reading
  | Vec4 reading reading reading reading
  | Data "reading list"
  | StepCount u64
  | Scalar reading

record event =
  ev_timestamp :: u64
  ev_handle :: int
  ev_type :: aidl_sensor_type
  ev_payload :: payload

text \<open>The wake lock: \<open>outstandingWakeUpEvents_\<close>, \<open>autoReleaseWakeLockTime_\<close>, \<open>hasWakeLock_\<close>.\<close>

record wake_lock =
  outstanding :: i32
  autoRelease :: int
  hasWakeLock :: bool

record batch_log =
  b_events :: "event list"
  b_locked :: bool

datatype aidl_status = Ok | IllegalArgument | IllegalState | Unsupported | ServiceError nat

record 'k sensors =
  hfc :: "'k hf"
  cal :: cal_store
  enumerated :: bool
  sensorList :: "sensor_info_aidl list"
  gainByHandle :: "int \<Rightarrow> u32 option"
  wakeUpByHandle :: "int \<Rightarrow> bool option"
  stateByHandle :: "int \<Rightarrow> sensor_state option"
  eventQueue :: bool
  eventQueueFlag :: bool
  readerThread :: bool
  wakeLockThread :: bool
  stopReader :: bool
  wl :: wake_lock
  posted :: "batch_log list"

subsection \<open>Enumeration\<close>

definition kReadyTimeoutMs :: nat where
  "kReadyTimeoutMs = 40000"

text \<open>A C string of at most 16 bytes.\<close>

definition cstring :: "bytes \<Rightarrow> string" where
  "cstring b = bytes_text (takeWhile (\<lambda>x. x \<noteq> 0) b)"

definition enumerate_type :: "bool \<Rightarrow> 'k driver \<Rightarrow> nat \<Rightarrow> 'k sensors \<Rightarrow> 'k sensors" where
  "enumerate_type rust dv t s =
     (case lookupSensorTypeInfo (word_of_nat t) of
        None \<Rightarrow> s
      | Some ti \<Rightarrow>
          (case querySensorInfo rust dv (word_of_nat t) (hfc s) of
             (None, h) \<Rightarrow> s\<lparr>hfc := h\<rparr>
           | (Some raw, h) \<Rightarrow>
               s\<lparr>hfc := h,
                 sensorList := sensorList s @
                   [\<lparr>sensorHandle = int t, sName = cstring (si_name raw), sVendor = cstring (si_vendor raw), sInfo = ti\<rparr>],
                 gainByHandle := (gainByHandle s)(int t \<mapsto> if si_gain raw \<noteq> 0 then si_gain raw else 1),
                 wakeUpByHandle := (wakeUpByHandle s)(int t \<mapsto> ti_flags ti AND kFlagWakeUp \<noteq> 0)\<rparr>))"

text \<open>\<open>None\<close> when waiting for the driver never ends.\<close>

definition ensureEnumerated :: "bool \<Rightarrow> 'k driver \<Rightarrow> 'k sensors \<Rightarrow> 'k sensors option" where
  "ensureEnumerated rust dv s =
     (if enumerated s then Some s
      else if \<not> hf_open (hfc s) then Some (s\<lparr>enumerated := True\<rparr>)
      else case waitUntilReady dv kReadyTimeoutMs 300 (hfc s) of
        None \<Rightarrow> None
      | Some (_, h) \<Rightarrow>
          let s1 = s\<lparr>hfc := h, sensorList := [], gainByHandle := (\<lambda>_. None), wakeUpByHandle := (\<lambda>_. None)\<rparr>;
              s2 = foldl (\<lambda>s t. enumerate_type rust dv t s) s1 [1..<SENSOR_TYPE_SENSOR_MAX]
          in case pushAll rust dv (cal s2, hfc s2) of (c, h') \<Rightarrow>
               Some (s2\<lparr>cal := c, hfc := h', enumerated := True\<rparr>))"

definition new_sensors :: "'k driver \<Rightarrow> cal_store \<Rightarrow> 'k \<Rightarrow> 'k sensors" where
  "new_sensors dv c k =
     \<lparr>hfc = snd (open_device dv \<lparr>hf_open = False, kern = k\<rparr>), cal = c, enumerated = False, sensorList = [],
      gainByHandle = (\<lambda>_. None), wakeUpByHandle = (\<lambda>_. None), stateByHandle = (\<lambda>_. None), eventQueue = False,
      eventQueueFlag = False, readerThread = False, wakeLockThread = False, stopReader = False,
      wl = \<lparr>outstanding = 0, autoRelease = 0, hasWakeLock = False\<rparr>, posted = []\<rparr>"

definition getSensorsList :: "bool \<Rightarrow> 'k driver \<Rightarrow> 'k sensors \<Rightarrow> (sensor_info_aidl list \<times> 'k sensors) option" where
  "getSensorsList rust dv s = map_option (\<lambda>s'. (sensorList s', s')) (ensureEnumerated rust dv s)"

subsection \<open>Switching sensors\<close>

text \<open>The Rust state machine: \<open>validate\<close>, \<open>activate\<close>, \<open>batch\<close> and \<open>flush\<close> of \<^verbatim>\<open>rust/lib.rs\<close>.\<close>

datatype rs_command = CmdNone | CmdEnable | CmdFlush

definition rs_validate :: "sensor_state \<Rightarrow> int \<Rightarrow> rs_error option" where
  "rs_validate st h =
     (if h \<le> 0 \<or> h \<ge> int SENSOR_TYPE_SENSOR_MAX then Some RSensor
      else if sint (samplingPeriodNs st) < 0 \<or> sint (maxReportLatencyNs st) < 0 then Some RTiming
      else None)"

definition rs_activate :: "sensor_state \<Rightarrow> int \<Rightarrow> bool \<Rightarrow> rs_error + (sensor_state \<times> rs_command)" where
  "rs_activate st h en =
     (case rs_validate st h of Some e \<Rightarrow> Inl e | None \<Rightarrow> Inr (st\<lparr>active := en\<rparr>, CmdEnable))"

definition rs_batch :: "sensor_state \<Rightarrow> int \<Rightarrow> u64 \<Rightarrow> u64 \<Rightarrow> rs_error + (sensor_state \<times> rs_command)" where
  "rs_batch st h p l =
     (case rs_validate st h of
        Some e \<Rightarrow> Inl e
      | None \<Rightarrow>
          if sint p < 0 \<or> sint l < 0 then Inl RTiming
          else Inr (st\<lparr>samplingPeriodNs := p, maxReportLatencyNs := l\<rparr>, if active st then CmdEnable else CmdNone))"

definition rs_flush :: "sensor_state \<Rightarrow> int \<Rightarrow> bool \<Rightarrow> rs_error + (sensor_state \<times> rs_command)" where
  "rs_flush st h oneShot =
     (case rs_validate st h of
        Some e \<Rightarrow> Inl e
      | None \<Rightarrow> if \<not> active st \<or> oneShot then Inl RState else Inr (st, CmdFlush))"

definition EIO_status :: aidl_status where
  "EIO_status = ServiceError 5"

definition stateFor :: "'k sensors \<Rightarrow> int \<Rightarrow> sensor_state" where
  "stateFor s h = (case stateByHandle s h of None \<Rightarrow> default_state | Some st \<Rightarrow> st)"

text \<open>\<open>state_[in_sensorHandle]\<close> creates the entry.\<close>

definition put_state :: "int \<Rightarrow> sensor_state \<Rightarrow> 'k sensors \<Rightarrow> 'k sensors" where
  "put_state h st s = s\<lparr>stateByHandle := (stateByHandle s)(h \<mapsto> st)\<rparr>"

text \<open>\<open>activate\<close> behind \<open>ensureEnumerated\<close>.\<close>

definition activate_locked :: "bool \<Rightarrow> 'k driver \<Rightarrow> int \<Rightarrow> bool \<Rightarrow> 'k sensors \<Rightarrow> aidl_status \<times> 'k sensors" where
  "activate_locked rust dv h en s =
     (if gainByHandle s h = None then (IllegalArgument, s)
      else if rust then
        (case rs_activate (stateFor s h) h en of
           Inl e \<Rightarrow> (IllegalArgument, s)
         | Inr (next, _) \<Rightarrow>
             (case setEnable rust dv (word_of_int h) (active next) (samplingPeriodNs next) (maxReportLatencyNs next) (hfc s) of
                (False, k) \<Rightarrow> (EIO_status, s\<lparr>hfc := k\<rparr>)
              | (True, k) \<Rightarrow> (Ok, put_state h next (s\<lparr>hfc := k\<rparr>))))
      else
        let st = stateFor s h; s1 = put_state h st s in
        (case setEnable rust dv (word_of_int h) en (samplingPeriodNs st) (maxReportLatencyNs st) (hfc s1) of
           (False, k) \<Rightarrow> (EIO_status, s1\<lparr>hfc := k\<rparr>)
         | (True, k) \<Rightarrow> (Ok, put_state h (st\<lparr>active := en\<rparr>) (s1\<lparr>hfc := k\<rparr>))))"

definition activate_sensor :: "bool \<Rightarrow> 'k driver \<Rightarrow> int \<Rightarrow> bool \<Rightarrow> 'k sensors \<Rightarrow> (aidl_status \<times> 'k sensors) option" where
  "activate_sensor rust dv h en s = map_option (activate_locked rust dv h en) (ensureEnumerated rust dv s)"

definition batch_sensor :: "bool \<Rightarrow> 'k driver \<Rightarrow> int \<Rightarrow> u64 \<Rightarrow> u64 \<Rightarrow> 'k sensors \<Rightarrow> aidl_status \<times> 'k sensors" where
  "batch_sensor rust dv h p l s =
     (if gainByHandle s h = None then (IllegalArgument, s)
      else if rust then
        (case rs_batch (stateFor s h) h p l of
           Inl e \<Rightarrow> (IllegalArgument, s)
         | Inr (next, cmd) \<Rightarrow>
             if cmd = CmdEnable then
               (case setEnable rust dv (word_of_int h) (active next) (samplingPeriodNs next) (maxReportLatencyNs next) (hfc s) of
                  (False, k) \<Rightarrow> (EIO_status, s\<lparr>hfc := k\<rparr>)
                | (True, k) \<Rightarrow> (Ok, put_state h next (s\<lparr>hfc := k\<rparr>)))
             else (Ok, put_state h next s))
      else
        let st = stateFor s h; s1 = put_state h st s; next = st\<lparr>samplingPeriodNs := p, maxReportLatencyNs := l\<rparr> in
        if active st then
          (case setEnable rust dv (word_of_int h) True p l (hfc s1) of
             (False, k) \<Rightarrow> (EIO_status, s1\<lparr>hfc := k\<rparr>)
           | (True, k) \<Rightarrow> (Ok, put_state h next (s1\<lparr>hfc := k\<rparr>)))
        else (Ok, put_state h next s1))"

definition is_one_shot :: "sensor_info_aidl \<Rightarrow> bool" where
  "is_one_shot si \<longleftrightarrow> reporting_mode (ti_flags (sInfo si)) = kReportingModeOneShot"

definition request_flush :: "bool \<Rightarrow> 'k driver \<Rightarrow> int \<Rightarrow> 'k sensors \<Rightarrow> aidl_status \<times> 'k sensors" where
  "request_flush rust dv h s =
     (case requestFlush rust dv (word_of_int h) (hfc s) of
        (False, k) \<Rightarrow> (EIO_status, s\<lparr>hfc := k\<rparr>)
      | (True, k) \<Rightarrow> (Ok, s\<lparr>hfc := k\<rparr>))"

definition flush_sensor :: "bool \<Rightarrow> 'k driver \<Rightarrow> int \<Rightarrow> 'k sensors \<Rightarrow> aidl_status \<times> 'k sensors" where
  "flush_sensor rust dv h s =
     (if rust then
        (case stateByHandle s h of
           None \<Rightarrow> (IllegalArgument, s)
         | Some st \<Rightarrow>
             if gainByHandle s h = None then (IllegalArgument, s)
             else
               let oneShot = (case find (\<lambda>si. sensorHandle si = h) (sensorList s) of
                                None \<Rightarrow> False | Some si \<Rightarrow> is_one_shot si)
               in case rs_flush st h oneShot of
                    Inl e \<Rightarrow> (IllegalArgument, s)
                  | Inr _ \<Rightarrow> request_flush rust dv h s)
      else if list_ex (\<lambda>si. sensorHandle si = h \<and> is_one_shot si) (sensorList s) then (IllegalArgument, s)
      else case stateByHandle s h of
        None \<Rightarrow> (IllegalArgument, s)
      | Some st \<Rightarrow> if \<not> active st then (IllegalArgument, s) else request_flush rust dv h s)"

datatype operation_mode = NORMAL | DATA_INJECTION

definition setOperationMode :: "operation_mode \<Rightarrow> 'k sensors \<Rightarrow> aidl_status \<times> 'k sensors" where
  "setOperationMode m s = (if m \<noteq> NORMAL then Unsupported else Ok, s)"

subsection \<open>Translating driver events\<close>

definition gain_of :: "'k sensors \<Rightarrow> u8 \<Rightarrow> u32" where
  "gain_of s t = (case gainByHandle s (int (unat t)) of
     Some g \<Rightarrow> if g \<noteq> 0 then g else 1 | None \<Rightarrow> 1)"

definition payload_of :: "aidl_sensor_type \<Rightarrow> u8 \<Rightarrow> i32 list \<Rightarrow> u32 \<Rightarrow> payload" where
  "payload_of ty status word gain =
     (let scaled = (\<lambda>i. Scaled (word ! i) gain) in
      if ty \<in> {ST_ACCELEROMETER, ST_MAGNETIC_FIELD, ST_GYROSCOPE, ST_GRAVITY, ST_LINEAR_ACCELERATION, ST_ORIENTATION} then
        Vec3 (scaled 0) (scaled 1) (scaled 2) status
      else if ty \<in> {ST_MAGNETIC_FIELD_UNCALIBRATED, ST_GYROSCOPE_UNCALIBRATED, ST_ACCELEROMETER_UNCALIBRATED} then
        Uncal (scaled 0) (scaled 1) (scaled 2) (scaled 3) (scaled 4) (scaled 5)
      else if ty = ST_GAME_ROTATION_VECTOR then Vec4 (scaled 0) (scaled 1) (scaled 2) (scaled 3)
      else if ty \<in> {ST_ROTATION_VECTOR, ST_GEOMAGNETIC_ROTATION_VECTOR} then Data (map scaled [0..<5])
      else if ty = ST_STEP_COUNTER then StepCount (scast (word ! 0))
      else Scalar (scaled 0))"

definition translateEvent :: "bool \<Rightarrow> hf_manager_event \<Rightarrow> 'k sensors \<Rightarrow> event option \<times> 'k sensors" where
  "translateEvent rust ke s =
     (case lookupSensorTypeInfo (e_sensor_type ke) of
        None \<Rightarrow> (None, s)
      | Some ti \<Rightarrow>
          let h = int (unat (e_sensor_type ke)) in
          if e_action ke = 1 then
            (Some \<lparr>ev_timestamp = e_timestamp ke, ev_handle = h, ev_type = ST_META_DATA, ev_payload = FlushComplete\<rparr>, s)
          else if e_action ke \<noteq> 0 then (None, s\<lparr>cal := onKernelEvent rust ke (cal s)\<rparr>)
          else
            (Some \<lparr>ev_timestamp = e_timestamp ke, ev_handle = h, ev_type = ti_aidlType ti,
               ev_payload = payload_of (ti_aidlType ti) (e_accurancy ke) (e_word ke) (gain_of s (e_sensor_type ke))\<rparr>, s))"

fun translate_all :: "bool \<Rightarrow> hf_manager_event list \<Rightarrow> 'k sensors \<Rightarrow> event list \<times> 'k sensors" where
  "translate_all rust [] s = ([], s)"
| "translate_all rust (ke # kes) s =
     (case translateEvent rust ke s of (e, s1) \<Rightarrow>
        case translate_all rust kes s1 of (es, s2) \<Rightarrow> ((case e of None \<Rightarrow> es | Some x \<Rightarrow> x # es), s2))"

subsection \<open>The wake lock\<close>

text \<open>What the platform does during one update: the two readings of the uptime, and whether the calls succeed.\<close>

record lock_env =
  up1 :: int
  up2 :: int
  granted :: bool
  released :: bool

text \<open>\<open>timeoutMs\<close> is \<open>WAKE_LOCK_TIMEOUT_SECONDS * 1000\<close> of the interface.\<close>

definition updateWakeLockLocked :: "int \<Rightarrow> lock_env \<Rightarrow> i32 \<Rightarrow> i32 \<Rightarrow> wake_lock \<Rightarrow> wake_lock" where
  "updateWakeLockLocked timeoutMs e eventsWritten eventsHandled w =
     (let newVal = outstanding w + eventsWritten - eventsHandled;
          w1 = w\<lparr>outstanding := if sint newVal < 0 then 0 else newVal\<rparr>;
          w2 = (if sint eventsWritten > 0 then w1\<lparr>autoRelease := up1 e + timeoutMs\<rparr> else w1)
      in if \<not> hasWakeLock w2 \<and> sint (outstanding w2) > 0 \<and> granted e then w2\<lparr>hasWakeLock := True\<rparr>
         else if hasWakeLock w2 then
           let w3 = (if up2 e > autoRelease w2 then w2\<lparr>outstanding := 0\<rparr> else w2)
           in if outstanding w3 = 0 \<and> released e then w3\<lparr>hasWakeLock := False\<rparr> else w3
         else w2)"

subsection \<open>Delivery\<close>

record post_env =
  stop1 :: bool
  room :: nat
  write_ok :: bool
  stop2 :: bool
  env1 :: lock_env
  env2 :: lock_env

definition wake_count :: "'k sensors \<Rightarrow> event list \<Rightarrow> nat" where
  "wake_count s es = length (filter (\<lambda>e. wakeUpByHandle s (ev_handle e) = Some True) es)"

text \<open>
  One turn of the loop in \<open>postEvents\<close> with the events from \<open>offset\<close> on: the events left and whether the loop ends.
  The waits for room and after a failed write only pass time.
\<close>

definition post_turn :: "int \<Rightarrow> post_env \<Rightarrow> event list \<Rightarrow> 'k sensors \<Rightarrow> bool \<times> event list \<times> 'k sensors" where
  "post_turn timeoutMs e es s =
     (if es = [] \<or> stop1 e then (True, es, s)
      else if \<not> eventQueue s \<or> \<not> eventQueueFlag s then (True, es, s)
      else
        let count = min (length es) (room e) in
        if count > 0 then
          let wakeUp = wake_count s (take count es);
              previousDeadline = autoRelease (wl s);
              w1 = (if wakeUp > 0 then updateWakeLockLocked timeoutMs (env1 e) (word_of_nat wakeUp) 0 (wl s) else wl s)
          in if (wakeUp = 0 \<or> hasWakeLock w1) \<and> write_ok e then
               (False, drop count es,
                s\<lparr>wl := w1, posted := posted s @ [\<lparr>b_events = take count es, b_locked = hasWakeLock w1\<rparr>]\<rparr>)
             else
               let w2 = (if wakeUp > 0 then
                           updateWakeLockLocked timeoutMs (env2 e) 0 (word_of_nat wakeUp) (w1\<lparr>autoRelease := previousDeadline\<rparr>)
                         else w1)
               in (stop2 e, es, s\<lparr>wl := w2\<rparr>)
        else (stop2 e, es, s))"

text \<open>The loop over the turns it gets; the events left when it ends or is still running after the last turn.\<close>

fun postEvents :: "int \<Rightarrow> post_env list \<Rightarrow> event list \<Rightarrow> 'k sensors \<Rightarrow> event list \<times> 'k sensors" where
  "postEvents timeoutMs [] es s = (es, s)"
| "postEvents timeoutMs (e # envs) es s =
     (case post_turn timeoutMs e es s of
        (True, es', s') \<Rightarrow> (es', s')
      | (False, es', s') \<Rightarrow> postEvents timeoutMs envs es' s')"

text \<open>One turn of \<open>readerLoop\<close>; \<open>False\<close> when the reader thread ends.\<close>

definition reader_turn :: "bool \<Rightarrow> 'k driver \<Rightarrow> int \<Rightarrow> post_env list \<Rightarrow> 'k sensors \<Rightarrow> bool \<times> 'k sensors" where
  "reader_turn rust dv timeoutMs envs s =
     (if stopReader s then (False, s)
      else case waitAndReadEvents rust dv 5000 (hfc s) of
        (None, h) \<Rightarrow> (False, s\<lparr>hfc := h\<rparr>)
      | (Some kevents, h) \<Rightarrow>
          (case translate_all rust kevents (s\<lparr>hfc := h\<rparr>) of (es, s1) \<Rightarrow>
             if es = [] then (True, s1) else (True, snd (postEvents timeoutMs envs es s1))))"

subsection \<open>Threads and initialisation\<close>

text \<open>One turn of \<open>readWakeLockFMQ\<close>: the acknowledged events, 0 after a timeout.\<close>

definition wake_lock_turn :: "int \<Rightarrow> lock_env \<Rightarrow> i32 \<Rightarrow> 'k sensors \<Rightarrow> 'k sensors" where
  "wake_lock_turn timeoutMs e eventsHandled s = s\<lparr>wl := updateWakeLockLocked timeoutMs e 0 eventsHandled (wl s)\<rparr>"

definition stopWakeLockThread :: "bool \<Rightarrow> 'k sensors \<Rightarrow> 'k sensors" where
  "stopWakeLockThread rel s =
     s\<lparr>wakeLockThread := False,
       wl := (wl s)\<lparr>hasWakeLock := hasWakeLock (wl s) \<and> \<not> rel, outstanding := 0\<rparr>\<rparr>"

definition stopReaderLocked :: "bool \<Rightarrow> 'k sensors \<Rightarrow> 'k sensors" where
  "stopReaderLocked rel s =
     (stopWakeLockThread rel (s\<lparr>stopReader := True, readerThread := False\<rparr>))\<lparr>eventQueueFlag := False\<rparr>"

definition startReaderLocked :: "'k sensors \<Rightarrow> 'k sensors" where
  "startReaderLocked s = (if readerThread s then s else s\<lparr>stopReader := False, readerThread := True\<rparr>)"

definition startWakeLockThreadLocked :: "'k sensors \<Rightarrow> 'k sensors" where
  "startWakeLockThreadLocked s = s\<lparr>wakeLockThread := True\<rparr>"

text \<open>\<open>valid\<close>: both queue descriptors are valid; \<open>flag\<close>: the event flag could be created.\<close>

definition initialize ::
    "bool \<Rightarrow> 'k driver \<Rightarrow> bool \<Rightarrow> bool \<Rightarrow> bool \<Rightarrow> 'k sensors \<Rightarrow> (aidl_status \<times> 'k sensors) option" where
  "initialize rust dv rel valid flag s =
     (let s1 = (stopReaderLocked rel s)\<lparr>eventQueue := True\<rparr> in
      if \<not> valid then Some (IllegalArgument, s1)
      else if \<not> flag then Some (IllegalState, s1\<lparr>eventQueueFlag := False\<rparr>)
      else map_option (\<lambda>s2. (Ok, startReaderLocked (startWakeLockThreadLocked s2)))
        (ensureEnumerated rust dv (s1\<lparr>eventQueueFlag := True\<rparr>)))"

subsection \<open>What enumeration finds\<close>

text \<open>
  The tables agree: every listed sensor stands at its own handle, has the type information of that handle, a gain
  that is not 0, and the wake-up flag of its type; nothing else has an entry.
\<close>

definition listed :: "'k sensors \<Rightarrow> int list" where
  "listed s = map sensorHandle (sensorList s)"

definition entry_typed :: "'k sensors \<Rightarrow> sensor_info_aidl \<Rightarrow> bool" where
  "entry_typed s si \<longleftrightarrow>
     0 < sensorHandle si \<and> sensorHandle si < int SENSOR_TYPE_SENSOR_MAX \<and>
     lookupSensorTypeInfo (word_of_int (sensorHandle si)) = Some (sInfo si) \<and>
     (\<exists>g. gainByHandle s (sensorHandle si) = Some g \<and> g \<noteq> 0) \<and>
     wakeUpByHandle s (sensorHandle si) = Some (ti_flags (sInfo si) AND kFlagWakeUp \<noteq> 0)"

definition tables_agree :: "'k sensors \<Rightarrow> bool" where
  "tables_agree s \<longleftrightarrow>
     sorted_wrt (<) (listed s) \<and> list_all (entry_typed s) (sensorList s) \<and>
     dom (gainByHandle s) = set (listed s) \<and> dom (wakeUpByHandle s) = set (listed s) \<and>
     dom (stateByHandle s) \<subseteq> set (listed s)"

lemma tables_agree_cong:
  "sensorList s = sensorList s' \<Longrightarrow> gainByHandle s = gainByHandle s' \<Longrightarrow> wakeUpByHandle s = wakeUpByHandle s' \<Longrightarrow>
   stateByHandle s = stateByHandle s' \<Longrightarrow> tables_agree s = tables_agree s'"
  by (simp add: tables_agree_def listed_def entry_typed_def [abs_def])

lemma enumerate_type_agrees:
  assumes "tables_agree s" "\<forall>h \<in> set (listed s). h < int t" "0 < t" "t < SENSOR_TYPE_SENSOR_MAX"
  shows "tables_agree (enumerate_type rust dv t s) \<and> (\<forall>h \<in> set (listed (enumerate_type rust dv t s)). h < int (Suc t)) \<and>
    stateByHandle (enumerate_type rust dv t s) = stateByHandle s"
proof (cases "lookupSensorTypeInfo (word_of_nat t)")
  case None
  with assms show ?thesis by (auto simp: enumerate_type_def)
next
  case (Some ti)
  obtain q h where q: "querySensorInfo rust dv (word_of_nat t) (hfc s) = (q, h)"
    by (cases "querySensorInfo rust dv (word_of_nat t) (hfc s)")
  show ?thesis
  proof (cases q)
    case None
    with assms Some q tables_agree_cong [of "s\<lparr>hfc := h\<rparr>" s] show ?thesis
      by (auto simp: enumerate_type_def listed_def)
  next
    case (Some raw)
    let ?s = "enumerate_type rust dv t s"
    let ?si = "\<lparr>sensorHandle = int t, sName = cstring (si_name raw), sVendor = cstring (si_vendor raw), sInfo = ti\<rparr>"
    have s': "?s = s\<lparr>hfc := h, sensorList := sensorList s @ [?si],
        gainByHandle := (gainByHandle s)(int t \<mapsto> if si_gain raw \<noteq> 0 then si_gain raw else 1),
        wakeUpByHandle := (wakeUpByHandle s)(int t \<mapsto> ti_flags ti AND kFlagWakeUp \<noteq> 0)\<rparr>"
      using Some q \<open>lookupSensorTypeInfo (word_of_nat t) = Some ti\<close> by (simp add: enumerate_type_def)
    have old: "entry_typed ?s si" if "si \<in> set (sensorList s)" for si
    proof -
      have "sensorHandle si < int t" "entry_typed s si"
        using that assms(1,2) by (auto simp: listed_def tables_agree_def list_all_iff)
      then show ?thesis by (simp add: s' entry_typed_def)
    qed
    have new: "entry_typed ?s ?si"
      using \<open>lookupSensorTypeInfo (word_of_nat t) = Some ti\<close> assms(3,4) by (simp add: s' entry_typed_def)
    have "tables_agree ?s"
      unfolding tables_agree_def
      using assms(1,2) old new
      by (auto simp: s' listed_def tables_agree_def sorted_wrt_append list_all_iff)
    with assms(2) show ?thesis by (auto simp: s' listed_def)
  qed
qed

lemma enumerate_all_agree:
  "tables_agree s \<Longrightarrow> \<forall>h \<in> set (listed s). h < int a \<Longrightarrow> 0 < a \<Longrightarrow> b \<le> SENSOR_TYPE_SENSOR_MAX \<Longrightarrow>
   tables_agree (foldl (\<lambda>s t. enumerate_type rust dv t s) s [a..<b])"
proof (induction "b - a" arbitrary: a s)
  case (Suc n)
  then have "[a..<b] = a # [Suc a..<b]" by (simp add: upt_conv_Cons)
  with Suc.prems Suc.hyps(1) [of "Suc a" "enumerate_type rust dv a s"] Suc.hyps(2)
    enumerate_type_agrees [of s a rust dv] show ?case by simp
qed simp

lemma ensureEnumerated_agrees:
  assumes "ensureEnumerated rust dv s = Some s'" "stateByHandle s = (\<lambda>_. None)" "tables_agree s"
  shows "tables_agree s' \<and> enumerated s'"
proof (cases "enumerated s \<or> \<not> hf_open (hfc s)")
  case True
  with assms tables_agree_cong [of "s\<lparr>enumerated := True\<rparr>" s] show ?thesis
    by (auto simp: ensureEnumerated_def split: if_splits)
next
  case False
  then obtain b h where w: "waitUntilReady dv kReadyTimeoutMs 300 (hfc s) = Some (b, h)"
    using assms(1) by (auto simp: ensureEnumerated_def split: option.splits prod.splits)
  let ?s1 = "s\<lparr>hfc := h, sensorList := [], gainByHandle := (\<lambda>_. None), wakeUpByHandle := (\<lambda>_. None)\<rparr>"
  let ?s2 = "foldl (\<lambda>s t. enumerate_type rust dv t s) ?s1 [1..<SENSOR_TYPE_SENSOR_MAX]"
  have "tables_agree ?s2"
    by (rule enumerate_all_agree) (simp_all add: tables_agree_def listed_def assms(2))
  then show ?thesis
    using assms(1) False w tables_agree_cong [of s' ?s2]
    by (auto simp: ensureEnumerated_def Let_def split: prod.splits)
qed

lemma new_sensors_agree: "tables_agree (new_sensors dv c k)" "stateByHandle (new_sensors dv c k) = (\<lambda>_. None)"
  by (simp_all add: new_sensors_def tables_agree_def listed_def)

subsection \<open>The contract of the switches\<close>

text \<open>
  The abstract switchboard: every sensor has a state from the start, a call that the driver does not accept changes
  nothing, and the driver is told the new state before it is remembered. It is given by the state of every sensor
  and the driver connection.
\<close>

type_synonym 'k switchboard = "(int \<Rightarrow> sensor_state) \<times> 'k hf"

definition spec_activate :: "'k driver \<Rightarrow> (int \<Rightarrow> bool) \<Rightarrow> int \<Rightarrow> bool \<Rightarrow> 'k switchboard \<Rightarrow> aidl_status \<times> 'k switchboard" where
  "spec_activate dv known h en b =
     (case b of (m, k) \<Rightarrow>
        if \<not> known h then (IllegalArgument, b)
        else case setEnable False dv (word_of_int h) en (samplingPeriodNs (m h)) (maxReportLatencyNs (m h)) k of
          (False, k') \<Rightarrow> (EIO_status, (m, k'))
        | (True, k') \<Rightarrow> (Ok, (m(h := (m h)\<lparr>active := en\<rparr>), k')))"

definition spec_batch :: "'k driver \<Rightarrow> (int \<Rightarrow> bool) \<Rightarrow> int \<Rightarrow> u64 \<Rightarrow> u64 \<Rightarrow> 'k switchboard \<Rightarrow> aidl_status \<times> 'k switchboard" where
  "spec_batch dv known h p l b =
     (case b of (m, k) \<Rightarrow>
        let m' = m(h := (m h)\<lparr>samplingPeriodNs := p, maxReportLatencyNs := l\<rparr>) in
        if \<not> known h then (IllegalArgument, b)
        else if active (m h) then
          (case setEnable False dv (word_of_int h) True p l k of
             (False, k') \<Rightarrow> (EIO_status, (m, k'))
           | (True, k') \<Rightarrow> (Ok, (m', k')))
        else (Ok, (m', k)))"

definition spec_flush :: "'k driver \<Rightarrow> (int \<Rightarrow> bool) \<Rightarrow> int \<Rightarrow> 'k switchboard \<Rightarrow> aidl_status \<times> 'k switchboard" where
  "spec_flush dv oneShot h b =
     (case b of (m, k) \<Rightarrow>
        if \<not> active (m h) \<or> oneShot h then (IllegalArgument, b)
        else case requestFlush False dv (word_of_int h) k of
          (False, k') \<Rightarrow> (EIO_status, (m, k'))
        | (True, k') \<Rightarrow> (Ok, (m, k')))"

text \<open>Calls from the framework, and what the service and the switchboard answer to a sequence of them.\<close>

datatype sensor_call = Activate int bool | Batch int u64 u64 | Flush int

fun serve :: "bool \<Rightarrow> 'k driver \<Rightarrow> sensor_call \<Rightarrow> 'k sensors \<Rightarrow> aidl_status \<times> 'k sensors" where
  "serve rust dv (Activate h en) s = activate_locked rust dv h en s"
| "serve rust dv (Batch h p l) s = batch_sensor rust dv h p l s"
| "serve rust dv (Flush h) s = flush_sensor rust dv h s"

fun spec_serve :: "'k driver \<Rightarrow> (int \<Rightarrow> bool) \<Rightarrow> (int \<Rightarrow> bool) \<Rightarrow> sensor_call \<Rightarrow> 'k switchboard \<Rightarrow> aidl_status \<times> 'k switchboard" where
  "spec_serve dv known oneShot (Activate h en) b = spec_activate dv known h en b"
| "spec_serve dv known oneShot (Batch h p l) b = spec_batch dv known h p l b"
| "spec_serve dv known oneShot (Flush h) b = spec_flush dv oneShot h b"

fun answers :: "('c \<Rightarrow> 's \<Rightarrow> 'r \<times> 's) \<Rightarrow> 'c list \<Rightarrow> 's \<Rightarrow> 'r list \<times> 's" where
  "answers f [] s = ([], s)"
| "answers f (c # cs) s = (case f c s of (r, s1) \<Rightarrow> case answers f cs s1 of (rs, s2) \<Rightarrow> (r # rs, s2))"

definition board :: "'k sensors \<Rightarrow> 'k switchboard" where
  "board s = (stateFor s, hfc s)"

definition known_handle :: "'k sensors \<Rightarrow> int \<Rightarrow> bool" where
  "known_handle s h \<longleftrightarrow> h \<in> set (listed s)"

definition one_shot_handle :: "'k sensors \<Rightarrow> int \<Rightarrow> bool" where
  "one_shot_handle s h \<longleftrightarrow> list_ex (\<lambda>si. sensorHandle si = h \<and> is_one_shot si) (sensorList s)"

text \<open>Times that are not negative, as the interface demands.\<close>

fun call_ok :: "sensor_call \<Rightarrow> bool" where
  "call_ok (Batch h p l) = (0 \<le> sint p \<and> 0 \<le> sint l)"
| "call_ok _ = True"

definition times_ok :: "'k sensors \<Rightarrow> bool" where
  "times_ok s \<longleftrightarrow> (\<forall>h st. stateByHandle s h = Some st \<longrightarrow> 0 \<le> sint (samplingPeriodNs st) \<and> 0 \<le> sint (maxReportLatencyNs st))"

text \<open>
  A state is simulated by a function to the abstract states: where every call of the concrete machine has the
  abstract answer and reaches the abstract state, sequences of calls do.
\<close>

locale simulation =
  fixes conc :: "'c \<Rightarrow> 's \<Rightarrow> 'r \<times> 's"
    and spec :: "'c \<Rightarrow> 'a \<Rightarrow> 'r \<times> 'a"
    and abs :: "'s \<Rightarrow> 'a"
    and inv :: "'s \<Rightarrow> bool"
    and ok :: "'c \<Rightarrow> bool"
  assumes sim: "inv s \<Longrightarrow> ok c \<Longrightarrow> spec c (abs s) = (fst (conc c s), abs (snd (conc c s)))"
    and inv_keep: "inv s \<Longrightarrow> ok c \<Longrightarrow> inv (snd (conc c s))"
begin

lemma answers_sim:
  "inv s \<Longrightarrow> list_all ok cs \<Longrightarrow>
   answers spec cs (abs s) = (fst (answers conc cs s), abs (snd (answers conc cs s))) \<and> inv (snd (answers conc cs s))"
proof (induction cs arbitrary: s)
  case (Cons c cs)
  then have "spec c (abs s) = (fst (conc c s), abs (snd (conc c s)))" "inv (snd (conc c s))"
    by (simp_all add: sim inv_keep)
  with Cons.IH [of "snd (conc c s)"] Cons.prems show ?case
    by (auto split: prod.splits)
qed simp

end

definition served :: "(int \<Rightarrow> bool) \<Rightarrow> (int \<Rightarrow> bool) \<Rightarrow> 'k sensors \<Rightarrow> bool" where
  "served known oneShot s \<longleftrightarrow> tables_agree s \<and> times_ok s \<and> known_handle s = known \<and> one_shot_handle s = oneShot"

lemma handle_range:
  assumes "tables_agree s" "known_handle s h"
  shows "0 < h" "h < int SENSOR_TYPE_SENSOR_MAX" "gainByHandle s h \<noteq> None" "known_sensor (word_of_int h)"
proof -
  obtain si where si: "si \<in> set (sensorList s)" "sensorHandle si = h"
    using assms(2) by (auto simp: known_handle_def listed_def)
  with assms(1) have "entry_typed s si" by (auto simp: tables_agree_def list_all_iff)
  with si show "0 < h" "h < int SENSOR_TYPE_SENSOR_MAX" "gainByHandle s h \<noteq> None" "known_sensor (word_of_int h)"
    by (auto simp: entry_typed_def dest: lookup_ok(2))
qed

lemma gain_known: "tables_agree s \<Longrightarrow> gainByHandle s h = None \<longleftrightarrow> \<not> known_handle s h"
  by (auto simp: tables_agree_def known_handle_def)

lemma times_stateFor: "times_ok s \<Longrightarrow> 0 \<le> sint (samplingPeriodNs (stateFor s h)) \<and> 0 \<le> sint (maxReportLatencyNs (stateFor s h))"
  by (auto simp: times_ok_def stateFor_def default_state_def split: option.splits)

lemma find_first:
  "sorted_wrt (\<lambda>x y. f x < (f y :: int)) xs \<Longrightarrow>
   (case find (\<lambda>x. f x = h) xs of None \<Rightarrow> False | Some x \<Rightarrow> P x) = list_ex (\<lambda>x. f x = h \<and> P x) xs"
  by (induction xs) (auto simp: list_ex_iff)

lemma find_one_shot:
  "tables_agree s \<Longrightarrow>
   (case find (\<lambda>si. sensorHandle si = h) (sensorList s) of None \<Rightarrow> False | Some si \<Rightarrow> is_one_shot si) = one_shot_handle s h"
  by (simp add: tables_agree_def listed_def sorted_wrt_map one_shot_handle_def find_first)

text \<open>On known handles and times that are not negative both builds send the same command.\<close>

lemma setEnable_known:
  "tables_agree s \<Longrightarrow> known_handle s h \<Longrightarrow> 0 \<le> sint p \<Longrightarrow> 0 \<le> sint l \<Longrightarrow>
   setEnable rust dv (word_of_int h) en p l k = setEnable False dv (word_of_int h) en p l k"
  by (cases rust) (simp_all add: setEnable_rust handle_range(4))

lemma requestFlush_known:
  "tables_agree s \<Longrightarrow> known_handle s h \<Longrightarrow>
   requestFlush rust dv (word_of_int h) k = requestFlush False dv (word_of_int h) k"
  by (cases rust) (simp_all add: requestFlush_rust handle_range(4))

lemma stateFor_put [simp]:
  "stateFor (put_state h st s) = (stateFor s)(h := st)" "hfc (put_state h st s) = hfc s"
  "stateFor (s\<lparr>hfc := k\<rparr>) = stateFor s" "(put_state h st s)\<lparr>hfc := k\<rparr> = put_state h st (s\<lparr>hfc := k\<rparr>)"
  "put_state h st (put_state h st' s) = put_state h st s"
  by (auto simp: stateFor_def put_state_def fun_eq_iff)

lemma served_put:
  "served kn os s \<Longrightarrow> kn h \<Longrightarrow> 0 \<le> sint (samplingPeriodNs st) \<Longrightarrow> 0 \<le> sint (maxReportLatencyNs st) \<Longrightarrow>
   served kn os (put_state h st s)"
  by (auto simp: served_def tables_agree_def times_ok_def known_handle_def one_shot_handle_def put_state_def listed_def
      entry_typed_def [abs_def] fun_eq_iff split: if_splits)

lemma served_frame [simp]: "served kn os (s\<lparr>hfc := k\<rparr>) = served kn os s"
  by (simp add: served_def tables_agree_def times_ok_def known_handle_def [abs_def] one_shot_handle_def [abs_def] listed_def
      entry_typed_def [abs_def])

lemma validate_known:
  "served kn os s \<Longrightarrow> kn h \<Longrightarrow> rs_validate (stateFor s h) h = None"
  using times_stateFor [of s h] handle_range(1,2) [of s h]
  by (auto simp: served_def rs_validate_def)

lemma activate_sim:
  assumes "served kn os s"
  shows "spec_activate dv kn h en (board s) = (fst (activate_locked rust dv h en s), board (snd (activate_locked rust dv h en s))) \<and>
    served kn os (snd (activate_locked rust dv h en s))"
proof (cases "kn h")
  case False
  then have "gainByHandle s h = None" using assms by (auto simp: served_def gain_known)
  with False assms show ?thesis by (simp add: activate_locked_def spec_activate_def board_def)
next
  case True
  let ?st = "stateFor s h"
  have known: "gainByHandle s h \<noteq> None" "known_handle s h" and agree: "tables_agree s"
    using True assms handle_range(3) by (auto simp: served_def)
  have times: "0 \<le> sint (samplingPeriodNs ?st)" "0 \<le> sint (maxReportLatencyNs ?st)"
    using assms times_stateFor [of s h] by (auto simp: served_def)
  note same = setEnable_known [OF agree known(2) times]
  obtain b k where e: "setEnable False dv (word_of_int h) en (samplingPeriodNs ?st) (maxReportLatencyNs ?st) (hfc s) = (b, k)"
    by (cases "setEnable False dv (word_of_int h) en (samplingPeriodNs ?st) (maxReportLatencyNs ?st) (hfc s)")
  then have e: "setEnable r dv (word_of_int h) en (samplingPeriodNs ?st) (maxReportLatencyNs ?st) (hfc s) = (b, k)" for r
    by (simp add: same [of r])
  show ?thesis
    using known True times assms validate_known [OF assms True] served_put [of kn os "s\<lparr>hfc := k\<rparr>" h]
    by (cases b; cases rust) (auto simp: e activate_locked_def spec_activate_def board_def rs_activate_def Let_def)
qed

lemma batch_sim:
  assumes "served kn os s" "0 \<le> sint p" "0 \<le> sint l"
  shows "spec_batch dv kn h p l (board s) = (fst (batch_sensor rust dv h p l s), board (snd (batch_sensor rust dv h p l s))) \<and>
    served kn os (snd (batch_sensor rust dv h p l s))"
proof (cases "kn h")
  case False
  then have "gainByHandle s h = None" using assms by (auto simp: served_def gain_known)
  with False assms show ?thesis by (simp add: batch_sensor_def spec_batch_def board_def)
next
  case True
  let ?st = "stateFor s h"
  have known: "gainByHandle s h \<noteq> None" "known_handle s h" and agree: "tables_agree s"
    using True assms handle_range(3) by (auto simp: served_def)
  have times: "0 \<le> sint (samplingPeriodNs ?st)" "0 \<le> sint (maxReportLatencyNs ?st)"
    using assms times_stateFor [of s h] by (auto simp: served_def)
  note same = setEnable_known [OF agree known(2) assms(2,3)]
  obtain b k where e: "setEnable False dv (word_of_int h) True p l (hfc s) = (b, k)"
    by (cases "setEnable False dv (word_of_int h) True p l (hfc s)")
  then have e: "setEnable r dv (word_of_int h) True p l (hfc s) = (b, k)" for r
    by (simp add: same [of r])
  show ?thesis
    using known True times assms validate_known [OF assms(1) True]
      served_put [of kn os "s\<lparr>hfc := k\<rparr>" h] served_put [of kn os s h]
    by (cases b; cases rust; cases "active ?st") (auto simp: e batch_sensor_def spec_batch_def board_def rs_batch_def Let_def)
qed

lemma flush_sim:
  assumes "served kn os s"
  shows "spec_flush dv os h (board s) = (fst (flush_sensor rust dv h s), board (snd (flush_sensor rust dv h s))) \<and>
    served kn os (snd (flush_sensor rust dv h s))"
proof (cases "stateByHandle s h")
  case None
  then show ?thesis
    using assms by (auto simp: flush_sensor_def spec_flush_def board_def stateFor_def default_state_def)
next
  case (Some st)
  have agree: "tables_agree s" and os: "one_shot_handle s h = os h" and kn: "known_handle s h" "kn h"
    using assms Some by (auto simp: served_def tables_agree_def known_handle_def)
  then have known: "gainByHandle s h \<noteq> None" using handle_range(3) by blast
  have st: "stateFor s h = st" using Some by (simp add: stateFor_def)
  note same = requestFlush_known [OF agree kn(1)]
  note find = find_one_shot [OF agree, of h, unfolded os]
  have ex: "list_ex (\<lambda>si. sensorHandle si = h \<and> is_one_shot si) (sensorList s) = os h"
    using os by (simp add: one_shot_handle_def)
  obtain b k where e: "requestFlush False dv (word_of_int h) (hfc s) = (b, k)"
    by (cases "requestFlush False dv (word_of_int h) (hfc s)")
  have impl: "flush_sensor rust dv h s = (if \<not> active st \<or> os h then (IllegalArgument, s) else request_flush rust dv h s)"
    using Some known find ex validate_known [OF assms kn(2)] st
    by (cases rust) (auto simp: flush_sensor_def rs_flush_def Let_def)
  show ?thesis
    unfolding impl using e st assms
    by (cases b) (simp_all add: spec_flush_def board_def request_flush_def same [of rust])
qed

interpretation svc: simulation "serve rust dv" "spec_serve dv kn os" board "served kn os" call_ok for rust dv kn os
proof unfold_locales
  fix s :: "'a sensors" and c
  assume a: "served kn os s" "call_ok c"
  then show "spec_serve dv kn os c (board s) = (fst (serve rust dv c s), board (snd (serve rust dv c s)))"
    by (cases c) (simp_all add: activate_sim batch_sim flush_sim)
  from a show "served kn os (snd (serve rust dv c s))"
    by (cases c) (simp_all add: activate_sim batch_sim flush_sim)
qed

lemma enumerated_served:
  assumes "ensureEnumerated rust dv (new_sensors dv c k) = Some s"
  shows "served (known_handle s) (one_shot_handle s) s"
proof -
  have keep: "stateByHandle (foldl (\<lambda>s t. enumerate_type rust dv t s) u ts) = stateByHandle u" for u ts
    by (induction ts arbitrary: u) (auto simp: enumerate_type_def split: option.splits prod.splits)
  have "stateByHandle s = (\<lambda>_. None)"
    using assms by (auto simp: ensureEnumerated_def new_sensors_def Let_def keep split: if_splits option.splits prod.splits)
  with ensureEnumerated_agrees [OF assms new_sensors_agree(2,1)] show ?thesis
    by (simp add: served_def times_ok_def)
qed

subsection \<open>Properties of enumeration and of the switches\<close>

text \<open>
  C35: enumeration leaves well-typed tables, whatever the driver answers: handles are listed in ascending order without
  repetition, each with the type information of its handle, a gain that is not 0 and the right wake-up flag, exactly the
  listed handles have a gain and a flag, and no two sensors have the same Android type.
\<close>

theorem enumeration_well_typed:
  assumes "ensureEnumerated rust dv (new_sensors dv c k) = Some s"
  shows "tables_agree s \<and> inj_on (\<lambda>si. ti_aidlType (sInfo si)) (set (sensorList s)) \<and>
    (\<forall>si \<in> set (sensorList s). entry_ok (sInfo si))"
proof -
  have agree: "tables_agree s"
    using ensureEnumerated_agrees [OF assms new_sensors_agree(2,1)] by simp
  then have typed: "entry_typed s si" if "si \<in> set (sensorList s)" for si
    using that by (auto simp: tables_agree_def list_all_iff)
  have "inj_on sensorHandle (set (sensorList s))"
    using agree by (simp add: tables_agree_def listed_def strict_sorted_iff distinct_map)
  moreover have "sensorHandle x = sensorHandle y"
    if "x \<in> set (sensorList s)" "y \<in> set (sensorList s)" "ti_aidlType (sInfo x) = ti_aidlType (sInfo y)" for x y
  proof -
    have "(word_of_int (sensorHandle x) :: u8) = word_of_int (sensorHandle y)"
      using typed [OF that(1)] typed [OF that(2)] that(3) by (auto simp: entry_typed_def intro: lookup_inj)
    moreover have "uint (word_of_int h :: u8) = h" if "0 < h" "h < int SENSOR_TYPE_SENSOR_MAX" for h
      using that by (simp add: uint_word_of_int SENSOR_TYPE_SENSOR_MAX_def)
    ultimately show ?thesis
      using typed [OF that(1)] typed [OF that(2)] by (metis entry_typed_def)
  qed
  ultimately have "inj_on (\<lambda>si. ti_aidlType (sInfo si)) (set (sensorList s))"
    by (meson inj_onD inj_onI)
  moreover have "\<forall>si \<in> set (sensorList s). entry_ok (sInfo si)"
    using typed lookup_ok(1) by (auto simp: entry_typed_def)
  ultimately show ?thesis using agree by simp
qed


subsection \<open>The wake lock covers wake-up events\<close>

lemma sint_exact:
  "- (2 ^ 31) \<le> sint a + sint b \<Longrightarrow> sint a + sint b < 2 ^ 31 \<Longrightarrow> sint (a + b :: i32) = sint a + sint b"
  "- (2 ^ 31) \<le> sint a - sint b \<Longrightarrow> sint a - sint b < 2 ^ 31 \<Longrightarrow> sint (a - b :: i32) = sint a - sint b"
  by (simp_all add: sint_word_ariths signed_take_bit_int_eq_self)

lemma sint_i32_range: "- (2 ^ 31) \<le> sint (a :: i32)" "sint (a :: i32) < 2 ^ 31"
  using sint_range_size [of a] by (simp_all add: word_size)

lemma sint_i32_zero: "sint (a :: i32) = 0 \<longleftrightarrow> a = 0"
  by (auto intro: signed_word_eqI)

lemma sint_word_count: "n < 2 ^ 31 \<Longrightarrow> sint (word_of_nat n :: i32) = int n"
  by (simp add: signed_of_nat signed_take_bit_int_eq_self)

text \<open>The lock is held whenever acknowledgements are outstanding, and the count is not negative.\<close>

definition lock_ok :: "wake_lock \<Rightarrow> bool" where
  "lock_ok w \<longleftrightarrow> 0 \<le> sint (outstanding w) \<and> (\<not> hasWakeLock w \<longrightarrow> outstanding w = 0)"

lemma update_held:
  "hasWakeLock w \<Longrightarrow> lock_ok (updateWakeLockLocked T e wr dn w)"
  by (auto simp: updateWakeLockLocked_def lock_ok_def Let_def)

lemma update_ack_idle:
  assumes "\<not> hasWakeLock w" "outstanding w = 0" "0 \<le> sint dn"
  shows "updateWakeLockLocked T e 0 dn w = w"
proof -
  have "sint (0 - dn) = - sint dn"
    using assms(3) sint_i32_range [of dn] by (subst sint_exact(2)) simp_all
  then have "dn = 0 \<or> sint (- dn) < 0"
    using assms(3) sint_i32_zero [of dn] by auto
  with assms show ?thesis
    by (cases w) (auto simp: updateWakeLockLocked_def Let_def)
qed

lemma update_ack: "lock_ok w \<Longrightarrow> 0 \<le> sint dn \<Longrightarrow> lock_ok (updateWakeLockLocked T e 0 dn w)"
  using update_ack_idle [of w dn T e] update_held [of w T e 0 dn]
  by (cases "hasWakeLock w") (auto simp: lock_ok_def [of w])

text \<open>A refused lock: the count is taken back by the second update.\<close>

lemma update_refused:
  assumes "lock_ok w" "0 < n" "n < 2 ^ 31"
    and "w1 = updateWakeLockLocked T e (word_of_nat n) 0 w" "\<not> hasWakeLock w1"
  shows "lock_ok (updateWakeLockLocked T e' 0 (word_of_nat n) (w1\<lparr>autoRelease := d\<rparr>))"
proof -
  have n: "sint (word_of_nat n :: i32) = int n" using assms(3) by (rule sint_word_count)
  have "outstanding w1 = 0 \<or> outstanding w1 = word_of_nat n"
    using assms(1,4,5) n by (auto simp: updateWakeLockLocked_def lock_ok_def Let_def split: if_splits)
  then show ?thesis
  proof
    assume "outstanding w1 = 0"
    then show ?thesis
      using assms(5) n update_ack_idle [of "w1\<lparr>autoRelease := d\<rparr>" "word_of_nat n" T e']
      by (simp add: lock_ok_def)
  next
    assume "outstanding w1 = word_of_nat n"
    then show ?thesis
      using assms(5) by (auto simp: updateWakeLockLocked_def Let_def lock_ok_def)
  qed
qed

lemma post_turn_lock:
  assumes "post_turn T e es s = (b, es', s')" "lock_ok (wl s)" "length es < 2 ^ 31"
  shows "lock_ok (wl s') \<and> (\<exists>bs. posted s' = posted s @ bs \<and>
    (\<forall>x \<in> set bs. wake_count s (b_events x) > 0 \<longrightarrow> b_locked x)) \<and> wakeUpByHandle s' = wakeUpByHandle s"
proof -
  let ?c = "min (length es) (room e)"
  let ?n = "wake_count s (take ?c es)"
  let ?w = "updateWakeLockLocked T (env1 e) (word_of_nat ?n) 0 (wl s)"
  have n: "?n < 2 ^ 31"
    using assms(3) length_filter_le [of "\<lambda>e. wakeUpByHandle s (ev_handle e) = Some True" "take ?c es"]
    by (simp add: wake_count_def)
  have first: "hasWakeLock ?w \<Longrightarrow> lock_ok ?w" if "?n > 0"
    using assms(2) that n sint_word_count [OF n]
    by (cases "hasWakeLock (wl s)") (auto simp: update_held lock_ok_def updateWakeLockLocked_def Let_def split: if_splits)
  have second: "lock_ok (updateWakeLockLocked T (env2 e) 0 (word_of_nat ?n) (?w\<lparr>autoRelease := d\<rparr>))" if "?n > 0" for d
    using update_refused [OF assms(2) that n refl] update_held [of "?w\<lparr>autoRelease := d\<rparr>"] by (cases "hasWakeLock ?w") auto
  show ?thesis
    using assms first second
    by (auto simp: post_turn_def Let_def split: if_splits)
qed

lemma post_turn_length: "post_turn T e es s = (b, es', s') \<Longrightarrow> length es' \<le> length es"
  by (auto simp: post_turn_def Let_def split: if_splits)

subsection \<open>Delivery in order\<close>

definition delivered :: "'k sensors \<Rightarrow> event list" where
  "delivered s = concat (map b_events (posted s))"

lemma post_turn_order:
  assumes "post_turn T e es s = (b, es', s')"
  shows "\<exists>k. es' = drop k es \<and> delivered s' = delivered s @ take k es"
proof (cases "posted s' = posted s")
  case True
  with assms have "es' = es"
    by (auto simp: post_turn_def Let_def split: if_splits)
  with True show ?thesis by (intro exI [of _ 0]) (simp add: delivered_def)
next
  case False
  with assms show ?thesis
    by (intro exI [of _ "min (length es) (room e)"]) (auto simp: post_turn_def Let_def delivered_def split: if_splits)
qed

lemma postEvents_order:
  "postEvents T envs es s = (rest, s') \<Longrightarrow> \<exists>k. rest = drop k es \<and> delivered s' = delivered s @ take k es"
proof (induction T envs es s rule: postEvents.induct)
  case (1 T es s)
  then show ?case by (intro exI [of _ 0]) simp
next
  case (2 T e envs es s)
  obtain b es1 s1 where p: "post_turn T e es s = (b, es1, s1)" by (cases "post_turn T e es s") auto
  then obtain k where k: "es1 = drop k es" "delivered s1 = delivered s @ take k es"
    using post_turn_order by blast
  show ?case
  proof (cases b)
    case True
    with 2 p k show ?thesis by auto
  next
    case False
    with "2.prems" p have "postEvents T envs es1 s1 = (rest, s')" by simp
    from "2.IH" [OF p [symmetric] _ _ this] False obtain j where
      "rest = drop j es1" "delivered s' = delivered s1 @ take j es1" by auto
    moreover have "drop (k + j) es = drop j (drop k es)" by (simp add: add.commute)
    ultimately show ?thesis using k by (intro exI [of _ "k + j"]) (simp add: take_add)
  qed
qed

text \<open>A turn in which the platform cooperates: nobody stops the reader, there is room, writing works, the lock is granted in time.\<close>

definition good_turn :: "int \<Rightarrow> post_env \<Rightarrow> bool" where
  "good_turn T e \<longleftrightarrow> \<not> stop1 e \<and> 0 < room e \<and> write_ok e \<and> granted (env1 e) \<and> up2 (env1 e) \<le> up1 (env1 e) + T"

lemma update_written:
  assumes "lock_ok w" "0 < n" "sint (outstanding w) + int n < 2 ^ 31" "granted e" "up2 e \<le> up1 e + T"
    and "w1 = updateWakeLockLocked T e (word_of_nat n) 0 w"
  shows "hasWakeLock w1 \<and> sint (outstanding w1) = sint (outstanding w) + int n"
proof -
  have n: "sint (word_of_nat n :: i32) = int n"
    using assms(1,3) by (intro sint_word_count) (simp add: lock_ok_def)
  then have sum: "sint (outstanding w + word_of_nat n) = sint (outstanding w) + int n"
    using assms(1,3) by (subst sint_exact(1)) (simp_all add: lock_ok_def)
  have "outstanding w + word_of_nat n \<noteq> 0"
    using sum assms(1,2) sint_i32_zero [of "outstanding w + word_of_nat n"] by (auto simp: lock_ok_def)
  with assms n sum show ?thesis
    by (auto simp: updateWakeLockLocked_def Let_def lock_ok_def)
qed

lemma good_turn_delivers:
  assumes "good_turn T e" "eventQueue s" "eventQueueFlag s" "es \<noteq> []" "lock_ok (wl s)"
    and "sint (outstanding (wl s)) + int (length es) < 2 ^ 31"
  obtains s' where "post_turn T e es s = (False, drop (min (length es) (room e)) es, s')" "eventQueue s'" "eventQueueFlag s'"
    "lock_ok (wl s')" "sint (outstanding (wl s')) + int (length (drop (min (length es) (room e)) es)) < 2 ^ 31"
proof -
  let ?c = "min (length es) (room e)"
  let ?n = "wake_count s (take ?c es)"
  let ?w = "updateWakeLockLocked T (env1 e) (word_of_nat ?n) 0 (wl s)"
  have c: "0 < ?c" using assms(1,4) by (simp add: good_turn_def)
  have n: "?n \<le> ?c"
    using length_filter_le [of "\<lambda>e. wakeUpByHandle s (ev_handle e) = Some True" "take ?c es"] by (simp add: wake_count_def)
  have upd: "hasWakeLock ?w \<and> sint (outstanding ?w) = sint (outstanding (wl s)) + int ?n" if "?n > 0"
    by (rule update_written [OF assms(5) that _ _ _ refl]) (use assms(1,6) n in \<open>simp_all add: good_turn_def\<close>)
  let ?w1 = "if ?n > 0 then ?w else wl s"
  let ?s = "s\<lparr>wl := ?w1, posted := posted s @ [\<lparr>b_events = take ?c es, b_locked = hasWakeLock ?w1\<rparr>]\<rparr>"
  have turn: "post_turn T e es s = (False, drop ?c es, ?s)"
    using assms(1-4) c upd by (auto simp: post_turn_def good_turn_def Let_def)
  show thesis
  proof (rule that [OF turn])
    show "lock_ok (wl ?s)"
      using assms(5) upd by (auto simp: lock_ok_def)
    show "sint (outstanding (wl ?s)) + int (length (drop ?c es)) < 2 ^ 31"
      using assms(6) upd n by (cases "?n > 0") auto
  qed (use assms(2,3) in simp_all)
qed

lemma postEvents_delivers:
  assumes "list_all (good_turn T) envs" "length es \<le> length envs" "eventQueue s" "eventQueueFlag s" "lock_ok (wl s)"
    and "sint (outstanding (wl s)) + int (length es) < 2 ^ 31"
  shows "fst (postEvents T envs es s) = []"
  using assms
proof (induction envs arbitrary: es s)
  case (Cons e envs)
  show ?case
  proof (cases "es = []")
    case True
    then show ?thesis by (simp add: post_turn_def)
  next
    case False
    let ?c = "min (length es) (room e)"
    obtain s1 where t: "post_turn T e es s = (False, drop ?c es, s1)" "eventQueue s1" "eventQueueFlag s1"
      "lock_ok (wl s1)" "sint (outstanding (wl s1)) + int (length (drop ?c es)) < 2 ^ 31"
      by (rule good_turn_delivers [of T e s es]) (use Cons.prems False in simp_all)
    have "0 < ?c" using Cons.prems(1) False by (simp add: good_turn_def)
    then have "length (drop ?c es) \<le> length envs" using Cons.prems(2) by auto
    with Cons.IH [OF _ _ t(2-5)] Cons.prems(1) t(1) show ?thesis by simp
  qed
qed simp

subsection \<open>Runs of the delivery side\<close>

text \<open>
  What happens to the wake lock, in any order: turns of the posting loop, turns of the thread that reads the
  acknowledgements, and the shutdown of both.
\<close>

inductive wake_step :: "int \<Rightarrow> 'k sensors \<Rightarrow> 'k sensors \<Rightarrow> bool" for T where
  post: "length es < 2 ^ 31 \<Longrightarrow> post_turn T e es s = (b, es', s') \<Longrightarrow> wake_step T s s'"
| ack: "0 \<le> sint handled \<Longrightarrow> wake_step T s (wake_lock_turn T e handled s)"
| stop: "wake_step T s (stopReaderLocked rel s)"
| restart: "wake_step T s (startReaderLocked (startWakeLockThreadLocked (s\<lparr>eventQueue := q, eventQueueFlag := f\<rparr>)))"

inductive wake_reach :: "int \<Rightarrow> 'k sensors \<Rightarrow> 'k sensors \<Rightarrow> bool" for T s where
  refl: "wake_reach T s s"
| step: "wake_reach T s s1 \<Longrightarrow> wake_step T s1 s2 \<Longrightarrow> wake_reach T s s2"

definition covers :: "'k sensors \<Rightarrow> bool" where
  "covers s \<longleftrightarrow> lock_ok (wl s) \<and> (\<forall>b \<in> set (posted s). wake_count s (b_events b) > 0 \<longrightarrow> b_locked b)"

lemma wake_count_cong: "wakeUpByHandle s' = wakeUpByHandle s \<Longrightarrow> wake_count s' es = wake_count s es"
  by (simp add: wake_count_def)

lemma wake_step_covers: "wake_step T s s' \<Longrightarrow> covers s \<Longrightarrow> covers s'"
proof (induction rule: wake_step.induct)
  case (post es e s b es' s')
  from post_turn_lock [OF post.hyps(2) _ post.hyps(1)] post.prems obtain bs where
    "lock_ok (wl s')" "posted s' = posted s @ bs" "\<forall>x \<in> set bs. wake_count s (b_events x) > 0 \<longrightarrow> b_locked x"
    "wakeUpByHandle s' = wakeUpByHandle s" by (auto simp: covers_def)
  with post.prems wake_count_cong [of s' s] show ?case by (auto simp: covers_def)
next
  case (ack handled s e)
  then show ?case
    using wake_count_cong [of "wake_lock_turn T e handled s" s]
    by (auto simp: covers_def wake_lock_turn_def update_ack)
next
  case (stop s rel)
  then show ?case
    using wake_count_cong [of "stopReaderLocked rel s" s]
    by (auto simp: covers_def stopReaderLocked_def stopWakeLockThread_def lock_ok_def)
next
  case (restart s f q)
  then show ?case
    by (auto simp: covers_def startReaderLocked_def startWakeLockThreadLocked_def wake_count_def)
qed

lemma wake_reach_covers: "wake_reach T s s' \<Longrightarrow> covers s \<Longrightarrow> covers s'"
  by (induction rule: wake_reach.induct) (auto intro: wake_step_covers)

lemma update_release:
  assumes "hasWakeLock w" "\<not> hasWakeLock (updateWakeLockLocked T e 0 dn w)"
  shows "sint (outstanding w - dn) \<le> 0 \<or> autoRelease w < up2 e"
  using assms by (auto simp: updateWakeLockLocked_def Let_def split: if_splits)

lemma enumerated_covers:
  assumes "ensureEnumerated rust dv (new_sensors dv c k) = Some s"
  shows "covers s" "posted s = []" "eventQueue s = eventQueue (new_sensors dv c k)" "wl s = wl (new_sensors dv c k)"
proof -
  have keep: "wl (foldl (\<lambda>s t. enumerate_type rust dv t s) u ts) = wl u \<and>
      posted (foldl (\<lambda>s t. enumerate_type rust dv t s) u ts) = posted u \<and>
      eventQueue (foldl (\<lambda>s t. enumerate_type rust dv t s) u ts) = eventQueue u" for u ts
    by (induction ts arbitrary: u) (auto simp: enumerate_type_def split: option.splits prod.splits)
  have "wl s = wl (new_sensors dv c k) \<and> posted s = [] \<and> eventQueue s = eventQueue (new_sensors dv c k)"
    using assms by (auto simp: ensureEnumerated_def new_sensors_def Let_def keep split: if_splits option.splits prod.splits)
  then show "covers s" "posted s = []" "eventQueue s = eventQueue (new_sensors dv c k)" "wl s = wl (new_sensors dv c k)"
    by (simp_all add: covers_def new_sensors_def lock_ok_def)
qed

subsection \<open>Properties of the delivery side\<close>


text \<open>
  C34: the posting loop delivers a prefix of its events, in order and without loss or repetition, also when writes fail
  and are retried; and it delivers all of them when it gets as many turns as there are events in which the platform
  cooperates.
\<close>

theorem events_delivered_in_order:
  "(\<exists>n. fst (postEvents T envs es s) = drop n es \<and>
      delivered (snd (postEvents T envs es s)) = delivered s @ take n es) \<and>
   (list_all (good_turn T) envs \<and> length es \<le> length envs \<and> eventQueue s \<and> eventQueueFlag s \<and> covers s \<and>
      sint (outstanding (wl s)) + int (length es) < 2 ^ 31 \<longrightarrow>
    delivered (snd (postEvents T envs es s)) = delivered s @ es)"
proof -
  obtain n where n: "fst (postEvents T envs es s) = drop n es"
    "delivered (snd (postEvents T envs es s)) = delivered s @ take n es"
    using postEvents_order [of T envs es s "fst (postEvents T envs es s)" "snd (postEvents T envs es s)"] by auto
  moreover have "take n es = es" if "fst (postEvents T envs es s) = []"
    using that n(1) by simp
  ultimately show ?thesis
    using postEvents_delivers [of T envs es s] by (auto simp: covers_def)
qed

subsection \<open>Concrete runs\<close>

abbreviation sample_sensors :: "int sensors" where
  "sample_sensors \<equiv> new_sensors (steady_driver 1) (new_store ''cfg'' blank_disk []) 0"

lemma sample_enumerates: "\<exists>s. ensureEnumerated rust (steady_driver 1) sample_sensors = Some s"
proof -
  obtain b h where "waitUntilReady (steady_driver 1) kReadyTimeoutMs 300 (hfc sample_sensors) = Some (b, h)"
    using waitUntilReady_returns [OF steady_driver_ticks, of 300 1 kReadyTimeoutMs "hfc sample_sensors"] by auto
  then show ?thesis
    by (simp add: ensureEnumerated_def Let_def split: prod.splits)
qed

theorem enumeration_well_typed_witness:
  "\<exists>s. ensureEnumerated True (steady_driver 1) sample_sensors = Some s \<and> tables_agree s"
  using sample_enumerates [of True] enumeration_well_typed [of True "steady_driver 1"] by blast



theorem events_delivered_in_order_witness:
  "let s = sample_sensors\<lparr>eventQueue := True, eventQueueFlag := True, wakeUpByHandle := [17 \<mapsto> True]\<rparr>;
       ev = \<lparr>ev_timestamp = 5, ev_handle = 17, ev_type = ST_SIGNIFICANT_MOTION, ev_payload = Scalar (Scaled 1 1)\<rparr>;
       lenv = \<lparr>up1 = 10, up2 = 11, granted = True, released = True\<rparr>;
       env = \<lparr>stop1 = False, room = 4, write_ok = True, stop2 = False, env1 = lenv, env2 = lenv\<rparr>
   in delivered (snd (postEvents 1000 [env] [ev] s)) = [ev]"
  using events_delivered_in_order [of 1000
      "[\<lparr>stop1 = False, room = 4, write_ok = True, stop2 = False,
         env1 = \<lparr>up1 = 10, up2 = 11, granted = True, released = True\<rparr>,
         env2 = \<lparr>up1 = 10, up2 = 11, granted = True, released = True\<rparr>\<rparr>]"
      "[\<lparr>ev_timestamp = 5, ev_handle = 17, ev_type = ST_SIGNIFICANT_MOTION, ev_payload = Scalar (Scaled 1 1)\<rparr>]"
      "sample_sensors\<lparr>eventQueue := True, eventQueueFlag := True, wakeUpByHandle := [17 \<mapsto> True]\<rparr>"]
  by (simp add: good_turn_def covers_def lock_ok_def new_sensors_def delivered_def)

end
