(* ===== verification/Mux_Frame.thy ===== *)
theory Mux_Frame
  imports Prelude
begin

text \<open>
  The frames of the modem multiplexer, \<^verbatim>\<open>src/modem/mux/mindone_mux.c\<close> (GSM 07.10, basic mode): the check sequence, the
  bytes of a frame as \<open>tx_frame\<close> puts them together, and the scanner of \<open>rx_parse\<close> that finds frames in received bytes.
  The lemmas show that the scanner finds exactly the frames that were sent, however the bytes are cut into reads, and that it
  never keeps more bytes than one frame has.
\<close>

subsection \<open>Constants\<close>

abbreviation MUX_FLAG :: u8 where "MUX_FLAG \<equiv> 0xF9"
abbreviation ADDR_EA :: u8 where "ADDR_EA \<equiv> 0x01"
abbreviation ADDR_CR :: u8 where "ADDR_CR \<equiv> 0x02"
abbreviation CTRL_PF :: u8 where "CTRL_PF \<equiv> 0x10"
abbreviation CTRL_SABM :: u8 where "CTRL_SABM \<equiv> 0x2F"
abbreviation CTRL_UA :: u8 where "CTRL_UA \<equiv> 0x63"
abbreviation CTRL_DM :: u8 where "CTRL_DM \<equiv> 0x0F"
abbreviation CTRL_DISC :: u8 where "CTRL_DISC \<equiv> 0x43"
abbreviation CTRL_UIH :: u8 where "CTRL_UIH \<equiv> 0xEF"
abbreviation CTRL_UI :: u8 where "CTRL_UI \<equiv> 0x03"

definition MAX_FRAME :: nat where "MAX_FRAME = 32767"

definition RX_CAP :: nat where "RX_CAP = 65536"

subsection \<open>The frame check sequence\<close>

definition crc_bit :: "u8 \<Rightarrow> u8" where
  "crc_bit c = (if c AND 1 \<noteq> 0 then drop_bit 1 c XOR 0xE0 else drop_bit 1 c)"

definition crc_table :: "u8 list" where
  "crc_table = map (\<lambda>i. (crc_bit ^^ 8) (of_nat i)) [0..<256]"

fun crc_update :: "u8 \<Rightarrow> bytes \<Rightarrow> u8" where
  "crc_update crc [] = crc"
| "crc_update crc (b # p) = crc_update (crc_table ! unat (crc XOR b)) p"

subsection \<open>Writing a frame\<close>

text \<open>The header behind the opening flag: address, control and one or two length bytes.\<close>

definition frame_address :: "u8 \<Rightarrow> u8" where
  "frame_address dlci = push_bit 2 dlci OR ADDR_CR OR ADDR_EA"

definition frame_length :: "nat \<Rightarrow> bytes" where
  "frame_length len =
     (if len < 128 then [of_nat (push_bit 1 len OR 1)] else [of_nat (push_bit 1 len), of_nat (drop_bit 7 len)])"

definition frame_header :: "u8 \<Rightarrow> u8 \<Rightarrow> nat \<Rightarrow> bytes" where
  "frame_header dlci ctrl len = [frame_address dlci, ctrl] @ frame_length len"

definition frame_crc :: "bytes \<Rightarrow> u8 \<Rightarrow> bytes \<Rightarrow> u8" where
  "frame_crc hdr ctrl data = (let crc = crc_update 0xFF hdr in if ctrl AND NOT CTRL_PF = CTRL_UI then crc_update crc data else crc)"

definition frame_bytes :: "u8 \<Rightarrow> u8 \<Rightarrow> bytes \<Rightarrow> bytes" where
  "frame_bytes dlci ctrl data =
     (let hdr = frame_header dlci ctrl (length data)
      in MUX_FLAG # hdr @ data @ [NOT (frame_crc hdr ctrl data), MUX_FLAG])"

subsection \<open>Finding frames\<close>

text \<open>
  One turn of the loop of \<open>rx_parse\<close> on the bytes from position \<open>i\<close> on: it stops and keeps bytes, goes on behind the
  flag of a bad frame, or hands a frame over and goes on at its closing flag.
\<close>

datatype rx_scan = Keep bytes | Drop bytes | Frame u8 u8 bytes bytes

fun skip_flags :: "bytes \<Rightarrow> bytes" where
  "skip_flags (a # b # rest) = (if b = MUX_FLAG then skip_flags (b # rest) else a # b # rest)"
| "skip_flags bs = bs"

definition seek_flag :: "bytes \<Rightarrow> bytes" where
  "seek_flag bs = skip_flags (dropWhile (\<lambda>b. b \<noteq> MUX_FLAG) bs)"

text \<open>The length field at \<open>p + 2\<close>: the length and the number of header bytes; \<open>None\<close> when its second byte is missing.\<close>

definition rx_length :: "bytes \<Rightarrow> (nat \<times> nat) option" where
  "rx_length p =
     (let len = unat (drop_bit 1 (p ! 2))
      in if p ! 2 AND 1 = 0
         then if length p < 4 then None else Some (len OR push_bit 7 (unat (p ! 3)), 4)
         else Some (len, 3))"

definition rx_frame :: "nat \<Rightarrow> bytes \<Rightarrow> rx_scan" where
  "rx_frame frame_size bs =
     (let i = seek_flag bs
      in if length i < 4 then Keep i
         else let p = tl i; ctrl = p ! 1
              in case rx_length p of
                   None \<Rightarrow> Keep i
                 | Some (len, hl) \<Rightarrow>
                     if len > frame_size then Drop p
                     else if length p < hl + len + 2 then Keep i
                     else let data = take len (drop hl p); crc = frame_crc (take hl p) ctrl data
                          in if crc XOR p ! (hl + len) \<noteq> 0xFF then Drop p
                             else if p ! (hl + len + 1) \<noteq> MUX_FLAG then Drop p
                             else Frame (drop_bit 2 (p ! 0)) ctrl data (drop (hl + len + 1) p))"

lemma length_skip_flags: "length (skip_flags bs) \<le> length bs"
  by (induction bs rule: skip_flags.induct) auto

lemma length_seek_flag: "length (seek_flag bs) \<le> length bs"
  unfolding seek_flag_def by (rule order_trans [OF length_skip_flags length_dropWhile_le])

lemma rx_frame_decreases:
  "rx_frame n bs = Drop rest \<Longrightarrow> length rest < length bs"
  "rx_frame n bs = Frame d c x rest \<Longrightarrow> length rest < length bs"
  using length_seek_flag [of bs]
  by (auto simp: rx_frame_def Let_def split: if_splits option.splits prod.splits)

text \<open>All frames of the received bytes, and the bytes kept for the next read.\<close>

function rx_frames :: "nat \<Rightarrow> bytes \<Rightarrow> (u8 \<times> u8 \<times> bytes) list \<times> bytes" where
  "rx_frames n bs =
     (case rx_frame n bs of
        Keep rest \<Rightarrow> ([], rest)
      | Drop rest \<Rightarrow> rx_frames n rest
      | Frame dlci ctrl data rest \<Rightarrow> (let (fs, kept) = rx_frames n rest in ((dlci, ctrl, data) # fs, kept)))"
  by pat_completeness auto
termination
  by (relation "measure (length \<circ> snd)") (auto dest: rx_frame_decreases)

declare rx_frames.simps [simp del]

subsection \<open>The check sequence detects a changed byte\<close>

lemma crc_table_nth: "crc_table ! unat x = (crc_bit ^^ 8) x"
proof -
  have "unat x < 256" using unsigned_less [of x] by simp
  thus ?thesis by (simp add: crc_table_def)
qed

lemma drop_bit_1_eq:
  assumes "drop_bit 1 x = drop_bit 1 (y :: u8)" and "bit x 0 = bit y 0"
  shows "x = y"
proof (rule bit_word_eqI)
  fix n assume "n < LENGTH(8)"
  show "bit x n = bit y n"
  proof (cases n)
    case (Suc m)
    have "bit (drop_bit 1 x) m = bit (drop_bit 1 y) m" by (simp only: assms)
    thus ?thesis by (simp add: Suc bit_simps)
  qed (simp add: assms)
qed

lemma crc_bit_top: "bit (crc_bit c) 7 \<longleftrightarrow> bit c 0"
  by (simp add: crc_bit_def bit_simps and_one_eq odd_iff_mod_2_eq_one [symmetric] bit_0)
    (auto dest: bit_imp_le_length)

lemma crc_bit_injective: "crc_bit x = crc_bit y \<Longrightarrow> x = y"
proof -
  assume eq: "crc_bit x = crc_bit y"
  hence "bit x 0 = bit y 0" by (metis crc_bit_top)
  moreover from this have "drop_bit 1 x = drop_bit 1 y"
    using eq by (auto simp: crc_bit_def and_one_eq odd_iff_mod_2_eq_one [symmetric] bit_0 xor_cancel_right split: if_splits)
  ultimately show "x = y" by (rule drop_bit_1_eq [rotated])
qed

lemma crc_bits_inj: "(crc_bit ^^ n) x = (crc_bit ^^ n) y \<Longrightarrow> x = y"
  by (induction n) (auto dest: crc_bit_injective)

lemma crc_table_inj: "crc_table ! unat x = crc_table ! unat (y :: u8) \<Longrightarrow> x = y"
  unfolding crc_table_nth by (rule crc_bits_inj)

lemma crc_update_append: "crc_update c (xs @ ys) = crc_update (crc_update c xs) ys"
  by (induction xs arbitrary: c) auto

lemma crc_update_inj: "crc_update c xs = crc_update d xs \<longleftrightarrow> c = d"
  by (induction xs arbitrary: c d) (auto simp: xor_cancel_right dest: crc_table_inj)

lemma crc_detects_byte:
  assumes "x \<noteq> y"
  shows "crc_update c (pre @ x # post) \<noteq> crc_update c (pre @ y # post)"
  using assms by (auto simp: crc_update_append crc_update_inj xor_cancel_left dest: crc_table_inj)

subsection \<open>A written frame is found again\<close>

lemma address_no_flag: "frame_address d \<noteq> MUX_FLAG"
proof
  assume "frame_address d = MUX_FLAG"
  hence "bit (frame_address d) 1 = bit MUX_FLAG 1" by simp
  thus False by (simp add: bit_simps frame_address_def)
qed

lemma address_dlci:
  assumes "d < (64 :: u8)"
  shows "drop_bit 2 (frame_address d) = d"
proof (rule bit_word_eqI)
  fix n assume n: "n < LENGTH(8)"
  have t: "take_bit 6 d = d"
    using assms by (simp add: take_bit_eq_self_iff_drop_bit_eq_0 drop_bit_eq_div word_less_nat_alt
        word_arith_nat_div unat_of_nat)
  have "bit d n \<Longrightarrow> n < 6" by (subst (asm) t [symmetric]) (simp add: bit_simps)
  with n show "bit (drop_bit 2 (frame_address d)) n = bit d n"
    by (auto simp: bit_simps frame_address_def)
qed

lemma unat_byte: "n < 256 \<Longrightarrow> unat (of_nat n :: u8) = n"
  by (simp add: unat_of_nat)

lemma unat_half [simp]: "unat (drop_bit (Suc 0) (b :: u8)) = unat b div 2"
proof -
  have "take_bit 8 (unat b) = unat b" using unsigned_less [of b] by (intro take_bit_nat_eq_self) simp
  moreover have "unat (drop_bit (Suc 0) b) = drop_bit (Suc 0) (take_bit LENGTH(8) (unat b))" by (rule unsigned_drop_bit_eq)
  ultimately show ?thesis by (simp add: drop_bit_eq_div [where 'a = nat])
qed

lemma even_unat: "even (unat (b :: u8)) \<longleftrightarrow> even b"
  by (metis bit_0 bit_unsigned_iff possible_bit_nat)

lemma and_one_zero: "(b :: u8) AND 1 = 0 \<longleftrightarrow> even (unat b)"
  unfolding even_unat by (simp add: and_one_eq even_iff_mod_2_eq_zero)

lemma length_byte_short:
  assumes "n < 128"
  shows "rx_length (a # c # frame_length n @ rest) = Some (n, 3)"
proof -
  have "push_bit 1 n OR 1 = Suc (2 * n)" by (simp add: push_bit_eq_mult or_one_eq mult.commute del: One_nat_def)
  hence "unat (of_nat (push_bit 1 n OR 1) :: u8) = Suc (2 * n)" using assms by (simp only: unat_byte)
  thus ?thesis using assms by (simp add: rx_length_def and_one_zero frame_length_def)
qed

lemma length_byte_long:
  assumes "128 \<le> n" and "n \<le> MAX_FRAME"
  shows "rx_length (a # c # frame_length n @ rest) = Some (n, 4)"
proof -
  have lo: "unat (drop_bit 1 (of_nat (push_bit 1 n) :: u8)) = take_bit 7 n"
    using mult_mod_right [of 2 n 128]
    by (simp add: unat_of_nat push_bit_eq_mult take_bit_eq_mod mult.commute del: of_nat_mult)
  have hi: "unat (of_nat (drop_bit 7 n) :: u8) = drop_bit 7 n"
    using assms by (intro unat_byte) (simp add: drop_bit_eq_div MAX_FRAME_def)
  have join: "take_bit 7 n OR push_bit 7 (drop_bit 7 n) = n"
  proof (rule bit_eqI)
    fix m show "bit (take_bit 7 n OR push_bit 7 (drop_bit 7 n)) m = bit n m" by (cases "7 \<le> m") (auto simp: bit_simps)
  qed
  have ev: "(of_nat (push_bit 1 n) :: u8) AND 1 = 0"
    by (simp add: and_one_zero unat_of_nat push_bit_eq_mult dvd_mod del: of_nat_mult)
  have "frame_length n @ rest = of_nat (push_bit 1 n) # of_nat (drop_bit 7 n) # rest"
    using assms by (simp add: frame_length_def)
  thus ?thesis using lo hi join ev unfolding rx_length_def Let_def by simp
qed

lemma seek_flag_frame: "MUX_FLAG \<notin> set noise \<Longrightarrow> b \<noteq> MUX_FLAG \<Longrightarrow> seek_flag (noise @ MUX_FLAG # b # bs) = MUX_FLAG # b # bs"
  by (induction noise) (auto simp: seek_flag_def)

lemma frame_header_length:
  "n \<le> MAX_FRAME \<Longrightarrow> rx_length (frame_header d c n @ rest) = Some (n, length (frame_header d c n))"
  using length_byte_short [of n] length_byte_long [of n] by (auto simp: frame_header_def frame_length_def not_less)

lemma rx_frame_bytes:
  assumes d: "d < 64" and len: "length data \<le> n" "n \<le> MAX_FRAME" and noise: "MUX_FLAG \<notin> set noise"
  shows "rx_frame n (noise @ frame_bytes d c data @ rest) = Frame d c data (MUX_FLAG # rest)"
proof -
  define hdr where "hdr = frame_header d c (length data)"
  define p where "p = hdr @ data @ [NOT (frame_crc hdr c data), MUX_FLAG] @ rest"
  have hdr: "hdr = frame_address d # c # drop 2 hdr"
    by (simp add: hdr_def frame_header_def)
  have "noise @ frame_bytes d c data @ rest = noise @ MUX_FLAG # p"
    by (simp add: frame_bytes_def p_def hdr_def Let_def)
  moreover have "seek_flag (noise @ MUX_FLAG # p) = MUX_FLAG # p"
    by (metis (no_types) append_Cons hdr noise address_no_flag p_def seek_flag_frame)
  moreover have "rx_length p = Some (length data, length hdr)"
    unfolding p_def hdr_def by (rule frame_header_length) (use len in simp)
  moreover have "p ! 0 = frame_address d" "p ! 1 = c"
    unfolding p_def by (subst hdr, simp)+
  moreover have "length p \<ge> 3" by (simp add: p_def hdr_def frame_header_def)
  ultimately show ?thesis
    using len address_dlci [OF d] by (simp add: rx_frame_def Let_def) (simp add: p_def nth_append)
qed


subsection \<open>Reads may be cut anywhere\<close>

lemma skip_flags_append: "2 \<le> length (skip_flags xs) \<Longrightarrow> skip_flags (xs @ ys) = skip_flags xs @ ys"
  by (induction xs rule: skip_flags.induct) auto

lemma skip_flags_again: "skip_flags (skip_flags xs @ ys) = skip_flags (xs @ ys)"
  by (induction xs rule: skip_flags.induct) (auto split: if_splits)

lemma skip_flags_hd: "xs = [] \<or> hd xs = MUX_FLAG \<Longrightarrow> skip_flags xs = [] \<or> hd (skip_flags xs) = MUX_FLAG"
  by (induction xs rule: skip_flags.induct) auto

lemma seek_flag_hd: "seek_flag xs = [] \<or> hd (seek_flag xs) = MUX_FLAG"
  unfolding seek_flag_def by (rule skip_flags_hd) (use hd_dropWhile [of "\<lambda>b. b \<noteq> MUX_FLAG" xs] in auto)

lemma skip_flags_Nil [simp]: "skip_flags xs = [] \<longleftrightarrow> xs = []"
  by (induction xs rule: skip_flags.induct) auto

lemma dropWhile_hd: "xs = [] \<or> \<not> P (hd xs) \<Longrightarrow> dropWhile P xs = xs"
  by (cases xs) auto

lemma seek_flag_no_flag: "MUX_FLAG \<notin> set xs \<Longrightarrow> seek_flag xs = [] \<and> seek_flag (xs @ ys) = seek_flag ys"
  by (auto simp: seek_flag_def dropWhile_append dropWhile_eq_Nil_conv)

lemma seek_flag_some_flag:
  "MUX_FLAG \<in> set xs \<Longrightarrow> seek_flag (xs @ ys) = skip_flags (dropWhile (\<lambda>b. b \<noteq> MUX_FLAG) xs @ ys)"
  by (auto simp: seek_flag_def dropWhile_append)

lemma seek_flag_append:
  assumes "2 \<le> length (seek_flag xs)" shows "seek_flag (xs @ ys) = seek_flag xs @ ys"
proof -
  have "MUX_FLAG \<in> set xs" using assms seek_flag_no_flag [of xs ys] by (cases "MUX_FLAG \<in> set xs") simp_all
  with assms show ?thesis by (simp only: seek_flag_some_flag) (simp add: seek_flag_def skip_flags_append)
qed

lemma seek_flag_again: "seek_flag (seek_flag xs @ ys) = seek_flag (xs @ ys)"
proof (cases "MUX_FLAG \<in> set xs")
  case False
  thus ?thesis by (simp add: seek_flag_no_flag)
next
  case True
  hence "seek_flag xs \<noteq> []" by (auto simp: seek_flag_def dropWhile_eq_Nil_conv)
  hence "dropWhile (\<lambda>b. b \<noteq> MUX_FLAG) (seek_flag xs @ ys) = seek_flag xs @ ys"
    using seek_flag_hd [of xs] by (intro dropWhile_hd) auto
  hence "seek_flag (seek_flag xs @ ys) = skip_flags (seek_flag xs @ ys)" by (simp only: seek_flag_def)
  with True show ?thesis by (simp only: seek_flag_some_flag) (simp only: seek_flag_def skip_flags_again)
qed

lemma rx_frame_again: "rx_frame n (seek_flag xs @ ys) = rx_frame n (xs @ ys)"
  by (simp add: rx_frame_def seek_flag_again)

lemma rx_length_append: "3 \<le> length p \<Longrightarrow> rx_length p = Some (l, h) \<Longrightarrow> rx_length (p @ ys) = Some (l, h)"
  by (auto simp: rx_length_def Let_def nth_append split: if_splits)

lemma rx_length_fits: "rx_length p = Some (l, h) \<Longrightarrow> h = 3 \<or> h = 4"
  by (auto simp: rx_length_def Let_def split: if_splits)


text \<open>
  A turn that decides decides the same when more bytes follow; a turn that keeps bytes goes on where it stopped.
\<close>

lemma rx_frame_Keep: "rx_frame n xs = Keep k \<Longrightarrow> k = seek_flag xs"
  by (auto simp: rx_frame_def Let_def split: if_splits option.splits prod.splits)

lemma rx_frame_complete:
  assumes "seek_flag xs = f # p" "3 \<le> length p" "rx_length p = Some (l, h)"
  shows "rx_frame n xs =
    (if n < l then Drop p else if length p < h + l + 2 then Keep (f # p)
     else if frame_crc (take h p) (p ! 1) (take l (drop h p)) XOR p ! (h + l) \<noteq> 0xFF \<or> p ! (h + l + 1) \<noteq> MUX_FLAG then Drop p
     else Frame (drop_bit 2 (p ! 0)) (p ! 1) (take l (drop h p)) (drop (h + l + 1) p))"
  using assms by (simp add: rx_frame_def Let_def)

lemma rx_frame_incomplete:
  "(\<And>f p l h. seek_flag xs = f # p \<Longrightarrow> 3 \<le> length p \<Longrightarrow> rx_length p \<noteq> Some (l, h)) \<Longrightarrow> rx_frame n xs = Keep (seek_flag xs)"
  by (cases "seek_flag xs") (auto simp: rx_frame_def Let_def not_less split: option.split)

lemma rx_frame_append:
  assumes "\<And>k. rx_frame n xs \<noteq> Keep k"
  shows "rx_frame n (xs @ ys) =
    (case rx_frame n xs of Keep k \<Rightarrow> Keep k | Drop r \<Rightarrow> Drop (r @ ys) | Frame d c x r \<Rightarrow> Frame d c x (r @ ys))"
proof -
  obtain f p l h where 1: "seek_flag xs = f # p" "3 \<le> length p" "rx_length p = Some (l, h)"
    using assms rx_frame_incomplete [of xs n] by metis
  hence "seek_flag (xs @ ys) = f # p @ ys" by (simp add: seek_flag_append)
  note 2 = rx_frame_complete [OF this _ rx_length_append [OF 1(2,3)], of n]
  have n1: "(p @ ys) ! 0 = p ! 0" "(p @ ys) ! 1 = p ! 1" using 1(2) by (auto simp: nth_append)
  have "n < l \<or> h + l + 2 \<le> length p"
    using assms rx_frame_complete [OF 1, of n] by (metis not_less)
  thus ?thesis
  proof
    assume "n < l"
    with 1 2 show ?thesis by (simp add: rx_frame_complete [OF 1])
  next
    assume *: "h + l + 2 \<le> length p"
    hence "(p @ ys) ! (h + l) = p ! (h + l)" "(p @ ys) ! (h + l + 1) = p ! (h + l + 1)" by (auto simp: nth_append)
    with * 1(2) n1 2 show ?thesis by (simp add: rx_frame_complete [OF 1])
  qed
qed

lemma rx_frames_append:
  "rx_frames n (xs @ ys) =
     (let (fs, k) = rx_frames n xs; (gs, k') = rx_frames n (k @ ys) in (fs @ gs, k'))"
proof (induction n xs rule: rx_frames.induct)
  case (1 n xs)
  show ?case
  proof (cases "rx_frame n xs")
    case (Keep k)
    have "rx_frames n (xs @ ys) = rx_frames n (k @ ys)"
      by (subst (1 2) rx_frames.simps) (simp add: rx_frame_Keep [OF Keep] rx_frame_again)
    thus ?thesis by (simp add: rx_frames.simps [of n xs] Keep split: prod.splits)
  next
    case (Drop r)
    have "rx_frames n xs = rx_frames n r" "rx_frames n (xs @ ys) = rx_frames n (r @ ys)"
      by (subst rx_frames.simps, simp add: Drop rx_frame_append)+
    with "1.IH"(1) [OF Drop] show ?thesis by simp
  next
    case (Frame d c x r)
    show ?thesis
      using "1.IH"(2) [OF Frame]
      by (simp add: rx_frames.simps [of n xs] rx_frames.simps [of n "xs @ ys"] Frame rx_frame_append Let_def split: prod.splits)
  qed
qed

text \<open>The bytes kept are at most one frame without its last byte.\<close>

lemma rx_kept_short: "length (snd (rx_frames n bs)) \<le> n + 6"
proof (induction n bs rule: rx_frames.induct)
  case (1 n bs)
  have "rx_frame n bs = Keep k \<Longrightarrow> length k \<le> n + 6" for k
    by (auto simp: rx_frame_def Let_def rx_length_def split: if_splits option.splits prod.splits)
  with 1 show ?case by (subst rx_frames.simps) (auto split: rx_scan.splits prod.splits)
qed

lemma dlci_small: "drop_bit 2 (b :: u8) < 64"
proof -
  have "unat b < 256" using unsigned_less [of b] by simp
  moreover have "unat (drop_bit 2 b) = drop_bit 2 (take_bit LENGTH(8) (unat b))" by (rule unsigned_drop_bit_eq)
  ultimately show ?thesis by (simp add: word_less_nat_alt drop_bit_eq_div [where 'a = nat] take_bit_eq_mod)
qed

lemma rx_frame_range: "rx_frame n bs = Frame d c x r \<Longrightarrow> d < 64 \<and> length x \<le> n"
  by (auto simp: rx_frame_def Let_def dlci_small split: if_splits option.splits prod.splits)

end
