(* ===== verification/Mux_State.thy ===== *)
theory Mux_State
  imports Mux_Frame
begin

text \<open>
  The state of the modem multiplexer, \<^verbatim>\<open>src/modem/mux/mindone_mux.c\<close>, the system calls it makes, and the operations on
  its channels, its queue of outgoing bytes and its clock. What the kernel answers is a script: one list per kind of call,
  read in the order of the calls. A call beyond its script finds nothing to do: reads and writes answer \<open>EAGAIN\<close>, a \<open>poll\<close>
  lasts until its timeout, a device does not open.
\<close>

subsection \<open>Constants\<close>

abbreviation CMD_CR :: u8 where "CMD_CR \<equiv> 0x02"
abbreviation CMD_PN :: u8 where "CMD_PN \<equiv> 0x81"
abbreviation CMD_PSC :: u8 where "CMD_PSC \<equiv> 0x41"
abbreviation CMD_CLD :: u8 where "CMD_CLD \<equiv> 0xC1"
abbreviation CMD_TEST :: u8 where "CMD_TEST \<equiv> 0x21"
abbreviation CMD_MSC :: u8 where "CMD_MSC \<equiv> 0xE1"
abbreviation CMD_NSC :: u8 where "CMD_NSC \<equiv> 0x11"
abbreviation MSC_FC :: u8 where "MSC_FC \<equiv> 0x02"
abbreviation MSC_SIGNALS :: u8 where "MSC_SIGNALS \<equiv> 0x8D"

definition MAX_DLCI :: nat where "MAX_DLCI = 64"
definition FRAME_OVERHEAD :: nat where "FRAME_OVERHEAD = 7"
definition PTY_CHUNK :: nat where "PTY_CHUNK = 1024"
definition PENDING_CAP :: nat where "PENDING_CAP = 4096"
definition TXQ_CAP :: nat where "TXQ_CAP = 65536"
definition CHAT_CAP :: nat where "CHAT_CAP = 4096"
definition TX_RETRY_MS :: int where "TX_RETRY_MS = 10"
definition CHAT_TIMEOUT_MS :: int where "CHAT_TIMEOUT_MS = 5000"
definition SETUP_TIMEOUT_MS :: int where "SETUP_TIMEOUT_MS = 30000"
definition REOPEN_RETRY_MS :: int where "REOPEN_RETRY_MS = 1000"
definition REOPEN_ATTEMPTS :: nat where "REOPEN_ATTEMPTS = 3"
definition RECOVERY_ESCALATION_MS :: int where "RECOVERY_ESCALATION_MS = 300000"
definition CLOSE_WAIT_MS :: int where "CLOSE_WAIT_MS = 2000"
definition EXIT_FLUSH_MS :: int where "EXIT_FLUSH_MS = 500"
definition RESTART_DELAY_MS :: int where "RESTART_DELAY_MS = 5000"
definition REPORT_WAIT_MS :: int where "REPORT_WAIT_MS = 5000"
definition EIND_WAIT_MS :: int where "EIND_WAIT_MS = 20000"
definition EIND_WAIT_USER_MS :: int where "EIND_WAIT_USER_MS = 10000"

subsection \<open>Answers of the system\<close>

datatype errno = EINTR | EAGAIN | EBUSY | ETXTBSY | ENODEV | EOTHER

text \<open>\<open>write\<close> takes a number of bytes or fails; \<open>read\<close> returns bytes, none at the end of the file, or fails.\<close>

datatype write_result = Took nat | WriteFails errno

datatype read_result = Got bytes | ReadFails errno

text \<open>Opening a pseudo terminal succeeds with a descriptor and the path of the slave, or fails at one of its steps.\<close>

datatype pty_step = PtmxOpen | Ptsname | Tcgetattr | Tcsetattr | Grantpt | ChmodSlave | SymlinkSlave

datatype pty_result = PtyOpened nat string | PtyFails pty_step

text \<open>A \<open>poll\<close> takes some milliseconds and is interrupted, fails, or reports events, one word per descriptor.\<close>

datatype poll_result = Interrupted nat | PollFails nat | Events nat "u16 list"

subsection \<open>State\<close>

datatype mux_state = ST_SETUP | ST_RUN | ST_CLOSING | ST_PEER_CLOSING

record chan =
  dlci :: u8
  atci :: bool
  cname :: string
  link :: string
  slave :: string
  fd :: int
  sabm_sent :: bool
  is_open :: bool
  disc_sent :: bool
  refused :: bool
  refused_logged :: bool
  peer_fc :: bool
  local_fc :: bool
  reopen_attempts :: nat
  reopen_deadline :: int
  pending :: bytes

text \<open>A pointer to a channel: the control channel or an element of the array.\<close>

datatype cref = Ctl | Ch nat

text \<open>
  The static variables of the program; the script of the system; and a record of what was done to the outside: the bytes
  written to the modem, the bytes written to each channel's terminal (by DLCI), the properties set, the
  links and descriptors that exist.
\<close>

record mux =
  frame_size :: nat
  baud_index :: int
  pin :: int
  link_dir :: string
  ctl :: chan
  chans :: "chan list"
  by_dlci :: "cref option list"
  serial_fd :: int
  txq :: bytes
  tx_blocked :: bool
  rxb :: bytes
  chat_buf :: bytes
  mstate :: mux_state
  pf_echo :: bool
  unresolved :: int
  setup_done :: bool
  ril_started :: bool
  setup_deadline :: int
  recovery_escalation_after :: int
  term_signal :: int
  clock :: int
  ticks :: "nat list"
  signals :: "int list"
  properties :: "(string \<times> string) list"
  uid :: nat
  setuid_ok :: bool
  malloc_ok :: bool
  serial_opens :: "int list"
  serial_writes :: "write_result list"
  serial_reads :: "read_result list"
  pty_opens :: "pty_result list"
  pty_writes :: "write_result list"
  pty_reads :: "read_result list"
  polls :: "poll_result list"
  wire :: bytes
  app_out :: "u8 \<Rightarrow> bytes"
  props_set :: "(string \<times> string) list"
  links :: "string \<Rightarrow> string option"
  fds :: "int list"

text \<open>A function that may end the process returns with a value or exits.\<close>

datatype 'a outcome = Ret 'a mux | Exited mux

primrec andthen :: "'a outcome \<Rightarrow> ('a \<Rightarrow> mux \<Rightarrow> 'b outcome) \<Rightarrow> 'b outcome" where
  "andthen (Ret a s) f = f a s"
| "andthen (Exited s) f = Exited s"

primrec chan_at :: "mux \<Rightarrow> cref \<Rightarrow> chan" where
  "chan_at s Ctl = ctl s"
| "chan_at s (Ch i) = chans s ! i"

primrec upd_chan :: "cref \<Rightarrow> (chan \<Rightarrow> chan) \<Rightarrow> mux \<Rightarrow> mux" where
  "upd_chan Ctl f s = s\<lparr>ctl := f (ctl s)\<rparr>"
| "upd_chan (Ch i) f s = s\<lparr>chans := (chans s)[i := f (chans s ! i)]\<rparr>"

subsection \<open>Clock, signals, properties\<close>

definition now_ms :: "mux \<Rightarrow> int \<times> mux" where
  "now_ms s = (case ticks s of [] \<Rightarrow> (clock s, s)
     | t # ts \<Rightarrow> (clock s + int t, s\<lparr>clock := clock s + int t, ticks := ts\<rparr>))"

text \<open>Reading \<open>term_signal\<close>: a signal may have arrived since the last look.\<close>

definition look_signal :: "mux \<Rightarrow> bool \<times> mux" where
  "look_signal s = (case signals s of [] \<Rightarrow> (term_signal s \<noteq> 0, s)
     | g # gs \<Rightarrow> let t = (if g = 0 then term_signal s else g) in (t \<noteq> 0, s\<lparr>term_signal := t, signals := gs\<rparr>))"

definition prop_get :: "mux \<Rightarrow> string \<Rightarrow> string \<Rightarrow> string" where
  "prop_get s key def = (case map_of (properties s) key of Some v \<Rightarrow> if v = [] then def else v | None \<Rightarrow> def)"

definition prop_set :: "string \<Rightarrow> string \<Rightarrow> mux \<Rightarrow> mux" where
  "prop_set key value s = s\<lparr>props_set := props_set s @ [(key, value)]\<rparr>"

text \<open>
  The time a \<open>poll\<close> with a timeout takes, and its answer; an answer comes no later than the timeout, a negative timeout waits
  for ever. Beyond the script the timeout runs out; without one, nothing happens.
\<close>

definition poll_for :: "int \<Rightarrow> mux \<Rightarrow> poll_result option \<times> mux" where
  "poll_for timeout s = (case polls s of [] \<Rightarrow> (None, s\<lparr>clock := clock s + max 0 timeout\<rparr>)
     | p # ps \<Rightarrow>
         let t = (case p of Interrupted t \<Rightarrow> t | PollFails t \<Rightarrow> t | Events t _ \<Rightarrow> t);
             d = (if timeout < 0 then int t else min (int t) timeout)
         in (Some p, s\<lparr>clock := clock s + d, polls := ps\<rparr>))"

definition user_build :: "mux \<Rightarrow> bool" where
  "user_build s \<longleftrightarrow> take 1 (prop_get s ''vendor.ril.emulation.userload'' ''0'') = ''1'' \<or>
                   prop_get s ''ro.build.type'' [] = ''user''"

definition sim_count :: "mux \<Rightarrow> nat" where
  "sim_count s =
     (let v = take 1 (prop_get s ''ro.boot.opt_sim_count'' ''0'')
      in if v \<in> {''1'', ''2'', ''3'', ''4''} then digits_val v
         else let w = prop_get s ''persist.radio.multisim.config'' ''ss''
              in if w = ''dsds'' \<or> w = ''dsda'' then 2 else if w = ''tsts'' then 3 else if w = ''qsqs'' then 4 else 1)"

subsection \<open>Channels\<close>

definition sim_dlci :: "u8 list list" where
  "sim_dlci =
    [[1, 2, 3, 4, 5, 26, 61, 60, 59, 58, 43],
     [6, 7, 8, 9, 10, 27, 57, 56, 55, 54, 42],
     [11, 12, 13, 14, 15, 28, 53, 52, 51, 50, 41],
     [16, 17, 18, 19, 20, 29, 49, 48, 47, 46, 40]]"

definition kind_name :: "string option list" where
  "kind_name = [Some ''cmd4'', Some ''noti'', Some ''cmd1'', Some ''cmd2'', Some ''cmd3'', None,
                Some ''cmd7'', Some ''cmd8'', Some ''cmd9'', Some ''cmd10'', Some ''cmd11'']"

definition new_chan :: "string \<Rightarrow> u8 \<Rightarrow> string \<Rightarrow> bool \<Rightarrow> chan" where
  "new_chan dir d name a =
     \<lparr>dlci = d, atci = a, cname = take 15 name, link = dir @ ''/'' @ name, slave = [], fd = -1, sabm_sent = False,
      is_open = False, disc_sent = False, refused = False, refused_logged = False, peer_fc = False, local_fc = False,
      reopen_attempts = 0, reopen_deadline = 0, pending = []\<rparr>"

definition chan_name :: "nat \<Rightarrow> string option \<Rightarrow> string" where
  "chan_name s k = (case k of None \<Rightarrow> ''atci'' @ dec_nat (s + 1)
     | Some n \<Rightarrow> if s \<noteq> 0 then ''ptty'' @ dec_nat (s + 1) @ n else ''ptty'' @ n)"

definition add_chan :: "u8 \<Rightarrow> string \<Rightarrow> bool \<Rightarrow> mux \<Rightarrow> mux" where
  "add_chan d name a s =
     s\<lparr>chans := chans s @ [new_chan (link_dir s) d name a],
       by_dlci := (by_dlci s)[unat d := Some (Ch (length (chans s)))]\<rparr>"

text \<open>The result False is the failure of an allocation.\<close>

definition build_channels :: "nat \<Rightarrow> mux \<Rightarrow> bool \<times> mux" where
  "build_channels sims s =
     (let s = s\<lparr>ctl := new_chan (link_dir s) 0 ''control'' False, by_dlci := (by_dlci s)[0 := Some Ctl]\<rparr>;
          s = fold (\<lambda>i. fold (\<lambda>(d, k). add_chan d (chan_name i k) (k = None)) (zip (sim_dlci ! i) kind_name)) [0..<sims] s;
          s = add_chan 45 ''pttynwcmd'' False s;
          s = add_chan 44 ''pttynwurc'' False s
      in (malloc_ok s, s))"

subsection \<open>Outgoing bytes\<close>

definition txq_room :: "mux \<Rightarrow> nat" where
  "txq_room s = TXQ_CAP - length (txq s)"

text \<open>The poll bit of a received frame is given back with the next status command that is sent.\<close>

definition echo_pf :: "mux \<Rightarrow> u8 \<Rightarrow> bytes \<Rightarrow> bool" where
  "echo_pf s ctrl data \<longleftrightarrow>
     (ctrl = CTRL_UIH \<or> ctrl = CTRL_UI) \<and> pf_echo s \<and> data \<noteq> [] \<and> hd data AND NOT CMD_CR = CMD_MSC"

definition tx_frame :: "u8 \<Rightarrow> u8 \<Rightarrow> bytes \<Rightarrow> mux \<Rightarrow> bool \<times> mux" where
  "tx_frame d ctrl data s =
     (if length data > frame_size s then (False, s)
      else let echo = echo_pf s ctrl data;
               ctrl = (if echo then ctrl OR CTRL_PF else ctrl);
               s = (if echo then s\<lparr>pf_echo := False\<rparr> else s)
           in if txq_room s < 1 + length (frame_header d ctrl (length data)) + length data + 2 then (False, s)
              else (True, s\<lparr>txq := txq s @ frame_bytes d ctrl data\<rparr>))"

fun flush_loop :: "write_result list \<Rightarrow> mux \<Rightarrow> bool \<times> mux" where
  "flush_loop ws s =
     (if txq s = [] then (True, s\<lparr>serial_writes := ws, tx_blocked := False\<rparr>)
      else case ws of
        [] \<Rightarrow> (True, s\<lparr>serial_writes := [], tx_blocked := True\<rparr>)
      | WriteFails EINTR # ws \<Rightarrow> flush_loop ws s
      | WriteFails EAGAIN # ws \<Rightarrow> (True, s\<lparr>serial_writes := ws, tx_blocked := True\<rparr>)
      | WriteFails EBUSY # ws \<Rightarrow> (True, s\<lparr>serial_writes := ws, tx_blocked := True\<rparr>)
      | WriteFails ETXTBSY # ws \<Rightarrow>
          (True, (prop_set ''vendor.ril.mux.ee.md1'' ''1'' s)\<lparr>txq := [], serial_writes := ws, tx_blocked := False\<rparr>)
      | WriteFails ENODEV # ws \<Rightarrow>
          (True, (prop_set ''vendor.ril.mux.ee.md1'' ''1'' s)\<lparr>txq := [], serial_writes := ws, tx_blocked := False\<rparr>)
      | WriteFails EOTHER # ws \<Rightarrow> (False, s\<lparr>serial_writes := ws\<rparr>)
      | Took n # ws \<Rightarrow>
          if n = 0 then (False, s\<lparr>serial_writes := ws\<rparr>)
          else flush_loop ws (s\<lparr>wire := wire s @ take n (txq s), txq := drop n (txq s)\<rparr>))"

text \<open>True stands for the result 0 of the source, False for -1.\<close>

definition tx_flush :: "mux \<Rightarrow> bool \<times> mux" where
  "tx_flush s = flush_loop (serial_writes s) s"

declare flush_loop.simps [simp del]


lemma now_ms_clock: "now_ms s = (n, s') \<Longrightarrow> clock s \<le> n \<and> clock s' = n \<and> polls s' = polls s"
  by (auto simp: now_ms_def split: list.splits)

lemma flush_loop_polls: "flush_loop ws s = (b, s') \<Longrightarrow> polls s' = polls s \<and> clock s' = clock s"
proof (induction ws arbitrary: s)
  case Nil
  thus ?case by (simp add: flush_loop.simps [of "[]"] split: if_splits) auto
next
  case (Cons w ws)
  from Cons.prems show ?case
    by (subst (asm) flush_loop.simps)
      (auto simp: prop_set_def dest!: Cons.IH split: if_splits write_result.splits errno.splits)
qed

lemma tx_flush_polls: "tx_flush s = (b, s') \<Longrightarrow> polls s' = polls s \<and> clock s' = clock s"
  unfolding tx_flush_def by (rule flush_loop_polls)

lemma poll_for_progress:
  "0 < timeout \<Longrightarrow> poll_for timeout s = (p, s') \<Longrightarrow>
     length (polls s') < length (polls s) \<or> length (polls s') = length (polls s) \<and> clock s < clock s'"
  by (auto simp: poll_for_def Let_def split: list.splits)

lemma poll_for_clock: "poll_for timeout s = (p, s') \<Longrightarrow> clock s \<le> clock s' \<and> length (polls s') \<le> length (polls s)"
  by (auto simp: poll_for_def Let_def split: list.splits)

text \<open>Waiting until the queue is empty or the deadline has passed.\<close>

function tx_drain :: "int \<Rightarrow> mux \<Rightarrow> bool \<times> mux" where
  "tx_drain deadline s =
     (if txq s = [] then (True, s)
      else case now_ms s of (n, s) \<Rightarrow>
        case tx_flush s of (ok, s) \<Rightarrow>
          if \<not> ok then (False, s)
          else if txq s = [] then (True, s)
          else if deadline - n \<le> 0 then (False, s)
          else case poll_for (min (deadline - n) TX_RETRY_MS) s of (_, s) \<Rightarrow> tx_drain deadline s)"
  by pat_completeness auto
termination
proof (relation "measures [\<lambda>(d, s). length (polls s), \<lambda>(d, s). nat (d - clock s)]", goal_cases)
  case (2 d s n s1 ok s2 p s3)
  have "clock s \<le> n" "clock s1 = n" "polls s1 = polls s" using 2(2) [symmetric, THEN now_ms_clock] by auto
  moreover have "polls s2 = polls s1" "clock s2 = clock s1" using 2(3) [symmetric, THEN tx_flush_polls] by auto
  moreover have "length (polls s3) < length (polls s2) \<or> length (polls s3) = length (polls s2) \<and> clock s2 < clock s3"
    using 2(6) by (intro poll_for_progress [OF _ 2(7) [symmetric]]) (auto simp: TX_RETRY_MS_def)
  ultimately show ?case using 2 by auto
qed simp

text \<open>\<open>wait_ms\<close> sleeps until the time has passed or a signal has arrived.\<close>

function wait_until :: "int \<Rightarrow> mux \<Rightarrow> mux" where
  "wait_until end_time s =
     (case look_signal s of (term, s) \<Rightarrow>
        if term then s
        else case now_ms s of (n, s) \<Rightarrow>
          if end_time - n \<le> 0 then s else wait_until end_time (snd (poll_for (end_time - n) s)))"
  by pat_completeness auto
termination
proof (relation "measures [\<lambda>(d, s). length (polls s), \<lambda>(d, s). nat (d - clock s)]", goal_cases)
  case (2 d s t s1 n s2)
  obtain p s3 where p: "poll_for (d - n) s2 = (p, s3)" by fastforce
  have "clock s1 = clock s" "polls s1 = polls s" using 2 by (auto simp: look_signal_def Let_def split: list.splits)
  moreover have "clock s1 \<le> n" "clock s2 = n" "polls s2 = polls s1" using 2(3) [symmetric, THEN now_ms_clock] by auto
  moreover have "length (polls s3) < length (polls s2) \<or> length (polls s3) = length (polls s2) \<and> clock s2 < clock s3"
    using 2 p by (intro poll_for_progress [of "d - n"]) auto
  ultimately show ?case using 2 p by auto
qed simp

declare tx_drain.simps [simp del] wait_until.simps [simp del]

definition wait_ms :: "int \<Rightarrow> mux \<Rightarrow> mux" where
  "wait_ms ms s = (case now_ms s of (n, s) \<Rightarrow> wait_until (n + ms) s)"

text \<open>\<open>serial_wait\<close> waits for bytes of the modem.\<close>

datatype wait_result = WaitReady | WaitTimeout | WaitFails

lemma serial_wait_progress:
  assumes "now_ms s = (n, s1)" "look_signal s1 = (t, s2)" "\<not> d - n \<le> 0" "poll_for (d - n) s2 = (p, s3)"
  shows "((d, s3), (d, s)) \<in> measures [\<lambda>(d, s). length (polls s), \<lambda>(d, s). nat (d - clock s)]"
proof -
  have "clock s \<le> n" "clock s1 = n" "polls s1 = polls s" using assms(1) [THEN now_ms_clock] by auto
  moreover have "clock s2 = clock s1" "polls s2 = polls s1" using assms by (auto simp: look_signal_def Let_def split: list.splits)
  moreover have "length (polls s3) < length (polls s2) \<or> length (polls s3) = length (polls s2) \<and> clock s2 < clock s3"
    using assms by (intro poll_for_progress [of "d - n"]) auto
  ultimately show ?thesis using assms by auto
qed

function serial_wait :: "int \<Rightarrow> mux \<Rightarrow> wait_result \<times> mux" where
  "serial_wait deadline s =
     (case now_ms s of (n, s) \<Rightarrow>
      case look_signal s of (term, s) \<Rightarrow>
        if term then (WaitFails, s)
        else if deadline - n \<le> 0 then (WaitTimeout, s)
        else case poll_for (deadline - n) s of (p, s) \<Rightarrow>
          case p of
            Some (PollFails _) \<Rightarrow> (WaitFails, s)
          | Some (Events _ (ev # _)) \<Rightarrow> if ev \<noteq> 0 then (WaitReady, s) else serial_wait deadline s
          | _ \<Rightarrow> serial_wait deadline s)"
  by pat_completeness auto
termination
  by (relation "measures [\<lambda>(d, s). length (polls s), \<lambda>(d, s). nat (d - clock s)]")
    (simp, (metis serial_wait_progress)+)

declare serial_wait.simps [simp del]


subsection \<open>Terminals\<close>

definition chan_close_pty :: "cref \<Rightarrow> mux \<Rightarrow> mux" where
  "chan_close_pty r s =
     (let c = chan_at s r;
          s = (if fd c \<ge> 0 then s\<lparr>links := (links s)(link c := None), fds := remove1 (fd c) (fds s)\<rparr> else s)
      in upd_chan r (\<lambda>c. c\<lparr>fd := -1, slave := [], pending := [], peer_fc := False, local_fc := False\<rparr>) s)"

text \<open>True is the result 0. A failure behind the first step closes the descriptor again; a failed link has removed the old one.\<close>

definition chan_open_pty :: "cref \<Rightarrow> mux \<Rightarrow> bool \<times> mux" where
  "chan_open_pty r s =
     (case pty_opens s of
        [] \<Rightarrow> (False, s)
      | PtyFails PtmxOpen # ps \<Rightarrow> (False, s\<lparr>pty_opens := ps\<rparr>)
      | PtyFails SymlinkSlave # ps \<Rightarrow>
          (False, upd_chan r (\<lambda>c. c\<lparr>slave := []\<rparr>) (s\<lparr>pty_opens := ps, links := (links s)(link (chan_at s r) := None)\<rparr>))
      | PtyFails _ # ps \<Rightarrow> (False, upd_chan r (\<lambda>c. c\<lparr>slave := []\<rparr>) (s\<lparr>pty_opens := ps\<rparr>))
      | PtyOpened n path # ps \<Rightarrow>
          (True, upd_chan r (\<lambda>c. c\<lparr>fd := int n, slave := path, pending := [], peer_fc := False, local_fc := False\<rparr>)
             (s\<lparr>pty_opens := ps, links := (links s)(link (chan_at s r) \<mapsto> path), fds := int n # fds s\<rparr>)))"

definition reset_chan :: "chan \<Rightarrow> chan" where
  "reset_chan c = c\<lparr>is_open := False, sabm_sent := False, disc_sent := False, refused := False, refused_logged := False,
                    reopen_attempts := 0, reopen_deadline := 0\<rparr>"

definition close_all_ptys :: "mux \<Rightarrow> mux" where
  "close_all_ptys s =
     (let s = fold (\<lambda>i s. upd_chan (Ch i) reset_chan (chan_close_pty (Ch i) s)) [0..<length (chans s)] s
      in s\<lparr>ctl := (ctl s)\<lparr>is_open := False, sabm_sent := False, disc_sent := False\<rparr>\<rparr>)"

definition close_serial :: "mux \<Rightarrow> mux" where
  "close_serial s =
     (let s = (if serial_fd s \<ge> 0 then s\<lparr>fds := remove1 (serial_fd s) (fds s)\<rparr> else s)
      in s\<lparr>serial_fd := -1, txq := [], rxb := [], chat_buf := [], tx_blocked := False, pf_echo := False\<rparr>)"

subsection \<open>Leaving\<close>

definition report_and_exit :: "mux \<Rightarrow> mux" where
  "report_and_exit s =
     (let s = close_serial (close_all_ptys s);
          s = prop_set ''vendor.ril.muxreport'' ''1'' (prop_set ''vendor.ril.mux.report.case'' ''1'' s);
          s = wait_ms REPORT_WAIT_MS s
      in case look_signal s of (term, s) \<Rightarrow>
           if term then s
           else prop_set ''vendor.ril.muxreport'' ''1'' (prop_set ''vendor.ril.mux.report.case'' ''2'' s))"

definition modem_exception_exit :: "mux \<Rightarrow> mux" where
  "modem_exception_exit s = close_serial (close_all_ptys (prop_set ''vendor.ril.mux.ee.md1'' ''1'' s))"

definition graceful_exit :: "mux \<Rightarrow> mux" where
  "graceful_exit s = close_serial (close_all_ptys s)"

subsection \<open>Control messages and data\<close>

definition send_msc :: "cref \<Rightarrow> bool \<Rightarrow> mux \<Rightarrow> mux" where
  "send_msc r fc s =
     snd (tx_frame 0 (CTRL_UIH OR CTRL_PF)
       [CMD_MSC OR CMD_CR, 2 * 2 + 1, frame_address (dlci (chan_at s r)), MSC_SIGNALS OR (if fc then MSC_FC else 0)] s)"

definition send_close_down :: "mux \<Rightarrow> mux" where
  "send_close_down s = snd (tx_frame 0 CTRL_UIH [CMD_CLD OR CMD_CR, 1] s)"

definition chan_reopen :: "cref \<Rightarrow> mux \<Rightarrow> unit outcome" where
  "chan_reopen r s =
     (let had_fc = local_fc (chan_at s r);
          s = chan_close_pty r s;
          s = (if had_fc then send_msc r False s else s)
      in case chan_open_pty r s of (ok, s) \<Rightarrow> if ok then Ret () s else Exited (report_and_exit s))"

definition chan_recover :: "cref \<Rightarrow> mux \<Rightarrow> mux" where
  "chan_recover r s =
     (if mstate s = ST_CLOSING \<or> mstate s = ST_PEER_CLOSING then s
      else let s = upd_chan r (\<lambda>c. c\<lparr>pending := [], peer_fc := False, local_fc := False, refused := False,
                                     sabm_sent := False, disc_sent := False\<rparr>) s
           in if reopen_deadline (chan_at s r) = 0
              then case now_ms s of (n, s) \<Rightarrow> upd_chan r (\<lambda>c. c\<lparr>reopen_deadline := n + REOPEN_RETRY_MS\<rparr>) s
              else s)"

definition app_write :: "cref \<Rightarrow> bytes \<Rightarrow> mux \<Rightarrow> mux" where
  "app_write r bs s = s\<lparr>app_out := (app_out s)(dlci (chan_at s r) := app_out s (dlci (chan_at s r)) @ bs)\<rparr>"

text \<open>Writing bytes the terminal did not take before.\<close>

fun drain_loop :: "write_result list \<Rightarrow> cref \<Rightarrow> mux \<Rightarrow> unit outcome" where
  "drain_loop ws r s =
     (let c = chan_at s r in
      if pending c = [] then
        let s = s\<lparr>pty_writes := ws\<rparr>
        in Ret () (if local_fc c then send_msc r False (upd_chan r (\<lambda>c. c\<lparr>local_fc := False\<rparr>) s) else s)
      else case ws of
        [] \<Rightarrow> Ret () (s\<lparr>pty_writes := []\<rparr>)
      | WriteFails EINTR # ws \<Rightarrow> drain_loop ws r s
      | WriteFails EAGAIN # ws \<Rightarrow> Ret () (s\<lparr>pty_writes := ws\<rparr>)
      | WriteFails _ # ws \<Rightarrow> chan_reopen r (s\<lparr>pty_writes := ws\<rparr>)
      | Took n # ws \<Rightarrow>
          if n = 0 then chan_reopen r (s\<lparr>pty_writes := ws\<rparr>)
          else drain_loop ws r (upd_chan r (\<lambda>c. c\<lparr>pending := drop n (pending c)\<rparr>) (app_write r (take n (pending c)) s)))"

definition chan_drain :: "cref \<Rightarrow> mux \<Rightarrow> unit outcome" where
  "chan_drain r s = drain_loop (pty_writes s) r s"

text \<open>
  The write loop of \<open>deliver\<close>: the bytes written, the bytes left, whether the last write failed with an error other than
  \<open>EAGAIN\<close>, and the answers left.
\<close>

fun deliver_loop :: "write_result list \<Rightarrow> bytes \<Rightarrow> bytes \<Rightarrow> bytes \<times> bytes \<times> bool \<times> write_result list" where
  "deliver_loop ws out data =
     (if data = [] then (out, [], False, ws)
      else case ws of
        [] \<Rightarrow> (out, data, False, [])
      | WriteFails EINTR # ws \<Rightarrow> deliver_loop ws out data
      | WriteFails e # ws \<Rightarrow> (out, data, e \<noteq> EAGAIN, ws)
      | Took n # ws \<Rightarrow> if n = 0 then (out, data, False, ws) else deliver_loop ws (out @ take n data) (drop n data))"

declare drain_loop.simps [simp del] deliver_loop.simps [simp del]

definition deliver :: "cref \<Rightarrow> bytes \<Rightarrow> mux \<Rightarrow> unit outcome" where
  "deliver r data s =
     (let c = chan_at s r in
      if fd c < 0 then Ret () s
      else if pending c \<noteq> [] then
        if length (pending c) + length data > PENDING_CAP then Ret () s
        else Ret () (upd_chan r (\<lambda>c. c\<lparr>pending := pending c @ data\<rparr>) s)
      else case deliver_loop (pty_writes s) [] data of (out, rest, failed, ws) \<Rightarrow>
        let s = app_write r out (s\<lparr>pty_writes := ws\<rparr>)
        in if rest = [] then Ret () s
           else if failed then chan_reopen r s
           else let s = upd_chan r (\<lambda>c. c\<lparr>pending := rest\<rparr>) s
                in if local_fc c then Ret () s
                   else Ret () (send_msc r True (upd_chan r (\<lambda>c. c\<lparr>local_fc := True\<rparr>) s)))"

end
