(* ===== verification/Mux_Session.thy ===== *)
theory Mux_Session
  imports Mux_State
begin

text \<open>
  The protocol of the modem multiplexer, \<^verbatim>\<open>src/modem/mux/mindone_mux.c\<close>: setting the channels up, answering frames of the
  modem, recovering channels it has closed.
\<close>

subsection \<open>Channel setup\<close>

definition drop_root :: "mux \<Rightarrow> mux" where
  "drop_root s = (if uid s \<noteq> 0 then s else if setuid_ok s then s\<lparr>uid := 1001\<rparr> else s)"

definition setup_complete :: "mux \<Rightarrow> mux" where
  "setup_complete s =
     (if setup_done s then s
      else let s = s\<lparr>setup_done := True, mstate := ST_RUN\<rparr>
           in if ril_started s then prop_set ''vendor.ril.mtk.restart'' ''1'' s
              else drop_root (prop_set ''vendor.ril.mtk'' ''1'' (prop_set ''vendor.ril.mux.start'' ''1'' (s\<lparr>ril_started := True\<rparr>))))"

definition resolve :: "mux \<Rightarrow> mux" where
  "resolve s =
     (if unresolved s > 0
      then let s = s\<lparr>unresolved := unresolved s - 1\<rparr> in if unresolved s = 0 \<and> \<not> setup_done s then setup_complete s else s
      else s)"

fun chan_open_loop :: "nat list \<Rightarrow> mux \<Rightarrow> bool \<times> mux" where
  "chan_open_loop [] s = (True, s)"
| "chan_open_loop (i # is) s =
     (case chan_open_pty (Ch i) s of (ok, s) \<Rightarrow>
        if \<not> ok then (False, s)
        else let s = upd_chan (Ch i) (\<lambda>c. c\<lparr>sabm_sent := True\<rparr>) s
             in chan_open_loop is (snd (tx_frame (dlci (chans s ! i)) (CTRL_SABM OR CTRL_PF) [] s)))"

definition mux_open :: "mux \<Rightarrow> bool \<times> mux" where
  "mux_open s =
     (let s = s\<lparr>setup_done := False, mstate := ST_SETUP, unresolved := int (length (chans s)) + 1\<rparr>
      in case now_ms s of (n, s) \<Rightarrow>
         let s = upd_chan Ctl (\<lambda>c. c\<lparr>sabm_sent := True\<rparr>) (s\<lparr>setup_deadline := n + SETUP_TIMEOUT_MS\<rparr>);
             s = snd (tx_frame 0 (CTRL_SABM OR CTRL_PF) [] s)
         in case chan_open_loop [0..<length (chans s)] s of (ok, s) \<Rightarrow> if ok then tx_flush s else (False, s))"

subsection \<open>Recovery\<close>

text \<open>One more attempt to open a channel, at the time \<open>now\<close>.\<close>

definition recovery_attempt :: "int \<Rightarrow> nat \<Rightarrow> mux \<Rightarrow> mux" where
  "recovery_attempt now i s =
     (let s = upd_chan (Ch i) (\<lambda>c. c\<lparr>reopen_attempts := reopen_attempts c + 1\<rparr>) s;
          (sent, s) = (if txq_room s \<ge> FRAME_OVERHEAD then tx_frame (dlci (chans s ! i)) (CTRL_SABM OR CTRL_PF) [] s else (False, s));
          s = (if sent then upd_chan (Ch i) (\<lambda>c. c\<lparr>sabm_sent := True\<rparr>) s else s)
      in upd_chan (Ch i) (\<lambda>c. c\<lparr>reopen_deadline := now + REOPEN_RETRY_MS\<rparr>) s)"

definition shorten :: "int \<Rightarrow> int \<Rightarrow> int" where
  "shorten timeout left = (if timeout < 0 \<or> left < timeout then left else timeout)"

text \<open>The loop of \<open>recovery_timeout\<close> over the channels.\<close>

fun recovery_loop :: "int \<Rightarrow> nat list \<Rightarrow> int \<Rightarrow> mux \<Rightarrow> int \<times> mux" where
  "recovery_loop now [] timeout s = (timeout, s)"
| "recovery_loop now (i # is) timeout s =
     (let c = chans s ! i in
      if reopen_deadline c = 0 then recovery_loop now is timeout s
      else if now < reopen_deadline c then recovery_loop now is (shorten timeout (reopen_deadline c - now)) s
      else if reopen_attempts c = REOPEN_ATTEMPTS then
        let s = upd_chan (Ch i) (\<lambda>c. c\<lparr>sabm_sent := False\<rparr>) s
        in if now \<ge> recovery_escalation_after s
           then (0, s\<lparr>recovery_escalation_after := now + RECOVERY_ESCALATION_MS, mstate := ST_CLOSING\<rparr>)
           else let s = upd_chan (Ch i) (\<lambda>c. c\<lparr>reopen_deadline := recovery_escalation_after s\<rparr>) s
                in recovery_loop now is (shorten timeout (reopen_deadline (chans s ! i) - now)) s
      else
        let s = recovery_attempt now i s
        in recovery_loop now is (shorten timeout (reopen_deadline (chans s ! i) - now)) s)"

definition recovery_timeout :: "int \<Rightarrow> mux \<Rightarrow> int \<times> mux" where
  "recovery_timeout timeout s = (case now_ms s of (n, s) \<Rightarrow> recovery_loop n [0..<length (chans s)] timeout s)"

subsection \<open>Frames of the modem\<close>

definition reply_echo :: "bytes \<Rightarrow> mux \<Rightarrow> mux" where
  "reply_echo data s = snd (tx_frame 0 CTRL_UIH (data[0 := data ! 0 AND NOT CMD_CR]) s)"

definition apply_msc :: "u8 \<Rightarrow> u8 \<Rightarrow> mux \<Rightarrow> mux" where
  "apply_msc d sigs s =
     (let c = (if unat d < MAX_DLCI then by_dlci s ! unat d else None); fc = (sigs AND MSC_FC \<noteq> 0)
      in case c of None \<Rightarrow> s
         | Some r \<Rightarrow> if is_open (chan_at s r) then upd_chan r (\<lambda>c. c\<lparr>peer_fc := fc\<rparr>) s else s)"

text \<open>Octets of a field that goes on while its low bit is clear.\<close>

fun ea_count :: "bytes \<Rightarrow> nat" where
  "ea_count [] = 0"
| "ea_count (b # bs) = (if b AND 1 \<noteq> 0 then 1 else Suc (ea_count bs))"

definition control_command :: "bytes \<Rightarrow> mux \<Rightarrow> mux" where
  "control_command data s =
     (let t = length (takeWhile (\<lambda>b. b AND 1 = 0) data) in
      if t \<ge> length data then s
      else let tl = t + 1; type = data ! 0; i = tl + ea_count (drop tl data); cmd = type AND NOT CMD_CR
           in if type AND CMD_CR = 0 then s
              else if cmd = CMD_TEST \<or> cmd = CMD_PSC \<or> cmd = CMD_PN then reply_echo data s
              else if cmd = CMD_CLD then (reply_echo data s)\<lparr>mstate := ST_PEER_CLOSING\<rparr>
              else if cmd = CMD_MSC then
                reply_echo data (if length data - i \<ge> 2 then apply_msc (drop_bit 2 (data ! i)) (data ! (i + 1)) s else s)
              else let tl = min tl 8
                   in snd (tx_frame 0 CTRL_UIH (CMD_NSC # of_nat (push_bit 1 tl OR 1) # take tl data) s))"

definition on_ua :: "cref \<Rightarrow> mux \<Rightarrow> mux" where
  "on_ua r s =
     (let c = chan_at s r in
      if is_open c then
        if disc_sent c then upd_chan r (\<lambda>c. c\<lparr>disc_sent := False, is_open := False\<rparr>) s else s
      else if sabm_sent c then
        let s = upd_chan r (\<lambda>c. c\<lparr>sabm_sent := False, is_open := True, reopen_deadline := 0\<rparr>) s
        in if reopen_attempts c = 0 then resolve s else s
      else upd_chan r (\<lambda>c. c\<lparr>disc_sent := False\<rparr>) s)"

definition on_dm :: "cref \<Rightarrow> mux \<Rightarrow> mux" where
  "on_dm r s =
     (let c = chan_at s r in
      if is_open c then
        let s = upd_chan r (\<lambda>c. c\<lparr>is_open := False, disc_sent := False\<rparr>) s
        in if r = Ctl then s\<lparr>mstate := ST_PEER_CLOSING\<rparr> else chan_recover r s
      else if r = Ctl then s\<lparr>mstate := ST_CLOSING\<rparr>
      else if \<not> sabm_sent c then s
      else let s = upd_chan r (\<lambda>c. c\<lparr>sabm_sent := False\<rparr>) s
           in if reopen_attempts c \<noteq> 0 then s
              else let s = upd_chan r (\<lambda>c. c\<lparr>refused := True\<rparr>) s;
                       s = (if atci c then prop_set ''vendor.lackof.atci.channel'' ''1'' s else s)
                   in resolve s)"

definition on_disc :: "u8 \<Rightarrow> cref option \<Rightarrow> mux \<Rightarrow> mux" where
  "on_disc d r s =
     (case r of
        Some r \<Rightarrow>
          if is_open (chan_at s r) then
            let s = upd_chan r (\<lambda>c. c\<lparr>is_open := False\<rparr>) s;
                s = snd (tx_frame d (CTRL_UA OR CTRL_PF) [] s)
            in if r = Ctl then s\<lparr>mstate := ST_PEER_CLOSING\<rparr> else chan_recover r s
          else snd (tx_frame d (CTRL_DM OR CTRL_PF) [] s)
      | None \<Rightarrow> snd (tx_frame d (CTRL_DM OR CTRL_PF) [] s))"

definition on_sabm :: "u8 \<Rightarrow> cref option \<Rightarrow> mux \<Rightarrow> mux" where
  "on_sabm d r s =
     (case r of None \<Rightarrow> snd (tx_frame d (CTRL_DM OR CTRL_PF) [] s)
      | Some r \<Rightarrow>
         (case (if r \<noteq> Ctl \<and> fd (chan_at s r) < 0 then chan_open_pty r s else (True, s)) of (ok, s) \<Rightarrow>
            if \<not> ok then snd (tx_frame d (CTRL_DM OR CTRL_PF) [] s)
            else let c = chan_at s r;
                     s = upd_chan r (\<lambda>c. c\<lparr>is_open := True, disc_sent := False, refused := False, refused_logged := False,
                                            reopen_deadline := 0\<rparr>) s;
                     s = (if sabm_sent c
                          then let s = upd_chan r (\<lambda>c. c\<lparr>sabm_sent := False\<rparr>) s
                               in if reopen_attempts c = 0 then resolve s else s
                          else s)
                 in snd (tx_frame d (CTRL_UA OR CTRL_PF) [] s)))"

definition closing :: "mux \<Rightarrow> bool" where
  "closing s \<longleftrightarrow> mstate s = ST_CLOSING \<or> mstate s = ST_PEER_CLOSING"

definition handle_frame :: "u8 \<Rightarrow> u8 \<Rightarrow> bytes \<Rightarrow> mux \<Rightarrow> unit outcome" where
  "handle_frame d ctrl data s =
     (let c = by_dlci s ! unat d; kind = ctrl AND NOT CTRL_PF in
      if closing s then
        (case c of Some r \<Rightarrow> if kind = CTRL_UA \<and> disc_sent (chan_at s r) then Ret () (on_ua r s) else Ret () s
         | None \<Rightarrow> Ret () s)
      else if kind = CTRL_UIH \<or> kind = CTRL_UI then
        let s = (if ctrl AND CTRL_PF \<noteq> 0 then s\<lparr>pf_echo := True\<rparr> else s)
        in if d = 0 then Ret () (control_command data s)
           else (case c of Some r \<Rightarrow> if is_open (chan_at s r) then deliver r data s else Ret () s | None \<Rightarrow> Ret () s)
      else if kind = CTRL_UA then Ret () (case c of Some r \<Rightarrow> on_ua r s | None \<Rightarrow> s)
      else if kind = CTRL_DM then Ret () (case c of Some r \<Rightarrow> on_dm r s | None \<Rightarrow> s)
      else if kind = CTRL_SABM then Ret () (on_sabm d c s)
      else if kind = CTRL_DISC then Ret () (on_disc d c s)
      else Ret () s)"

subsection \<open>Received bytes\<close>

function parse_loop :: "bytes \<Rightarrow> mux \<Rightarrow> unit outcome" where
  "parse_loop bs s =
     (case rx_frame (frame_size s) bs of
        Keep rest \<Rightarrow> Ret () (s\<lparr>rxb := rest\<rparr>)
      | Drop rest \<Rightarrow> parse_loop rest s
      | Frame d ctrl data rest \<Rightarrow>
          (case handle_frame d ctrl data s of Ret _ s \<Rightarrow> parse_loop rest s | Exited s \<Rightarrow> Exited s))"
  by pat_completeness auto
termination
  by (relation "measure (length \<circ> fst)") (auto dest: rx_frame_decreases)

text \<open>
  The loop owns the received bytes: no handler looks at the buffer, and it is put back, without the bytes used, at the end.
\<close>

definition rx_parse :: "mux \<Rightarrow> unit outcome" where
  "rx_parse s = parse_loop (rxb s) (s\<lparr>rxb := []\<rparr>)"

text \<open>The read loop: the number of bytes read, or \<open>None\<close> for the result -1.\<close>

function serial_read_loop :: "read_result list \<Rightarrow> nat \<Rightarrow> mux \<Rightarrow> nat option outcome" where
  "serial_read_loop rs tot s =
     (case rs of
        [] \<Rightarrow> Ret (Some tot) (s\<lparr>serial_reads := []\<rparr>)
      | ReadFails EAGAIN # rs \<Rightarrow> Ret (Some tot) (s\<lparr>serial_reads := rs\<rparr>)
      | ReadFails EINTR # rs \<Rightarrow> serial_read_loop rs tot s
      | ReadFails _ # rs \<Rightarrow> Ret None (s\<lparr>serial_reads := rs\<rparr>)
      | Got bs # rs \<Rightarrow>
          let room = RX_CAP - length (rxb s); got = take room bs; more = drop room bs;
              rs = (if more = [] then rs else Got more # rs)
          in if got = [] then Ret None (s\<lparr>serial_reads := rs\<rparr>)
             else case rx_parse (s\<lparr>rxb := rxb s @ got\<rparr>) of
                    Exited s \<Rightarrow> Exited s
                  | Ret _ s \<Rightarrow> serial_read_loop rs (tot + length got) (if length (rxb s) = RX_CAP then s\<lparr>rxb := []\<rparr> else s))"
  by pat_completeness auto
termination
  by (relation "measure (\<lambda>(rs, _). sum_list (map (\<lambda>r. case r of Got bs \<Rightarrow> Suc (length bs) | ReadFails _ \<Rightarrow> 1) rs))")
    (auto split: if_splits)

declare parse_loop.simps [simp del] serial_read_loop.simps [simp del]

definition serial_read :: "mux \<Rightarrow> nat option outcome" where
  "serial_read s = serial_read_loop (serial_reads s) 0 s"

end
