(* ===== verification/Mux_Daemon.thy ===== *)
theory Mux_Daemon
  imports Mux_Session
begin

text \<open>
  The process around the multiplexer, \<^verbatim>\<open>src/modem/mux/mindone_mux.c\<close>: the commands that switch the modem to multiplexed
  mode, the event loop, the close of a session and the program itself.
\<close>

subsection \<open>Commands before multiplexing\<close>

definition ascii :: "string \<Rightarrow> bytes" where
  "ascii = map of_char"

fun strstr :: "bytes \<Rightarrow> bytes \<Rightarrow> bool" where
  "strstr [] pat \<longleftrightarrow> pat = []"
| "strstr (b # bs) pat \<longleftrightarrow> take (length pat) (b # bs) = pat \<or> strstr bs pat"

definition chat_make_room :: "mux \<Rightarrow> mux" where
  "chat_make_room s =
     (if length (chat_buf s) \<ge> CHAT_CAP - 1 then s\<lparr>chat_buf := drop (CHAT_CAP div 2) (chat_buf s)\<rparr> else s)"

definition chat_read :: "mux \<Rightarrow> bool \<times> mux" where
  "chat_read s =
     (let s = chat_make_room s
      in case serial_reads s of
           [] \<Rightarrow> (True, s)
         | ReadFails e # rs \<Rightarrow> (e = EAGAIN \<or> e = EINTR, s\<lparr>serial_reads := rs\<rparr>)
         | Got bs # rs \<Rightarrow>
             let room = CHAT_CAP - 1 - length (chat_buf s); got = take room bs; more = drop room bs;
                 s = s\<lparr>serial_reads := (if more = [] then rs else Got more # rs)\<rparr>
             in if got = [] then (False, s)
                else (True, s\<lparr>chat_buf := map (\<lambda>b. if b = 0 then 0x20 else b) (chat_buf s @ got)\<rparr>))"

definition chat_clear :: "mux \<Rightarrow> mux" where
  "chat_clear s = s\<lparr>chat_buf := []\<rparr>"

lemma look_signal_frame: "look_signal s = (t, s') \<Longrightarrow> polls s' = polls s \<and> clock s' = clock s"
  by (auto simp: look_signal_def Let_def split: list.splits)

text \<open>A successful wait has used up an answer of \<open>poll\<close>.\<close>

lemma serial_wait_polls:
  "serial_wait d s = (w, s') \<Longrightarrow> length (polls s') \<le> length (polls s) \<and> (w = WaitReady \<longrightarrow> length (polls s') < length (polls s))"
proof (induction "(d, s)" arbitrary: s rule: wf_induct_rule [OF wf_measures [of "[\<lambda>(d, s). length (polls s), \<lambda>(d, s). nat (d - clock s)]"]])
  case (1 s)
  obtain n s1 t s2 p s3 where st: "now_ms s = (n, s1)" "look_signal s1 = (t, s2)" "poll_for (d - n) s2 = (p, s3)"
    by (metis surj_pair)
  have le: "length (polls s3) \<le> length (polls s)" "p \<noteq> None \<longrightarrow> length (polls s3) < length (polls s)" "polls s2 = polls s"
    using st now_ms_clock [OF st(1)] look_signal_frame [OF st(2)]
    by (auto simp: poll_for_def Let_def split: list.splits)
  have IH: "\<not> d - n \<le> 0 \<Longrightarrow> serial_wait d s3 = (w, s') \<Longrightarrow>
      length (polls s') \<le> length (polls s3) \<and> (w = WaitReady \<longrightarrow> length (polls s') < length (polls s3))"
    using "1.hyps" [OF serial_wait_progress [OF st(1,2) _ st(3)]] by simp
  show ?case
    using "1.prems" le IH
    by (subst (asm) serial_wait.simps)
      (auto simp: st split: if_splits option.splits poll_result.splits list.splits)
qed

lemma chat_read_polls: "chat_read s = (ok, s') \<Longrightarrow> polls s' = polls s"
  by (auto simp: chat_read_def chat_make_room_def Let_def split: if_splits list.splits read_result.splits)


function ready_wait :: "int \<Rightarrow> mux \<Rightarrow> mux" where
  "ready_wait deadline s =
     (if strstr (chat_buf s) (ascii ''+EIND: 128'') then chat_clear s
      else case serial_wait deadline s of (w, s) \<Rightarrow>
        if w \<noteq> WaitReady then chat_clear s
        else case chat_read s of (ok, s) \<Rightarrow> if \<not> ok then chat_clear s else ready_wait deadline s)"
  by pat_completeness auto
termination
  by (relation "measure (\<lambda>(d, s). length (polls s))") (auto dest!: sym [THEN serial_wait_polls] sym [THEN chat_read_polls])

definition wait_modem_ready :: "int \<Rightarrow> mux \<Rightarrow> mux" where
  "wait_modem_ready ms s = (case now_ms s of (n, s) \<Rightarrow> ready_wait (n + ms) s)"

text \<open>After \<open>EAGAIN\<close> the write is tried again until the deadline.\<close>

definition retry_write :: "int \<Rightarrow> mux \<Rightarrow> bool \<times> mux" where
  "retry_write deadline s =
     (case now_ms s of (n, s) \<Rightarrow> if n < deadline then (True, snd (poll_for TX_RETRY_MS s)) else (False, s))"

lemma retry_progress:
  assumes "retry_write d s = (True, s')"
  shows "length (polls s') < length (polls s) \<or> length (polls s') = length (polls s) \<and> nat (d - clock s') < nat (d - clock s)"
    and "serial_writes s' = serial_writes s"
proof -
  obtain n s1 p s2 where st: "now_ms s = (n, s1)" "poll_for TX_RETRY_MS s1 = (p, s2)" by (metis surj_pair)
  have n: "n < d" "s' = s2" using assms by (auto simp: st retry_write_def split: if_splits)
  have "clock s \<le> n" "clock s1 = n" "polls s1 = polls s" "serial_writes s1 = serial_writes s"
    using now_ms_clock [OF st(1)] st(1) by (auto simp: now_ms_def split: list.splits)
  moreover have "length (polls s2) < length (polls s1) \<or> length (polls s2) = length (polls s1) \<and> clock s1 < clock s2"
    by (rule poll_for_progress [OF _ st(2)]) (simp add: TX_RETRY_MS_def)
  moreover have "serial_writes s2 = serial_writes s1" using st(2) by (auto simp: poll_for_def Let_def split: list.splits)
  ultimately show "length (polls s') < length (polls s) \<or> length (polls s') = length (polls s) \<and> nat (d - clock s') < nat (d - clock s)"
    "serial_writes s' = serial_writes s"
    using n by auto
qed

function write_line :: "int \<Rightarrow> bytes \<Rightarrow> mux \<Rightarrow> bool outcome" where
  "write_line deadline line s =
     (if line = [] then Ret True s
      else case serial_writes s of
             [] \<Rightarrow> (case retry_write deadline s of (again, s) \<Rightarrow> if again then write_line deadline line s else Ret False s)
           | WriteFails e # ws \<Rightarrow>
               let s = s\<lparr>serial_writes := ws\<rparr>
               in if e = EINTR then write_line deadline line s
                  else if e = ETXTBSY \<or> e = ENODEV then Exited (modem_exception_exit s)
                  else if e = EAGAIN \<or> e = EBUSY
                  then (case retry_write deadline s of (again, s) \<Rightarrow> if again then write_line deadline line s else Ret False s)
                  else Ret False s
           | Took n # ws \<Rightarrow>
               let s = s\<lparr>serial_writes := ws\<rparr>
               in if n = 0 then Ret False s
                  else write_line deadline (drop n line) (s\<lparr>wire := wire s @ take n line\<rparr>))"
  by pat_completeness auto
termination
  by (relation "measures [\<lambda>(d, l, s). length (serial_writes s), \<lambda>(d, l, s). length (polls s), \<lambda>(d, l, s). nat (d - clock s)]")
    (auto dest!: sym [of "(_, _)"] dest: retry_progress)

definition chat_write :: "string \<Rightarrow> mux \<Rightarrow> bool outcome" where
  "chat_write cmd s = (case now_ms s of (n, s) \<Rightarrow> write_line (n + CHAT_TIMEOUT_MS) (take 127 (ascii cmd @ [13])) s)"

declare ready_wait.simps [simp del] write_line.simps [simp del]

text \<open>Waiting for the answer of a command, at most five seconds between two reads.\<close>

function chat_answer :: "mux \<Rightarrow> bool \<times> mux" where
  "chat_answer s =
     (case now_ms s of (n, s) \<Rightarrow>
      case serial_wait (n + CHAT_TIMEOUT_MS) s of (w, s) \<Rightarrow>
        if w \<noteq> WaitReady then (False, chat_clear s)
        else case chat_read s of (ok, s) \<Rightarrow>
          if \<not> ok then (False, s)
          else if strstr (chat_buf s) (ascii ''OK'') then (True, chat_clear s)
          else if strstr (chat_buf s) (ascii ''ERROR'') then (False, chat_clear s)
          else chat_answer s)"
  by pat_completeness auto
termination
  by (relation "measure (length \<circ> polls)")
    (auto dest!: sym [THEN serial_wait_polls] sym [THEN chat_read_polls] sym [THEN now_ms_clock])

definition chat :: "string \<Rightarrow> mux \<Rightarrow> bool outcome" where
  "chat cmd s = andthen (chat_write cmd (chat_clear s))
     (\<lambda>ok s. if ok then (case chat_answer s of (r, s) \<Rightarrow> Ret r s) else Ret False s)"

function cmux_answer :: "bool \<Rightarrow> mux \<Rightarrow> bool \<times> mux" where
  "cmux_answer ready s =
     (case now_ms s of (n, s) \<Rightarrow>
      case serial_wait (n + CHAT_TIMEOUT_MS) s of (w, s) \<Rightarrow>
        if w \<noteq> WaitReady then (False, chat_clear s)
        else case chat_read s of (ok, s) \<Rightarrow>
          if \<not> ok then (False, s)
          else if strstr (chat_buf s) (ascii ''OK'') then (True, if ready then chat_clear s else wait_ms 1000 (chat_clear s))
          else if strstr (chat_buf s) (ascii ''+CMUX: READY'') then cmux_answer True (chat_clear s)
          else if strstr (chat_buf s) (ascii ''ERROR'') then (False, chat_clear s)
          else cmux_answer ready s)"
  by pat_completeness auto
termination
  by (relation "measure (length \<circ> polls \<circ> snd)")
    (auto simp: chat_clear_def dest!: sym [THEN serial_wait_polls] sym [THEN chat_read_polls] sym [THEN now_ms_clock])

declare chat_answer.simps [simp del] cmux_answer.simps [simp del]

definition chat_cmux :: "string \<Rightarrow> mux \<Rightarrow> bool outcome" where
  "chat_cmux cmd s = andthen (chat_write cmd (chat_clear s))
     (\<lambda>ok s. if ok then (case cmux_answer False s of (r, s) \<Rightarrow> Ret r s) else Ret False s)"

definition open_serial :: "mux \<Rightarrow> bool \<times> mux" where
  "open_serial s = (case serial_opens s of
       [] \<Rightarrow> (False, s\<lparr>serial_fd := -1\<rparr>)
     | n # ns \<Rightarrow> if n < 0 then (False, s\<lparr>serial_fd := n, serial_opens := ns\<rparr>)
                else (True, s\<lparr>serial_fd := n, serial_opens := ns, fds := n # fds s\<rparr>))"

definition pin_digits :: "int \<Rightarrow> string" where
  "pin_digits n = (let d = dec_int n in replicate (4 - length d) CHR ''0'' @ d)"

definition modem_handshake :: "mux \<Rightarrow> bool outcome" where
  "modem_handshake s =
     (let s = wait_modem_ready (if user_build s then EIND_WAIT_USER_MS else EIND_WAIT_MS) s in
      andthen (chat ''AT'' s) (\<lambda>ok s.
      andthen (if ok then Ret True s else chat ''AT'' s) (\<lambda>ok s.
      if \<not> ok then Ret False s else
      andthen (chat ''ATZ'' s) (\<lambda>ok s.
      if \<not> ok then Ret False s else
      andthen (chat ''ATE0'' s) (\<lambda>ok s.
      if \<not> ok then Ret False s else
      andthen (if pin s \<ge> 0 then chat (''AT+CPIN='' @ pin_digits (pin s)) s else Ret True s) (\<lambda>ok s.
      if \<not> ok then Ret False s
      else chat_cmux (''AT+CMUX=0,0,'' @ dec_int (baud_index s) @ '','' @ dec_int (int (frame_size s))) s))))))"


subsection \<open>Data of the applications\<close>

function tx_chunks :: "u8 \<Rightarrow> bytes \<Rightarrow> mux \<Rightarrow> mux" where
  "tx_chunks d data s =
     (if data = [] \<or> frame_size s = 0 then s
      else tx_chunks d (drop (frame_size s) data) (snd (tx_frame d CTRL_UIH (take (frame_size s) data) s)))"
  by pat_completeness auto
termination
  by (relation "measure (\<lambda>(d, data, s). length data)") auto

declare tx_chunks.simps [simp del]

definition chan_read :: "cref \<Rightarrow> mux \<Rightarrow> unit outcome" where
  "chan_read r s =
     (case pty_reads s of
        [] \<Rightarrow> Ret () s
      | ReadFails e # rs \<Rightarrow>
          let s = s\<lparr>pty_reads := rs\<rparr> in if e = EAGAIN \<or> e = EINTR then Ret () s else chan_reopen r s
      | Got bs # rs \<Rightarrow>
          let got = take PTY_CHUNK bs; more = drop PTY_CHUNK bs;
              s = s\<lparr>pty_reads := (if more = [] then rs else Got more # rs)\<rparr>
          in if got = [] then chan_reopen r s
             else if refused (chan_at s r) then Ret () (upd_chan r (\<lambda>c. c\<lparr>refused_logged := True\<rparr>) s)
             else Ret () (tx_chunks (dlci (chan_at s r)) got s))"

definition can_take_pty_data :: "mux \<Rightarrow> bool" where
  "can_take_pty_data s \<longleftrightarrow> txq_room s \<ge> PTY_CHUNK + (PTY_CHUNK div frame_size s + 1) * FRAME_OVERHEAD"

subsection \<open>The event loop\<close>

abbreviation POLLIN :: u16 where "POLLIN \<equiv> 0x01"
abbreviation POLLOUT :: u16 where "POLLOUT \<equiv> 0x04"
abbreviation POLLERR :: u16 where "POLLERR \<equiv> 0x08"
abbreviation POLLHUP :: u16 where "POLLHUP \<equiv> 0x10"
abbreviation POLLNVAL :: u16 where "POLLNVAL \<equiv> 0x20"

text \<open>A channel the loop leaves alone: it is being recovered.\<close>

definition in_recovery :: "chan \<Rightarrow> bool" where
  "in_recovery c \<longleftrightarrow> \<not> is_open c \<and> \<not> refused c \<and> reopen_attempts c \<noteq> 0 \<or> reopen_deadline c \<noteq> 0"

definition takes_data :: "mux \<Rightarrow> chan \<Rightarrow> bool" where
  "takes_data s c \<longleftrightarrow> setup_done s \<and> (is_open c \<or> refused c) \<and> \<not> peer_fc c \<and> can_take_pty_data s"

text \<open>The channels polled, each with its descriptor and the events asked for.\<close>

definition poll_set :: "mux \<Rightarrow> (nat \<times> int \<times> u16) list" where
  "poll_set s =
     map (\<lambda>i. let c = chans s ! i
              in (i, fd c, (if takes_data s c then POLLIN else 0) OR (if pending c \<noteq> [] then POLLOUT else 0)))
       (filter (\<lambda>i. \<not> (fd (chans s ! i) < 0 \<or> in_recovery (chans s ! i))) [0..<length (chans s)])"

text \<open>What \<open>poll\<close> reports of an answer: the events asked for, errors, hang-ups and bad descriptors.\<close>

definition reported :: "u16 list \<Rightarrow> nat \<Rightarrow> u16 \<Rightarrow> u16" where
  "reported evs k wanted = (if k < length evs then evs ! k AND (wanted OR POLLERR OR POLLHUP OR POLLNVAL) else 0)"

definition chan_event :: "nat \<Rightarrow> int \<Rightarrow> u16 \<Rightarrow> mux \<Rightarrow> unit outcome" where
  "chan_event i f ev s =
     (let c = chans s ! i in
      if fd c \<noteq> f \<or> ev = 0 \<or> in_recovery c then Ret () s
      else andthen (if ev AND POLLOUT \<noteq> 0 then chan_drain (Ch i) s else Ret () s) (\<lambda>_ s.
        let c = chans s ! i in
        if fd c \<noteq> f then Ret () s
        else if ev AND POLLIN \<noteq> 0 then (if takes_data s c then chan_read (Ch i) s else Ret () s)
        else if ev AND (POLLHUP OR POLLERR OR POLLNVAL) \<noteq> 0 then chan_reopen (Ch i) s
        else Ret () s))"

fun chan_events :: "(nat \<times> int \<times> u16) list \<Rightarrow> mux \<Rightarrow> unit outcome" where
  "chan_events [] s = Ret () s"
| "chan_events ((i, f, ev) # es) s = andthen (chan_event i f ev s) (\<lambda>_. chan_events es)"

definition serial_event :: "u16 \<Rightarrow> mux \<Rightarrow> unit outcome" where
  "serial_event ev s =
     (if ev AND POLLNVAL \<noteq> 0 then Exited (report_and_exit s)
      else if ev AND (POLLIN OR POLLERR OR POLLHUP) \<noteq> 0 then
        andthen (serial_read s) (\<lambda>got s.
          case got of None \<Rightarrow> Exited (report_and_exit s)
          | Some n \<Rightarrow> if n = 0 \<and> ev AND POLLIN = 0 then Exited (report_and_exit s) else Ret () s)
      else Ret () s)"

definition flush_turn :: "mux \<Rightarrow> bool outcome" where
  "flush_turn s =
     (if txq s = [] then Ret True s
      else case tx_flush s of (ok, s) \<Rightarrow> if ok then Ret True s else Exited (report_and_exit s))"

text \<open>The timeout of \<open>poll\<close>; \<open>None\<close> when the channels were not set up in time.\<close>

definition turn_timeout :: "int \<Rightarrow> mux \<Rightarrow> int option \<times> mux" where
  "turn_timeout timeout s =
     (let timeout = (if txq s \<noteq> [] \<and> (timeout < 0 \<or> TX_RETRY_MS < timeout) then TX_RETRY_MS else timeout)
      in if setup_done s then (Some timeout, s)
         else case now_ms s of (n, s) \<Rightarrow>
           let left = setup_deadline s - n
           in (if left \<le> 0 then None else Some (if timeout < 0 \<or> left < timeout then left else timeout), s))"

text \<open>The rest of a turn after \<open>poll\<close> was asked for the events \<open>serial\<close> and \<open>watched\<close>.\<close>

definition turn_events :: "u16 \<Rightarrow> (nat \<times> int \<times> u16) list \<Rightarrow> u16 list \<Rightarrow> mux \<Rightarrow> bool outcome" where
  "turn_events serial watched evs s =
     (let sev = reported evs 0 serial;
          cev = map (\<lambda>(k, (i, f, w)). (i, f, reported evs (Suc k) w)) (zip [0..<length watched] watched)
      in andthen (serial_event sev s) (\<lambda>_ s.
           if closing s then Ret False s else andthen (chan_events cev s) (\<lambda>_. flush_turn)))"

text \<open>One turn: True when the loop goes on, False when \<open>run\<close> returns.\<close>

definition mux_turn :: "mux \<Rightarrow> bool outcome" where
  "mux_turn s =
     (case look_signal s of (term, s) \<Rightarrow>
        if term then Exited (graceful_exit s)
        else if closing s then Ret False s
        else case recovery_timeout (-1) s of (timeout, s) \<Rightarrow>
          if mstate s = ST_CLOSING then Ret False s
          else let serial = POLLIN OR (if txq s \<noteq> [] \<and> \<not> tx_blocked s then POLLOUT else 0); watched = poll_set s
               in case turn_timeout timeout s of
                    (None, s) \<Rightarrow> Exited (report_and_exit s)
                  | (Some timeout, s) \<Rightarrow>
                      (case poll_for timeout s of (p, s) \<Rightarrow>
                         case p of
                           Some (PollFails _) \<Rightarrow> Exited (report_and_exit s)
                         | Some (Events _ evs) \<Rightarrow> turn_events serial watched evs s
                         | _ \<Rightarrow> if closing s then Ret False s else flush_turn s))"

text \<open>The loop for a number of turns: True when it is still running after them.\<close>

fun run :: "nat \<Rightarrow> mux \<Rightarrow> bool outcome" where
  "run 0 s = Ret True s"
| "run (Suc n) s = andthen (mux_turn s) (\<lambda>more s. if more then run n s else Ret False s)"

subsection \<open>Closing a session\<close>

definition disc_chan :: "nat \<Rightarrow> mux \<Rightarrow> mux" where
  "disc_chan i s =
     (if is_open (chans s ! i)
      then snd (tx_frame (dlci (chans s ! i)) (CTRL_DISC OR CTRL_PF) [] (upd_chan (Ch i) (\<lambda>c. c\<lparr>disc_sent := True\<rparr>) s))
      else s)"

text \<open>Waiting for the answers; \<open>fuel\<close> bounds the turns of the loop, one more than the answers of \<open>poll\<close> are enough.\<close>

fun await_closed :: "nat \<Rightarrow> int \<Rightarrow> mux \<Rightarrow> unit outcome" where
  "await_closed 0 deadline s = Ret () s"
| "await_closed (Suc n) deadline s =
     (case look_signal s of (term, s) \<Rightarrow>
        if term \<or> \<not> list_ex disc_sent (chans s) then Ret () s
        else case serial_wait deadline s of (w, s) \<Rightarrow>
          if w \<noteq> WaitReady then Ret () s
          else andthen (serial_read s) (\<lambda>got s. if got = None then Ret () s else await_closed n deadline s))"

definition close_mux :: "mux \<Rightarrow> unit outcome" where
  "close_mux s =
     (case now_ms s of (n, s) \<Rightarrow>
      let waiting = list_ex is_open (chans s);
          s = fold disc_chan [0..<length (chans s)] s;
          s = snd (tx_drain (n + CLOSE_WAIT_MS) s)
      in andthen (if waiting then await_closed (Suc (length (polls s))) (n + CLOSE_WAIT_MS) s else Ret () s) (\<lambda>_ s.
           case now_ms (send_close_down s) of (n, s) \<Rightarrow> Ret () (snd (tx_drain (n + EXIT_FLUSH_MS) s))))"


subsection \<open>The program\<close>

record options =
  opt_frame :: int
  opt_baud :: int
  opt_pin :: int
  opt_dir :: string

text \<open>The options as \<open>getopt\<close> finds them, with the exit status of a bad one.\<close>

fun main_options :: "(char \<times> string) list \<Rightarrow> options \<Rightarrow> nat + options" where
  "main_options [] cfg = (if opt_frame cfg < 1 \<or> opt_frame cfg > int MAX_FRAME then Inl 2 else Inr cfg)"
| "main_options ((opt, arg) # os) cfg =
     (if opt \<in> {CHR ''s'', CHR ''n'', CHR ''d'', CHR ''o'', CHR ''v''} then main_options os cfg
      else if opt = CHR ''f'' then main_options os (cfg\<lparr>opt_frame := atoi arg\<rparr>)
      else if opt = CHR ''m'' then if arg = ''basic'' then main_options os cfg else Inl 2
      else if opt = CHR ''b'' then main_options os (cfg\<lparr>opt_baud := atoi arg\<rparr>)
      else if opt = CHR ''P'' then main_options os (cfg\<lparr>opt_pin := atoi arg\<rparr>)
      else if opt = CHR ''r'' then main_options os (cfg\<lparr>opt_dir := arg\<rparr>)
      else Inl 2)"

definition default_options :: options where
  "default_options = \<lparr>opt_frame = 512, opt_baud = 5, opt_pin = -1, opt_dir = ''/dev/radio''\<rparr>"

text \<open>
  The state of the program when it starts, over the parts of the system that answer it: the static variables are zero.
\<close>

definition fresh_chan :: chan where
  "fresh_chan = new_chan [] 0 [] False"

definition boot :: "options \<Rightarrow> mux \<Rightarrow> mux" where
  "boot cfg system =
     system\<lparr>frame_size := nat (opt_frame cfg), baud_index := opt_baud cfg, pin := opt_pin cfg, link_dir := opt_dir cfg,
       ctl := fresh_chan, chans := [], by_dlci := replicate MAX_DLCI None, serial_fd := -1, txq := [], tx_blocked := False,
       rxb := [], chat_buf := [], mstate := ST_SETUP, pf_echo := False, unresolved := 0, setup_done := False,
       ril_started := False, setup_deadline := 0, recovery_escalation_after := 0, term_signal := 0,
       wire := [], app_out := (\<lambda>_. []), props_set := [], links := (\<lambda>_. None), fds := []\<rparr>"

text \<open>\<open>main\<close> up to its loop: the exit status, or the state in which the loop starts.\<close>

definition main_start :: "(char \<times> string) list \<Rightarrow> mux \<Rightarrow> nat + mux" where
  "main_start argv system =
     (case main_options argv default_options of
        Inl code \<Rightarrow> Inl code
      | Inr cfg \<Rightarrow>
          let s = boot cfg system
          in if take 1 (prop_get s ''ro.vendor.mtk_mipc_support'' ''0'') = ''1'' then Inl 0
             else let s = prop_set ''vendor.ril.mux.ee.md1'' ''0'' (prop_set ''vendor.ril.muxreport.run'' ''0'' s)
                  in case build_channels (sim_count s) s of (ok, s) \<Rightarrow> if ok then Inr s else Inl 1)"

text \<open>The end of a session, and a session: True when it is still running after the given turns of \<open>run\<close>.\<close>

definition session_close :: "mux \<Rightarrow> bool outcome" where
  "session_close s =
     andthen (if mstate s = ST_CLOSING then close_mux s
              else case now_ms s of (n, s) \<Rightarrow> Ret () (snd (tx_drain (n + EXIT_FLUSH_MS) s))) (\<lambda>_ s.
       let s = wait_ms RESTART_DELAY_MS (close_serial (close_all_ptys s))
       in case look_signal s of (term, s) \<Rightarrow> if term then Exited (graceful_exit s) else Ret False s)"

definition session :: "nat \<Rightarrow> mux \<Rightarrow> bool outcome" where
  "session turns s =
     (case open_serial s of (ok, s) \<Rightarrow>
        if \<not> ok then Exited (report_and_exit s)
        else andthen (modem_handshake s) (\<lambda>ok s.
          if \<not> ok then (case look_signal s of (term, s) \<Rightarrow> Exited (if term then graceful_exit s else report_and_exit s))
          else case mux_open s of (ok, s) \<Rightarrow>
            if \<not> ok then Exited (report_and_exit s)
            else andthen (run turns s) (\<lambda>running s. if running then Ret True s else session_close s)))"

text \<open>The loop of \<open>main\<close>, with the turns each session gets.\<close>

fun main_loop :: "nat list \<Rightarrow> mux \<Rightarrow> bool outcome" where
  "main_loop [] s = Ret False s"
| "main_loop (n # ns) s = andthen (session n s) (\<lambda>running s. if running then Ret True s else main_loop ns s)"

end
