(* ===== verification/Mux_Invariant.thy ===== *)
theory Mux_Invariant
  imports Mux_Daemon "HOL-Library.Multiset"
begin

text \<open>
  Invariants of the modem multiplexer. The locale \<open>mux_invariant\<close> carries any property that the handlers keep through
  the whole program, from the scanner of received bytes to the loop of \<open>main\<close>; it is interpreted for the bounds and flags of
  the channels, for the descriptors and links, and for the start of the radio interface.
\<close>

subsection \<open>Steps that leave the protocol alone\<close>

text \<open>
  Reading the clock, waiting, logging, queueing and writing bytes change no channel, no descriptor and nothing of the
  session, and keep the queue within its bounds. \<open>radio_props\<close> are the properties that start the radio interface.
\<close>

definition radio_prop :: "string \<times> string \<Rightarrow> bool" where
  "radio_prop p \<longleftrightarrow> fst p \<in> {''vendor.ril.mtk'', ''vendor.ril.mux.start'', ''vendor.ril.mtk.restart''}"

definition radio_props :: "mux \<Rightarrow> (string \<times> string) list" where
  "radio_props s = filter radio_prop (props_set s)"

definition calm :: "mux \<Rightarrow> mux \<Rightarrow> bool" where
  "calm s s' \<longleftrightarrow>
     frame_size s' = frame_size s \<and> ctl s' = ctl s \<and> chans s' = chans s \<and> by_dlci s' = by_dlci s \<and>
     serial_fd s' = serial_fd s \<and> mstate s' = mstate s \<and> unresolved s' = unresolved s \<and> setup_done s' = setup_done s \<and>
     ril_started s' = ril_started s \<and> links s' = links s \<and> fds s' = fds s \<and> radio_props s' = radio_props s \<and>
     (length (txq s) \<le> TXQ_CAP \<longrightarrow> length (txq s') \<le> TXQ_CAP)"

lemma calm_refl [simp]: "calm s s"
  by (simp add: calm_def)

lemma calm_trans [trans]: "calm s t \<Longrightarrow> calm t u \<Longrightarrow> calm s u"
  by (simp add: calm_def)

lemma calm_fields:
  assumes "calm s s'"
  shows "frame_size s' = frame_size s" "ctl s' = ctl s" "chans s' = chans s" "by_dlci s' = by_dlci s"
    "mstate s' = mstate s" "chan_at s' r = chan_at s r" "closing s' = closing s" "setup_done s' = setup_done s"
    "serial_fd s' = serial_fd s"
  using assms by (cases r; simp add: calm_def closing_def)+

lemma calm_updates [simp]:
  "calm s (s\<lparr>rxb := a\<rparr>)" "calm s (s\<lparr>serial_reads := b\<rparr>)" "calm s (s\<lparr>pty_writes := c\<rparr>)" "calm s (s\<lparr>pf_echo := d\<rparr>)"
  "calm s (s\<lparr>chat_buf := a\<rparr>)" "calm s (s\<lparr>pty_reads := b\<rparr>)" "calm s (s\<lparr>serial_writes := c\<rparr>)"
  "calm s (s\<lparr>app_out := e\<rparr>)" "calm s (s\<lparr>setup_deadline := f\<rparr>)"
  by (simp_all add: calm_def radio_props_def)

lemma calm_prop_set: "\<not> radio_prop (k, v) \<Longrightarrow> calm s (prop_set k v s)"
  by (simp add: calm_def radio_props_def prop_set_def)

lemma calm_now_ms: "now_ms s = (n, s') \<Longrightarrow> calm s s'"
  by (auto simp: now_ms_def calm_def radio_props_def split: list.splits)

lemma calm_look_signal: "look_signal s = (n, s') \<Longrightarrow> calm s s'"
  by (auto simp: look_signal_def calm_def radio_props_def Let_def split: list.splits)

lemma calm_poll_for: "poll_for t s = (p, s') \<Longrightarrow> calm s s'"
  by (auto simp: poll_for_def calm_def radio_props_def Let_def split: list.splits)

lemma calm_tx_frame: "calm s (snd (tx_frame d c data s))"
  by (auto simp: tx_frame_def calm_def radio_props_def txq_room_def frame_bytes_def Let_def)

lemma calm_flush_loop: "flush_loop ws s = (b, s') \<Longrightarrow> calm s s'"
proof (induction ws arbitrary: s)
  case Nil
  thus ?case by (subst (asm) flush_loop.simps) (auto simp: calm_def radio_props_def split: if_splits)
next
  case (Cons w ws)
  have took: "calm s (s\<lparr>wire := wire s @ take n (txq s), txq := drop n (txq s)\<rparr>)" for n
    by (auto simp: calm_def radio_props_def)
  from Cons.prems show ?case
    by (subst (asm) flush_loop.simps)
      (auto simp: calm_def radio_props_def radio_prop_def prop_set_def intro: calm_trans [OF took] dest!: Cons.IH
        split: if_splits write_result.splits errno.splits)
qed

lemma calm_tx_flush: "tx_flush s = (b, s') \<Longrightarrow> calm s s'"
  unfolding tx_flush_def by (rule calm_flush_loop)

lemma calm_tx_drain: "tx_drain d s = (b, s') \<Longrightarrow> calm s s'"
proof (induction d s rule: tx_drain.induct)
  case (1 d s)
  obtain n s1 ok s2 p s3 where st: "now_ms s = (n, s1)" "tx_flush s1 = (ok, s2)" "poll_for (min (d - n) TX_RETRY_MS) s2 = (p, s3)"
    by (metis surj_pair)
  have c: "calm s s1" "calm s s2" "calm s s3"
    using calm_now_ms [OF st(1)] calm_tx_flush [OF st(2)] calm_poll_for [OF st(3)] by (blast intro: calm_trans)+
  from "1.prems" "1.IH" [OF _ st(1) [symmetric] st(2) [symmetric] _ _ _ st(3) [symmetric]] c show ?case
    by (subst (asm) tx_drain.simps) (auto simp: st split: if_splits intro: calm_trans)
qed

lemma calm_wait_until: "calm s (wait_until d s)"
proof (induction d s rule: wait_until.induct)
  case (1 d s)
  obtain t s1 n s2 p s3 where st: "look_signal s = (t, s1)" "now_ms s1 = (n, s2)" "poll_for (d - n) s2 = (p, s3)"
    by (metis surj_pair)
  have c: "calm s s1" "calm s s2" "calm s s3"
    using calm_look_signal [OF st(1)] calm_now_ms [OF st(2)] calm_poll_for [OF st(3)] by (blast intro: calm_trans)+
  from "1.IH" [OF st(1) [symmetric] _ st(2) [symmetric]] c show ?case
    by (subst wait_until.simps) (auto simp: st intro: calm_trans)
qed

lemma calm_wait_ms: "calm s (wait_ms ms s)"
  by (auto simp: wait_ms_def split: prod.split intro: calm_trans calm_wait_until dest!: calm_now_ms)


lemma calm_serial_wait: "serial_wait d s = (w, s') \<Longrightarrow> calm s s'"
proof (induction "(d, s)" arbitrary: s rule: wf_induct_rule [OF wf_measures [of "[\<lambda>(d, s). length (polls s), \<lambda>(d, s). nat (d - clock s)]"]])
  case (1 s)
  obtain n s1 t s2 p s3 where st: "now_ms s = (n, s1)" "look_signal s1 = (t, s2)" "poll_for (d - n) s2 = (p, s3)"
    by (metis surj_pair)
  have c: "calm s s2" "calm s s3"
    using calm_now_ms [OF st(1)] calm_look_signal [OF st(2)] calm_poll_for [OF st(3)] by (blast intro: calm_trans)+
  have IH: "\<not> d - n \<le> 0 \<Longrightarrow> serial_wait d s3 = (w, s') \<Longrightarrow> calm s s'"
    using "1.hyps" [OF serial_wait_progress [OF st(1,2) _ st(3)]] c calm_trans by blast
  show ?case
    using "1.prems" IH c
    by (subst (asm) serial_wait.simps) (auto simp: st split: if_splits option.splits poll_result.splits list.splits)
qed

lemma calm_chat_read:
  assumes "chat_read s = (ok, s')" shows "calm s s'"
proof -
  define t where "t = chat_make_room s"
  have c: "calm s t" by (simp add: t_def chat_make_room_def)
  have "calm t (t\<lparr>serial_reads := a\<rparr>)" "calm t (t\<lparr>serial_reads := a, chat_buf := b\<rparr>)" for a b
    by (simp_all add: calm_def radio_props_def)
  with assms have "calm t s'"
    by (auto simp: chat_read_def t_def [symmetric] Let_def split: list.splits read_result.splits if_splits)
  with c show ?thesis by (rule calm_trans)
qed

lemma calm_chat_clear [simp]: "calm s (chat_clear s)"
  by (simp add: chat_clear_def)

lemma calm_ready_wait: "calm s (ready_wait d s)"
proof (induction d s rule: ready_wait.induct)
  case (1 d s)
  obtain w s1 ok s2 where st: "serial_wait d s = (w, s1)" "chat_read s1 = (ok, s2)" by (metis surj_pair)
  have c: "calm s s1" "calm s s2" using calm_serial_wait [OF st(1)] calm_chat_read [OF st(2)] by (blast intro: calm_trans)+
  from "1.IH" [OF _ st(1) [symmetric] _ st(2) [symmetric]] c show ?case
    by (subst ready_wait.simps) (auto simp: st intro: calm_trans)
qed

lemma calm_chat_answer: "chat_answer s = (b, s') \<Longrightarrow> calm s s'"
proof (induction s rule: chat_answer.induct)
  case (1 s)
  obtain n s0 w s1 ok s2 where st: "now_ms s = (n, s0)" "serial_wait (n + CHAT_TIMEOUT_MS) s0 = (w, s1)" "chat_read s1 = (ok, s2)"
    by (metis surj_pair)
  have c: "calm s s1" "calm s s2"
    using calm_now_ms [OF st(1)] calm_serial_wait [OF st(2)] calm_chat_read [OF st(3)] by (blast intro: calm_trans)+
  from "1.prems" "1.IH" [OF st(1) [symmetric] st(2) [symmetric] _ st(3) [symmetric]] c show ?case
    by (subst (asm) chat_answer.simps)
      (auto simp: st split: if_splits intro: calm_trans [OF c(1)] calm_trans [OF c(2)] dest: calm_trans [OF c(2)])
qed

lemma calm_cmux_answer: "cmux_answer r s = (b, s') \<Longrightarrow> calm s s'"
proof (induction r s rule: cmux_answer.induct)
  case (1 r s)
  obtain n s0 w s1 ok s2 where st: "now_ms s = (n, s0)" "serial_wait (n + CHAT_TIMEOUT_MS) s0 = (w, s1)" "chat_read s1 = (ok, s2)"
    by (metis surj_pair)
  have c: "calm s s1" "calm s s2" "calm s (chat_clear s2)"
    using calm_now_ms [OF st(1)] calm_serial_wait [OF st(2)] calm_chat_read [OF st(3)]
    by (blast intro: calm_trans calm_chat_clear)+
  from "1.prems" "1.IH" [OF st(1) [symmetric] st(2) [symmetric] _ st(3) [symmetric]] c show ?case
    by (subst (asm) cmux_answer.simps) (auto simp: st split: if_splits dest: calm_trans [OF c(2)] calm_trans [OF c(3)] intro: calm_trans [OF c(3) calm_wait_ms] calm_trans [OF c(1)] calm_trans [OF c(2)])
qed

text \<open>
  An outcome holds of two predicates when it returns in the first or exits in the second. A calm outcome returns in a calm
  state or leaves after an exception of the modem.
\<close>

primrec holds :: "(mux \<Rightarrow> bool) \<Rightarrow> (mux \<Rightarrow> bool) \<Rightarrow> 'a outcome \<Rightarrow> bool" where
  "holds I E (Ret a s) \<longleftrightarrow> I s"
| "holds I E (Exited s) \<longleftrightarrow> E s"

primrec yields :: "('a \<Rightarrow> mux \<Rightarrow> bool) \<Rightarrow> (mux \<Rightarrow> bool) \<Rightarrow> 'a outcome \<Rightarrow> bool" where
  "yields P E (Ret a s) \<longleftrightarrow> P a s"
| "yields P E (Exited s) \<longleftrightarrow> E s"

lemma holds_yields: "holds I E p \<longleftrightarrow> yields (\<lambda>_. I) E p"
  by (cases p) auto

lemma yields_andthen:
  "yields P E p \<Longrightarrow> (\<And>a s. P a s \<Longrightarrow> yields Q E (f a s)) \<Longrightarrow> yields Q E (andthen p f)"
  by (cases p) auto

lemma holds_andthen:
  "holds J E p \<Longrightarrow> (\<And>a s. p = Ret a s \<Longrightarrow> J s \<Longrightarrow> holds I E (f a s)) \<Longrightarrow> holds I E (andthen p f)"
  by (cases p) auto

lemma holds_mono: "holds I E p \<Longrightarrow> (\<And>s. I s \<Longrightarrow> I' s) \<Longrightarrow> (\<And>s. E s \<Longrightarrow> E' s) \<Longrightarrow> holds I' E' p"
  by (cases p) auto

lemma holds_conj: "holds J (\<lambda>_. True) p \<Longrightarrow> holds I E p \<Longrightarrow> holds (\<lambda>s. J s \<and> I s) E p"
  by (cases p) auto

definition leaves :: "mux \<Rightarrow> mux \<Rightarrow> bool" where
  "leaves s s' \<longleftrightarrow> (\<exists>t. calm s t \<and> s' = modem_exception_exit t)"

lemma calm_holds_trans: "calm s t \<Longrightarrow> holds (calm t) (leaves t) p \<Longrightarrow> holds (calm s) (leaves s) p"
  by (erule holds_mono) (auto simp: leaves_def intro: calm_trans)

lemma calm_holds_andthen:
  "holds (calm s) (leaves s) p \<Longrightarrow> (\<And>a t. holds (calm t) (leaves t) (f a t)) \<Longrightarrow> holds (calm s) (leaves s) (andthen p f)"
  by (cases p) (auto intro: calm_holds_trans)

lemma calm_retry_write: "retry_write d s = (b, s') \<Longrightarrow> calm s s'"
proof -
  assume *: "retry_write d s = (b, s')"
  obtain n s1 p s2 where st: "now_ms s = (n, s1)" "poll_for TX_RETRY_MS s1 = (p, s2)" by (metis surj_pair)
  show "calm s s'"
    using * calm_now_ms [OF st(1)] calm_poll_for [OF st(2)]
    by (auto simp: retry_write_def st split: if_splits intro: calm_trans)
qed

lemma calm_write_line: "holds (calm s) (leaves s) (write_line d l s)"
proof (induction d l s rule: write_line.induct)
  case (1 d l s)
  have w: "calm s (s\<lparr>serial_writes := ws\<rparr>)" "calm s (s\<lparr>serial_writes := ws, wire := x\<rparr>)" for ws x
    by (simp_all add: calm_def radio_props_def)
  have exc: "leaves s (modem_exception_exit (s\<lparr>serial_writes := ws\<rparr>))" for ws
    unfolding leaves_def using w(1) by blast
  show ?case
  proof (cases "l = [] \<or> serial_writes s = []")
    case True
    thus ?thesis
      using "1.IH"(1)
      by (subst write_line.simps) (auto split: prod.split intro: calm_holds_trans dest: calm_retry_write)
  next
    case False
    then obtain x ws where x: "serial_writes s = x # ws" "l \<noteq> []" by (cases "serial_writes s") auto
    show ?thesis
    proof (cases x)
      case (Took n)
      thus ?thesis using x "1.IH"(2) [of "Took n" ws n] w
        by (subst write_line.simps) (auto simp: Let_def intro: calm_holds_trans)
    next
      case (WriteFails e)
      define s1 where "s1 = s\<lparr>serial_writes := ws\<rparr>"
      obtain again s2 where r: "retry_write d s1 = (again, s2)" by fastforce
      note IH = "1.IH"(3,4) [OF x(2) _ WriteFails s1_def, unfolded x(1), OF refl]
      have "calm s s1" unfolding s1_def by (rule w)
      moreover have "calm s s2" using calm_trans [OF \<open>calm s s1\<close> calm_retry_write [OF r]] .
      moreover have "e = EINTR \<Longrightarrow> holds (calm s) (leaves s) (write_line d l s1)"
        using IH(1) calm_holds_trans [OF \<open>calm s s1\<close>] by blast
      moreover have "e = EAGAIN \<or> e = EBUSY \<Longrightarrow> again \<Longrightarrow> holds (calm s) (leaves s) (write_line d l s2)"
        using IH(2) [OF _ _ _ r [symmetric]] calm_holds_trans [OF \<open>calm s s2\<close>] by blast
      moreover have "leaves s (modem_exception_exit s1)" unfolding s1_def by (rule exc)
      ultimately show ?thesis
        by (subst write_line.simps) (simp add: x WriteFails s1_def [symmetric] r)
    qed
  qed
qed

lemma calm_chat_write: "holds (calm s) (leaves s) (chat_write cmd s)"
  by (auto simp: chat_write_def split: prod.split intro: calm_holds_trans calm_write_line dest!: calm_now_ms)

lemma calm_chat: "holds (calm s) (leaves s) (chat cmd s)"
  unfolding chat_def
  by (rule calm_holds_andthen [OF calm_holds_trans [OF calm_chat_clear calm_chat_write]])
    (auto split: prod.split dest: calm_chat_answer)

lemma calm_chat_cmux: "holds (calm s) (leaves s) (chat_cmux cmd s)"
  unfolding chat_cmux_def
  by (rule calm_holds_andthen [OF calm_holds_trans [OF calm_chat_clear calm_chat_write]])
    (auto split: prod.split dest: calm_cmux_answer)

lemma calm_wait_modem_ready: "calm s (wait_modem_ready ms s)"
  by (auto simp: wait_modem_ready_def split: prod.split intro: calm_trans calm_ready_wait dest!: calm_now_ms)

lemma calm_handshake: "holds (calm s) (leaves s) (modem_handshake s)"
  unfolding modem_handshake_def Let_def
  by (rule calm_holds_trans [OF calm_wait_modem_ready [of s "if user_build s then EIND_WAIT_USER_MS else EIND_WAIT_MS"]])
    (auto intro!: calm_holds_andthen calm_chat calm_chat_cmux)


subsection \<open>An invariant of the handlers is an invariant of the program\<close>

text \<open>The state between two sessions.\<close>

definition closed_chan :: "chan \<Rightarrow> bool" where
  "closed_chan c \<longleftrightarrow> fd c = -1 \<and> \<not> is_open c \<and> \<not> sabm_sent c \<and> \<not> disc_sent c \<and> \<not> refused c \<and> pending c = [] \<and>
     \<not> local_fc c \<and> reopen_attempts c = 0 \<and> reopen_deadline c = 0"

definition idle :: "mux \<Rightarrow> bool" where
  "idle s \<longleftrightarrow> (\<forall>c \<in> set (chans s). closed_chan c) \<and> \<not> is_open (ctl s) \<and> \<not> sabm_sent (ctl s) \<and> \<not> disc_sent (ctl s)"

text \<open>Everything is closed after \<open>close_all_ptys\<close>.\<close>

definition shut_chan :: "chan \<Rightarrow> chan" where
  "shut_chan c = reset_chan (c\<lparr>fd := -1, slave := [], pending := [], peer_fc := False, local_fc := False\<rparr>)"

lemma shut_chan_step:
  "upd_chan (Ch i) reset_chan (chan_close_pty (Ch i) s) =
     (let c = chans s ! i in
      (if fd c \<ge> 0 then s\<lparr>links := (links s)(link c := None), fds := remove1 (fd c) (fds s)\<rparr> else s)
        \<lparr>chans := (chans s)[i := shut_chan c]\<rparr>)"
  by (cases "i < length (chans s)") (auto simp: chan_close_pty_def shut_chan_def Let_def list_update_beyond)

lemma shut_loop:
  "k \<le> length (chans s) \<Longrightarrow>
   \<exists>l f. fold (\<lambda>i s. upd_chan (Ch i) reset_chan (chan_close_pty (Ch i) s)) [0..<k] s =
     s\<lparr>links := l, fds := f, chans := map shut_chan (take k (chans s)) @ drop k (chans s)\<rparr>"
proof (induction k)
  case 0
  have "s = s\<lparr>links := links s, fds := fds s, chans := chans s\<rparr>" by simp
  thus ?case by (metis append_Nil drop0 fold_simps(1) list.simps(8) take0 upt_0)
next
  case (Suc k)
  then obtain l f where f: "fold (\<lambda>i s. upd_chan (Ch i) reset_chan (chan_close_pty (Ch i) s)) [0..<k] s =
     s\<lparr>links := l, fds := f, chans := map shut_chan (take k (chans s)) @ drop k (chans s)\<rparr>" by auto
  have k: "(map shut_chan (take k (chans s)) @ drop k (chans s)) ! k = chans s ! k"
    using Suc.prems by (simp add: nth_append)
  have "(map shut_chan (take k (chans s)) @ drop k (chans s))[k := shut_chan (chans s ! k)] = map shut_chan (take (Suc k) (chans s)) @ drop (Suc k) (chans s)"
    using Suc.prems by (simp add: list_update_append take_Suc_conv_app_nth Cons_nth_drop_Suc [symmetric])
  thus ?case
    using f k by (auto simp: shut_chan_step Let_def simp del: upd_chan.simps)
qed

lemma close_all_chans: "chans (close_all_ptys s) = map shut_chan (chans s)"
  using shut_loop [of "length (chans s)" s] by (auto simp: close_all_ptys_def Let_def)

lemma idle_closed: "idle (close_serial (close_all_ptys s))" "serial_fd (close_serial (close_all_ptys s)) = -1"
proof -
  have "chans (close_serial t) = chans t" "ctl (close_serial t) = ctl t" for t by (auto simp: close_serial_def Let_def)
  moreover have "closed_chan (shut_chan c)" for c by (simp add: closed_chan_def shut_chan_def reset_chan_def)
  moreover have "\<not> is_open (ctl (close_all_ptys s)) \<and> \<not> sabm_sent (ctl (close_all_ptys s)) \<and> \<not> disc_sent (ctl (close_all_ptys s))"
    by (simp add: close_all_ptys_def Let_def)
  ultimately show "idle (close_serial (close_all_ptys s))" by (auto simp: idle_def close_all_chans)
  show "serial_fd (close_serial (close_all_ptys s)) = -1" by (simp add: close_serial_def Let_def)
qed

text \<open>
  The contract between the handlers and the loops around them: \<open>I\<close> holds while the program runs, with \<open>N\<close> channels, and \<open>E\<close>
  when it has left.
\<close>

lemma read_loop_none:
  "take (RX_CAP - length (rxb s)) bs = [] \<Longrightarrow> \<exists>rs'. serial_read_loop (Got bs # rs) t s = Ret None (s\<lparr>serial_reads := rs'\<rparr>)"
  by (subst serial_read_loop.simps) (simp only: Let_def list.case read_result.case simp_thms if_True, rule exI, rule refl)

lemma read_loop_Got:
  assumes "take (RX_CAP - length (rxb s)) bs = got" "got \<noteq> []"
    and "(if drop (RX_CAP - length (rxb s)) bs = [] then rs else Got (drop (RX_CAP - length (rxb s)) bs) # rs) = rs'"
  shows "serial_read_loop (Got bs # rs) t s =
    (case rx_parse (s\<lparr>rxb := rxb s @ got\<rparr>) of Exited s \<Rightarrow> Exited s
     | Ret _ s \<Rightarrow> serial_read_loop rs' (t + length got) (if length (rxb s) = RX_CAP then s\<lparr>rxb := []\<rparr> else s))"
proof -
  have "(take (RX_CAP - length (rxb s)) bs = []) = False" using assms(2) by (simp only: assms(1))
  thus ?thesis
    unfolding assms(1,3) [symmetric]
    by (subst serial_read_loop.simps) (simp only: Let_def list.case read_result.case if_False)
qed

locale mux_invariant =
  fixes I E :: "mux \<Rightarrow> bool" and N :: nat
  assumes calm_I: "I s \<Longrightarrow> calm s s' \<Longrightarrow> I s'"
    and size_I: "I s \<Longrightarrow> length (chans s) = N"
    and ref_I: "I s \<Longrightarrow> d < 64 \<Longrightarrow> by_dlci s ! unat d = Some r \<Longrightarrow> (r = Ctl \<and> d = 0) \<or> (\<exists>i < N. r = Ch i \<and> d \<noteq> 0)"
    and exit_report: "I s \<Longrightarrow> E (report_and_exit s)"
    and exit_graceful: "I s \<Longrightarrow> E (graceful_exit s)"
    and exit_exception: "I s \<Longrightarrow> E (modem_exception_exit s)"
    and reopen_I: "I s \<Longrightarrow> i < N \<Longrightarrow> holds I E (chan_reopen (Ch i) s)"
    and deliver_I: "I s \<Longrightarrow> i < N \<Longrightarrow> length data \<le> frame_size s \<Longrightarrow> holds I E (deliver (Ch i) data s)"
    and drain_I: "I s \<Longrightarrow> i < N \<Longrightarrow> holds I E (chan_drain (Ch i) s)"
    and msc_I: "I s \<Longrightarrow> \<not> closing s \<Longrightarrow> r = Ctl \<or> (\<exists>i < N. r = Ch i) \<Longrightarrow> I (upd_chan r (\<lambda>c. c\<lparr>peer_fc := b\<rparr>) s)"
    and logged_I: "I s \<Longrightarrow> i < N \<Longrightarrow> I (upd_chan (Ch i) (\<lambda>c. c\<lparr>refused_logged := True\<rparr>) s)"
    and peer_closing_I: "I s \<Longrightarrow> I (s\<lparr>mstate := ST_PEER_CLOSING\<rparr>)"
    and ua_I: "I s \<Longrightarrow> r = Ctl \<or> (\<exists>i < N. r = Ch i) \<Longrightarrow> closing s \<longrightarrow> disc_sent (chan_at s r) \<Longrightarrow> I (on_ua r s)"
    and dm_I: "I s \<Longrightarrow> r = Ctl \<or> (\<exists>i < N. r = Ch i) \<Longrightarrow> \<not> closing s \<Longrightarrow> I (on_dm r s)"
    and disc_I: "I s \<Longrightarrow> q = None \<or> q = Some Ctl \<or> (\<exists>i < N. q = Some (Ch i)) \<Longrightarrow> \<not> closing s \<Longrightarrow> I (on_disc d q s)"
    and sabm_I: "I s \<Longrightarrow> q = None \<or> q = Some Ctl \<or> (\<exists>i < N. q = Some (Ch i)) \<Longrightarrow> \<not> closing s \<Longrightarrow> I (on_sabm d q s)"
    and recovery_I: "I s \<Longrightarrow> \<not> closing s \<Longrightarrow> I (snd (recovery_timeout t s))"
    and disc_chan_I: "I s \<Longrightarrow> closing s \<Longrightarrow> i < N \<Longrightarrow> I (disc_chan i s)"
    and open_serial_I: "I s \<Longrightarrow> serial_fd s < 0 \<Longrightarrow> I (snd (open_serial s))"
    and mux_open_I: "I s \<Longrightarrow> idle s \<Longrightarrow> mux_open s = (True, s') \<Longrightarrow> I s'"
    and mux_open_E: "I s \<Longrightarrow> idle s \<Longrightarrow> mux_open s = (False, s') \<Longrightarrow> E (report_and_exit s')"
    and closed_I: "I s \<Longrightarrow> I (close_serial (close_all_ptys s))"
begin

lemma tx_I: "I s \<Longrightarrow> I (snd (tx_frame d c x s))"
  by (erule calm_I) (rule calm_tx_frame)

lemma echo_I: "I s \<Longrightarrow> I (reply_echo data s)"
  unfolding reply_echo_def by (rule tx_I)

lemma apply_msc_I: "I s \<Longrightarrow> \<not> closing s \<Longrightarrow> d < 64 \<Longrightarrow> I (apply_msc d sigs s)"
  by (auto simp: apply_msc_def Let_def split: option.split dest: ref_I intro!: msc_I)

lemma control_I: "I s \<Longrightarrow> \<not> closing s \<Longrightarrow> I (control_command data s)"
  by (auto simp: control_command_def Let_def dlci_small intro!: tx_I echo_I peer_closing_I apply_msc_I)

lemma handle_I:
  assumes I: "I s" and d: "d < 64" and len: "length data \<le> frame_size s"
  shows "holds I E (handle_frame d ctrl data s)"
proof -
  define c where "c = by_dlci s ! unat d"
  have c_cases: "c = None \<or> c = Some Ctl \<and> d = 0 \<or> (\<exists>i < N. c = Some (Ch i) \<and> d \<noteq> 0)"
    using ref_I [OF I d] by (cases c) (auto simp: c_def)
  define s1 where "s1 = (if ctrl AND CTRL_PF \<noteq> 0 then s\<lparr>pf_echo := True\<rparr> else s)"
  have s1: "calm s s1" by (simp add: s1_def)
  have I1: "I s1" using I s1 by (rule calm_I)
  show ?thesis
  proof (cases "closing s")
    case True
    thus ?thesis
      using I c_cases by (auto simp: handle_frame_def Let_def c_def [symmetric] split: option.split intro!: ua_I)
  next
    case False
    have "holds I E (if d = 0 then Ret () (control_command data s1)
      else case c of None \<Rightarrow> Ret () s1 | Some r \<Rightarrow> if is_open (chan_at s1 r) then deliver r data s1 else Ret () s1)"
      using I1 False c_cases len calm_fields [OF s1] by (auto intro!: control_I deliver_I)
    moreover have "I (case c of None \<Rightarrow> s | Some r \<Rightarrow> on_ua r s)" "I (case c of None \<Rightarrow> s | Some r \<Rightarrow> on_dm r s)"
      "I (on_sabm d c s)" "I (on_disc d c s)"
      using I False c_cases by (auto split: option.split intro!: ua_I dm_I sabm_I disc_I)
    ultimately show ?thesis
      using I False unfolding handle_frame_def Let_def c_def [symmetric] s1_def [symmetric] by simp
  qed
qed

lemma parse_I: "I s \<Longrightarrow> holds I E (parse_loop bs s)"
proof (induction bs s rule: parse_loop.induct)
  case (1 bs s)
  show ?case
  proof (cases "rx_frame (frame_size s) bs")
    case (Keep k)
    thus ?thesis using calm_I [OF "1.prems"] by (subst parse_loop.simps) simp
  next
    case (Drop r)
    thus ?thesis using "1.IH"(1) [OF Drop "1.prems"] by (subst parse_loop.simps) simp
  next
    case (Frame d c x r)
    have "holds I E (handle_frame d c x s)"
      using rx_frame_range [OF Frame] "1.prems" by (intro handle_I) auto
    thus ?thesis using "1.IH"(2) [OF Frame] by (subst parse_loop.simps) (auto simp: Frame split: outcome.split)
  qed
qed

lemma read_I: "I s \<Longrightarrow> holds I E (serial_read_loop rs t s)"
proof (induction rs t s rule: serial_read_loop.induct)
  case (1 rs t s)
  have upd: "I (s\<lparr>serial_reads := x\<rparr>)" for x using "1.prems" by (rule calm_I) simp
  show ?case
  proof (cases rs)
    case Nil
    thus ?thesis using upd by (subst serial_read_loop.simps) simp
  next
    case (Cons x xs)
    show ?thesis
    proof (cases x)
      case (ReadFails e)
      thus ?thesis using upd "1.IH"(2) [OF Cons ReadFails] "1.prems" by (subst serial_read_loop.simps) (cases e, auto simp: Cons)
    next
      case (Got bs)
      define got where "got = take (RX_CAP - length (rxb s)) bs"
      define p where "p = rx_parse (s\<lparr>rxb := rxb s @ got\<rparr>)"
      have p: "holds I E p" unfolding p_def rx_parse_def by (rule parse_I) (rule calm_I [OF "1.prems"], simp)
      define rs' where "rs' = (if drop (RX_CAP - length (rxb s)) bs = [] then xs else Got (drop (RX_CAP - length (rxb s)) bs) # xs)"
      have rec: "holds I E (serial_read_loop rs' (t + length got) (if length (rxb s') = RX_CAP then s'\<lparr>rxb := []\<rparr> else s'))"
        if "p = Ret () s'" "got \<noteq> []" for s'
        using p that "1.IH"(1) [OF Cons Got refl got_def refl rs'_def] calm_I [OF _ calm_updates(1), of s' "[]"]
        by (auto simp: p_def)
      show ?thesis
      proof (cases "got = []")
        case False
        thus ?thesis using p rec
          unfolding Cons Got read_loop_Got [OF got_def [symmetric] False rs'_def [symmetric]] p_def [symmetric]
          by (auto split: outcome.split)
      next
        case True
        thus ?thesis unfolding Cons Got using read_loop_none [of s bs xs t] upd by (auto simp: got_def)
      qed
    qed
  qed
qed

lemma serial_read_I: "I s \<Longrightarrow> holds I E (serial_read s)"
  unfolding serial_read_def by (rule read_I)

lemma tx_chunks_I: "I s \<Longrightarrow> I (tx_chunks d data s)"
proof (induction d data s rule: tx_chunks.induct)
  case (1 d data s)
  thus ?case by (subst tx_chunks.simps) (auto intro: tx_I)
qed

lemma chan_read_I:
  assumes I: "I s" and i: "i < N" shows "holds I E (chan_read (Ch i) s)"
proof -
  have "I (s\<lparr>pty_reads := x\<rparr>)" for x using I by (rule calm_I) simp
  thus ?thesis
    using I i unfolding chan_read_def Let_def
    by (auto split: list.split read_result.split intro!: reopen_I tx_chunks_I logged_I simp del: upd_chan.simps)
qed

lemma chan_event_I:
  assumes I: "I s" and i: "i < N" shows "holds I E (chan_event i f ev s)"
  unfolding chan_event_def Let_def
  using I i by (auto intro!: holds_andthen [where J = I] drain_I chan_read_I reopen_I)

lemma chan_events_I: "I s \<Longrightarrow> list_all (\<lambda>(i, _). i < N) es \<Longrightarrow> holds I E (chan_events es s)"
proof (induction es s rule: chan_events.induct)
  case (2 i f ev es s)
  thus ?case by (auto intro!: holds_andthen [OF chan_event_I])
qed simp

lemma serial_event_I: "I s \<Longrightarrow> holds I E (serial_event ev s)"
  unfolding serial_event_def
  by (auto intro!: holds_andthen [OF serial_read_I] exit_report split: option.split)

lemma flush_turn_I: "I s \<Longrightarrow> holds I E (flush_turn s)"
  unfolding flush_turn_def
  by (auto split: prod.split dest!: calm_tx_flush intro: calm_I exit_report)

lemma poll_set_range: "I s \<Longrightarrow> list_all (\<lambda>(i, _). i < N) (poll_set s)"
  by (auto simp: poll_set_def list_all_iff Let_def size_I)

lemma turn_events_I:
  assumes I: "I s" and w: "list_all (\<lambda>(i, _). i < N) w"
  shows "holds I E (turn_events serial w evs s)"
proof -
  have "list_all (\<lambda>(i, _). i < N) (map (\<lambda>(k, (i, f, w)). (i, f, reported evs (Suc k) w)) (zip [0..<length w] w))"
    using w by (auto simp: list_all_iff dest!: set_zip_rightD)
  thus ?thesis
    unfolding turn_events_def Let_def
    by (auto intro!: holds_andthen [OF serial_event_I [OF I]] holds_andthen [OF chan_events_I] flush_turn_I)
qed

lemma run_turn_I:
  assumes I: "I s" shows "holds I E (mux_turn s)"
proof -
  obtain t s1 to1 s2 to2 s3 where
    st: "look_signal s = (t, s1)" "recovery_timeout (-1) s1 = (to1, s2)" "turn_timeout to1 s2 = (to2, s3)" by (metis surj_pair)
  have I1: "I s1" by (rule calm_I [OF I calm_look_signal [OF st(1)]])
  show ?thesis
  proof (cases "t \<or> closing s1")
    case True
    thus ?thesis unfolding mux_turn_def by (auto simp: st I1 intro: exit_graceful)
  next
    case False
    hence I2: "I s2" using recovery_I [OF I1, of "-1"] st(2) by simp
    have "calm s2 s3"
      using st(3) by (auto simp: turn_timeout_def Let_def split: if_splits prod.splits dest: calm_now_ms)
    with I2 have I3: "I s3" by (rule calm_I)
    have I4: "poll_for k s3 = (p, s4) \<Longrightarrow> I s4" for k p s4 using I3 by (blast intro: calm_I calm_poll_for)
    show ?thesis
      unfolding mux_turn_def Let_def st prod.case
      using False I1 I2 I3 poll_set_range [OF I2]
      by (auto split: option.split prod.split poll_result.split intro!: exit_report flush_turn_I turn_events_I dest!: I4)
  qed
qed

lemma run_I: "I s \<Longrightarrow> holds I E (run n s)"
proof (induction n arbitrary: s)
  case (Suc n)
  thus ?case by (auto intro!: holds_andthen [OF run_turn_I])
qed simp

lemma await_closed_I: "I s \<Longrightarrow> holds I E (await_closed n d s)"
proof (induction n arbitrary: s)
  case (Suc n)
  obtain t s1 w s2 where st: "look_signal s = (t, s1)" "serial_wait d s1 = (w, s2)" by (metis surj_pair)
  have I1: "I s1" by (rule calm_I [OF Suc.prems calm_look_signal [OF st(1)]])
  have I2: "I s2" by (rule calm_I [OF I1 calm_serial_wait [OF st(2)]])
  show ?case using I1 Suc.IH by (auto simp: st I2 intro!: holds_andthen [OF serial_read_I [OF I2]])
qed simp

lemma closing_disc_chan: "closing (disc_chan i s) = closing s"
  unfolding disc_chan_def
  by (auto simp: calm_fields(7) [OF calm_tx_frame]) (auto simp: closing_def)

lemma disc_chans_I: "I s \<Longrightarrow> closing s \<Longrightarrow> \<forall>i \<in> set is. i < N \<Longrightarrow> I (fold disc_chan is s)"
  by (induction "is" arbitrary: s) (simp_all add: closing_disc_chan disc_chan_I)

lemma close_mux_I:
  assumes I: "I s" and c: "closing s" shows "holds I E (close_mux s)"
proof -
  obtain n s1 where st: "now_ms s = (n, s1)" by fastforce
  note c1 = calm_now_ms [OF st]
  have I1: "I s1" by (rule calm_I [OF I c1])
  define s2 where "s2 = fold disc_chan [0..<length (chans s1)] s1"
  have I2: "I s2" unfolding s2_def by (rule disc_chans_I) (use I1 c in \<open>auto simp: size_I [OF I] calm_fields [OF c1]\<close>)
  have dr: "I t \<Longrightarrow> I (snd (tx_drain d t))" for d t by (metis calm_I calm_tx_drain prod.collapse)
  have dn: "I t \<Longrightarrow> holds I E (case now_ms (send_close_down t) of (n, s) \<Rightarrow> Ret () (snd (tx_drain (n + EXIT_FLUSH_MS) s)))" for t
    by (auto simp: send_close_down_def split: prod.split intro!: dr dest!: calm_now_ms intro: calm_I tx_I)
  show ?thesis
    unfolding close_mux_def Let_def st prod.case s2_def [symmetric]
    using dr [OF I2] by (auto intro!: holds_andthen [where J = I] await_closed_I dn simp del: await_closed.simps)
qed

lemma idle_calm: "calm s s' \<Longrightarrow> idle s' = idle s \<and> serial_fd s' = serial_fd s"
  by (simp add: calm_def idle_def)

lemma leaves_E: "I s \<Longrightarrow> leaves s s' \<Longrightarrow> E s'"
  by (auto simp: leaves_def intro: exit_exception calm_I)

text \<open>After a session the program is between two sessions again.\<close>

lemma open_serial_idle: "idle (snd (open_serial s)) = idle s"
  by (auto simp: open_serial_def idle_def split: list.split)

lemma session_close_I:
  assumes I: "I s"
  shows "yields (\<lambda>r s. I s \<and> (\<not> r \<longrightarrow> idle s \<and> serial_fd s < 0)) E (session_close s)"
proof -
  have "holds I E (if mstate s = ST_CLOSING then close_mux s
      else case now_ms s of (n, s) \<Rightarrow> Ret () (snd (tx_drain (n + EXIT_FLUSH_MS) s)))"
    using I by (auto simp: closing_def split: prod.split intro: close_mux_I) (metis calm_I calm_now_ms calm_tx_drain prod.collapse)
  thus ?thesis
    unfolding session_close_def holds_yields
  proof (rule yields_andthen)
    fix u :: unit and s assume I: "I s"
    define s1 where "s1 = close_serial (close_all_ptys s)"
    obtain t s2 where st: "look_signal (wait_ms RESTART_DELAY_MS s1) = (t, s2)" by fastforce
    have c: "calm s1 s2" using calm_wait_ms calm_look_signal [OF st] by (rule calm_trans)
    have "I s2" by (rule calm_I [OF closed_I c [unfolded s1_def]]) (rule I)
    thus "yields (\<lambda>r s. I s \<and> (\<not> r \<longrightarrow> idle s \<and> serial_fd s < 0)) E
      (let s = wait_ms RESTART_DELAY_MS (close_serial (close_all_ptys s))
       in case look_signal s of (term, s) \<Rightarrow> if term then Exited (graceful_exit s) else Ret False s)"
      unfolding s1_def [symmetric] using st idle_calm [OF c] idle_closed [of s, folded s1_def] by (auto intro: exit_graceful)
  qed
qed

lemma session_I:
  assumes I: "I s" "idle s" "serial_fd s < 0"
  shows "yields (\<lambda>r s. I s \<and> (\<not> r \<longrightarrow> idle s \<and> serial_fd s < 0)) E (session n s)" (is "yields ?P _ _")
proof -
  obtain ok s1 where st: "open_serial s = (ok, s1)" by fastforce
  have I1: "I s1" "idle s1" using open_serial_I [OF I(1,3)] open_serial_idle [of s] I(2) st by auto
  have ran: "I t \<Longrightarrow> yields ?P E (andthen (run n t) (\<lambda>running s. if running then Ret True s else session_close s))" for t
    by (rule yields_andthen [OF run_I [unfolded holds_yields]]) (auto intro: session_close_I)
  have shook: "yields (\<lambda>_ t. I t \<and> idle t) E (modem_handshake s1)"
    using calm_handshake [of s1] I1
    by (cases "modem_handshake s1") (auto simp: holds_yields idle_calm intro: calm_I leaves_E)
  have "yields ?P E (if \<not> b then case look_signal t of (term, s) \<Rightarrow> Exited (if term then graceful_exit s else report_and_exit s)
      else case mux_open t of (ok, s) \<Rightarrow> if \<not> ok then Exited (report_and_exit s)
        else andthen (run n s) (\<lambda>running s. if running then Ret True s else session_close s))"
    if t: "I t \<and> idle t" for b t
  proof -
    obtain c t1 d t2 where tt: "look_signal t = (c, t1)" "mux_open t = (d, t2)" by (metis surj_pair)
    have "I t1" using t calm_look_signal [OF tt(1)] by (blast intro: calm_I)
    moreover have "d \<Longrightarrow> I t2" using t mux_open_I [of t] tt(2) by simp
    moreover have "\<not> d \<Longrightarrow> E (report_and_exit t2)" using t mux_open_E [of t] tt(2) by simp
    ultimately show ?thesis using ran [of t2] tt by (auto intro: exit_graceful exit_report)
  qed
  with shook I1 show ?thesis
    by (auto simp: session_def st intro: exit_report intro!: yields_andthen [where P = "\<lambda>_ t. I t \<and> idle t"])
qed

lemma main_loop_I: "I s \<Longrightarrow> idle s \<Longrightarrow> serial_fd s < 0 \<Longrightarrow> holds I E (main_loop ns s)"
proof (induction ns arbitrary: s)
  case (Cons n ns)
  thus ?case unfolding holds_yields
    by (auto intro!: yields_andthen [OF session_I])
qed simp

end

end
