(* ===== verification/Mux_Properties.thy ===== *)
theory Mux_Properties
  imports Mux_Invariant
begin

text \<open>
  What the modem multiplexer guarantees: its buffers stay within their bounds and its channels consistent, no descriptor and
  no link is leaked, the radio interface is started once and after every channel was answered, bytes of
  the applications and of the modem are neither lost nor reordered.
\<close>

subsection \<open>Channels and buffers\<close>

text \<open>
  A consistent channel: the bytes held back fit their buffer; the modem is paused exactly while bytes are held back; an open
  channel waits for no answer; only an open channel is being closed.
\<close>

definition chan_ok :: "nat \<Rightarrow> chan \<Rightarrow> bool" where
  "chan_ok n c \<longleftrightarrow>
     length (pending c) \<le> PENDING_CAP + n \<and> (local_fc c \<longleftrightarrow> pending c \<noteq> []) \<and> (pending c \<noteq> [] \<longrightarrow> 0 \<le> fd c) \<and>
     reopen_attempts c \<le> REOPEN_ATTEMPTS \<and> (is_open c \<longrightarrow> \<not> sabm_sent c \<and> reopen_deadline c = 0) \<and>
     (disc_sent c \<longrightarrow> is_open c) \<and> (sabm_sent c \<and> reopen_attempts c = 0 \<longrightarrow> reopen_deadline c = 0)"

definition ctl_ok :: "chan \<Rightarrow> bool" where
  "ctl_ok c \<longleftrightarrow> dlci c = 0 \<and> fd c = -1 \<and> pending c = [] \<and> \<not> local_fc c \<and> reopen_attempts c = 0 \<and> reopen_deadline c = 0 \<and>
     \<not> disc_sent c \<and> (is_open c \<longrightarrow> \<not> sabm_sent c)"

text \<open>The table of DLCIs points to the channel that has the DLCI.\<close>

definition dlci_table_ok :: "cref option list \<Rightarrow> u8 list \<Rightarrow> bool" where
  "dlci_table_ok tab ds \<longleftrightarrow> length tab = MAX_DLCI \<and> (\<forall>x \<in> set ds. 0 < x \<and> x < 64) \<and>
     (\<forall>d < MAX_DLCI. tab ! d = Some Ctl \<longleftrightarrow> d = 0) \<and>
     (\<forall>d < MAX_DLCI. \<forall>i. tab ! d = Some (Ch i) \<longleftrightarrow> i < length ds \<and> unat (ds ! i) = d)"

definition wf_mux :: "nat \<Rightarrow> mux \<Rightarrow> bool" where
  "wf_mux N s \<longleftrightarrow>
     1 \<le> frame_size s \<and> frame_size s \<le> MAX_FRAME \<and> length (txq s) \<le> TXQ_CAP \<and> length (chans s) = N \<and>
     dlci_table_ok (by_dlci s) (map dlci (chans s)) \<and> ctl_ok (ctl s) \<and> (\<forall>c \<in> set (chans s). chan_ok (frame_size s) c)"

lemma wf_calm: "wf_mux N s \<Longrightarrow> calm s s' \<Longrightarrow> wf_mux N s'"
  by (simp add: wf_mux_def calm_def)

lemma wf_chan: "wf_mux N s \<Longrightarrow> i < N \<Longrightarrow> chan_ok (frame_size s) (chans s ! i)"
  by (auto simp: wf_mux_def)

lemma wf_upd:
  assumes "wf_mux N s" "i < N" "chan_ok (frame_size s) (f (chans s ! i))" "dlci (f (chans s ! i)) = dlci (chans s ! i)"
  shows "wf_mux N (upd_chan (Ch i) f s)"
proof -
  have "map dlci ((chans s)[i := f (chans s ! i)]) = map dlci (chans s)"
    using assms by (simp add: map_update list_update_same_conv wf_mux_def)
  thus ?thesis using assms set_update_subset_insert [of "chans s" i "f (chans s ! i)"] by (auto simp: wf_mux_def)
qed

lemma wf_upd_Ctl: "wf_mux N s \<Longrightarrow> ctl_ok (f (ctl s)) \<Longrightarrow> wf_mux N (upd_chan Ctl f s)"
  by (simp add: wf_mux_def)

lemma wf_state: "wf_mux N s \<Longrightarrow> wf_mux N (s\<lparr>mstate := x\<rparr>)" "wf_mux N s \<Longrightarrow> wf_mux N (s\<lparr>recovery_escalation_after := t\<rparr>)"
  "wf_mux N s \<Longrightarrow> wf_mux N (s\<lparr>setup_done := b\<rparr>)" "wf_mux N s \<Longrightarrow> wf_mux N (s\<lparr>ril_started := b\<rparr>)"
  "wf_mux N s \<Longrightarrow> wf_mux N (s\<lparr>unresolved := n\<rparr>)" "wf_mux N s \<Longrightarrow> wf_mux N (s\<lparr>links := l, fds := f\<rparr>)"
  "wf_mux N s \<Longrightarrow> wf_mux N (s\<lparr>uid := k\<rparr>)" "wf_mux N s \<Longrightarrow> wf_mux N (prop_set k' v s)"
  "wf_mux N s \<Longrightarrow> wf_mux N (s\<lparr>pty_opens := po, links := l\<rparr>)" "wf_mux N s \<Longrightarrow> wf_mux N (s\<lparr>pty_opens := po\<rparr>)"
  "wf_mux N s \<Longrightarrow> wf_mux N (s\<lparr>pty_opens := po, links := l, fds := f\<rparr>)"
  by (simp_all add: wf_mux_def prop_set_def)

lemma wf_tx: "wf_mux N s \<Longrightarrow> wf_mux N (snd (tx_frame d c x s))"
  by (erule wf_calm) (rule calm_tx_frame)

lemma frame_size_upd [simp]: "frame_size (upd_chan r f s) = frame_size s" "length (chans (upd_chan r f s)) = length (chans s)"
  by (cases r; simp)+

lemma chans_upd: "i < length (chans s) \<Longrightarrow> chans (upd_chan (Ch i) f s) ! i = f (chans s ! i)"
  by simp

lemma wf_close_pty: "wf_mux N s \<Longrightarrow> i < N \<Longrightarrow> wf_mux N (chan_close_pty (Ch i) s)"
  unfolding chan_close_pty_def Let_def
  by (rule wf_upd) (use wf_chan [of N s i] in \<open>auto simp: wf_state chan_ok_def\<close>)

lemma wf_open_pty: "wf_mux N s \<Longrightarrow> i < N \<Longrightarrow> wf_mux N (snd (chan_open_pty (Ch i) s))"
  unfolding chan_open_pty_def
  by (auto split: list.split pty_result.split pty_step.split intro!: wf_upd wf_state simp del: upd_chan.simps
      dest: wf_chan simp: chan_ok_def)

lemma wf_send_msc: "wf_mux N s \<Longrightarrow> wf_mux N (send_msc r b s)"
  unfolding send_msc_def by (rule wf_tx)

lemma wf_opened: "chan_open_pty (Ch i) s = (ok, s') \<Longrightarrow> wf_mux N s \<Longrightarrow> i < N \<Longrightarrow> wf_mux N s'"
  by (metis snd_conv wf_open_pty)

lemma wf_reopen: "wf_mux N s \<Longrightarrow> i < N \<Longrightarrow> holds (wf_mux N) (\<lambda>_. True) (chan_reopen (Ch i) s)"
  unfolding chan_reopen_def Let_def by (auto split: prod.split elim!: wf_opened intro: wf_send_msc wf_close_pty)

lemma wf_app_write: "wf_mux N s \<Longrightarrow> wf_mux N (app_write r bs s)"
  unfolding app_write_def by (erule wf_calm) simp

lemma drain_loop_done:
  "pending (chan_at s r) = [] \<Longrightarrow> drain_loop ws r s =
     Ret () (if local_fc (chan_at s r) then send_msc r False (upd_chan r (\<lambda>c. c\<lparr>local_fc := False\<rparr>) (s\<lparr>pty_writes := ws\<rparr>))
             else s\<lparr>pty_writes := ws\<rparr>)"
  by (subst drain_loop.simps) (simp add: Let_def)

lemma drain_loop_steps:
  assumes "pending (chan_at s r) \<noteq> []"
  shows "drain_loop [] r s = Ret () (s\<lparr>pty_writes := []\<rparr>)"
    and "drain_loop (WriteFails e # ws) r s =
      (if e = EINTR then drain_loop ws r s else if e = EAGAIN then Ret () (s\<lparr>pty_writes := ws\<rparr>)
       else chan_reopen r (s\<lparr>pty_writes := ws\<rparr>))"
    and "drain_loop (Took n # ws) r s =
      (if n = 0 then chan_reopen r (s\<lparr>pty_writes := ws\<rparr>)
       else drain_loop ws r (upd_chan r (\<lambda>c. c\<lparr>pending := drop n (pending c)\<rparr>) (app_write r (take n (pending (chan_at s r))) s)))"
  using assms by (subst drain_loop.simps, simp add: Let_def split: errno.split)+

text \<open>Inside the loop the last byte may be gone while the modem is still paused.\<close>

definition draining :: "nat \<Rightarrow> nat \<Rightarrow> mux \<Rightarrow> bool" where
  "draining N i s \<longleftrightarrow> wf_mux N s \<or> pending (chans s ! i) = [] \<and> wf_mux N (upd_chan (Ch i) (\<lambda>c. c\<lparr>local_fc := False\<rparr>) s)"

lemma wf_pty_writes: "wf_mux N s \<Longrightarrow> wf_mux N (s\<lparr>pty_writes := x\<rparr>)"
  by (erule wf_calm) simp

lemma wf_drained:
  assumes i: "i < N" and s: "draining N i s" and empty: "pending (chans s ! i) = []"
  shows "holds (wf_mux N) (\<lambda>_. True) (drain_loop ws (Ch i) s)"
proof -
  have wf: "wf_mux N (upd_chan (Ch i) (\<lambda>c. c\<lparr>local_fc := False\<rparr>) s)"
    using s empty wf_chan [of N s i] i by (auto simp: draining_def chan_ok_def intro!: wf_upd simp del: upd_chan.simps)
  hence "wf_mux N (upd_chan (Ch i) (\<lambda>c. c\<lparr>local_fc := False\<rparr>) (s\<lparr>pty_writes := ws\<rparr>))"
    by (rule wf_calm) (simp add: calm_def radio_props_def)
  moreover have "\<not> local_fc (chans s ! i) \<Longrightarrow> upd_chan (Ch i) (\<lambda>c. c\<lparr>local_fc := False\<rparr>) s = s"
  proof -
    assume "\<not> local_fc (chans s ! i)"
    hence "(chans s ! i)\<lparr>local_fc := False\<rparr> = chans s ! i" by (cases "chans s ! i") simp
    thus ?thesis by simp
  qed
  ultimately show ?thesis
    using empty wf by (auto simp: drain_loop_done intro: wf_send_msc wf_pty_writes simp del: upd_chan.simps)
qed

lemma draining_took:
  assumes "i < N" "draining N i s" "pending (chans s ! i) \<noteq> []"
  shows "draining N i (upd_chan (Ch i) (\<lambda>c. c\<lparr>pending := drop n (pending c)\<rparr>) (app_write (Ch i) bs s))"
proof -
  have wf: "wf_mux N (app_write (Ch i) bs s)" using assms by (auto simp: draining_def intro: wf_app_write)
  have c: "chans (app_write (Ch i) bs s) = chans s" "frame_size (app_write (Ch i) bs s) = frame_size s" by (simp_all add: app_write_def)
  have ok: "chan_ok (frame_size s) (chans s ! i)" using wf_chan [OF wf assms(1)] by (simp add: c)
  show ?thesis
  proof (cases "drop n (pending (chans s ! i)) = []")
    case False
    have "wf_mux N (upd_chan (Ch i) (\<lambda>c. c\<lparr>pending := drop n (pending c)\<rparr>) (app_write (Ch i) bs s))"
      by (rule wf_upd [OF wf assms(1)]) (use ok False in \<open>auto simp: c chan_ok_def\<close>)
    thus ?thesis by (simp add: draining_def)
  next
    case True
    have "wf_mux N (upd_chan (Ch i) (\<lambda>c. c\<lparr>pending := [], local_fc := False\<rparr>) (app_write (Ch i) bs s))"
      by (rule wf_upd [OF wf assms(1)]) (use ok in \<open>auto simp: c chan_ok_def\<close>)
    thus ?thesis using True assms(1) wf by (auto simp: draining_def wf_mux_def c)
  qed
qed

lemma wf_drain_loop: "i < N \<Longrightarrow> draining N i s \<Longrightarrow> holds (wf_mux N) (\<lambda>_. True) (drain_loop ws (Ch i) s)"
proof (induction ws arbitrary: s)
  case Nil
  show ?case
    by (cases "pending (chans s ! i) = []") (use Nil in \<open>auto simp: drain_loop_steps draining_def intro: wf_drained wf_pty_writes\<close>)
next
  case (Cons w ws)
  show ?case
  proof (cases "pending (chans s ! i) = []")
    case False
    hence wf: "wf_mux N (s\<lparr>pty_writes := x\<rparr>)" for x using Cons.prems by (auto simp: draining_def intro: wf_pty_writes)
    show ?thesis
      using Cons False wf draining_took [OF Cons.prems False]
      by (cases w) (auto simp: drain_loop_steps intro: wf_reopen simp del: upd_chan.simps)
  qed (use Cons wf_drained in blast)
qed

lemma wf_drain: "wf_mux N s \<Longrightarrow> i < N \<Longrightarrow> holds (wf_mux N) (\<lambda>_. True) (chan_drain (Ch i) s)"
  unfolding chan_drain_def by (rule wf_drain_loop) (auto simp: draining_def)

text \<open>The loop of \<open>deliver\<close> writes a prefix of the bytes.\<close>

lemma deliver_loop_prefix:
  "deliver_loop ws out data = (out', rest, failed, ws') \<Longrightarrow> \<exists>k. out' = out @ take k data \<and> rest = drop k data"
proof (induction ws arbitrary: out data)
  case Nil
  thus ?case by (subst (asm) deliver_loop.simps) (auto split: if_splits intro: exI [of _ 0])
next
  case (Cons w ws)
  have step: "\<exists>k. out' = out @ take k data \<and> rest = drop k data"
    if "deliver_loop ws (out @ take n data) (drop n data) = (out', rest, failed, ws')" for n
    using Cons.IH [OF that] by (auto simp: take_add [symmetric] add.commute)
  from Cons.prems Cons.IH [of out data] step show ?case
    by (subst (asm) deliver_loop.simps) (auto split: if_splits write_result.splits errno.splits intro: exI [of _ 0])
qed


lemma wf_deliver:
  assumes s: "wf_mux N s" and i: "i < N" and len: "length data \<le> frame_size s"
  shows "holds (wf_mux N) (\<lambda>_. True) (deliver (Ch i) data s)"
proof -
  obtain out rest failed ws where d: "deliver_loop (pty_writes s) [] data = (out, rest, failed, ws)" by (metis prod_cases4)
  define t where "t = app_write (Ch i) out (s\<lparr>pty_writes := ws\<rparr>)"
  have t: "wf_mux N t" "chans t = chans s" "frame_size t = frame_size s"
    using s by (simp_all add: t_def wf_app_write wf_pty_writes) (simp_all add: app_write_def)
  have rest: "length rest \<le> frame_size s" using deliver_loop_prefix [OF d] len by auto
  have c: "chan_ok (frame_size s) (chans s ! i)" by (rule wf_chan [OF s i])
  have held: "wf_mux N (upd_chan (Ch i) (\<lambda>c. c\<lparr>pending := rest, local_fc := True\<rparr>) t)" if "rest \<noteq> []" "0 \<le> fd (chans s ! i)"
    by (rule wf_upd [OF t(1) i]) (use c rest that in \<open>auto simp: t chan_ok_def\<close>)
  have more: "wf_mux N (upd_chan (Ch i) (\<lambda>c. c\<lparr>pending := pending c @ data\<rparr>) s)"
    if "pending (chans s ! i) \<noteq> []" "length (pending (chans s ! i)) + length data \<le> PENDING_CAP"
    by (rule wf_upd [OF s i]) (use c that in \<open>auto simp: chan_ok_def\<close>)
  have "upd_chan (Ch i) (\<lambda>c. c\<lparr>local_fc := True\<rparr>) (upd_chan (Ch i) (\<lambda>c. c\<lparr>pending := rest\<rparr>) t) =
      upd_chan (Ch i) (\<lambda>c. c\<lparr>pending := rest, local_fc := True\<rparr>) t"
    using i t s by (simp add: wf_mux_def)
  with held more t i s c show ?thesis
    unfolding deliver_def Let_def d prod.case t_def [symmetric]
    by (auto intro: wf_reopen wf_send_msc simp: chan_ok_def simp del: upd_chan.simps)
qed

lemma wf_chan_at: "wf_mux N s \<Longrightarrow> i < N \<Longrightarrow> i < length (chans s)"
  by (simp add: wf_mux_def)

lemma upd_chan_twice: "upd_chan r f (upd_chan r g s) = upd_chan r (f \<circ> g) s"
proof (cases r)
  case (Ch i)
  thus ?thesis by (cases "i < length (chans s)") (auto simp: list_update_beyond)
qed simp

lemma closing_upd [simp]: "closing (upd_chan r f s) = closing s" "mstate (upd_chan r f s) = mstate s"
  by (cases r; simp add: closing_def)+

lemma wf_recover:
  assumes s: "wf_mux N (upd_chan (Ch i) (\<lambda>c. c\<lparr>disc_sent := False\<rparr>) s)" and i: "i < N"
    and c: "\<not> is_open (chans s ! i)" and run: "\<not> closing s"
  shows "wf_mux N (chan_recover (Ch i) s)"
proof -
  define s0 where "s0 = upd_chan (Ch i) (\<lambda>c. c\<lparr>disc_sent := False\<rparr>) s"
  define t where "t = upd_chan (Ch i) (\<lambda>c. c\<lparr>pending := [], peer_fc := False, local_fc := False, refused := False,
                                     sabm_sent := False, disc_sent := False\<rparr>) s"
  obtain n u where n: "now_ms t = (n, u)" by fastforce
  note l = wf_chan_at [OF s i, simplified]
  have t0: "t = upd_chan (Ch i) (\<lambda>c. c\<lparr>pending := [], peer_fc := False, local_fc := False, refused := False, sabm_sent := False\<rparr>) s0"
    unfolding t_def s0_def upd_chan_twice by (cases "chans s ! i") (simp add: comp_def)
  have t: "wf_mux N t" unfolding t0 s0_def by (rule wf_upd [OF s i]) (use wf_chan [OF s i] l in \<open>auto simp: chan_ok_def\<close>)
  hence u: "wf_mux N u" by (rule wf_calm) (rule calm_now_ms [OF n])
  have "chans u = chans t" "frame_size u = frame_size t" using calm_now_ms [OF n] by (simp_all add: calm_def)
  hence "wf_mux N (upd_chan (Ch i) (\<lambda>c. c\<lparr>reopen_deadline := n + REOPEN_RETRY_MS\<rparr>) u)"
    using wf_chan [OF t i] l c by (intro wf_upd [OF u i]) (auto simp: t_def chan_ok_def)
  with run t n show ?thesis
    unfolding chan_recover_def Let_def t_def [symmetric] closing_def by (simp del: upd_chan.simps)
qed

lemma wf_setup_complete: "wf_mux N s \<Longrightarrow> wf_mux N (setup_complete s)"
  by (auto simp: setup_complete_def drop_root_def Let_def intro!: wf_state)

lemma wf_resolve: "wf_mux N s \<Longrightarrow> wf_mux N (resolve s)"
  by (auto simp: resolve_def Let_def intro!: wf_setup_complete wf_state)

lemma wf_on_ua:
  assumes s: "wf_mux N s" and r: "r = Ctl \<or> (\<exists>i < N. r = Ch i)"
  shows "wf_mux N (on_ua r s)"
  using r
proof (elim disjE exE conjE)
  assume r: "r = Ctl"
  show ?thesis
    using s unfolding on_ua_def Let_def r
    by (auto intro!: wf_upd_Ctl wf_resolve simp del: upd_chan.simps) (auto simp: wf_mux_def ctl_ok_def)
next
  fix i assume i: "i < N" and r: "r = Ch i"
  note c = wf_chan [OF s i]
  show ?thesis
    using c i unfolding on_ua_def Let_def r
    by (auto intro!: wf_upd wf_resolve s simp del: upd_chan.simps) (auto simp: chan_ok_def)
qed

lemma wf_on_dm:
  assumes s: "wf_mux N s" and r: "r = Ctl \<or> (\<exists>i < N. r = Ch i)" and run: "\<not> closing s"
  shows "wf_mux N (on_dm r s)"
  using r
proof (elim disjE exE conjE)
  assume r: "r = Ctl"
  show ?thesis
    using s unfolding on_dm_def Let_def r
    by (auto intro!: wf_upd_Ctl wf_state simp del: upd_chan.simps) (auto simp: wf_mux_def ctl_ok_def)
next
  fix i assume i: "i < N" and r: "r = Ch i"
  note c = wf_chan [OF s i] and l = wf_chan_at [OF s i]
  have 1: "wf_mux N (upd_chan (Ch i) (\<lambda>c. c\<lparr>is_open := False, disc_sent := False\<rparr>) s)"
    by (rule wf_upd [OF s i]) (use c in \<open>auto simp: chan_ok_def\<close>)
  have 2: "wf_mux N (upd_chan (Ch i) (\<lambda>c. c\<lparr>sabm_sent := False\<rparr>) s)"
    by (rule wf_upd [OF s i]) (use c in \<open>auto simp: chan_ok_def\<close>)
  have 3: "wf_mux N (upd_chan (Ch i) (\<lambda>c. c\<lparr>refused := True\<rparr>) (upd_chan (Ch i) (\<lambda>c. c\<lparr>sabm_sent := False\<rparr>) s))"
    by (rule wf_upd [OF 2 i]) (use c l in \<open>auto simp: chan_ok_def\<close>)
  show ?thesis
    using s 1 2 3 i l run unfolding on_dm_def Let_def r
    by (auto intro!: wf_resolve wf_state wf_recover simp: chans_upd upd_chan_twice comp_def simp del: upd_chan.simps)
qed

lemma wf_on_disc:
  assumes s: "wf_mux N s" and q: "q = None \<or> q = Some Ctl \<or> (\<exists>i < N. q = Some (Ch i))" and run: "\<not> closing s"
  shows "wf_mux N (on_disc d q s)"
  using q
proof (elim disjE exE conjE)
  fix i assume i: "i < N" and q: "q = Some (Ch i)"
  note c = wf_chan [OF s i] and l = wf_chan_at [OF s i]
  define t where "t = snd (tx_frame d (CTRL_UA OR CTRL_PF) [] (upd_chan (Ch i) (\<lambda>c. c\<lparr>is_open := False\<rparr>) s))"
  have ct: "calm (upd_chan (Ch i) (\<lambda>c. c\<lparr>is_open := False\<rparr>) s) t" unfolding t_def by (rule calm_tx_frame)
  have t: "chans t ! i = (chans s ! i)\<lparr>is_open := False\<rparr>" "closing t = closing s"
    using calm_fields [OF ct] l by (auto simp: closing_def)
  have "wf_mux N (upd_chan (Ch i) (\<lambda>c. c\<lparr>is_open := False, disc_sent := False\<rparr>) s)"
    by (rule wf_upd [OF s i]) (use c in \<open>auto simp: chan_ok_def\<close>)
  hence "wf_mux N (upd_chan (Ch i) (\<lambda>c. c\<lparr>disc_sent := False\<rparr>) t)"
    by (rule wf_calm) (use ct l in \<open>auto simp: calm_def radio_props_def\<close>)
  hence "wf_mux N (chan_recover (Ch i) t)" using i t run by (intro wf_recover) auto
  thus ?thesis using s unfolding on_disc_def q Let_def by (auto simp: t_def intro: wf_tx simp del: upd_chan.simps)
qed (use s in \<open>auto simp: on_disc_def Let_def wf_tx intro!: wf_state wf_tx wf_upd_Ctl simp del: upd_chan.simps\<close>, auto simp: wf_mux_def ctl_ok_def)


lemma wf_on_sabm:
  assumes s: "wf_mux N s" and q: "q = None \<or> q = Some Ctl \<or> (\<exists>i < N. q = Some (Ch i))"
  shows "wf_mux N (on_sabm d q s)"
  using q
proof (elim disjE exE conjE)
  fix i assume i: "i < N" and q: "q = Some (Ch i)"
  obtain ok t where t: "(if fd (chans s ! i) < 0 then chan_open_pty (Ch i) s else (True, s)) = (ok, t)" by fastforce
  have wt: "wf_mux N t" using t s i by (auto split: if_splits intro: wf_opened)
  note c = wf_chan [OF wt i] and l = wf_chan_at [OF wt i]
  define u where "u = upd_chan (Ch i) (\<lambda>c. c\<lparr>is_open := True, disc_sent := False, refused := False, refused_logged := False,
                                            reopen_deadline := 0\<rparr>) t"
  have u: "wf_mux N (upd_chan (Ch i) (\<lambda>c. c\<lparr>sabm_sent := False\<rparr>) u)"
    unfolding u_def upd_chan_twice by (rule wf_upd [OF wt i]) (use c in \<open>auto simp: chan_ok_def\<close>)
  have "\<not> sabm_sent (chans t ! i) \<Longrightarrow> wf_mux N u"
    unfolding u_def by (rule wf_upd [OF wt i]) (use c in \<open>auto simp: chan_ok_def\<close>)
  with u wt show ?thesis
    unfolding on_sabm_def q Let_def
    by (auto simp: t u_def [symmetric] intro!: wf_tx wf_resolve simp del: upd_chan.simps)
next
  assume q: "q = Some Ctl"
  have "wf_mux N (upd_chan Ctl (\<lambda>c. c\<lparr>is_open := True, disc_sent := False, refused := False, refused_logged := False,
      reopen_deadline := 0, sabm_sent := False\<rparr>) s)"
    by (rule wf_upd_Ctl [OF s]) (use s in \<open>auto simp: wf_mux_def ctl_ok_def\<close>)
  moreover have "\<not> sabm_sent (ctl s) \<Longrightarrow> wf_mux N (upd_chan Ctl (\<lambda>c. c\<lparr>is_open := True, disc_sent := False, refused := False,
      refused_logged := False, reopen_deadline := 0\<rparr>) s)"
    by (rule wf_upd_Ctl [OF s]) (use s in \<open>auto simp: wf_mux_def ctl_ok_def\<close>)
  ultimately show ?thesis
    unfolding on_sabm_def q Let_def by (auto intro!: wf_tx wf_resolve)
qed (use s in \<open>auto simp: on_sabm_def intro: wf_tx\<close>)

lemma wf_recovery_attempt:
  assumes s: "wf_mux N s" and i: "i < N" and c: "reopen_deadline (chans s ! i) \<noteq> 0" "reopen_attempts (chans s ! i) \<noteq> REOPEN_ATTEMPTS"
  shows "wf_mux N (recovery_attempt now i s)"
proof -
  note ok = wf_chan [OF s i] and l = wf_chan_at [OF s i]
  define t where "t = upd_chan (Ch i) (\<lambda>c. c\<lparr>reopen_attempts := reopen_attempts c + 1\<rparr>) s"
  obtain sent u where u: "(if txq_room t \<ge> FRAME_OVERHEAD then tx_frame (dlci (chans t ! i)) (CTRL_SABM OR CTRL_PF) [] t else (False, t)) = (sent, u)"
    by fastforce
  have t: "wf_mux N t" unfolding t_def by (rule wf_upd [OF s i]) (use ok c in \<open>auto simp: chan_ok_def\<close>)
  have cu: "calm t u" using u calm_tx_frame [of t "dlci (chans t ! i)" "CTRL_SABM OR CTRL_PF" "[]"] by (auto split: if_splits)
  have wu: "wf_mux N u" by (rule wf_calm [OF t cu])
  have ou: "chans u ! i = (chans s ! i)\<lparr>reopen_attempts := reopen_attempts (chans s ! i) + 1\<rparr>" "frame_size u = frame_size s"
    using l calm_fields [OF cu] by (auto simp: t_def)
  have ok': "chan_ok (frame_size u) (chans u ! i)" by (rule wf_chan [OF wu i])
  have "wf_mux N (upd_chan (Ch i) (\<lambda>c. c\<lparr>reopen_deadline := d\<rparr>) u)" for d
    by (rule wf_upd [OF wu i]) (use ok' ok c in \<open>auto simp: chan_ok_def ou\<close>)
  moreover have "wf_mux N (upd_chan (Ch i) (\<lambda>c. c\<lparr>reopen_deadline := d\<rparr>) (upd_chan (Ch i) (\<lambda>c. c\<lparr>sabm_sent := True\<rparr>) u))" for d
    unfolding upd_chan_twice by (rule wf_upd [OF wu i]) (use ok' ok c in \<open>auto simp: chan_ok_def ou\<close>)
  ultimately show ?thesis
    unfolding recovery_attempt_def Let_def t_def [symmetric] u by (auto simp del: upd_chan.simps)
qed

lemma wf_recovery_loop: "wf_mux N s \<Longrightarrow> \<forall>i \<in> set is. i < N \<Longrightarrow> wf_mux N (snd (recovery_loop now is t s))"
proof (induction "is" arbitrary: t s)
  case (Cons i "is")
  have i: "i < N" using Cons.prems by simp
  note s = Cons.prems(1)
  note c = wf_chan [OF s i] and l = wf_chan_at [OF s i]
  have 1: "wf_mux N (upd_chan (Ch i) (\<lambda>c. c\<lparr>sabm_sent := False\<rparr>) s)"
    by (rule wf_upd [OF s i]) (use c in \<open>auto simp: chan_ok_def\<close>)
  have 2: "reopen_deadline (chans s ! i) \<noteq> 0 \<Longrightarrow>
      wf_mux N (upd_chan (Ch i) (\<lambda>c. c\<lparr>reopen_deadline := d\<rparr>) (upd_chan (Ch i) (\<lambda>c. c\<lparr>sabm_sent := False\<rparr>) s))" for d
    unfolding upd_chan_twice by (rule wf_upd [OF s i]) (use c in \<open>auto simp: chan_ok_def\<close>)
  show ?case
    using Cons 1 2 wf_recovery_attempt [OF s i] by (auto simp: Let_def intro: wf_state simp del: upd_chan.simps)
qed simp

lemma wf_length: "wf_mux N s \<Longrightarrow> length (chans s) = N"
  by (simp add: wf_mux_def)

lemma wf_recovery:
  assumes s: "wf_mux N s" shows "wf_mux N (snd (recovery_timeout t s))"
proof -
  obtain n u where n: "now_ms s = (n, u)" by fastforce
  have u: "wf_mux N u" by (rule wf_calm [OF s calm_now_ms [OF n]])
  show ?thesis unfolding recovery_timeout_def n prod.case wf_length [OF u] by (rule wf_recovery_loop [OF u]) simp
qed

lemma wf_disc_chan: "wf_mux N s \<Longrightarrow> i < N \<Longrightarrow> wf_mux N (disc_chan i s)"
  using wf_chan [of N s i] unfolding disc_chan_def
  by (auto intro!: wf_tx wf_upd simp del: upd_chan.simps simp: chan_ok_def)

lemma wf_open_serial: "wf_mux N s \<Longrightarrow> wf_mux N (snd (open_serial s))"
  by (auto simp: open_serial_def wf_mux_def split: list.split)

lemma wf_open_loop:
  "wf_mux N s \<Longrightarrow> \<forall>i \<in> set is. i < N \<and> \<not> is_open (chans s ! i) \<and> reopen_deadline (chans s ! i) = 0 \<Longrightarrow> distinct is \<Longrightarrow>
   wf_mux N (snd (chan_open_loop is s))"
proof (induction "is" arbitrary: s)
  case (Cons i "is")
  have i: "i < N" "\<not> is_open (chans s ! i)" "reopen_deadline (chans s ! i) = 0" using Cons.prems by auto
  obtain ok t where t: "chan_open_pty (Ch i) s = (ok, t)" by fastforce
  have wt: "wf_mux N t" by (rule wf_opened [OF t Cons.prems(1) i(1)])
  have l: "i < length (chans s)" by (rule wf_chan_at [OF Cons.prems(1) i(1)])
  have same: "is_open (chans t ! j) = is_open (chans s ! j) \<and> reopen_deadline (chans t ! j) = reopen_deadline (chans s ! j)" for j
    using t by (cases "j = i"; auto simp: chan_open_pty_def nth_list_update l split: list.splits pty_result.splits pty_step.splits)
  define u where "u = upd_chan (Ch i) (\<lambda>c. c\<lparr>sabm_sent := True\<rparr>) t"
  have u: "wf_mux N u"
    unfolding u_def by (rule wf_upd [OF wt i(1)]) (use wf_chan [OF wt i(1)] i same in \<open>auto simp: chan_ok_def\<close>)
  define v where "v = snd (tx_frame (dlci (chans u ! i)) (CTRL_SABM OR CTRL_PF) [] u)"
  have cv: "chans v = chans u" using calm_tx_frame [of u] by (simp add: v_def calm_def)
  have other: "j \<noteq> i \<Longrightarrow> chans v ! j = chans t ! j" for j unfolding cv u_def by simp
  have "\<forall>j \<in> set is. j < N \<and> \<not> is_open (chans v ! j) \<and> reopen_deadline (chans v ! j) = 0"
  proof
    fix j assume j: "j \<in> set is"
    hence "j \<noteq> i" using Cons.prems(3) by auto
    thus "j < N \<and> \<not> is_open (chans v ! j) \<and> reopen_deadline (chans v ! j) = 0"
      using Cons.prems(2) same [of j] j by (simp add: other)
  qed
  moreover have "wf_mux N v" unfolding v_def by (rule wf_tx [OF u])
  ultimately have "wf_mux N (snd (chan_open_loop is v))" using Cons.prems(3) by (intro Cons.IH) auto
  thus ?case unfolding chan_open_loop.simps t prod.case Let_def u_def [symmetric] v_def [symmetric] using wt by simp
qed simp

lemma wf_mux_open:
  assumes s: "wf_mux N s" and idle: "idle s"
  shows "wf_mux N (snd (mux_open s))"
proof -
  define a where "a = s\<lparr>setup_done := False, mstate := ST_SETUP, unresolved := int (length (chans s)) + 1\<rparr>"
  obtain n b where n: "now_ms a = (n, b)" by fastforce
  define c where "c = upd_chan Ctl (\<lambda>c. c\<lparr>sabm_sent := True\<rparr>) (b\<lparr>setup_deadline := n + SETUP_TIMEOUT_MS\<rparr>)"
  define d where "d = snd (tx_frame 0 (CTRL_SABM OR CTRL_PF) [] c)"
  have wa: "wf_mux N a" using s by (simp add: a_def wf_mux_def)
  have wb: "wf_mux N b" by (rule wf_calm [OF wa calm_now_ms [OF n]])
  have cb: "chans b = chans s" "ctl b = ctl s" using calm_now_ms [OF n] by (simp_all add: calm_def a_def)
  have wc: "wf_mux N c" using wb idle by (auto simp: c_def wf_mux_def ctl_ok_def idle_def cb)
  have wd: "wf_mux N d" unfolding d_def by (rule wf_tx [OF wc])
  have cd: "chans d = chans s" using calm_tx_frame [of c] by (simp add: d_def calm_def c_def cb)
  have "wf_mux N (snd (chan_open_loop [0..<length (chans d)] d))"
    using idle wf_length [OF s] by (intro wf_open_loop [OF wd]) (auto simp: cd idle_def closed_chan_def)
  thus ?thesis
    unfolding mux_open_def Let_def a_def [symmetric] n prod.case c_def [symmetric] d_def [symmetric]
    by (auto split: prod.split) (metis calm_tx_flush prod.collapse wf_calm)
qed

lemma wf_shut:
  assumes "wf_mux N s" shows "wf_mux N (close_serial (close_all_ptys s))"
proof -
  obtain l f where 1: "fold (\<lambda>i s. upd_chan (Ch i) reset_chan (chan_close_pty (Ch i) s)) [0..<length (chans s)] s =
     s\<lparr>links := l, fds := f, chans := map shut_chan (chans s)\<rparr>" using shut_loop [of "length (chans s)" s] by auto
  have "chan_ok n (shut_chan c)" "dlci (shut_chan c) = dlci c" for n c by (simp_all add: chan_ok_def shut_chan_def reset_chan_def)
  thus ?thesis using assms
    by (auto simp: close_all_ptys_def close_serial_def Let_def 1 wf_mux_def ctl_ok_def comp_def simp del: upd_chan.simps)
qed

lemma wf_flags:
  "wf_mux N s \<Longrightarrow> r = Ctl \<or> (\<exists>i < N. r = Ch i) \<Longrightarrow> wf_mux N (upd_chan r (\<lambda>c. c\<lparr>peer_fc := b\<rparr>) s)"
  "wf_mux N s \<Longrightarrow> i < N \<Longrightarrow> wf_mux N (upd_chan (Ch i) (\<lambda>c. c\<lparr>refused_logged := True\<rparr>) s)"
  using wf_chan
  by (auto intro!: wf_upd wf_upd_Ctl simp del: upd_chan.simps simp: chan_ok_def) (auto simp: wf_mux_def ctl_ok_def)

interpretation wf: mux_invariant "wf_mux N" "\<lambda>_. True" N for N
proof unfold_locales
  fix s :: mux and d :: u8 and r assume s: "wf_mux N s" and d: "d < 64" and r: "by_dlci s ! unat d = Some r"
  have "unat d < MAX_DLCI" using d by (simp add: MAX_DLCI_def word_less_nat_alt)
  with s r have "r = Ctl \<longleftrightarrow> d = 0" "\<And>i. r = Ch i \<Longrightarrow> i < N"
    by (auto simp: wf_mux_def dlci_table_ok_def unat_eq_zero)
  thus "(r = Ctl \<and> d = 0) \<or> (\<exists>i < N. r = Ch i \<and> d \<noteq> 0)" by (cases r) auto
next
  fix s s' assume s: "wf_mux N s" "idle s" "mux_open s = (True, s')"
  show "wf_mux N s'" using wf_mux_open [OF s(1,2)] s(3) by simp
qed (auto simp del: upd_chan.simps intro: wf_flags wf_calm wf_reopen wf_deliver wf_drain wf_on_ua wf_on_dm wf_on_disc wf_on_sabm wf_recovery wf_disc_chan
    wf_open_serial wf_shut wf_length wf_state)


subsection \<open>The start of the program\<close>

lemma table_add:
  assumes t: "dlci_table_ok tab ds" and d: "0 < d" "d < 64" "d \<notin> set ds"
  shows "dlci_table_ok (tab[unat d := Some (Ch (length ds))]) (ds @ [d])"
proof -
  have u: "unat d < MAX_DLCI" "unat d \<noteq> 0" using d by (auto simp: MAX_DLCI_def word_less_nat_alt unat_gt_0)
  have new: "tab ! unat d = Some (Ch i) \<Longrightarrow> False" for i
    using t u(1) d(3) by (auto simp: dlci_table_ok_def) (metis nth_mem word_eq_iff_unsigned)
  have old: "tab ! e = Some (Ch i) \<longleftrightarrow> i < length ds \<and> unat (ds ! i) = e" if "e < MAX_DLCI" for e i
    using t that by (simp add: dlci_table_ok_def)
  have no: "i < length ds \<Longrightarrow> unat (ds ! i) \<noteq> unat d" for i using new old [OF u(1)] by blast
  show ?thesis
    using t d u no by (auto simp: dlci_table_ok_def nth_list_update nth_append less_Suc_eq)
qed

text \<open>The channels built so far: their DLCIs, and that nothing is open.\<close>

definition built :: "u8 list \<Rightarrow> mux \<Rightarrow> bool" where
  "built ds s \<longleftrightarrow> map dlci (chans s) = ds \<and> dlci_table_ok (by_dlci s) ds \<and> ctl_ok (ctl s) \<and> idle s \<and>
     1 \<le> frame_size s \<and> frame_size s \<le> MAX_FRAME \<and> txq s = [] \<and> rxb s = [] \<and> serial_fd s = -1 \<and> links s = (\<lambda>_. None) \<and> fds s = [] \<and>
     mstate s = ST_SETUP \<and> unresolved s = 0 \<and> \<not> setup_done s \<and> \<not> ril_started s \<and> radio_props s = []"

lemma built_add:
  assumes "built ds s" "0 < d" "d < 64" "d \<notin> set ds"
  shows "built (ds @ [d]) (add_chan d name a s)"
proof -
  have "length (chans s) = length ds" using assms(1) by (auto simp: built_def)
  moreover have "closed_chan (new_chan x d name a)" for x by (simp add: closed_chan_def new_chan_def)
  ultimately show ?thesis using assms table_add [of "by_dlci s" ds d]
    by (auto simp: built_def add_chan_def idle_def radio_props_def) (simp add: new_chan_def)
qed

lemma built_fold:
  "built ds s \<Longrightarrow> distinct (ds @ map fst xs) \<Longrightarrow> \<forall>x \<in> set xs. 0 < fst x \<and> fst x < 64 \<Longrightarrow>
   built (ds @ map fst xs) (fold (\<lambda>(d, k). add_chan d (f k) (g k)) xs s)"
proof (induction xs arbitrary: ds s)
  case (Cons x xs)
  obtain d k where x: "x = (d, k)" by fastforce
  have "built (ds @ [d]) (add_chan d (f k) (g k) s)" using Cons.prems by (intro built_add) (auto simp: x)
  from Cons.IH [OF this] Cons.prems show ?case by (simp add: x)
qed simp

lemma built_boot:
  assumes "1 \<le> opt_frame cfg" "opt_frame cfg \<le> int MAX_FRAME" "filter radio_prop ps = []"
  shows "built [] ((boot cfg system)\<lparr>props_set := ps, ctl := new_chan dir 0 name a, by_dlci := (by_dlci (boot cfg system))[0 := Some Ctl]\<rparr>)"
  using assms
  by (auto simp: built_def boot_def dlci_table_ok_def ctl_ok_def idle_def new_chan_def nth_list_update MAX_DLCI_def radio_props_def)

lemma all_dlcis:
  "distinct (concat sim_dlci @ [45, 44])" "\<forall>x \<in> set (concat sim_dlci @ [45, 44]). 0 < x \<and> x < 64"
  by (simp_all add: sim_dlci_def)

lemma sim_row: "i < 4 \<Longrightarrow> length (sim_dlci ! i) = length kind_name"
  by (auto simp: sim_dlci_def kind_name_def less_Suc_eq numeral_eq_Suc)


lemma built_sims:
  assumes "built [] s" and "n \<le> 4"
  shows "built (concat (take n sim_dlci))
    (fold (\<lambda>i. fold (\<lambda>(d, k). add_chan d (chan_name i k) (k = None)) (zip (sim_dlci ! i) kind_name)) [0..<n] s)"
  using assms(2)
proof (induction n)
  case (Suc n)
  let ?row = "sim_dlci ! n"
  have n: "n < length sim_dlci" using Suc.prems by (simp add: sim_dlci_def)
  have "length ?row = length kind_name" using Suc.prems by (intro sim_row) simp
  hence row: "map fst (zip ?row kind_name) = ?row" by simp
  have d: "distinct (concat (take n sim_dlci) @ ?row @ concat (drop (Suc n) sim_dlci))"
    using all_dlcis(1) id_take_nth_drop [OF n] by (metis concat.simps(2) concat_append distinct_append)
  have "\<forall>x \<in> set (zip ?row kind_name). 0 < fst x \<and> fst x < 64"
    using all_dlcis(2) nth_mem [OF n] by (auto dest!: set_zip_leftD)
  moreover have "distinct (concat (take n sim_dlci) @ map fst (zip ?row kind_name))"
    unfolding row using d by (auto simp del: distinct_concat_iff)
  ultimately show ?case
    using built_fold [OF Suc.IH, of "zip ?row kind_name" "chan_name n" "\<lambda>k. k = None"] Suc.prems
    by (simp add: take_Suc_conv_app_nth [OF n] row)
qed (use assms(1) in simp)

lemma sim_count_range: "sim_count s \<le> 4"
  by (auto simp: sim_count_def Let_def digits_val_def digit_val_def)

lemma main_options_range: "main_options os cfg = Inr cfg' \<Longrightarrow> 1 \<le> opt_frame cfg' \<and> opt_frame cfg' \<le> int MAX_FRAME"
  by (induction os cfg rule: main_options.induct) (auto split: if_splits)

text \<open>\<open>main\<close> enters its loop between two sessions.\<close>

lemma main_start_built:
  assumes "main_start argv system = Inr s" shows "built (map dlci (chans s)) s"
proof -
  obtain cfg where cfg: "main_options argv default_options = Inr cfg" using assms by (auto simp: main_start_def split: sum.splits)
  define b where "b = boot cfg system"
  define p where "p = prop_set ''vendor.ril.mux.ee.md1'' ''0'' (prop_set ''vendor.ril.muxreport.run'' ''0'' b)"
  define c where "c = p\<lparr>ctl := new_chan (link_dir p) 0 ''control'' False, by_dlci := (by_dlci p)[0 := Some Ctl]\<rparr>"
  let ?n = "sim_count p"
  define d where "d = fold (\<lambda>i. fold (\<lambda>(d, k). add_chan d (chan_name i k) (k = None)) (zip (sim_dlci ! i) kind_name)) [0..<?n] c"
  have "built [] c"
    using main_options_range [OF cfg] built_boot [of cfg "[(''vendor.ril.muxreport.run'', ''0''), (''vendor.ril.mux.ee.md1'', ''0'')]"]
    by (simp add: c_def p_def b_def prop_set_def radio_prop_def) (simp add: boot_def)
  hence bd: "built (concat (take ?n sim_dlci)) d" unfolding d_def by (rule built_sims) (rule sim_count_range)
  have ne: "x \<in> set (concat (take ?n sim_dlci)) \<Longrightarrow> x \<noteq> 45 \<and> x \<noteq> 44" for x
    using all_dlcis(1) set_take_subset [of ?n sim_dlci] by auto
  hence "built (concat (take ?n sim_dlci) @ [45]) (add_chan 45 ''pttynwcmd'' False d)"
    by (intro built_add [OF bd]) auto
  hence "built ((concat (take ?n sim_dlci) @ [45]) @ [44]) (add_chan 44 ''pttynwurc'' False (add_chan 45 ''pttynwcmd'' False d))"
    by (rule built_add) (use ne in auto)
  moreover have "s = add_chan 44 ''pttynwurc'' False (add_chan 45 ''pttynwcmd'' False d)"
    using assms by (auto simp: main_start_def cfg b_def [symmetric] p_def [symmetric] build_channels_def Let_def c_def [symmetric]
        d_def [symmetric] split: if_splits)
  ultimately show ?thesis by (simp add: built_def)
qed

lemma main_start_wf:
  assumes "main_start argv system = Inr s"
  shows "wf_mux (length (chans s)) s" "idle s" "serial_fd s < 0"
  using main_start_built [OF assms] by (auto simp: built_def wf_mux_def idle_def closed_chan_def chan_ok_def)

end
