(* ===== verification/Mux_Resources.thy ===== *)
theory Mux_Resources
  imports Mux_Properties
begin

text \<open>
  Descriptors and links of the modem multiplexer: those open are exactly those of the serial port and of the channels, and
  none is left when the process exits.
\<close>

definition held_fds :: "mux \<Rightarrow> int multiset" where
  "held_fds s = (if serial_fd s \<ge> 0 then {#serial_fd s#} else {#}) + filter_mset (\<lambda>f. f \<ge> 0) (mset (map fd (chans s)))"

definition fds_ok :: "mux \<Rightarrow> bool" where
  "fds_ok s \<longleftrightarrow> mset (fds s) = held_fds s \<and> (\<forall>l p. links s l = Some p \<longrightarrow> (\<exists>c \<in> set (chans s). link c = l \<and> fd c \<ge> 0))"

definition gone :: "mux \<Rightarrow> bool" where
  "gone s \<longleftrightarrow> fds s = [] \<and> (\<forall>l. links s l = None)"

lemma fds_calm: "fds_ok s \<Longrightarrow> calm s s' \<Longrightarrow> fds_ok s'"
  by (simp add: fds_ok_def held_fds_def calm_def)

lemma set_update_other: "c \<in> set xs \<Longrightarrow> c \<noteq> xs ! i \<Longrightarrow> c \<in> set (xs[i := d])"
  by (metis in_set_conv_nth length_list_update nth_list_update_neq)

lemma held_upd:
  assumes "i < length (chans s)"
  shows "filter_mset (\<lambda>f. f \<ge> 0) (mset (map fd ((chans s)[i := c]))) + (if fd (chans s ! i) \<ge> 0 then {#fd (chans s ! i)#} else {#}) =
    filter_mset (\<lambda>f. f \<ge> 0) (mset (map fd (chans s))) + (if fd c \<ge> 0 then {#fd c#} else {#})"
proof -
  have "mset (map fd ((chans s)[i := c])) + {#fd (chans s ! i)#} = mset (map fd (chans s)) + {#fd c#}"
    using assms by (simp add: map_update mset_update)
  from arg_cong [OF this, of "filter_mset (\<lambda>f. f \<ge> 0)"] show ?thesis by (auto split: if_splits)
qed

text \<open>Changing a channel's flags changes nothing; closing and opening a terminal keep the account.\<close>

lemma fds_upd:
  assumes s: "fds_ok s" and f: "fd (f (chans s ! i)) = fd (chans s ! i)" "link (f (chans s ! i)) = link (chans s ! i)"
  shows "fds_ok (upd_chan (Ch i) f s)"
proof (cases "i < length (chans s)")
  case True
  have m: "map fd ((chans s)[i := f (chans s ! i)]) = map fd (chans s)"
    using True f(1) by (simp add: map_update list_update_same_conv)
  have "\<exists>c' \<in> set ((chans s)[i := f (chans s ! i)]). link c' = link c \<and> fd c' = fd c" if "c \<in> set (chans s)" for c
  proof -
    have "f (chans s ! i) \<in> set ((chans s)[i := f (chans s ! i)])" using True by (rule set_update_memI)
    thus ?thesis using set_update_other [OF that, of i "f (chans s ! i)"] f by (cases "c = chans s ! i") auto
  qed
  with s m show ?thesis unfolding fds_ok_def held_fds_def by simp (metis)
qed (use s in \<open>simp add: list_update_beyond\<close>)

lemma fds_upd_Ctl: "fds_ok s \<Longrightarrow> fds_ok (upd_chan Ctl f s)"
  by (simp add: fds_ok_def held_fds_def)

lemma fds_close_pty:
  assumes s: "fds_ok s" and i: "i < length (chans s)"
  shows "fds_ok (chan_close_pty (Ch i) s)"
proof -
  let ?c = "chans s ! i" and ?d = "(chans s ! i)\<lparr>fd := -1, slave := [], pending := [], peer_fc := False, local_fc := False\<rparr>"
  have keep: "\<exists>c' \<in> set ((chans s)[i := ?d]). link c' = l \<and> fd c' \<ge> 0" if "c \<in> set (chans s)" "link c = l" "fd c \<ge> 0" "c \<noteq> ?c" for c l
    using set_update_other [OF that(1,4)] that(2,3) by blast
  show ?thesis
  proof (cases "fd ?c \<ge> 0")
    case True
    hence "filter_mset (\<lambda>f. f \<ge> 0) (mset (map fd (chans s))) = filter_mset (\<lambda>f. f \<ge> 0) (mset (map fd ((chans s)[i := ?d]))) + {#fd ?c#}"
      using held_upd [OF i, of ?d] by simp
    with s True keep show ?thesis
      unfolding fds_ok_def held_fds_def chan_close_pty_def Let_def by (simp) metis
  next
    case False
    hence "filter_mset (\<lambda>f. f \<ge> 0) (mset (map fd (chans s))) = filter_mset (\<lambda>f. f \<ge> 0) (mset (map fd ((chans s)[i := ?d])))"
      using held_upd [OF i, of ?d] by simp
    with s False keep show ?thesis
      unfolding fds_ok_def held_fds_def chan_close_pty_def Let_def by (simp) metis
  qed
qed

lemma fd_close_pty: "i < length (chans s) \<Longrightarrow> fd (chans (chan_close_pty (Ch i) s) ! i) = -1 \<and> length (chans (chan_close_pty (Ch i) s)) = length (chans s)"
  by (simp add: chan_close_pty_def Let_def)

lemma fds_open_pty:
  assumes s: "fds_ok s" and i: "i < length (chans s)" and c: "fd (chans s ! i) < 0"
  shows "fds_ok (snd (chan_open_pty (Ch i) s))"
proof -
  have ne: "fd c \<ge> 0 \<Longrightarrow> c \<in> set (chans s) \<Longrightarrow> c \<in> set ((chans s)[i := d])" for c d
    using c set_update_other [of c "chans s" i d] by fastforce
  have opened: "fds_ok (upd_chan (Ch i) (\<lambda>c. c\<lparr>fd := int n, slave := path, pending := [], peer_fc := False, local_fc := False\<rparr>)
      (s\<lparr>pty_opens := ps, links := (links s)(link (chans s ! i) \<mapsto> path), fds := int n # fds s\<rparr>))" for n path ps
  proof -
    let ?d = "(chans s ! i)\<lparr>fd := int n, slave := path, pending := [], peer_fc := False, local_fc := False\<rparr>"
    have "filter_mset (\<lambda>f. f \<ge> 0) (mset (map fd ((chans s)[i := ?d]))) = filter_mset (\<lambda>f. f \<ge> 0) (mset (map fd (chans s))) + {#int n#}"
      using held_upd [OF i, of ?d] c by simp
    moreover have "?d \<in> set ((chans s)[i := ?d])" using i by (rule set_update_memI)
    hence "\<exists>c' \<in> set ((chans s)[i := ?d]). link c' = link (chans s ! i) \<and> fd c' \<ge> 0" by (intro bexI [of _ ?d]) simp_all
    ultimately show ?thesis
      using s ne [of _ ?d] unfolding fds_ok_def held_fds_def by (simp) metis
  qed
  have failed: "fds_ok (s\<lparr>pty_opens := ps\<rparr>)" "fds_ok (s\<lparr>pty_opens := ps, links := (links s)(l := None)\<rparr>)" for ps l
    using s by (auto simp: fds_ok_def held_fds_def)
  show ?thesis
    using s opened failed unfolding chan_open_pty_def
    by (auto split: list.split pty_result.split pty_step.split intro!: fds_upd simp del: upd_chan.simps)
qed


lemma fds_view:
  "fds_ok s \<Longrightarrow> serial_fd s' = serial_fd s \<Longrightarrow> chans s' = chans s \<Longrightarrow> links s' = links s \<Longrightarrow> fds s' = fds s \<Longrightarrow> fds_ok s'"
  by (simp add: fds_ok_def held_fds_def)

lemma fds_resolve: "fds_ok s \<Longrightarrow> fds_ok (resolve s)"
  by (erule fds_view) (auto simp: resolve_def setup_complete_def drop_root_def prop_set_def Let_def)

lemma fds_tx: "fds_ok s \<Longrightarrow> fds_ok (snd (tx_frame d c x s))"
  by (erule fds_calm) (rule calm_tx_frame)

lemma fds_send_msc: "fds_ok s \<Longrightarrow> fds_ok (send_msc r b s)"
  unfolding send_msc_def by (rule fds_tx)

lemma fds_app_write: "fds_ok s \<Longrightarrow> fds_ok (app_write r bs s)"
  unfolding app_write_def by (erule fds_view) simp_all

lemma fds_prop_set: "fds_ok s \<Longrightarrow> fds_ok (prop_set k v s)"
  unfolding prop_set_def by (erule fds_view) simp_all

lemma fds_mstate: "fds_ok s \<Longrightarrow> fds_ok (s\<lparr>mstate := m\<rparr>)" "fds_ok s \<Longrightarrow> fds_ok (s\<lparr>pty_writes := w\<rparr>)"
  "fds_ok s \<Longrightarrow> fds_ok (s\<lparr>recovery_escalation_after := t, mstate := m\<rparr>)"
  by (erule fds_view; simp)+

subsection \<open>Nothing is left at the exit\<close>

lemma fds_close_loop:
  "fds_ok s \<Longrightarrow> \<forall>i \<in> set is. i < length (chans s) \<Longrightarrow>
   fds_ok (fold (\<lambda>i s. upd_chan (Ch i) reset_chan (chan_close_pty (Ch i) s)) is s)"
proof (induction "is" arbitrary: s)
  case (Cons i "is")
  have l: "length (chans (upd_chan (Ch i) reset_chan (chan_close_pty (Ch i) s))) = length (chans s)"
    using Cons.prems fd_close_pty [of i s] by simp
  have "fds_ok (upd_chan (Ch i) reset_chan (chan_close_pty (Ch i) s))"
    using Cons.prems by (intro fds_upd fds_close_pty) (auto simp: reset_chan_def)
  with Cons l show ?case by (simp del: upd_chan.simps)
qed simp

lemma fds_close_all: "fds_ok s \<Longrightarrow> fds_ok (close_all_ptys s)"
  unfolding close_all_ptys_def Let_def
  by (rule fds_view [OF fds_close_loop [of s "[0..<length (chans s)]"]]) simp_all

lemma fds_close_serial: "fds_ok s \<Longrightarrow> fds_ok (close_serial s)"
  by (auto simp: fds_ok_def held_fds_def close_serial_def Let_def)

lemma gone_closed: "fds_ok s \<Longrightarrow> gone (close_serial (close_all_ptys s))"
proof -
  assume "fds_ok s"
  hence ok: "fds_ok (close_serial (close_all_ptys s))" by (intro fds_close_serial fds_close_all)
  have fd: "c \<in> set (chans (close_serial (close_all_ptys s))) \<Longrightarrow> fd c = -1" for c
    using idle_closed(1) [of s] by (auto simp: idle_def closed_chan_def)
  hence "filter_mset (\<lambda>f. f \<ge> 0) (mset (map fd (chans (close_serial (close_all_ptys s))))) = {#}"
    by (auto simp: filter_mset_eq_mempty_iff)
  hence "held_fds (close_serial (close_all_ptys s)) = {#}" unfolding held_fds_def idle_closed(2) by (simp only:) simp
  with ok have "fds (close_serial (close_all_ptys s)) = []" by (simp add: fds_ok_def)
  moreover have "links (close_serial (close_all_ptys s)) l = None" for l
  proof (cases "links (close_serial (close_all_ptys s)) l")
    case (Some p)
    with ok obtain c where "c \<in> set (chans (close_serial (close_all_ptys s)))" "fd c \<ge> 0" unfolding fds_ok_def by blast
    thus ?thesis using fd by simp
  qed
  ultimately show ?thesis by (simp add: gone_def)
qed

lemma gone_calm: "gone s \<Longrightarrow> calm s s' \<Longrightarrow> gone s'"
  by (simp add: gone_def calm_def)

lemma gone_report: "fds_ok s \<Longrightarrow> gone (report_and_exit s)"
proof -
  assume "fds_ok s"
  define t where "t = close_serial (close_all_ptys s)"
  define u where "u = wait_ms REPORT_WAIT_MS (prop_set ''vendor.ril.muxreport'' ''1'' (prop_set ''vendor.ril.mux.report.case'' ''1'' t))"
  obtain b v where v: "look_signal u = (b, v)" by fastforce
  have "gone t" unfolding t_def by (rule gone_closed) fact
  moreover have p: "calm x (prop_set ''vendor.ril.muxreport'' ''1'' (prop_set ''vendor.ril.mux.report.case'' k x))" for k x
    by (rule calm_trans; rule calm_prop_set; simp add: radio_prop_def)
  have "calm t v" using p calm_wait_ms calm_look_signal [OF v] unfolding u_def by (blast intro: calm_trans)
  ultimately show ?thesis
    unfolding report_and_exit_def Let_def t_def [symmetric] u_def [symmetric] v prod.case
    using p by (auto intro: gone_calm)
qed

lemma gone_exception: "fds_ok s \<Longrightarrow> gone (modem_exception_exit s)"
  unfolding modem_exception_exit_def by (intro gone_closed fds_prop_set)


subsection \<open>Every handler keeps the account\<close>

lemma fds_opened:
  "chan_open_pty (Ch i) s = (ok, s') \<Longrightarrow> fds_ok s \<Longrightarrow> i < length (chans s) \<Longrightarrow> fd (chans s ! i) < 0 \<Longrightarrow> fds_ok s'"
  by (metis snd_conv fds_open_pty)

lemma fds_reopen:
  assumes s: "fds_ok s" and i: "i < length (chans s)"
  shows "holds fds_ok gone (chan_reopen (Ch i) s)"
proof -
  define t where "t = (if local_fc (chans s ! i) then send_msc (Ch i) False (chan_close_pty (Ch i) s) else chan_close_pty (Ch i) s)"
  have c: "calm (chan_close_pty (Ch i) s) t" by (simp add: t_def send_msc_def calm_tx_frame)
  have t: "fds_ok t" by (rule fds_calm [OF fds_close_pty [OF s i] c])
  have f: "fd (chans t ! i) = -1" "length (chans t) = length (chans s)" using fd_close_pty [OF i] calm_fields [OF c] by simp_all
  obtain ok u where u: "chan_open_pty (Ch i) t = (ok, u)" by fastforce
  have "fds_ok u" using fds_opened [OF u t] f i by simp
  thus ?thesis
    unfolding chan_reopen_def Let_def chan_at.simps t_def [symmetric] u prod.case by (simp add: gone_report)
qed

lemma fds_drain_loop: "fds_ok s \<Longrightarrow> i < length (chans s) \<Longrightarrow> holds fds_ok gone (drain_loop ws (Ch i) s)"
proof (induction ws arbitrary: s)
  case Nil
  thus ?case
    by (cases "pending (chans s ! i) = []")
      (auto simp: drain_loop_done drain_loop_steps intro!: fds_send_msc fds_upd fds_mstate simp del: upd_chan.simps)
next
  case (Cons w ws)
  have took: "fds_ok (upd_chan (Ch i) (\<lambda>c. c\<lparr>pending := drop n (pending c)\<rparr>) (app_write (Ch i) bs s))" for n bs
    using Cons.prems by (intro fds_upd fds_app_write) auto
  have l: "length (chans (app_write (Ch i) bs s)) = length (chans s)" for bs by (simp add: app_write_def)
  show ?case
  proof (cases "pending (chans s ! i) = []")
    case True
    thus ?thesis using Cons.prems
      by (auto simp: drain_loop_done intro!: fds_send_msc fds_upd fds_mstate simp del: upd_chan.simps)
  next
    case False
    thus ?thesis using Cons took
      by (cases w) (auto simp: drain_loop_steps l intro!: fds_reopen fds_mstate simp del: upd_chan.simps)
  qed
qed

lemma fds_deliver:
  assumes s: "fds_ok s" and i: "i < length (chans s)"
  shows "holds fds_ok gone (deliver (Ch i) data s)"
proof -
  obtain out rest failed ws where d: "deliver_loop (pty_writes s) [] data = (out, rest, failed, ws)" by (metis prod_cases4)
  define t where "t = app_write (Ch i) out (s\<lparr>pty_writes := ws\<rparr>)"
  have t: "fds_ok t" "length (chans t) = length (chans s)"
    using s by (simp_all add: t_def fds_app_write fds_mstate) (simp add: app_write_def)
  show ?thesis
    using s t i unfolding deliver_def Let_def d prod.case t_def [symmetric]
    by (auto intro!: fds_reopen fds_send_msc fds_upd simp del: upd_chan.simps)
qed

lemma fds_recover:
  assumes s: "fds_ok s" shows "fds_ok (chan_recover (Ch i) s)"
proof -
  define t where "t = upd_chan (Ch i) (\<lambda>c. c\<lparr>pending := [], peer_fc := False, local_fc := False, refused := False,
                                     sabm_sent := False, disc_sent := False\<rparr>) s"
  obtain n u where n: "now_ms t = (n, u)" by fastforce
  have t: "fds_ok t" unfolding t_def by (rule fds_upd [OF s]) simp_all
  have u: "fds_ok u" by (rule fds_calm [OF t calm_now_ms [OF n]])
  show ?thesis
    using s t n fds_upd [OF u, of "\<lambda>c. c\<lparr>reopen_deadline := n + REOPEN_RETRY_MS\<rparr>" i]
    unfolding chan_recover_def Let_def t_def [symmetric] by (simp del: upd_chan.simps)
qed

lemma fds_on_ua: "fds_ok s \<Longrightarrow> r = Ctl \<or> (\<exists>i < N. r = Ch i) \<Longrightarrow> fds_ok (on_ua r s)"
  unfolding on_ua_def Let_def
  by (auto intro!: fds_upd fds_upd_Ctl fds_resolve simp del: upd_chan.simps)

lemma fds_on_dm: "fds_ok s \<Longrightarrow> r = Ctl \<or> (\<exists>i < N. r = Ch i) \<Longrightarrow> fds_ok (on_dm r s)"
  unfolding on_dm_def Let_def
  by (auto intro!: fds_upd fds_upd_Ctl fds_resolve fds_recover fds_prop_set fds_mstate simp del: upd_chan.simps)

lemma fds_on_disc: "fds_ok s \<Longrightarrow> q = None \<or> q = Some Ctl \<or> (\<exists>i < N. q = Some (Ch i)) \<Longrightarrow> fds_ok (on_disc d q s)"
  unfolding on_disc_def Let_def
  by (auto intro!: fds_upd fds_upd_Ctl fds_recover fds_tx fds_mstate simp del: upd_chan.simps)

lemma fds_on_sabm:
  assumes s: "fds_ok s" and q: "q = None \<or> q = Some Ctl \<or> (\<exists>i < length (chans s). q = Some (Ch i))"
  shows "fds_ok (on_sabm d q s)"
  using q
proof (elim disjE exE conjE)
  fix i assume i: "i < length (chans s)" and q: "q = Some (Ch i)"
  obtain ok t where t: "(if fd (chans s ! i) < 0 then chan_open_pty (Ch i) s else (True, s)) = (ok, t)" by fastforce
  have "fds_ok t" using t s i by (auto split: if_splits intro: fds_opened)
  thus ?thesis
    unfolding on_sabm_def q Let_def
    by (auto simp: t intro!: fds_tx fds_resolve fds_upd simp del: upd_chan.simps)
qed (use s in \<open>auto simp: on_sabm_def Let_def intro!: fds_tx fds_resolve fds_upd_Ctl simp del: upd_chan.simps\<close>)


lemma fds_recovery_attempt:
  assumes s: "fds_ok s" shows "fds_ok (recovery_attempt now i s)"
proof -
  define t where "t = upd_chan (Ch i) (\<lambda>c. c\<lparr>reopen_attempts := reopen_attempts c + 1\<rparr>) s"
  obtain sent u where u: "(if txq_room t \<ge> FRAME_OVERHEAD then tx_frame (dlci (chans t ! i)) (CTRL_SABM OR CTRL_PF) [] t else (False, t)) = (sent, u)"
    by fastforce
  have t: "fds_ok t" unfolding t_def by (rule fds_upd [OF s]) simp_all
  have "calm t u" using u calm_tx_frame [of t "dlci (chans t ! i)" "CTRL_SABM OR CTRL_PF" "[]"] by (auto split: if_splits)
  hence "fds_ok u" by (rule fds_calm [OF t])
  thus ?thesis
    unfolding recovery_attempt_def Let_def t_def [symmetric] u by (auto intro!: fds_upd simp del: upd_chan.simps)
qed

lemma fds_recovery_loop: "fds_ok s \<Longrightarrow> fds_ok (snd (recovery_loop now is t s))"
proof (induction "is" arbitrary: t s)
  case (Cons i "is")
  have 1: "fds_ok (upd_chan (Ch i) (\<lambda>c. c\<lparr>sabm_sent := False\<rparr>) s)" by (rule fds_upd [OF Cons.prems]) simp_all
  have "fds_ok (upd_chan (Ch i) (\<lambda>c. c\<lparr>reopen_deadline := d\<rparr>) (upd_chan (Ch i) (\<lambda>c. c\<lparr>sabm_sent := False\<rparr>) s))" for d
    by (rule fds_upd [OF 1]) simp_all
  with 1 Cons show ?case
    by (auto simp: Let_def intro!: fds_mstate fds_recovery_attempt simp del: upd_chan.simps)
qed simp

lemma fds_recovery: "fds_ok s \<Longrightarrow> fds_ok (snd (recovery_timeout t s))"
  unfolding recovery_timeout_def
  by (auto split: prod.split dest!: calm_now_ms intro!: fds_recovery_loop intro: fds_calm)

lemma fds_disc_chan: "fds_ok s \<Longrightarrow> fds_ok (disc_chan i s)"
  unfolding disc_chan_def by (auto intro!: fds_tx fds_upd simp del: upd_chan.simps)

lemma fds_open_serial: "fds_ok s \<Longrightarrow> serial_fd s < 0 \<Longrightarrow> fds_ok (snd (open_serial s))"
  by (auto simp: open_serial_def fds_ok_def held_fds_def split: list.split)

lemma fds_open_loop:
  "fds_ok s \<Longrightarrow> \<forall>i \<in> set is. i < length (chans s) \<and> fd (chans s ! i) < 0 \<Longrightarrow> distinct is \<Longrightarrow> fds_ok (snd (chan_open_loop is s))"
proof (induction "is" arbitrary: s)
  case (Cons i "is")
  have i: "i < length (chans s)" "fd (chans s ! i) < 0" using Cons.prems by auto
  obtain ok t where t: "chan_open_pty (Ch i) s = (ok, t)" by fastforce
  have ft: "fds_ok t" by (rule fds_opened [OF t Cons.prems(1) i])
  have same: "length (chans t) = length (chans s)" "j \<noteq> i \<Longrightarrow> chans t ! j = chans s ! j" for j
    using t by (auto simp: chan_open_pty_def split: list.splits pty_result.splits pty_step.splits)
  define u where "u = upd_chan (Ch i) (\<lambda>c. c\<lparr>sabm_sent := True\<rparr>) t"
  define v where "v = snd (tx_frame (dlci (chans u ! i)) (CTRL_SABM OR CTRL_PF) [] u)"
  have v: "chans v = chans u" using calm_tx_frame [of u] by (simp add: v_def calm_def)
  have "fds_ok v" unfolding v_def u_def by (intro fds_tx fds_upd ft) simp_all
  moreover have "\<forall>j \<in> set is. j < length (chans v) \<and> fd (chans v ! j) < 0"
  proof
    fix j assume j: "j \<in> set is"
    hence "j \<noteq> i" using Cons.prems(3) by auto
    thus "j < length (chans v) \<and> fd (chans v ! j) < 0" using Cons.prems(2) same j by (simp add: v u_def)
  qed
  ultimately have "fds_ok (snd (chan_open_loop is v))" using Cons.prems(3) by (intro Cons.IH) auto
  thus ?case unfolding chan_open_loop.simps t prod.case Let_def u_def [symmetric] v_def [symmetric] using ft by simp
qed simp

lemma fds_mux_open:
  assumes s: "fds_ok s" and idle: "idle s" and m: "mux_open s = (ok, s')"
  shows "fds_ok s'"
proof -
  define a where "a = s\<lparr>setup_done := False, mstate := ST_SETUP, unresolved := int (length (chans s)) + 1\<rparr>"
  obtain n b where n: "now_ms a = (n, b)" by fastforce
  define c where "c = upd_chan Ctl (\<lambda>c. c\<lparr>sabm_sent := True\<rparr>) (b\<lparr>setup_deadline := n + SETUP_TIMEOUT_MS\<rparr>)"
  define d where "d = snd (tx_frame 0 (CTRL_SABM OR CTRL_PF) [] c)"
  have a: "fds_ok a" using s by (rule fds_view) (simp_all add: a_def)
  have b: "fds_ok b" by (rule fds_calm [OF a calm_now_ms [OF n]])
  have cb: "chans b = chans s" using calm_now_ms [OF n] by (simp add: calm_def a_def)
  have fd: "fds_ok d" unfolding d_def c_def by (rule fds_tx, rule fds_upd_Ctl, rule fds_view [OF b]) simp_all
  have cd: "chans d = chans s" using calm_tx_frame [of c] by (simp add: d_def calm_def c_def cb)
  have "fds_ok (snd (chan_open_loop [0..<length (chans d)] d))"
    using idle by (intro fds_open_loop [OF fd]) (auto simp: cd idle_def closed_chan_def)
  moreover obtain ok' e where e: "chan_open_loop [0..<length (chans d)] d = (ok', e)" by fastforce
  moreover have "ok' \<Longrightarrow> calm e s'" "\<not> ok' \<Longrightarrow> s' = e"
    using m unfolding mux_open_def Let_def a_def [symmetric] n prod.case c_def [symmetric] d_def [symmetric] e
    by (auto dest: calm_tx_flush)
  ultimately show ?thesis using fds_calm by (cases ok') auto
qed

lemma fds_flags:
  "fds_ok s \<Longrightarrow> r = Ctl \<or> (\<exists>i < N. r = Ch i) \<Longrightarrow> fds_ok (upd_chan r (\<lambda>c. c\<lparr>peer_fc := b\<rparr>) s)"
  "fds_ok s \<Longrightarrow> fds_ok (upd_chan (Ch i) (\<lambda>c. c\<lparr>refused_logged := True\<rparr>) s)"
  by (auto intro!: fds_upd fds_upd_Ctl simp del: upd_chan.simps)

interpretation res: mux_invariant "\<lambda>s. wf_mux N s \<and> fds_ok s" gone N for N
proof unfold_locales
  fix s :: mux and d :: u8 and r assume "wf_mux N s \<and> fds_ok s" "d < 64" "by_dlci s ! unat d = Some r"
  thus "(r = Ctl \<and> d = 0) \<or> (\<exists>i < N. r = Ch i \<and> d \<noteq> 0)" using wf.ref_I [of N s d r] by simp
next
  fix s i assume s: "wf_mux N s \<and> fds_ok s" and i: "i < N"
  hence l: "i < length (chans s)" using wf_chan_at by blast
  show "holds (\<lambda>s. wf_mux N s \<and> fds_ok s) gone (chan_reopen (Ch i) s)"
    using s i l by (intro holds_conj wf_reopen fds_reopen) auto
  show "holds (\<lambda>s. wf_mux N s \<and> fds_ok s) gone (chan_drain (Ch i) s)"
    using s i l fds_drain_loop [of s i "pty_writes s"] by (intro holds_conj wf_drain) (auto simp: chan_drain_def)
  show "holds (\<lambda>s. wf_mux N s \<and> fds_ok s) gone (deliver (Ch i) data s)" if "length data \<le> frame_size s" for data
    using s i l that by (intro holds_conj wf_deliver fds_deliver) auto
next
  fix s q and d :: u8 assume s: "wf_mux N s \<and> fds_ok s" and q: "q = None \<or> q = Some Ctl \<or> (\<exists>i < N. q = Some (Ch i))" and "\<not> closing s"
  thus "wf_mux N (on_disc d q s) \<and> fds_ok (on_disc d q s)" by (auto intro: wf_on_disc fds_on_disc)
  show "wf_mux N (on_sabm d q s) \<and> fds_ok (on_sabm d q s)" using s q wf_length [of N s] by (auto intro: wf_on_sabm fds_on_sabm)
next
  fix s s' ok assume s: "wf_mux N s \<and> fds_ok s" "idle s"
  show "wf_mux N s' \<and> fds_ok s'" if "mux_open s = (True, s')"
    using s that wf.mux_open_I fds_mux_open by blast
  show "gone (report_and_exit s')" if "mux_open s = (False, s')"
    using s that fds_mux_open gone_report by blast
qed (auto simp: graceful_exit_def simp del: upd_chan.simps intro: wf_length wf_flags fds_flags wf_calm fds_calm wf_state fds_mstate
    gone_report gone_exception gone_closed wf_on_ua fds_on_ua wf_on_dm fds_on_dm wf_recovery fds_recovery wf_disc_chan
    fds_disc_chan wf_open_serial fds_open_serial wf_shut fds_close_serial fds_close_all)

end
