(* ===== verification/Mux_Setup.thy ===== *)
theory Mux_Setup
  imports Mux_Properties
begin

text \<open>
  Setting the channels of the modem multiplexer up: \<open>unresolved\<close> counts the channels that wait for their first answer, the
  setup is finished when none does, and the radio interface is started then and only once.
\<close>

definition first_wait :: "chan \<Rightarrow> bool" where
  "first_wait c \<longleftrightarrow> sabm_sent c \<and> reopen_attempts c = 0"

definition waiting :: "mux \<Rightarrow> nat" where
  "waiting s = length (filter first_wait (ctl s # chans s))"

definition setup_ok :: "mux \<Rightarrow> bool" where
  "setup_ok s \<longleftrightarrow> closing s \<or> int (waiting s) \<le> unresolved s \<and> (setup_done s \<longrightarrow> waiting s = 0)"

text \<open>The radio interface: started once, then told of every later setup.\<close>

definition radio_log :: "nat \<Rightarrow> (string \<times> string) list" where
  "radio_log k = [(''vendor.ril.mux.start'', ''1''), (''vendor.ril.mtk'', ''1'')] @ replicate k (''vendor.ril.mtk.restart'', ''1'')"

definition radio_ok :: "mux \<Rightarrow> bool" where
  "radio_ok s \<longleftrightarrow> (if ril_started s then \<exists>k. radio_props s = radio_log k else radio_props s = [])"

text \<open>Steps in which no channel gets its first answer.\<close>

definition steady :: "mux \<Rightarrow> mux \<Rightarrow> bool" where
  "steady s s' \<longleftrightarrow>
     mstate s' = mstate s \<and> unresolved s' = unresolved s \<and> setup_done s' = setup_done s \<and> ril_started s' = ril_started s \<and>
     radio_props s' = radio_props s \<and> first_wait (ctl s') = first_wait (ctl s) \<and> map first_wait (chans s') = map first_wait (chans s)"

lemma steady_trans [trans]: "steady s t \<Longrightarrow> steady t u \<Longrightarrow> steady s u"
  by (simp add: steady_def)

lemma steady_refl [simp]: "steady s s"
  by (simp add: steady_def)

lemma calm_steady: "calm s s' \<Longrightarrow> steady s s'"
  by (simp add: calm_def steady_def)

lemma filter_by_map: "map f xs = map f ys \<Longrightarrow> length (filter f xs) = length (filter f ys)"
proof (induction xs arbitrary: ys)
  case (Cons x xs)
  thus ?case by (cases ys) auto
qed simp

lemma steady_waiting: "steady s s' \<Longrightarrow> waiting s' = waiting s"
  using filter_by_map [of first_wait "chans s'" "chans s"] by (auto simp: waiting_def steady_def)

lemma steady_ok: "setup_ok s \<and> radio_ok s \<Longrightarrow> steady s s' \<Longrightarrow> setup_ok s' \<and> radio_ok s'"
  using steady_waiting [of s s'] by (auto simp: setup_ok_def radio_ok_def steady_def closing_def)

lemma steady_upd:
  "first_wait (f (chans s ! i)) = first_wait (chans s ! i) \<Longrightarrow> steady s (upd_chan (Ch i) f s)"
  by (cases "i < length (chans s)") (simp_all add: steady_def map_update list_update_same_conv list_update_beyond radio_props_def)

lemma steady_upd_Ctl: "first_wait (f (ctl s)) = first_wait (ctl s) \<Longrightarrow> steady s (upd_chan Ctl f s)"
  by (simp add: steady_def radio_props_def)

lemma steady_tx: "steady s (snd (tx_frame d c x s))"
  by (rule calm_steady) (rule calm_tx_frame)

lemma steady_send_msc: "steady s (send_msc r b s)"
  unfolding send_msc_def by (rule steady_tx)

lemma steady_close_pty: "steady s (chan_close_pty (Ch i) s)"
proof -
  let ?t = "if fd (chans s ! i) \<ge> 0 then s\<lparr>links := (links s)(link (chans s ! i) := None), fds := remove1 (fd (chans s ! i)) (fds s)\<rparr> else s"
  have "steady s ?t" by (simp add: steady_def radio_props_def)
  also have "steady ?t (chan_close_pty (Ch i) s)"
    unfolding chan_close_pty_def Let_def chan_at.simps by (rule steady_upd) (simp add: first_wait_def)
  finally show ?thesis .
qed

lemma steady_open_pty: "chan_open_pty (Ch i) s = (ok, s') \<Longrightarrow> steady s s'"
  unfolding chan_open_pty_def
  by (cases "i < length (chans s)")
    (auto simp: steady_def first_wait_def radio_props_def map_update list_update_same_conv list_update_beyond
      split: list.splits pty_result.splits pty_step.splits)

definition same_radio :: "mux \<Rightarrow> mux \<Rightarrow> bool" where
  "same_radio s s' \<longleftrightarrow> ril_started s' = ril_started s \<and> radio_props s' = radio_props s"

lemma same_radio_ok: "radio_ok s \<Longrightarrow> same_radio s s' \<Longrightarrow> radio_ok s'"
  by (auto simp: same_radio_def radio_ok_def)

lemma same_radio_closed: "same_radio s (close_serial (close_all_ptys s))"
  using shut_loop [of "length (chans s)" s]
  by (auto simp: same_radio_def close_serial_def close_all_ptys_def Let_def radio_props_def simp del: upd_chan.simps)

lemma same_radio_report: "same_radio s (report_and_exit s)"
proof -
  define t where "t = close_serial (close_all_ptys s)"
  define u where "u = wait_ms REPORT_WAIT_MS (prop_set ''vendor.ril.muxreport'' ''1'' (prop_set ''vendor.ril.mux.report.case'' ''1'' t))"
  obtain b v where v: "look_signal u = (b, v)" by fastforce
  have p: "calm x (prop_set ''vendor.ril.muxreport'' ''1'' (prop_set ''vendor.ril.mux.report.case'' k x))" for k x
    by (rule calm_trans; rule calm_prop_set; simp add: radio_prop_def)
  have "calm t v" using p calm_wait_ms calm_look_signal [OF v] unfolding u_def by (blast intro: calm_trans)
  with p have "calm t (report_and_exit s)"
    unfolding report_and_exit_def Let_def t_def [symmetric] u_def [symmetric] v prod.case by (auto intro: calm_trans)
  thus ?thesis using same_radio_closed [of s] by (auto simp: t_def same_radio_def calm_def)
qed

lemma steady_radio: "steady s t \<Longrightarrow> same_radio t u \<Longrightarrow> same_radio s u"
  by (simp add: steady_def same_radio_def)

lemma steady_holds_trans: "steady s t \<Longrightarrow> holds (steady t) (same_radio t) p \<Longrightarrow> holds (steady s) (same_radio s) p"
  by (erule holds_mono) (auto intro: steady_trans steady_radio)

lemma steady_reopen: "holds (steady s) (same_radio s) (chan_reopen (Ch i) s)"
proof -
  define t where "t = (if local_fc (chans s ! i) then send_msc (Ch i) False (chan_close_pty (Ch i) s) else chan_close_pty (Ch i) s)"
  obtain ok u where u: "chan_open_pty (Ch i) t = (ok, u)" by fastforce
  have "steady s t" using steady_close_pty steady_trans [OF steady_close_pty steady_send_msc] by (auto simp: t_def)
  hence "steady s u" using steady_open_pty [OF u] by (rule steady_trans)
  thus ?thesis
    unfolding chan_reopen_def Let_def chan_at.simps t_def [symmetric] u prod.case
    by (auto intro: steady_radio same_radio_report)
qed


lemma steady_misc: "steady s (s\<lparr>pty_writes := w\<rparr>)" "steady s (app_write r bs s)" "steady s (s\<lparr>recovery_escalation_after := t\<rparr>)"
  by (simp_all add: steady_def radio_props_def app_write_def)

lemma steady_drain_loop: "holds (steady s) (same_radio s) (drain_loop ws (Ch i) s)"
proof (induction ws arbitrary: s)
  case Nil
  have u: "steady s (upd_chan (Ch i) (\<lambda>c. c\<lparr>local_fc := False\<rparr>) (s\<lparr>pty_writes := []\<rparr>))"
    by (rule steady_trans [OF steady_misc(1)], rule steady_upd) (simp add: first_wait_def)
  show ?case
    by (cases "pending (chans s ! i) = []")
      (auto simp: drain_loop_done drain_loop_steps steady_misc intro: steady_trans [OF u steady_send_msc] simp del: upd_chan.simps)
next
  case (Cons w ws)
  have u: "steady s (upd_chan (Ch i) (\<lambda>c. c\<lparr>local_fc := False\<rparr>) (s\<lparr>pty_writes := x\<rparr>))" for x
    by (rule steady_trans [OF steady_misc(1)], rule steady_upd) (simp add: first_wait_def)
  have took: "steady s (upd_chan (Ch i) (\<lambda>c. c\<lparr>pending := drop n (pending c)\<rparr>) (app_write (Ch i) bs s))" for n bs
    by (rule steady_trans [OF steady_misc(2)], rule steady_upd) (simp add: first_wait_def)
  show ?case
  proof (cases "pending (chans s ! i) = []")
    case True
    thus ?thesis
      by (auto simp: drain_loop_done steady_misc intro: steady_trans [OF u steady_send_msc] simp del: upd_chan.simps)
  next
    case False
    thus ?thesis
      using Cons.IH steady_holds_trans [OF took Cons.IH] steady_holds_trans [OF steady_misc(1) steady_reopen]
      by (cases w) (auto simp: drain_loop_steps steady_misc simp del: upd_chan.simps)
  qed
qed

lemma steady_deliver: "holds (steady s) (same_radio s) (deliver (Ch i) data s)"
proof -
  obtain out rest failed ws where d: "deliver_loop (pty_writes s) [] data = (out, rest, failed, ws)" by (metis prod_cases4)
  define t where "t = app_write (Ch i) out (s\<lparr>pty_writes := ws\<rparr>)"
  have t: "steady s t" unfolding t_def by (rule steady_trans [OF steady_misc(1,2)])
  have 1: "steady s (upd_chan (Ch i) (\<lambda>c. c\<lparr>pending := rest\<rparr>) t)"
    by (rule steady_trans [OF t], rule steady_upd) (simp add: first_wait_def)
  have 2: "steady s (upd_chan (Ch i) (\<lambda>c. c\<lparr>local_fc := True\<rparr>) (upd_chan (Ch i) (\<lambda>c. c\<lparr>pending := rest\<rparr>) t))"
    by (rule steady_trans [OF 1], rule steady_upd) (simp add: first_wait_def)
  have 3: "steady s (upd_chan (Ch i) (\<lambda>c. c\<lparr>pending := pending c @ data\<rparr>) s)"
    by (rule steady_upd) (simp add: first_wait_def)
  show ?thesis
    unfolding deliver_def Let_def d prod.case t_def [symmetric]
    using t 1 3 steady_holds_trans [OF t steady_reopen, of i]
    by (auto intro: steady_trans [OF 2 steady_send_msc] simp del: upd_chan.simps)
qed

subsection \<open>Answers\<close>

lemma waiting_upd:
  assumes "i < length (chans s)" "first_wait (chans s ! i)" "\<not> first_wait (f (chans s ! i))"
  shows "waiting s = Suc (waiting (upd_chan (Ch i) f s))"
proof -
  have "length (filter first_wait (chans s)) = length (filter first_wait (take i (chans s) @ chans s ! i # drop (Suc i) (chans s)))"
    by (simp only: id_take_nth_drop [OF assms(1), symmetric])
  thus ?thesis using assms by (simp add: waiting_def upd_conv_take_nth_drop)
qed

lemma waiting_upd_Ctl: "first_wait (ctl s) \<Longrightarrow> \<not> first_wait (f (ctl s)) \<Longrightarrow> waiting s = Suc (waiting (upd_chan Ctl f s))"
  by (simp add: waiting_def)

lemma resolve_ok:
  assumes "\<not> closing s" "int (Suc (waiting s)) \<le> unresolved s" "\<not> setup_done s" "radio_ok s"
  shows "setup_ok (resolve s) \<and> radio_ok (resolve s)"
proof -
  have w: "waiting (t\<lparr>unresolved := x\<rparr>) = waiting t" "waiting (setup_complete t) = waiting t" for t x
    by (simp_all add: waiting_def setup_complete_def drop_root_def prop_set_def Let_def)
  have r: "radio_ok (setup_complete t)" if ok: "radio_ok t" for t
  proof (cases "ril_started t")
    case True
    with ok obtain k where k: "radio_props t = radio_log k" by (auto simp: radio_ok_def)
    show ?thesis
    proof (cases "setup_done t")
      case False
      hence "radio_props (setup_complete t) = radio_props t @ [(''vendor.ril.mtk.restart'', ''1'')]" "ril_started (setup_complete t)"
        using True by (simp_all add: radio_props_def setup_complete_def prop_set_def radio_prop_def Let_def)
      thus ?thesis unfolding radio_ok_def k by (auto simp: radio_log_def replicate_append_same intro!: exI [of _ "Suc k"])
    qed (use ok in \<open>simp add: setup_complete_def\<close>)
  next
    case False
    hence "\<not> setup_done t \<Longrightarrow> radio_props (setup_complete t) = radio_log 0" "\<not> setup_done t \<Longrightarrow> ril_started (setup_complete t)"
      using ok by (simp_all add: radio_ok_def radio_props_def setup_complete_def drop_root_def prop_set_def radio_prop_def radio_log_def Let_def)
    moreover have "setup_done t \<Longrightarrow> setup_complete t = t" by (simp add: setup_complete_def)
    ultimately show ?thesis using ok by (cases "setup_done t") (auto simp: radio_ok_def)
  qed
  have c: "setup_done (setup_complete t)" "unresolved (setup_complete t) = unresolved t" for t
    by (auto simp: setup_complete_def drop_root_def prop_set_def Let_def)
  have r2: "radio_ok (s\<lparr>unresolved := x\<rparr>)" for x
    by (rule same_radio_ok [OF assms(4)]) (simp add: same_radio_def radio_props_def)
  show ?thesis
    using assms r [OF r2] r2 by (auto simp: resolve_def Let_def setup_ok_def w c closing_def)
qed


text \<open>A channel gets its first answer.\<close>

lemma answer_ok:
  assumes s: "setup_ok s \<and> radio_ok s" and run: "\<not> closing s"
    and r: "r = Ctl \<or> (\<exists>i < length (chans s). r = Ch i)" and w: "first_wait (chan_at s r)" "\<not> first_wait (f (chan_at s r))"
    and t: "steady (upd_chan r f s) t"
  shows "setup_ok (resolve t) \<and> radio_ok (resolve t)"
proof -
  have n: "waiting s = Suc (waiting (upd_chan r f s))"
    using r w waiting_upd [of _ s f] waiting_upd_Ctl [of s f] by auto
  have "unresolved (upd_chan r f s) = unresolved s" "setup_done (upd_chan r f s) = setup_done s"
    "ril_started (upd_chan r f s) = ril_started s" "radio_props (upd_chan r f s) = radio_props s"
    by (cases r; simp add: radio_props_def)+
  with t s run n steady_waiting [OF t] show ?thesis
    by (intro resolve_ok) (auto simp: steady_def setup_ok_def radio_ok_def closing_def)
qed

lemma valid_length: "wf_mux N s \<Longrightarrow> r = Ctl \<or> (\<exists>i < N. r = Ch i) \<Longrightarrow> r = Ctl \<or> (\<exists>i < length (chans s). r = Ch i)"
  using wf_length by blast

lemma steady_flag: "(\<And>c. first_wait (f c) = first_wait c) \<Longrightarrow> steady s (upd_chan r f s)"
  by (cases r) (auto intro!: steady_upd steady_upd_Ctl simp del: upd_chan.simps)

lemma steady_flag_at: "first_wait (f (chan_at s r)) = first_wait (chan_at s r) \<Longrightarrow> steady s (upd_chan r f s)"
  by (cases r) (auto intro!: steady_upd steady_upd_Ctl simp del: upd_chan.simps)

lemma setup_on_ua:
  assumes wf: "wf_mux N s" and s: "setup_ok s \<and> radio_ok s" and r: "r = Ctl \<or> (\<exists>i < N. r = Ch i)"
    and closing: "closing s \<longrightarrow> disc_sent (chan_at s r)"
  shows "setup_ok (on_ua r s) \<and> radio_ok (on_ua r s)"
proof -
  have disc: "disc_sent (chan_at s r) \<Longrightarrow> is_open (chan_at s r)"
    using r wf wf_chan [OF wf] by (auto simp: chan_ok_def wf_mux_def ctl_ok_def)
  consider "is_open (chan_at s r)" | "\<not> is_open (chan_at s r)" "first_wait (chan_at s r)"
    | "\<not> is_open (chan_at s r)" "\<not> first_wait (chan_at s r)" by blast
  thus ?thesis
  proof cases
    case 1
    hence "steady s (on_ua r s)" by (auto simp: on_ua_def Let_def intro!: steady_flag simp: first_wait_def simp del: upd_chan.simps)
    with s show ?thesis by (rule steady_ok)
  next
    case 2
    have "\<not> closing s" using 2 disc closing by blast
    thus ?thesis
      using answer_ok [OF s _ valid_length [OF wf r] 2(2), of "\<lambda>c. c\<lparr>sabm_sent := False, is_open := True, reopen_deadline := 0\<rparr>"] 2
      by (auto simp: on_ua_def Let_def first_wait_def simp del: upd_chan.simps)
  next
    case 3
    hence "steady s (on_ua r s)"
      by (auto simp: on_ua_def Let_def intro!: steady_flag_at simp: first_wait_def simp del: upd_chan.simps)
    with s show ?thesis by (rule steady_ok)
  qed
qed

lemma steady_now: "now_ms s = (n, t) \<Longrightarrow> steady s t"
  by (rule calm_steady) (rule calm_now_ms)

lemma steady_recover:
  assumes "\<not> sabm_sent (chan_at s r)" shows "steady s (chan_recover r s)"
proof -
  define t where "t = upd_chan r (\<lambda>c. c\<lparr>pending := [], peer_fc := False, local_fc := False, refused := False,
                                     sabm_sent := False, disc_sent := False\<rparr>) s"
  obtain n u where n: "now_ms t = (n, u)" by fastforce
  have t: "steady s t" unfolding t_def by (rule steady_flag_at) (use assms in \<open>simp add: first_wait_def\<close>)
  have "steady s (upd_chan r (\<lambda>c. c\<lparr>reopen_deadline := n + REOPEN_RETRY_MS\<rparr>) u)"
    using steady_trans [OF steady_trans [OF t steady_now [OF n]] steady_flag] by (simp add: first_wait_def)
  thus ?thesis using t n unfolding chan_recover_def Let_def t_def [symmetric] by simp
qed

lemma closing_ok: "setup_ok s \<and> radio_ok s \<Longrightarrow> closing (s\<lparr>mstate := m\<rparr>) \<Longrightarrow> setup_ok (s\<lparr>mstate := m\<rparr>) \<and> radio_ok (s\<lparr>mstate := m\<rparr>)"
  by (auto simp: setup_ok_def radio_ok_def radio_props_def)

lemma setup_on_dm:
  assumes wf: "wf_mux N s" and s: "setup_ok s \<and> radio_ok s" and r: "r = Ctl \<or> (\<exists>i < N. r = Ch i)" and run: "\<not> closing s"
  shows "setup_ok (on_dm r s) \<and> radio_ok (on_dm r s)"
proof -
  have opened: "is_open (chan_at s r) \<Longrightarrow> \<not> sabm_sent (chan_at s r)"
    using r wf wf_chan [OF wf] by (auto simp: chan_ok_def wf_mux_def ctl_ok_def)
  have valid: "chan_at (upd_chan r f s) r = f (chan_at s r)" for f using valid_length [OF wf r] by auto
  consider "is_open (chan_at s r)" | "\<not> is_open (chan_at s r)" "r = Ctl"
    | "\<not> is_open (chan_at s r)" "r \<noteq> Ctl" "first_wait (chan_at s r)"
    | "\<not> is_open (chan_at s r)" "r \<noteq> Ctl" "\<not> first_wait (chan_at s r)" by blast
  thus ?thesis
  proof cases
    case 1
    define t where "t = upd_chan r (\<lambda>c. c\<lparr>is_open := False, disc_sent := False\<rparr>) s"
    have t: "steady s t" unfolding t_def by (rule steady_flag) (simp add: first_wait_def)
    have "steady s (chan_recover r t)"
      by (rule steady_trans [OF t steady_recover]) (use 1 opened in \<open>simp add: t_def valid\<close>)
    with 1 t s show ?thesis unfolding on_dm_def Let_def t_def [symmetric]
      using closing_ok [OF steady_ok [OF s t]] steady_ok [OF s] by (auto simp: closing_def)
  next
    case 2
    thus ?thesis using s by (auto simp: on_dm_def Let_def intro!: closing_ok simp: closing_def)
  next
    case 3
    define f :: "chan \<Rightarrow> chan" where "f = (\<lambda>c. c\<lparr>sabm_sent := False\<rparr>)"
    have "steady (upd_chan r f s) t" if "t = upd_chan r (\<lambda>c. c\<lparr>refused := True\<rparr>) (upd_chan r f s) \<or>
        t = prop_set ''vendor.lackof.atci.channel'' ''1'' (upd_chan r (\<lambda>c. c\<lparr>refused := True\<rparr>) (upd_chan r f s))" for t
    proof -
      have "steady (upd_chan r f s) (upd_chan r (\<lambda>c. c\<lparr>refused := True\<rparr>) (upd_chan r f s))"
        by (rule steady_flag) (simp add: first_wait_def)
      moreover have "steady x (prop_set ''vendor.lackof.atci.channel'' ''1'' x)" for x
        by (rule calm_steady, rule calm_prop_set) (simp add: radio_prop_def)
      ultimately show ?thesis using that by (auto intro: steady_trans)
    qed
    from answer_ok [OF s run valid_length [OF wf r] 3(3) _ this] 3 show ?thesis
      by (auto simp: on_dm_def Let_def first_wait_def f_def simp del: upd_chan.simps)
  next
    case 4
    hence "steady s (on_dm r s)"
      by (auto simp: on_dm_def Let_def intro!: steady_flag_at simp: first_wait_def simp del: upd_chan.simps)
    with s show ?thesis by (rule steady_ok)
  qed
qed

lemma setup_on_disc:
  assumes wf: "wf_mux N s" and s: "setup_ok s \<and> radio_ok s" and q: "q = None \<or> q = Some Ctl \<or> (\<exists>i < N. q = Some (Ch i))"
  shows "setup_ok (on_disc d q s) \<and> radio_ok (on_disc d q s)"
proof (cases q)
  case None
  thus ?thesis using steady_ok [OF s steady_tx] by (simp add: on_disc_def)
next
  case (Some r)
  hence r: "r = Ctl \<or> (\<exists>i < N. r = Ch i)" using q by auto
  have opened: "is_open (chan_at s r) \<Longrightarrow> \<not> sabm_sent (chan_at s r)"
    using r wf wf_chan [OF wf] by (auto simp: chan_ok_def wf_mux_def ctl_ok_def)
  define t where "t = snd (tx_frame d (CTRL_UA OR CTRL_PF) [] (upd_chan r (\<lambda>c. c\<lparr>is_open := False\<rparr>) s))"
  have t: "steady s t" unfolding t_def by (rule steady_trans [OF steady_flag steady_tx]) (simp add: first_wait_def)
  have "chan_at t r = chan_at (upd_chan r (\<lambda>c. c\<lparr>is_open := False\<rparr>) s) r"
    unfolding t_def by (rule calm_fields(6) [OF calm_tx_frame])
  hence "is_open (chan_at s r) \<Longrightarrow> \<not> sabm_sent (chan_at t r)" using opened valid_length [OF wf r] by auto
  hence "is_open (chan_at s r) \<Longrightarrow> steady s (chan_recover r t)" using steady_trans [OF t steady_recover] by blast
  thus ?thesis
    using closing_ok [OF steady_ok [OF s t]] steady_ok [OF s] steady_tx [of s]
    unfolding on_disc_def Some Let_def option.case t_def [symmetric] by (auto simp: closing_def)
qed

lemma setup_on_sabm:
  assumes wf: "wf_mux N s" and s: "setup_ok s \<and> radio_ok s" and run: "\<not> closing s"
    and q: "q = None \<or> q = Some Ctl \<or> (\<exists>i < N. q = Some (Ch i))"
  shows "setup_ok (on_sabm d q s) \<and> radio_ok (on_sabm d q s)"
proof (cases q)
  case None
  thus ?thesis using steady_ok [OF s steady_tx] by (simp add: on_sabm_def)
next
  case (Some r)
  hence r: "r = Ctl \<or> (\<exists>i < N. r = Ch i)" using q by auto
  obtain ok t where t: "(if r \<noteq> Ctl \<and> fd (chan_at s r) < 0 then chan_open_pty r s else (True, s)) = (ok, t)" by fastforce
  have st: "steady s t" and wt: "wf_mux N t"
    using t r wf by (auto split: if_splits intro: steady_open_pty wf_opened)
  have run: "\<not> closing t" using run st by (simp add: closing_def steady_def)
  note ok_t = steady_ok [OF s st]
  define f g :: "chan \<Rightarrow> chan" where "f = (\<lambda>c. c\<lparr>is_open := True, disc_sent := False, refused := False, refused_logged := False,
                                            reopen_deadline := 0\<rparr>)" and "g = (\<lambda>c. c\<lparr>sabm_sent := False\<rparr>)"
  define u where "u = (if sabm_sent (chan_at t r) then if reopen_attempts (chan_at t r) = 0
      then resolve (upd_chan r (g \<circ> f) t) else upd_chan r (g \<circ> f) t else upd_chan r f t)"
  have fw: "\<not> first_wait (g (f (chan_at t r)))" by (simp add: g_def first_wait_def)
  have u: "setup_ok u \<and> radio_ok u"
  proof (cases "first_wait (chan_at t r)")
    case True
    hence "u = resolve (upd_chan r (g \<circ> f) t)" by (simp add: u_def first_wait_def)
    thus ?thesis using answer_ok [OF ok_t run valid_length [OF wt r] True, of "g \<circ> f"] fw by simp
  next
    case False
    hence "steady t u"
      unfolding u_def by (auto intro!: steady_flag_at simp: first_wait_def f_def g_def simp del: upd_chan.simps)
    with ok_t show ?thesis by (rule steady_ok)
  qed
  show ?thesis
    using steady_ok [OF u steady_tx] steady_ok [OF ok_t steady_tx]
    unfolding on_sabm_def Some option.case t prod.case Let_def f_def [symmetric] g_def [symmetric] upd_chan_twice
    by (simp add: u_def)
qed

subsection \<open>Recovery, opening and closing\<close>

lemma steady_recovery_attempt:
  assumes wf: "wf_mux N s" and i: "i < N" and c: "reopen_deadline (chans s ! i) \<noteq> 0"
  shows "steady s (recovery_attempt now i s)"
proof -
  define t where "t = upd_chan (Ch i) (\<lambda>c. c\<lparr>reopen_attempts := reopen_attempts c + 1\<rparr>) s"
  obtain sent u where u: "(if txq_room t \<ge> FRAME_OVERHEAD then tx_frame (dlci (chans t ! i)) (CTRL_SABM OR CTRL_PF) [] t else (False, t)) = (sent, u)"
    by fastforce
  have f: "\<not> first_wait (chans s ! i)" using wf_chan [OF wf i] c by (auto simp: chan_ok_def first_wait_def)
  have t: "steady s t" unfolding t_def by (rule steady_upd) (use f in \<open>auto simp: first_wait_def\<close>)
  have cu: "calm t u" using u calm_tx_frame [of t "dlci (chans t ! i)" "CTRL_SABM OR CTRL_PF" "[]"] by (auto split: if_splits)
  have "reopen_attempts (chans u ! i) \<noteq> 0"
    using calm_fields(3) [OF cu] wf_chan_at [OF wf i] by (simp add: t_def)
  hence 1: "steady u (upd_chan (Ch i) (\<lambda>c. c\<lparr>sabm_sent := True\<rparr>) u)" by (intro steady_upd) (simp add: first_wait_def)
  have 2: "steady x (upd_chan (Ch i) (\<lambda>c. c\<lparr>reopen_deadline := d\<rparr>) x)" for x d by (rule steady_upd) (simp add: first_wait_def)
  have "steady s u" by (rule steady_trans [OF t calm_steady [OF cu]])
  thus ?thesis
    unfolding recovery_attempt_def Let_def t_def [symmetric] u prod.case
    using steady_trans [OF steady_trans [OF _ 1] 2, of s] steady_trans [OF _ 2, of s u] by (auto simp del: upd_chan.simps)
qed

lemma setup_recovery_loop:
  "wf_mux N s \<Longrightarrow> setup_ok s \<and> radio_ok s \<Longrightarrow> \<forall>i \<in> set is. i < N \<Longrightarrow>
   setup_ok (snd (recovery_loop now is t s)) \<and> radio_ok (snd (recovery_loop now is t s))"
proof (induction "is" arbitrary: t s)
  case (Cons i "is")
  note s = Cons.prems(1,2) and IH = Cons.IH
  have i: "i < N" and rest: "\<forall>j \<in> set is. j < N" using Cons.prems by auto
  define u where "u = upd_chan (Ch i) (\<lambda>c. c\<lparr>sabm_sent := False\<rparr>) s"
  have c: "chan_ok (frame_size s) (chans s ! i)" by (rule wf_chan [OF s(1) i])
  have go: "setup_ok (snd (recovery_loop now is x v)) \<and> radio_ok (snd (recovery_loop now is x v))" if "wf_mux N v" "steady s v" for x v
    using IH [OF that(1) steady_ok [OF s(2) that(2)] rest] by blast
  consider "reopen_deadline (chans s ! i) = 0 \<or> now < reopen_deadline (chans s ! i)"
    | "reopen_deadline (chans s ! i) \<noteq> 0" "\<not> now < reopen_deadline (chans s ! i)" "reopen_attempts (chans s ! i) = REOPEN_ATTEMPTS"
    | "reopen_deadline (chans s ! i) \<noteq> 0" "\<not> now < reopen_deadline (chans s ! i)" "reopen_attempts (chans s ! i) \<noteq> REOPEN_ATTEMPTS"
    by blast
  thus ?case
  proof cases
    case 1
    thus ?thesis using go [OF s(1) steady_refl] by (auto simp: Let_def)
  next
    case 2
    have st: "steady s u" unfolding u_def by (rule steady_upd) (use 2 c in \<open>auto simp: first_wait_def chan_ok_def\<close>)
    have sv: "steady s (upd_chan (Ch i) (\<lambda>c. c\<lparr>reopen_deadline := d\<rparr>) u)" for d
      by (rule steady_trans [OF st], rule steady_upd) (simp add: first_wait_def)
    have wv: "wf_mux N (upd_chan (Ch i) (\<lambda>c. c\<lparr>reopen_deadline := d\<rparr>) u)" for d
      unfolding u_def upd_chan_twice by (rule wf_upd [OF s(1) i]) (use c 2 in \<open>auto simp: chan_ok_def\<close>)
    have "setup_ok (u\<lparr>recovery_escalation_after := d, mstate := ST_CLOSING\<rparr>) \<and>
        radio_ok (u\<lparr>recovery_escalation_after := d, mstate := ST_CLOSING\<rparr>)" for d
      by (rule closing_ok [OF steady_ok [OF s(2) steady_trans [OF st steady_misc(3)]]]) (simp add: closing_def)
    thus ?thesis using go [OF wv sv] 2 by (simp add: Let_def u_def [symmetric] del: upd_chan.simps)
  next
    case 3
    show ?thesis
      using go [OF wf_recovery_attempt [OF s(1) i 3(1,3)] steady_recovery_attempt [OF s(1) i 3(1)]] 3 by (simp add: Let_def)
  qed
qed simp

lemma setup_recovery:
  assumes wf: "wf_mux N s" and s: "setup_ok s \<and> radio_ok s"
  shows "setup_ok (snd (recovery_timeout t s)) \<and> radio_ok (snd (recovery_timeout t s))"
proof -
  obtain n u where n: "now_ms s = (n, u)" by fastforce
  have u: "wf_mux N u" by (rule wf_calm [OF wf calm_now_ms [OF n]])
  show ?thesis unfolding recovery_timeout_def n prod.case wf_length [OF u]
    by (rule setup_recovery_loop [OF u steady_ok [OF s steady_now [OF n]]]) simp
qed

lemma steady_disc_chan: "steady s (disc_chan i s)"
proof -
  have "steady s (upd_chan (Ch i) (\<lambda>c. c\<lparr>disc_sent := True\<rparr>) s)" by (rule steady_upd) (simp add: first_wait_def)
  thus ?thesis unfolding disc_chan_def using steady_trans [OF _ steady_tx] by simp
qed

lemma steady_open_serial: "steady s (snd (open_serial s))"
  by (auto simp: open_serial_def steady_def radio_props_def split: list.split)

lemma setup_closed:
  assumes "setup_ok s \<and> radio_ok s"
  shows "setup_ok (close_serial (close_all_ptys s)) \<and> radio_ok (close_serial (close_all_ptys s))"
proof -
  let ?t = "close_serial (close_all_ptys s)"
  obtain l f where 1: "fold (\<lambda>i s. upd_chan (Ch i) reset_chan (chan_close_pty (Ch i) s)) [0..<length (chans s)] s =
     s\<lparr>links := l, fds := f, chans := map shut_chan (chans s)\<rparr>" using shut_loop [of "length (chans s)" s] by auto
  have "\<not> first_wait (ctl ?t)" "\<forall>c \<in> set (chans ?t). \<not> first_wait c"
    using idle_closed(1) [of s] by (auto simp: idle_def closed_chan_def first_wait_def)
  hence "waiting ?t = 0" by (simp add: waiting_def filter_empty_conv)
  moreover have "unresolved ?t = unresolved s" "closing ?t = closing s"
    by (auto simp: close_all_ptys_def close_serial_def Let_def 1 closing_def simp del: upd_chan.simps)
  ultimately have "setup_ok ?t" using assms by (auto simp: setup_ok_def)
  thus ?thesis using assms same_radio_ok [OF _ same_radio_closed] by blast
qed

lemma open_loop_view:
  "chan_open_loop is s = (ok, s') \<Longrightarrow> length (chans s') = length (chans s) \<and> unresolved s' = unresolved s \<and>
     setup_done s' = setup_done s \<and> same_radio s s'"
proof (induction "is" arbitrary: s)
  case (Cons i "is")
  obtain b t where t: "chan_open_pty (Ch i) s = (b, t)" by fastforce
  have st: "steady s t" by (rule steady_open_pty [OF t])
  define u where "u = upd_chan (Ch i) (\<lambda>c. c\<lparr>sabm_sent := True\<rparr>) t"
  define v where "v = snd (tx_frame (dlci (chans u ! i)) (CTRL_SABM OR CTRL_PF) [] u)"
  have cv: "calm u v" unfolding v_def by (rule calm_tx_frame)
  have l: "length (chans x) = length (chans y)" if "steady x y" for x y
    using that map_eq_imp_length_eq [of first_wait "chans y" first_wait "chans x"] by (simp add: steady_def)
  have "length (chans v) = length (chans s) \<and> unresolved v = unresolved s \<and> setup_done v = setup_done s \<and> same_radio s v"
    using cv st l [OF st] by (simp add: calm_def steady_def same_radio_def u_def) (simp add: radio_props_def)
  moreover have "chan_open_loop (i # is) s = (if b then chan_open_loop is v else (False, t))"
    unfolding chan_open_loop.simps t prod.case Let_def u_def [symmetric] v_def [symmetric] by simp
  ultimately show ?case
    using Cons st l [OF st] by (auto simp: steady_def same_radio_def split: if_splits)
qed (simp add: same_radio_def)

lemma mux_open_view:
  assumes m: "mux_open s = (ok, s')"
  shows "waiting s' \<le> length (chans s) + 1" "unresolved s' = int (length (chans s)) + 1" "\<not> setup_done s'" "same_radio s s'"
proof -
  define a where "a = s\<lparr>setup_done := False, mstate := ST_SETUP, unresolved := int (length (chans s)) + 1\<rparr>"
  obtain n b where n: "now_ms a = (n, b)" by fastforce
  define c where "c = upd_chan Ctl (\<lambda>c. c\<lparr>sabm_sent := True\<rparr>) (b\<lparr>setup_deadline := n + SETUP_TIMEOUT_MS\<rparr>)"
  define d where "d = snd (tx_frame 0 (CTRL_SABM OR CTRL_PF) [] c)"
  obtain ok' e where e: "chan_open_loop [0..<length (chans d)] d = (ok', e)" by fastforce
  have d: "length (chans d) = length (chans s)" "unresolved d = int (length (chans s)) + 1" "\<not> setup_done d" "same_radio s d"
    using calm_now_ms [OF n] calm_tx_frame [of c 0 "CTRL_SABM OR CTRL_PF" "[]"]
    by (simp_all add: calm_def d_def c_def a_def same_radio_def radio_props_def)
  have "calm e s'"
    using m unfolding mux_open_def Let_def a_def [symmetric] n prod.case c_def [symmetric] d_def [symmetric] e
    by (auto split: if_splits dest: calm_tx_flush)
  with d open_loop_view [OF e]
  have "length (chans s') = length (chans s)" "unresolved s' = int (length (chans s)) + 1" "\<not> setup_done s'" "same_radio s s'"
    by (auto simp: calm_def same_radio_def)
  thus "waiting s' \<le> length (chans s) + 1" "unresolved s' = int (length (chans s)) + 1" "\<not> setup_done s'" "same_radio s s'"
    using length_filter_le [of first_wait "chans s'"] by (auto simp: waiting_def)
qed

lemma setup_mux_open:
  assumes "radio_ok s" "mux_open s = (ok, s')" shows "setup_ok s' \<and> radio_ok s'"
  using mux_open_view [OF assms(2)] assms(1) by (auto simp: setup_ok_def intro: same_radio_ok)

lemma setup_flags:
  "steady s (upd_chan r (\<lambda>c. c\<lparr>peer_fc := b\<rparr>) s)" "steady s (upd_chan r (\<lambda>c. c\<lparr>refused_logged := True\<rparr>) s)"
  by (rule steady_flag; simp add: first_wait_def)+

lemma radio_exits:
  assumes "radio_ok s"
  shows "radio_ok (report_and_exit s)" "radio_ok (close_serial (close_all_ptys s))" "radio_ok (modem_exception_exit s)"
proof -
  show "radio_ok (report_and_exit s)" by (rule same_radio_ok [OF assms same_radio_report])
  have c: "radio_ok (close_serial (close_all_ptys t))" if "radio_ok t" for t by (rule same_radio_ok [OF that same_radio_closed])
  thus "radio_ok (close_serial (close_all_ptys s))" using assms .
  have "same_radio s (prop_set ''vendor.ril.mux.ee.md1'' ''1'' s)"
    by (simp add: same_radio_def radio_props_def prop_set_def radio_prop_def)
  thus "radio_ok (modem_exception_exit s)"
    unfolding modem_exception_exit_def using assms by (intro c) (rule same_radio_ok)
qed

lemma setup_holds:
  assumes "setup_ok s \<and> radio_ok s" "holds (steady s) (same_radio s) p"
  shows "holds (\<lambda>s. setup_ok s \<and> radio_ok s) radio_ok p"
  using assms(2) by (rule holds_mono) (use assms(1) steady_ok same_radio_ok in blast)+

interpretation ready: mux_invariant "\<lambda>s. wf_mux N s \<and> setup_ok s \<and> radio_ok s" radio_ok N for N
proof unfold_locales
  fix s s' assume s: "wf_mux N s \<and> setup_ok s \<and> radio_ok s" and c: "calm s s'"
  thus "wf_mux N s' \<and> setup_ok s' \<and> radio_ok s'" using steady_ok [OF _ calm_steady [OF c]] wf_calm by blast
next
  fix s :: mux and d :: u8 and r
  assume "wf_mux N s \<and> setup_ok s \<and> radio_ok s" "d < 64" "by_dlci s ! unat d = Some r"
  thus "(r = Ctl \<and> d = 0) \<or> (\<exists>i < N. r = Ch i \<and> d \<noteq> 0)" using wf.ref_I [of N s d r] by simp
next
  fix s i assume s: "wf_mux N s \<and> setup_ok s \<and> radio_ok s" and i: "i < N"
  show "holds (\<lambda>s. wf_mux N s \<and> setup_ok s \<and> radio_ok s) radio_ok (chan_reopen (Ch i) s)"
    using s i by (intro holds_conj wf_reopen setup_holds [OF _ steady_reopen]) auto
  show "holds (\<lambda>s. wf_mux N s \<and> setup_ok s \<and> radio_ok s) radio_ok (chan_drain (Ch i) s)"
    unfolding chan_drain_def using s i wf_drain [of N s i]
    by (intro holds_conj setup_holds [OF _ steady_drain_loop]) (auto simp: chan_drain_def)
  show "holds (\<lambda>s. wf_mux N s \<and> setup_ok s \<and> radio_ok s) radio_ok (deliver (Ch i) data s)" if "length data \<le> frame_size s" for data
    using s i that by (intro holds_conj wf_deliver setup_holds [OF _ steady_deliver]) auto
  show "wf_mux N (upd_chan (Ch i) (\<lambda>c. c\<lparr>refused_logged := True\<rparr>) s) \<and> setup_ok (upd_chan (Ch i) (\<lambda>c. c\<lparr>refused_logged := True\<rparr>) s) \<and>
      radio_ok (upd_chan (Ch i) (\<lambda>c. c\<lparr>refused_logged := True\<rparr>) s)"
    using s i wf_flags(2) steady_ok [OF _ setup_flags(2)] by blast
next
  fix s r b assume "wf_mux N s \<and> setup_ok s \<and> radio_ok s" "r = Ctl \<or> (\<exists>i < N. r = Ch i)"
  thus "wf_mux N (upd_chan r (\<lambda>c. c\<lparr>peer_fc := b\<rparr>) s) \<and> setup_ok (upd_chan r (\<lambda>c. c\<lparr>peer_fc := b\<rparr>) s) \<and>
      radio_ok (upd_chan r (\<lambda>c. c\<lparr>peer_fc := b\<rparr>) s)"
    using wf_flags(1) steady_ok [OF _ setup_flags(1)] by blast
next
  fix s assume "wf_mux N s \<and> setup_ok s \<and> radio_ok s"
  thus "wf_mux N (s\<lparr>mstate := ST_PEER_CLOSING\<rparr>) \<and> setup_ok (s\<lparr>mstate := ST_PEER_CLOSING\<rparr>) \<and> radio_ok (s\<lparr>mstate := ST_PEER_CLOSING\<rparr>)"
    using wf_state(1) closing_ok [of s ST_PEER_CLOSING] by (simp add: closing_def)
next
  fix s s' assume s: "wf_mux N s \<and> setup_ok s \<and> radio_ok s" "idle s"
  show "wf_mux N s' \<and> setup_ok s' \<and> radio_ok s'" if "mux_open s = (True, s')"
    using s that wf.mux_open_I setup_mux_open by blast
  show "radio_ok (report_and_exit s')" if "mux_open s = (False, s')"
    using s that setup_mux_open radio_exits(1) by blast
next
  fix s i assume "wf_mux N s \<and> setup_ok s \<and> radio_ok s" "i < N"
  thus "wf_mux N (disc_chan i s) \<and> setup_ok (disc_chan i s) \<and> radio_ok (disc_chan i s)"
    using wf_disc_chan steady_ok [OF _ steady_disc_chan] by blast
next
  fix s assume "wf_mux N s \<and> setup_ok s \<and> radio_ok s"
  thus "wf_mux N (snd (open_serial s)) \<and> setup_ok (snd (open_serial s)) \<and> radio_ok (snd (open_serial s))"
    using wf_open_serial steady_ok [OF _ steady_open_serial] by blast
qed (use radio_exits setup_closed wf_shut setup_recovery wf_recovery setup_on_ua wf_on_ua setup_on_dm wf_on_dm setup_on_disc wf_on_disc
    setup_on_sabm wf_on_sabm wf_length in \<open>auto simp: graceful_exit_def\<close>)

end
