(* ===== verification/Mux_Stream.thy ===== *)
theory Mux_Stream
  imports Mux_Properties
begin

text \<open>
  The bytes that pass through the modem multiplexer: received bytes are handled frame by frame in their order however they
  are cut into reads, and the bytes of the applications are queued complete and in their order.
\<close>

subsection \<open>Handlers leave the received bytes alone\<close>

definition same_rx :: "mux \<Rightarrow> mux \<Rightarrow> bool" where
  "same_rx s s' \<longleftrightarrow> rxb s' = rxb s \<and> frame_size s' = frame_size s"

lemma same_rx_refl [simp]: "same_rx s s"
  by (simp add: same_rx_def)

lemma same_rx_trans [trans]: "same_rx s t \<Longrightarrow> same_rx t u \<Longrightarrow> same_rx s u"
  by (simp add: same_rx_def)

lemma same_rx_upd [simp]: "same_rx s (upd_chan r f t) = same_rx s t"
  by (cases r) (simp_all add: same_rx_def)

lemma same_rx_fields [simp]:
  "same_rx s (t\<lparr>mstate := m\<rparr>) = same_rx s t" "same_rx s (t\<lparr>pf_echo := b\<rparr>) = same_rx s t"
  "same_rx s (t\<lparr>pty_writes := w\<rparr>) = same_rx s t" "same_rx s (prop_set k v t) = same_rx s t"
  "same_rx s (app_write r bs t) = same_rx s t" "same_rx s (t\<lparr>unresolved := x\<rparr>) = same_rx s t"
  by (simp_all add: same_rx_def prop_set_def app_write_def)

lemma same_rx_tx [simp]: "same_rx s (snd (tx_frame d c x t)) = same_rx s t"
  by (auto simp: tx_frame_def same_rx_def Let_def)

lemma same_rx_msc [simp]: "same_rx s (send_msc r b t) = same_rx s t"
  by (simp add: send_msc_def)

lemma same_rx_resolve [simp]: "same_rx s (resolve t) = same_rx s t"
  by (auto simp: resolve_def setup_complete_def drop_root_def Let_def same_rx_def prop_set_def)

lemma same_rx_now: "now_ms s = (n, t) \<Longrightarrow> same_rx s t"
  by (auto simp: now_ms_def same_rx_def split: list.splits)

lemma same_rx_open: "chan_open_pty r s = (ok, t) \<Longrightarrow> same_rx s t"
  by (cases r) (auto simp: chan_open_pty_def same_rx_def split: list.splits pty_result.splits pty_step.splits)

lemma same_rx_close [simp]: "same_rx s (chan_close_pty r t) = same_rx s t"
  unfolding chan_close_pty_def Let_def by (cases r) (auto simp: same_rx_def)

lemma same_rx_reopen: "chan_reopen r s = Ret a t \<Longrightarrow> same_rx s t"
proof -
  assume *: "chan_reopen r s = Ret a t"
  define u where "u = (if local_fc (chan_at s r) then send_msc r False (chan_close_pty r s) else chan_close_pty r s)"
  obtain ok v where v: "chan_open_pty r u = (ok, v)" by fastforce
  have "same_rx s u" by (simp add: u_def)
  moreover have "t = v" using * unfolding chan_reopen_def Let_def u_def [symmetric] v by (auto split: if_splits)
  ultimately show ?thesis using same_rx_open [OF v] same_rx_trans by blast
qed

lemma same_rx_recover: "same_rx s (chan_recover r t) = same_rx s t"
proof -
  obtain n u where n: "now_ms (upd_chan r (\<lambda>c. c\<lparr>pending := [], peer_fc := False, local_fc := False, refused := False,
      sabm_sent := False, disc_sent := False\<rparr>) t) = (n, u)" by fastforce
  have "same_rx s u = same_rx s t" using same_rx_now [OF n] by (cases r) (auto simp: same_rx_def)
  thus ?thesis unfolding chan_recover_def Let_def n by simp
qed

lemma same_rx_deliver: "deliver r data s = Ret a t \<Longrightarrow> same_rx s t"
  unfolding deliver_def Let_def
  by (auto split: if_splits prod.splits simp del: upd_chan.simps dest!: same_rx_reopen) (auto simp: same_rx_def app_write_def)

lemma same_rx_control: "same_rx s (control_command data s)"
  by (auto simp: control_command_def reply_echo_def apply_msc_def Let_def split: option.split)

lemma same_rx_handlers:
  "same_rx s (on_ua r s)" "same_rx s (on_dm r s)" "same_rx s (on_disc d q s)" "same_rx s (on_sabm d q s)"
proof -
  show "same_rx s (on_ua r s)" "same_rx s (on_dm r s)" "same_rx s (on_disc d q s)"
    by (auto simp: on_ua_def on_dm_def on_disc_def Let_def same_rx_recover split: option.split simp del: upd_chan.simps)
  show "same_rx s (on_sabm d q s)"
    by (auto simp: on_sabm_def Let_def split: option.split prod.split if_splits simp del: upd_chan.simps dest: same_rx_open)
qed

lemma same_rx_handle:
  assumes "handle_frame d c data s = Ret a t" shows "same_rx s t"
proof -
  define s1 where "s1 = (if c AND CTRL_PF \<noteq> 0 then s\<lparr>pf_echo := True\<rparr> else s)"
  have "same_rx s s1" by (simp add: s1_def)
  with same_rx_control [of s1] same_rx_deliver [of _ data s1] show ?thesis
    using assms same_rx_handlers unfolding handle_frame_def Let_def s1_def [symmetric]
    by (auto split: if_splits option.splits intro: same_rx_trans)
qed

subsection \<open>The received bytes as frames\<close>

text \<open>Frames handled one after the other.\<close>

fun handle_frames :: "(u8 \<times> u8 \<times> bytes) list \<Rightarrow> mux \<Rightarrow> unit outcome" where
  "handle_frames [] s = Ret () s"
| "handle_frames ((d, c, x) # fs) s = andthen (handle_frame d c x s) (\<lambda>_. handle_frames fs)"

lemma andthen_assoc: "andthen (andthen p f) g = andthen p (\<lambda>a s. andthen (f a s) g)"
  by (cases p) auto

lemma andthen_cong: "(\<And>a s. p = Ret a s \<Longrightarrow> f a s = g a s) \<Longrightarrow> andthen p f = andthen p g"
  by (cases p) auto

lemma handle_frames_append: "handle_frames (fs @ gs) s = andthen (handle_frames fs s) (\<lambda>_. handle_frames gs)"
  by (induction fs s rule: handle_frames.induct) (auto simp: andthen_assoc intro: andthen_cong)

lemma handle_frames_rx: "handle_frames fs s = Ret a t \<Longrightarrow> same_rx s t"
proof (induction fs s rule: handle_frames.induct)
  case (2 d c x fs s)
  from 2 show ?case
    by (cases "handle_frame d c x s") (auto dest: same_rx_handle intro: same_rx_trans)
qed simp

lemma parse_loop_frames:
  "parse_loop bs s =
     andthen (handle_frames (fst (rx_frames (frame_size s) bs)) s) (\<lambda>_ t. Ret () (t\<lparr>rxb := snd (rx_frames (frame_size s) bs)\<rparr>))"
proof (induction bs s rule: parse_loop.induct)
  case (1 bs s)
  show ?case
  proof (cases "rx_frame (frame_size s) bs")
    case (Keep k)
    thus ?thesis by (subst parse_loop.simps) (simp add: rx_frames.simps [of _ bs])
  next
    case (Drop r)
    thus ?thesis using "1.IH"(1) by (subst parse_loop.simps) (simp add: rx_frames.simps [of _ bs])
  next
    case (Frame d c x r)
    have f: "rx_frames (frame_size s) bs = ((d, c, x) # fst (rx_frames (frame_size s) r), snd (rx_frames (frame_size s) r))"
      by (subst rx_frames.simps) (simp add: Frame Let_def case_prod_beta)
    show ?thesis
    proof (cases "handle_frame d c x s")
      case (Ret u t)
      have "frame_size t = frame_size s" using same_rx_handle [OF Ret] by (simp add: same_rx_def)
      thus ?thesis using "1.IH"(2) [OF Frame] Ret by (subst parse_loop.simps) (simp add: Frame f)
    next
      case (Exited t)
      thus ?thesis by (subst parse_loop.simps) (simp add: Frame f)
    qed
  qed
qed

lemma rx_parse_frames:
  "rx_parse s = andthen (handle_frames (fst (rx_frames (frame_size s) (rxb s))) (s\<lparr>rxb := []\<rparr>))
     (\<lambda>_ t. Ret () (t\<lparr>rxb := snd (rx_frames (frame_size s) (rxb s))\<rparr>))"
  unfolding rx_parse_def by (subst parse_loop_frames) simp

lemma rx_kept: "rx_parse s = Ret a t \<Longrightarrow> frame_size t = frame_size s \<and> rxb t = snd (rx_frames (frame_size s) (rxb s))"
  unfolding rx_parse_frames
  by (cases "handle_frames (fst (rx_frames (frame_size s) (rxb s))) (s\<lparr>rxb := []\<rparr>)") (auto dest: handle_frames_rx simp: same_rx_def)

text \<open>The frames of a sender, behind bytes that are no flag.\<close>

definition wire_frames :: "(u8 \<times> u8 \<times> bytes) list \<Rightarrow> bytes" where
  "wire_frames fs = concat (map (\<lambda>(d, c, x). frame_bytes d c x) fs)"

definition sendable :: "nat \<Rightarrow> u8 \<times> u8 \<times> bytes \<Rightarrow> bool" where
  "sendable n f \<longleftrightarrow> fst f < 64 \<and> length (snd (snd f)) \<le> n"

lemma rx_frame_flag: "rx_frame n (MUX_FLAG # MUX_FLAG # bs) = rx_frame n (MUX_FLAG # bs)"
  by (simp add: rx_frame_def seek_flag_def)

lemma rx_frames_flag: "rx_frames n (MUX_FLAG # MUX_FLAG # bs) = rx_frames n (MUX_FLAG # bs)"
  by (subst (1 2) rx_frames.simps) (simp add: rx_frame_flag)

lemma frame_bytes_flag: "frame_bytes d c x = MUX_FLAG # tl (frame_bytes d c x)"
  by (simp add: frame_bytes_def Let_def)

lemma rx_frames_wire:
  assumes "n \<le> MAX_FRAME" "list_all (sendable n) fs" "MUX_FLAG \<notin> set noise"
  shows "rx_frames n (noise @ wire_frames fs) = (fs, if fs = [] then [] else [MUX_FLAG])"
  using assms(2,3)
proof (induction fs arbitrary: noise)
  case Nil
  thus ?case by (subst rx_frames.simps) (simp add: wire_frames_def rx_frame_def seek_flag_no_flag)
next
  case (Cons f fs)
  obtain d c x where f: "f = (d, c, x)" by (cases f) auto
  have fr: "rx_frame n (noise @ frame_bytes d c x @ wire_frames fs) = Frame d c x (MUX_FLAG # wire_frames fs)"
    using Cons.prems assms(1) by (intro rx_frame_bytes) (auto simp: f sendable_def)
  note IH = Cons.IH [of "[]"] and prems = Cons.prems
  have "rx_frames n (MUX_FLAG # wire_frames fs) = (fs, [MUX_FLAG])"
  proof (cases fs)
    case Nil
    thus ?thesis by (subst rx_frames.simps) (simp add: wire_frames_def rx_frame_def seek_flag_def)
  next
    case (Cons g gs)
    hence "wire_frames fs = MUX_FLAG # tl (wire_frames fs)"
      using frame_bytes_flag by (cases g) (auto simp: wire_frames_def frame_bytes_def Let_def)
    hence "rx_frames n (MUX_FLAG # wire_frames fs) = rx_frames n ([] @ wire_frames fs)" using rx_frames_flag by (metis append_Nil)
    also have "\<dots> = (fs, [MUX_FLAG])" using IH prems Cons by simp
    finally show ?thesis .
  qed
  thus ?case
    using fr by (subst rx_frames.simps) (simp add: f wire_frames_def)
qed

subsection \<open>Bytes of an application\<close>

lemma frame_bytes_length: "length (frame_bytes d c x) \<le> length x + FRAME_OVERHEAD"
  by (simp add: frame_bytes_def frame_header_def frame_length_def FRAME_OVERHEAD_def Let_def)

lemma tx_frame_room:
  assumes "length x \<le> frame_size s" "length x + FRAME_OVERHEAD \<le> txq_room s"
  obtains c' where "c' = c \<or> c' = c OR CTRL_PF" "txq (snd (tx_frame d c x s)) = txq s @ frame_bytes d c' x"
    "frame_size (snd (tx_frame d c x s)) = frame_size s"
proof -
  have room: "\<not> txq_room s < 1 + length (frame_header d k (length x)) + length x + 2" for k
    using assms(2) by (simp add: frame_header_def frame_length_def FRAME_OVERHEAD_def)
  have "txq_room (s\<lparr>pf_echo := b\<rparr>) = txq_room s" for b by (simp add: txq_room_def)
  with room assms(1) that [of "if echo_pf s c x then c OR CTRL_PF else c"] show ?thesis by (auto simp: tx_frame_def Let_def)
qed

text \<open>A piece of data as the frames \<open>tx_chunks\<close> queues for it.\<close>

definition carries :: "u8 \<Rightarrow> bytes \<Rightarrow> (u8 \<times> u8 \<times> bytes) list \<Rightarrow> bool" where
  "carries d data fs \<longleftrightarrow> concat (map (snd \<circ> snd) fs) = data \<and>
     list_all (\<lambda>(d', c, x). d' = d \<and> (c = CTRL_UIH \<or> c = CTRL_UIH OR CTRL_PF) \<and> x \<noteq> []) fs"

lemma tx_chunks_queue:
  assumes "1 \<le> frame_size s" "d < 64" "data = [] \<or> length data + (length data div frame_size s + 1) * FRAME_OVERHEAD \<le> txq_room s"
  shows "\<exists>fs. txq (tx_chunks d data s) = txq s @ wire_frames fs \<and> carries d data fs \<and> list_all (sendable (frame_size s)) fs"
  using assms
proof (induction d data s rule: tx_chunks.induct)
  case (1 d data s)
  let ?n = "frame_size s"
  show ?case
  proof (cases "data = []")
    case True
    thus ?thesis by (subst tx_chunks.simps) (simp add: wire_frames_def carries_def exI [of _ "[]"])
  next
    case False
    define k where "k = length data div ?n"
    have room: "length data + (k + 1) * FRAME_OVERHEAD \<le> txq_room s" using "1.prems"(3) False by (simp add: k_def)
    have len: "length (take ?n data) + FRAME_OVERHEAD \<le> txq_room s" using room by simp
    obtain c' where c': "c' = CTRL_UIH \<or> c' = CTRL_UIH OR CTRL_PF" and
      q: "txq (snd (tx_frame d CTRL_UIH (take ?n data) s)) = txq s @ frame_bytes d c' (take ?n data)" and
      n: "frame_size (snd (tx_frame d CTRL_UIH (take ?n data) s)) = ?n"
      by (rule tx_frame_room [OF _ len, of CTRL_UIH d]) auto
    define t where "t = snd (tx_frame d CTRL_UIH (take ?n data) s)"
    have used: "txq_room s \<le> txq_room t + length (take ?n data) + FRAME_OVERHEAD"
      using frame_bytes_length [of d c' "take ?n data"] by (simp add: txq_room_def t_def q)
    have left: "drop ?n data = [] \<or> length (drop ?n data) + (length (drop ?n data) div ?n + 1) * FRAME_OVERHEAD \<le> txq_room t"
    proof (cases "length data \<le> ?n")
      case False
      have "(length data - ?n) div ?n + 1 = k" using False "1.prems"(1) by (simp add: k_def le_div_geq)
      thus ?thesis using used room False by (simp add: min_def)
    qed simp
    obtain fs where fs: "txq (tx_chunks d (drop ?n data) t) = txq t @ wire_frames fs" "carries d (drop ?n data) fs"
      "list_all (sendable ?n) fs"
      using "1.IH" [folded t_def] False "1.prems" left n [folded t_def] by auto
    have "tx_chunks d data s = tx_chunks d (drop ?n data) t"
      using False "1.prems"(1) by (subst tx_chunks.simps) (simp add: t_def)
    hence "txq (tx_chunks d data s) = txq s @ wire_frames ((d, c', take ?n data) # fs)"
      using fs(1) q by (simp add: t_def wire_frames_def)
    moreover have "carries d data ((d, c', take ?n data) # fs)" "list_all (sendable ?n) ((d, c', take ?n data) # fs)"
      using fs c' False "1.prems"(1,2) by (auto simp: carries_def sendable_def)
    ultimately show ?thesis by blast
  qed
qed

lemma chunk_room:
  assumes "can_take_pty_data s" "1 \<le> frame_size s" "length data \<le> PTY_CHUNK"
  shows "length data + (length data div frame_size s + 1) * FRAME_OVERHEAD \<le> txq_room s"
proof -
  have "length data div frame_size s \<le> PTY_CHUNK div frame_size s" using assms(3) by (rule div_le_mono)
  hence "(length data div frame_size s + 1) * FRAME_OVERHEAD \<le> (PTY_CHUNK div frame_size s + 1) * FRAME_OVERHEAD"
    by (intro mult_le_mono1) simp
  moreover have "PTY_CHUNK + (PTY_CHUNK div frame_size s + 1) * FRAME_OVERHEAD \<le> txq_room s"
    using assms(1) by (simp only: can_take_pty_data_def)
  ultimately show ?thesis using assms(3) by linarith
qed

subsection \<open>Bytes for an application\<close>

text \<open>A terminal that works: it takes bytes, is full, or a signal comes between.\<close>

definition working :: "write_result list \<Rightarrow> bool" where
  "working = list_all (\<lambda>w. case w of Took n \<Rightarrow> 0 < n | WriteFails e \<Rightarrow> e = EINTR \<or> e = EAGAIN)"

text \<open>All bytes given to a channel: those its terminal has taken and those held back.\<close>

definition app_stream :: "mux \<Rightarrow> nat \<Rightarrow> bytes" where
  "app_stream s i = app_out s (dlci (chans s ! i)) @ pending (chans s ! i)"

lemma deliver_loop_works:
  "working ws \<Longrightarrow> deliver_loop ws out data = (out', rest, failed, ws') \<Longrightarrow> \<not> failed"
proof (induction ws arbitrary: out data)
  case Nil
  thus ?case by (subst (asm) deliver_loop.simps) (auto split: if_splits)
next
  case (Cons w ws)
  hence "working ws" by (simp add: working_def)
  note IH = Cons.IH [OF this]
  from Cons.prems(2,1) show ?case
    by (subst (asm) deliver_loop.simps) (auto simp: working_def dest: IH split: if_splits write_result.splits errno.splits)
qed

lemma app_stream_tx: "app_stream (snd (tx_frame d c x s)) i = app_stream s i"
  by (auto simp: tx_frame_def app_stream_def Let_def)

lemma app_stream_msc: "app_stream (send_msc r b s) i = app_stream s i"
  by (simp add: send_msc_def app_stream_tx)

lemma app_stream_kept:
  "app_stream (s\<lparr>pty_writes := w\<rparr>) i = app_stream s i"
  "app_stream (upd_chan (Ch i) (\<lambda>c. c\<lparr>local_fc := b\<rparr>) s) i = app_stream s i"
  by (cases "i < length (chans s)"; simp add: app_stream_def list_update_beyond)+

lemma app_stream_drained:
  "pending (chans s ! i) = [] \<Longrightarrow> holds (\<lambda>t. app_stream t i = app_stream s i) (\<lambda>_. False) (drain_loop ws (Ch i) s)"
  by (auto simp: drain_loop_done app_stream_msc app_stream_kept simp del: upd_chan.simps)

lemma app_stream_deliver:
  assumes i: "i < length (chans s)" and f: "0 \<le> fd (chans s ! i)" and w: "working (pty_writes s)"
    and cap: "length (pending (chans s ! i)) + length data \<le> PENDING_CAP"
  shows "holds (\<lambda>t. app_stream t i = app_stream s i @ data) (\<lambda>_. False) (deliver (Ch i) data s)"
proof -
  obtain out rest failed ws where d: "deliver_loop (pty_writes s) [] data = (out, rest, failed, ws)" by (metis prod_cases4)
  have "out @ rest = data" using deliver_loop_prefix [OF d] by auto
  moreover have "\<not> failed" by (rule deliver_loop_works [OF w d])
  ultimately show ?thesis
    using i f cap unfolding deliver_def Let_def d prod.case
    by (auto simp: app_stream_msc) (auto simp: app_stream_def app_write_def)
qed

lemma app_stream_drain_loop:
  "i < length (chans s) \<Longrightarrow> working ws \<Longrightarrow> holds (\<lambda>t. app_stream t i = app_stream s i) (\<lambda>_. False) (drain_loop ws (Ch i) s)"
proof (induction ws arbitrary: s)
  case Nil
  thus ?case
    by (cases "pending (chans s ! i) = []") (auto simp: drain_loop_steps app_stream_kept intro: app_stream_drained)
next
  case (Cons w ws)
  show ?case
  proof (cases "pending (chans s ! i) = []")
    case True
    thus ?thesis by (rule app_stream_drained)
  next
    case False
    have ws: "working ws" using Cons.prems(2) by (simp add: working_def)
    define u where "u n = upd_chan (Ch i) (\<lambda>c. c\<lparr>pending := drop n (pending c)\<rparr>)
      (app_write (Ch i) (take n (pending (chans s ! i))) s)" for n
    have "app_stream (u n) i = app_stream s i" "i < length (chans (u n))" for n
      using Cons.prems(1) by (simp_all add: u_def app_stream_def app_write_def)
    hence "holds (\<lambda>t. app_stream t i = app_stream s i) (\<lambda>_. False) (drain_loop ws (Ch i) (u n))" for n
      using Cons.IH [OF _ ws, of "u n"] by simp
    thus ?thesis using Cons False ws
      by (cases w) (auto simp: drain_loop_steps working_def app_stream_kept u_def simp del: upd_chan.simps)
  qed
qed

text \<open>
  When the queue of outgoing bytes is full, the message that ends a pause is dropped, yet the channel counts as no longer
  paused: nothing sends the message again.
\<close>

lemma release_lost:
  assumes i: "i < length (chans s)" and p: "pending (chans s ! i) \<noteq> []" "local_fc (chans s ! i)"
    and w: "pty_writes s = Took n # ws" "length (pending (chans s ! i)) \<le> n" and full: "txq_room s < 10"
  shows "\<exists>t. chan_drain (Ch i) s = Ret () t \<and> pending (chans t ! i) = [] \<and> \<not> local_fc (chans t ! i) \<and> txq t = txq s"
proof -
  have "n \<noteq> 0" using p(1) w(2) by (cases "pending (chans s ! i)") auto
  with assms show ?thesis
    by (simp add: chan_drain_def drain_loop_steps drain_loop_done app_write_def send_msc_def tx_frame_def echo_pf_def txq_room_def
        frame_header_def frame_length_def Let_def)
qed

end
