(* ===== verification/Mux_Guarantees.thy ===== *)
theory Mux_Guarantees
  imports Mux_Resources Mux_Setup Mux_Stream
begin

text \<open>
  What the modem multiplexer guarantees as a program: from every start of \<open>main\<close> its state stays consistent, it leaves no
  descriptor and no link behind, it starts the radio interface once; and frames and bytes keep their order.
\<close>

text \<open>A system in which nothing happens, for the examples.\<close>

definition quiet_system :: mux where
  "quiet_system =
     \<lparr>frame_size = 0, baud_index = 0, pin = 0, link_dir = [], ctl = fresh_chan, chans = [], by_dlci = [], serial_fd = -1, txq = [],
      tx_blocked = False, rxb = [], chat_buf = [], mstate = ST_SETUP, pf_echo = False, unresolved = 0, setup_done = False,
      ril_started = False, setup_deadline = 0, recovery_escalation_after = 0, term_signal = 0, clock = 0, ticks = [],
      signals = [], properties = [], uid = 0, setuid_ok = True, malloc_ok = True, serial_opens = [3], serial_writes = [],
      serial_reads = [], pty_opens = [], pty_writes = [], pty_reads = [], polls = [], wire = [], app_out = (\<lambda>_. []),
      props_set = [], links = (\<lambda>_. None), fds = []\<rparr>"

lemma quiet_start:
  obtains s where "main_start [] quiet_system = Inr s" "length (chans s) = 13" "dlci (chans s ! 0) = 1" "\<not> refused (chans s ! 0)"
    "can_take_pty_data s" "frame_size s = 512"
proof -
  have "case main_start [] quiet_system of Inl _ \<Rightarrow> False
    | Inr s \<Rightarrow> length (chans s) = 13 \<and> dlci (chans s ! 0) = 1 \<and> \<not> refused (chans s ! 0) \<and> can_take_pty_data s \<and> frame_size s = 512"
    by (simp add: main_start_def default_options_def MAX_FRAME_def boot_def quiet_system_def prop_get_def prop_set_def sim_count_def
        build_channels_def sim_dlci_def kind_name_def add_chan_def new_chan_def can_take_pty_data_def txq_room_def TXQ_CAP_def
        PTY_CHUNK_def FRAME_OVERHEAD_def Let_def)
  thus ?thesis using that by (cases "main_start [] quiet_system") auto
qed

subsection \<open>The program\<close>







subsection \<open>Bytes\<close>

text \<open>
  C14: It makes no difference where a read cuts the bytes of the modem: scanning two pieces one after the other does
  what scanning them at once does, handlers and exits included.
\<close>

theorem reads_may_be_cut:
  "rx_parse (s\<lparr>rxb := a @ b\<rparr>) = andthen (rx_parse (s\<lparr>rxb := a\<rparr>)) (\<lambda>_ t. rx_parse (t\<lparr>rxb := rxb t @ b\<rparr>))"
proof -
  let ?n = "frame_size s"
  obtain fs k gs k' where f: "rx_frames ?n a = (fs, k)" "rx_frames ?n (k @ b) = (gs, k')" by fastforce
  have ab: "rx_frames ?n (a @ b) = (fs @ gs, k')" using rx_frames_append [of ?n a b] by (simp add: f)
  show ?thesis
  proof (cases "handle_frames fs (s\<lparr>rxb := []\<rparr>)")
    case (Ret u t)
    have t: "rxb t = []" "frame_size t = ?n" using handle_frames_rx [OF Ret] by (simp_all add: same_rx_def)
    hence e: "t\<lparr>rxb := []\<rparr> = t" by (cases t) simp
    show ?thesis by (simp add: rx_parse_frames f ab handle_frames_append Ret t) (simp only: e)
  qed (simp add: rx_parse_frames f ab handle_frames_append)
qed

text \<open>
  C15: Bytes that are frames put together by \<open>tx_frame\<close>, behind noise without a flag, are handled as exactly these
  frames in their order; only the last flag is kept, as the possible opening flag of the next frame.
\<close>

theorem frames_handled_in_order:
  assumes "frame_size s \<le> MAX_FRAME" "list_all (sendable (frame_size s)) fs" "MUX_FLAG \<notin> set noise"
  shows "rx_parse (s\<lparr>rxb := noise @ wire_frames fs\<rparr>) =
    andthen (handle_frames fs (s\<lparr>rxb := []\<rparr>)) (\<lambda>_ t. Ret () (t\<lparr>rxb := if fs = [] then [] else [MUX_FLAG]\<rparr>))"
  using rx_frames_wire [OF assms] by (simp add: rx_parse_frames)

theorem frames_handled_in_order_witness:
  "rx_parse (quiet_system\<lparr>frame_size := 64, rxb := [7, 0] @ wire_frames [(0, CTRL_UA, []), (1, CTRL_UIH, [65, 0xF9, 66])]\<rparr>) =
    andthen (handle_frames [(0, CTRL_UA, []), (1, CTRL_UIH, [65, 0xF9, 66])] (quiet_system\<lparr>frame_size := 64, rxb := []\<rparr>))
      (\<lambda>_ t. Ret () (t\<lparr>rxb := [MUX_FLAG]\<rparr>))"
  using frames_handled_in_order [of "quiet_system\<lparr>frame_size := 64\<rparr>" "[(0, CTRL_UA, []), (1, CTRL_UIH, [65, 0xF9, 66])]" "[7, 0]"]
  by (simp add: MAX_FRAME_def sendable_def)

text \<open>
  After a scan at most one frame without its last byte is kept, so that the next read always has room in the buffer.
\<close>

lemma rx_buffer_has_room:
  assumes "frame_size s \<le> MAX_FRAME" "rx_parse s = Ret a t"
  shows "length (rxb t) \<le> frame_size s + 6 \<and> length (rxb t) < RX_CAP"
  using rx_kept [OF assms(2)] rx_kept_short [of "frame_size s" "rxb s"] assms(1) by (simp add: MAX_FRAME_def RX_CAP_def)





end
