(* ===== verification/Fsd_Wire.thy ===== *)
theory Fsd_Wire
  imports Prelude
begin

text \<open>
  The messages of the modem's file service, \<^verbatim>\<open>src/modem/ccci-userspace/fsd/ccci_fsd.c\<close> and
  \<^verbatim>\<open>common/ccci_fs_wire.h\<close>: requests of up to eight segments, replies, names in UTF-16, and the directories the drive letters
  of the modem stand for.
\<close>

subsection \<open>Constants\<close>

abbreviation FS_OP_OPEN :: u32 where "FS_OP_OPEN \<equiv> 0x1001"
abbreviation FS_OP_SEEK :: u32 where "FS_OP_SEEK \<equiv> 0x1002"
abbreviation FS_OP_READ :: u32 where "FS_OP_READ \<equiv> 0x1003"
abbreviation FS_OP_WRITE :: u32 where "FS_OP_WRITE \<equiv> 0x1004"
abbreviation FS_OP_CLOSE :: u32 where "FS_OP_CLOSE \<equiv> 0x1005"
abbreviation FS_OP_CLOSE_ALL :: u32 where "FS_OP_CLOSE_ALL \<equiv> 0x1006"
abbreviation FS_OP_CREATE_DIR :: u32 where "FS_OP_CREATE_DIR \<equiv> 0x1007"
abbreviation FS_OP_REMOVE_DIR :: u32 where "FS_OP_REMOVE_DIR \<equiv> 0x1008"
abbreviation FS_OP_GET_FILE_SIZE :: u32 where "FS_OP_GET_FILE_SIZE \<equiv> 0x1009"
abbreviation FS_OP_GET_FOLDER_SIZE :: u32 where "FS_OP_GET_FOLDER_SIZE \<equiv> 0x100a"
abbreviation FS_OP_RENAME :: u32 where "FS_OP_RENAME \<equiv> 0x100b"
abbreviation FS_OP_MOVE :: u32 where "FS_OP_MOVE \<equiv> 0x100c"
abbreviation FS_OP_COUNT :: u32 where "FS_OP_COUNT \<equiv> 0x100d"
abbreviation FS_OP_GET_DISK_INFO :: u32 where "FS_OP_GET_DISK_INFO \<equiv> 0x100e"
abbreviation FS_OP_DELETE :: u32 where "FS_OP_DELETE \<equiv> 0x100f"
abbreviation FS_OP_GET_ATTRIBUTES :: u32 where "FS_OP_GET_ATTRIBUTES \<equiv> 0x1010"
abbreviation FS_OP_OPEN_EX :: u32 where "FS_OP_OPEN_EX \<equiv> 0x1011"
abbreviation FS_OP_FIND_FIRST :: u32 where "FS_OP_FIND_FIRST \<equiv> 0x1012"
abbreviation FS_OP_FIND_NEXT :: u32 where "FS_OP_FIND_NEXT \<equiv> 0x1013"
abbreviation FS_OP_FIND_CLOSE :: u32 where "FS_OP_FIND_CLOSE \<equiv> 0x1014"
abbreviation FS_OP_CLOSE_ALL2 :: u32 where "FS_OP_CLOSE_ALL2 \<equiv> 0x1017"
abbreviation FS_OP_XDELETE :: u32 where "FS_OP_XDELETE \<equiv> 0x1018"
abbreviation FS_OP_LF :: u32 where "FS_OP_LF \<equiv> 0x1015"
abbreviation FS_OP_UK :: u32 where "FS_OP_UK \<equiv> 0x1016"
abbreviation FS_OP_CDF :: u32 where "FS_OP_CDF \<equiv> 0x1019"
abbreviation FS_OP_SDF :: u32 where "FS_OP_SDF \<equiv> 0x101c"
abbreviation FS_OP_GET_DRIVE :: u32 where "FS_OP_GET_DRIVE \<equiv> 0x101a"
abbreviation FS_OP_GET_CLUSTER_SIZE :: u32 where "FS_OP_GET_CLUSTER_SIZE \<equiv> 0x101b"
abbreviation FS_OP_OTP_WRITE :: u32 where "FS_OP_OTP_WRITE \<equiv> 0x101d"
abbreviation FS_OP_OTP_READ :: u32 where "FS_OP_OTP_READ \<equiv> 0x101e"
abbreviation FS_OP_OTP_QUERY_LENGTH :: u32 where "FS_OP_OTP_QUERY_LENGTH \<equiv> 0x101f"
abbreviation FS_OP_OTP_LOCK :: u32 where "FS_OP_OTP_LOCK \<equiv> 0x1020"
abbreviation FS_OP_RESTORE :: u32 where "FS_OP_RESTORE \<equiv> 0x1021"
abbreviation FS_OP_CMPT_READ :: u32 where "FS_OP_CMPT_READ \<equiv> 0x1022"
abbreviation FS_OP_BIN_REGION :: u32 where "FS_OP_BIN_REGION \<equiv> 0x1023"
abbreviation FS_OP_CMPT_WRITE :: u32 where "FS_OP_CMPT_WRITE \<equiv> 0x1024"
abbreviation FS_OP_GET_FILE_DETAIL :: u32 where "FS_OP_GET_FILE_DETAIL \<equiv> 0x1025"

abbreviation FS_NO_ERROR :: int where "FS_NO_ERROR \<equiv> 0"
abbreviation FS_PARAM_ERROR :: int where "FS_PARAM_ERROR \<equiv> -2"
abbreviation FS_NO_MATCH :: int where "FS_NO_MATCH \<equiv> -4"
abbreviation FS_MEM_OVERFLOW :: int where "FS_MEM_OVERFLOW \<equiv> -7"
abbreviation FS_ERR_ENOENT_MAPPED :: int where "FS_ERR_ENOENT_MAPPED \<equiv> -9"
abbreviation FS_ERR_EACCES_MAPPED :: int where "FS_ERR_EACCES_MAPPED \<equiv> -16"
abbreviation FS_ERR_EMFILE_MAPPED :: int where "FS_ERR_EMFILE_MAPPED \<equiv> -5"
abbreviation FS_ERR_GENERIC_MAPPED :: int where "FS_ERR_GENERIC_MAPPED \<equiv> -18"

definition IO_BUF_SIZE :: nat where "IO_BUF_SIZE = 4096"
definition FS_MAX_SEGS :: nat where "FS_MAX_SEGS = 8"
definition CCCI_FS_CHANNEL_RX :: u16 where "CCCI_FS_CHANNEL_RX = 14"

subsection \<open>Words in bytes\<close>

definition rd32 :: "bytes \<Rightarrow> nat \<Rightarrow> u32" where
  "rd32 bs off = ucast (get_bytes bs off 4)"

definition le32 :: "u32 \<Rightarrow> bytes" where
  "le32 w = map (le_byte (ucast w)) [0..<4]"

definition i32 :: "int \<Rightarrow> bytes" where
  "i32 n = le32 (word_of_int n)"

lemma length_le32 [simp]: "length (le32 w) = 4"
  by (simp add: le32_def)

lemma rd32_le32: "rd32 (pre @ le32 w @ post) (length pre) = w"
proof -
  have "get_bytes (pre @ le32 w @ post) (length pre) 4 = take_bit (8 * 4) (ucast w)"
    by (rule get_bytes_le_byte) (simp add: nth_append le32_def)
  thus ?thesis by (simp add: rd32_def take_bit_ucast_u32)
qed

lemma rd32_cong: "off + 4 \<le> length a \<Longrightarrow> rd32 (a @ b) off = rd32 a off"
  unfolding rd32_def by (rule arg_cong [of _ _ ucast], rule get_bytes_cong) (simp add: nth_append)

subsection \<open>Requests\<close>

record fs_req =
  op_id :: u32
  segs :: "bytes list"

definition pad4 :: "u32 \<Rightarrow> nat" where
  "pad4 len = unat ((len + 3) AND NOT 3)"

fun parse_segs :: "nat \<Rightarrow> bytes \<Rightarrow> nat \<Rightarrow> bytes list option" where
  "parse_segs 0 p off = Some []"
| "parse_segs (Suc n) p off =
     (if off + 4 > length p then None
      else let seglen = rd32 p off; off = off + 4
           in if unat seglen > length p - off then None
              else map_option ((#) (take (unat seglen) (drop off p))) (parse_segs n p (off + pad4 seglen)))"

definition fs_parse_req :: "bytes \<Rightarrow> fs_req option" where
  "fs_parse_req payload =
     (if length payload < 8 then None
      else let nseg = unat (rd32 payload 4)
           in if nseg > FS_MAX_SEGS then None
              else map_option (\<lambda>ss. \<lparr>op_id = rd32 payload 0, segs = ss\<rparr>) (parse_segs nseg payload 8))"

text \<open>The check of a segment's presence and size that the handlers make before they read it.\<close>

definition has_seg :: "fs_req \<Rightarrow> nat \<Rightarrow> nat \<Rightarrow> bool" where
  "has_seg req i n \<longleftrightarrow> i < length (segs req) \<and> n \<le> length (segs req ! i)"

definition seg32 :: "fs_req \<Rightarrow> nat \<Rightarrow> u32" where
  "seg32 req i = rd32 (segs req ! i) 0"

subsection \<open>Replies\<close>

type_synonym header = "u32 list"

fun build_segs :: "nat \<Rightarrow> nat \<Rightarrow> bytes list \<Rightarrow> bytes option" where
  "build_segs cap off [] = Some []"
| "build_segs cap off (d # ds) =
     (let padded = (length d + 3) div 4 * 4
      in if off + 4 + padded > cap then None
         else map_option ((@) (le32 (of_nat (length d)) @ d @ replicate (padded - length d) 0)) (build_segs cap (off + 4 + padded) ds))"

text \<open>The bytes of a reply to a message with the header \<open>h\<close>; none when they do not fit.\<close>

definition build_resp :: "nat \<Rightarrow> header \<Rightarrow> u32 \<Rightarrow> bytes list \<Rightarrow> bytes" where
  "build_resp cap h op ds =
     (if cap < 24 then []
      else case build_segs cap 24 ds of
             None \<Rightarrow> []
           | Some body \<Rightarrow>
               concat (map le32 [h ! 0 AND NOT 0x80000000, of_nat (24 + length body), h ! 2 + 1, h ! 3,
                                 op OR 0xFFFF0000, of_nat (length ds)]) @ body)"

text \<open>The segments of a reply with a result only, and with a result and data.\<close>

definition result_segs :: "int \<Rightarrow> bytes list" where
  "result_segs result = [i32 result]"

definition data_segs :: "int \<Rightarrow> bytes \<Rightarrow> bytes list" where
  "data_segs result data = (if data = [] then [i32 result] else [i32 result, data])"

subsection \<open>Names\<close>

text \<open>UTF-16LE to ASCII: up to the terminator, \<open>None\<close> for a character outside of ASCII or a name that does not fit.\<close>

fun wcs_loop :: "nat \<Rightarrow> bytes \<Rightarrow> string option" where
  "wcs_loop (Suc n) (a # b # bs) =
     (if a = 0 \<and> b = 0 then Some []
      else if b \<noteq> 0 \<or> a \<ge> 0x80 then None
      else map_option ((#) (char_of (unat a))) (wcs_loop n bs))"
| "wcs_loop _ _ = Some []"

definition fs_wcs_to_str :: "bytes \<Rightarrow> nat \<Rightarrow> string option" where
  "fs_wcs_to_str src cap = (let chars = length src div 2 in if chars \<ge> cap then None else wcs_loop chars src)"

text \<open>Drive letters.\<close>

definition fs_drive_dir :: "string \<Rightarrow> string" where
  "fs_drive_dir path =
     (if path = [] then ''/mnt/vendor/nvdata''
      else if hd path \<in> {CHR ''Z'', CHR ''z''} then ''/mnt/vendor/nvdata/md''
      else if hd path \<in> {CHR ''X'', CHR ''x''} then ''/mnt/vendor/protect_f/md''
      else if hd path \<in> {CHR ''Y'', CHR ''y''} then ''/mnt/vendor/protect_s/md''
      else ''/mnt/vendor/nvdata'')"

fun resolve_loop :: "nat \<Rightarrow> string \<Rightarrow> string \<Rightarrow> string option" where
  "resolve_loop cap out [] = Some out"
| "resolve_loop cap out (ch # cs) =
     (if ch = CHR ''.'' \<and> cs \<noteq> [] \<and> hd cs = CHR ''.'' then None
      else if length out + 1 \<ge> cap then None
      else resolve_loop cap (out @ [if ch = CHR 0x5C then CHR ''/'' else ch]) cs)"

definition fs_resolve :: "string \<Rightarrow> nat \<Rightarrow> string option" where
  "fs_resolve path cap =
     (let dir = fs_drive_dir path
      in if length path < 2 \<or> path ! 1 \<noteq> CHR '':'' then None
         else if length dir + 1 \<ge> cap then None
         else resolve_loop cap dir (drop 2 path))"

text \<open>The roots of the older requests, which name files from the root of the modem's tree.\<close>

record fs_root =
  root_prefix :: string
  root_dir :: string
  root_live :: bool

definition kRoots :: "fs_root list" where
  "kRoots = map (\<lambda>(p, d, l). \<lparr>root_prefix = p, root_dir = d, root_live = l\<rparr>)
    [(''/nvdata/md_cmn'', ''/mnt/vendor/nvdata/md_cmn'', True),
     (''/nvdata/md3_v'', ''/mnt/vendor/nvdata/md3_v'', False),
     (''/nvdata/md2'', ''/mnt/vendor/nvdata/md2'', False),
     (''/nvdata/md3'', ''/mnt/vendor/nvdata/md3'', False),
     (''/nvdata/md5'', ''/mnt/vendor/nvdata/md5'', False),
     (''/nvdata/md'', ''/mnt/vendor/nvdata/md'', True),
     (''/protect_f/md2'', ''/mnt/vendor/protect_f/md2'', False),
     (''/protect_f/md3'', ''/mnt/vendor/protect_f/md3'', False),
     (''/protect_f/md'', ''/mnt/vendor/protect_f/md'', True),
     (''/protect_s/md2'', ''/mnt/vendor/protect_s/md2'', False),
     (''/protect_s/md3'', ''/mnt/vendor/protect_s/md3'', False),
     (''/protect_s/md'', ''/mnt/vendor/protect_s/md'', True),
     (''/nvcfg'', ''/mnt/vendor/nvcfg'', True)]"

fun has_dotdot :: "string \<Rightarrow> bool" where
  "has_dotdot (a # b # cs) \<longleftrightarrow> a = CHR ''.'' \<and> b = CHR ''.'' \<or> has_dotdot (b # cs)"
| "has_dotdot _ \<longleftrightarrow> False"

definition path_resolve :: "string \<Rightarrow> nat \<Rightarrow> int + string" where
  "path_resolve name cap =
     (if name = [] \<or> hd name \<noteq> CHR ''/'' then Inl FS_PARAM_ERROR
      else if has_dotdot name then Inl FS_PARAM_ERROR
      else case find (\<lambda>r. take (length (root_prefix r)) name = root_prefix r) kRoots of
             None \<Rightarrow> Inl FS_NO_MATCH
           | Some r \<Rightarrow>
               if \<not> root_live r then Inl FS_NO_MATCH
               else let out = root_dir r @ drop (length (root_prefix r)) name
                    in if length out \<ge> cap then Inl FS_MEM_OVERFLOW else Inr out)"

end
