(* ===== verification/Fsd_State.thy ===== *)
theory Fsd_State
  imports Fsd_Wire
begin

text \<open>
  The state of the modem's file service, \<^verbatim>\<open>src/modem/ccci-userspace/fsd/ccci_fsd.c\<close>, and its operations on files and
  directories. The kernel is a parameter: each of its answers may depend on all calls made so far.
\<close>

subsection \<open>The kernel\<close>

record oflags =
  o_write :: bool
  o_creat :: bool
  o_trunc :: bool
  o_nonblock :: bool

datatype call =
    COpen string oflags | CClose nat | CRead nat nat | CWrite nat bytes | CSeek nat int int
  | CUnlink string | CMkdir string | CRmdir string | CRename string string | CAccess string
  | CStat string | CLstat string | CStatfs string | COpendir string

datatype fs_errno = ENOENT | EACCES | EMFILE | EEXIST | E_OTHER

record stat_info =
  st_size :: int
  st_isdir :: bool
  st_isreg :: bool
  st_mtime :: int

text \<open>
  The answers to a sequence of calls, the last of which is the one answered. A directory is opened with the names it will list.
\<close>

record kernel =
  k_open :: "call list \<Rightarrow> fs_errno + nat"
  k_status :: "call list \<Rightarrow> fs_errno option"
  k_read :: "call list \<Rightarrow> fs_errno + bytes"
  k_write :: "call list \<Rightarrow> fs_errno + nat"
  k_seek :: "call list \<Rightarrow> fs_errno + int"
  k_stat :: "call list \<Rightarrow> stat_info option"
  k_statfs :: "call list \<Rightarrow> (nat \<times> nat) option"
  k_opendir :: "call list \<Rightarrow> fs_errno + string list"
  k_fnmatch :: "string \<Rightarrow> string \<Rightarrow> bool"

subsection \<open>State\<close>

definition FS_HANDLE_MAX :: nat where "FS_HANDLE_MAX = 32"
definition FS_FIND_MAX :: nat where "FS_FIND_MAX = 8"
definition MAX_OPEN_HANDLES :: nat where "MAX_OPEN_HANDLES = 32"
definition PATH_MAX :: nat where "PATH_MAX = 4096"

text \<open>A directory that is being listed: the names left. A free entry has none.\<close>

record find_slot =
  dir :: "string list option"
  pattern :: string
  real_dir :: string

text \<open>The three tables; \<open>None\<close> is the value -1 of a descriptor. The calls made and the descriptors open are recorded.\<close>

record fsd =
  g_fs_handles :: "nat option list"
  g_fs_finds :: "find_slot list"
  g_handles :: "(nat \<times> string) option list"
  calls :: "call list"
  fds :: "nat list"

definition fsd_init :: fsd where
  "fsd_init =
     \<lparr>g_fs_handles = replicate FS_HANDLE_MAX None,
      g_fs_finds = replicate FS_FIND_MAX \<lparr>dir = None, pattern = [], real_dir = []\<rparr>,
      g_handles = replicate MAX_OPEN_HANDLES None, calls = [], fds = []\<rparr>"

definition call :: "call \<Rightarrow> fsd \<Rightarrow> fsd" where
  "call c s = s\<lparr>calls := calls s @ [c]\<rparr>"

definition sys_open :: "kernel \<Rightarrow> string \<Rightarrow> oflags \<Rightarrow> fsd \<Rightarrow> (fs_errno + nat) \<times> fsd" where
  "sys_open k path fl s =
     (let s = call (COpen path fl) s
      in case k_open k (calls s) of Inl e \<Rightarrow> (Inl e, s) | Inr n \<Rightarrow> (Inr n, s\<lparr>fds := n # fds s\<rparr>))"

definition sys_close :: "nat \<Rightarrow> fsd \<Rightarrow> fsd" where
  "sys_close n s = (call (CClose n) s)\<lparr>fds := remove1 n (fds s)\<rparr>"

text \<open>A call that only succeeds or fails.\<close>

definition sys_do :: "kernel \<Rightarrow> call \<Rightarrow> fsd \<Rightarrow> fs_errno option \<times> fsd" where
  "sys_do k c s = (let s = call c s in (k_status k (calls s), s))"

definition sys_read :: "kernel \<Rightarrow> nat \<Rightarrow> nat \<Rightarrow> fsd \<Rightarrow> (fs_errno + bytes) \<times> fsd" where
  "sys_read k n want s =
     (let s = call (CRead n want) s
      in (case k_read k (calls s) of Inl e \<Rightarrow> Inl e | Inr bs \<Rightarrow> Inr (take want bs), s))"

definition sys_write :: "kernel \<Rightarrow> nat \<Rightarrow> bytes \<Rightarrow> fsd \<Rightarrow> (fs_errno + nat) \<times> fsd" where
  "sys_write k n bs s = (let s = call (CWrite n bs) s in (k_write k (calls s), s))"

definition sys_seek :: "kernel \<Rightarrow> nat \<Rightarrow> int \<Rightarrow> int \<Rightarrow> fsd \<Rightarrow> (fs_errno + int) \<times> fsd" where
  "sys_seek k n off whence s = (let s = call (CSeek n off whence) s in (k_seek k (calls s), s))"

definition sys_stat :: "kernel \<Rightarrow> call \<Rightarrow> fsd \<Rightarrow> stat_info option \<times> fsd" where
  "sys_stat k c s = (let s = call c s in (k_stat k (calls s), s))"

definition sys_opendir :: "kernel \<Rightarrow> string \<Rightarrow> fsd \<Rightarrow> (fs_errno + string list) \<times> fsd" where
  "sys_opendir k path s = (let s = call (COpendir path) s in (k_opendir k (calls s), s))"

definition special :: "string \<Rightarrow> bool" where
  "special name \<longleftrightarrow> name = ''.'' \<or> name = ''..''"

subsection \<open>File handles\<close>

abbreviation FS_FLAG_READ_ONLY :: u32 where "FS_FLAG_READ_ONLY \<equiv> 0x00000100"
abbreviation FS_FLAG_CREATE :: u32 where "FS_FLAG_CREATE \<equiv> 0x00010000"
abbreviation FS_FLAG_CREATE_ALWAYS :: u32 where "FS_FLAG_CREATE_ALWAYS \<equiv> 0x00020000"
abbreviation FS_FLAG_NONBLOCK :: u32 where "FS_FLAG_NONBLOCK \<equiv> 0x10000000"

definition fs_open_flags :: "u32 \<Rightarrow> oflags" where
  "fs_open_flags m =
     (let f = \<lparr>o_write = (m AND FS_FLAG_READ_ONLY = 0), o_creat = False, o_trunc = False, o_nonblock = False\<rparr>;
          f = (if m AND FS_FLAG_CREATE \<noteq> 0 then f\<lparr>o_write := True, o_creat := True\<rparr> else f);
          f = (if m AND FS_FLAG_CREATE_ALWAYS \<noteq> 0 then f\<lparr>o_write := True, o_creat := True, o_trunc := True\<rparr> else f)
      in if m AND FS_FLAG_NONBLOCK \<noteq> 0 then f\<lparr>o_nonblock := True\<rparr> else f)"

text \<open>The first free entry of a table from an index on.\<close>

definition first_free :: "('a \<Rightarrow> bool) \<Rightarrow> nat \<Rightarrow> 'a list \<Rightarrow> nat option" where
  "first_free free i xs = find (\<lambda>j. free (xs ! j)) [i..<length xs]"

definition fs_handle_open :: "kernel \<Rightarrow> string \<Rightarrow> u32 \<Rightarrow> fsd \<Rightarrow> int \<times> fsd" where
  "fs_handle_open k real m s =
     (case first_free (\<lambda>h. h = None) 1 (g_fs_handles s) of
        None \<Rightarrow> (FS_ERR_EMFILE_MAPPED, s)
      | Some i \<Rightarrow>
          (case sys_open k real (fs_open_flags m) s of
             (Inl e, s) \<Rightarrow> (if e = ENOENT then FS_ERR_ENOENT_MAPPED else FS_ERR_GENERIC_MAPPED, s)
           | (Inr n, s) \<Rightarrow> (int i, s\<lparr>g_fs_handles := (g_fs_handles s)[i := Some n]\<rparr>)))"

text \<open>The descriptor of a handle, if the handle is one in use.\<close>

definition fs_handle :: "fsd \<Rightarrow> int \<Rightarrow> nat option" where
  "fs_handle s h = (if h \<le> 0 \<or> h \<ge> int FS_HANDLE_MAX then None else g_fs_handles s ! nat h)"

definition fs_handle_close :: "int \<Rightarrow> fsd \<Rightarrow> int \<times> fsd" where
  "fs_handle_close h s =
     (case fs_handle s h of None \<Rightarrow> (FS_PARAM_ERROR, s)
      | Some n \<Rightarrow> (FS_NO_ERROR, (sys_close n s)\<lparr>g_fs_handles := (g_fs_handles s)[nat h := None]\<rparr>))"

text \<open>\<open>want\<close> is converted to \<open>size_t\<close>: a negative number is more than any buffer holds.\<close>

definition fs_handle_read :: "kernel \<Rightarrow> int \<Rightarrow> nat \<Rightarrow> int \<Rightarrow> fsd \<Rightarrow> bytes option \<times> fsd" where
  "fs_handle_read k h cap want s =
     (case fs_handle s h of None \<Rightarrow> (None, s)
      | Some n \<Rightarrow>
          (case sys_read k n (if want < 0 \<or> want > int cap then cap else nat want) s of
             (Inl e, s) \<Rightarrow> (None, s) | (Inr bs, s) \<Rightarrow> (Some bs, s)))"

definition fs_handle_write :: "kernel \<Rightarrow> int \<Rightarrow> bytes \<Rightarrow> fsd \<Rightarrow> nat option \<times> fsd" where
  "fs_handle_write k h data s =
     (case fs_handle s h of None \<Rightarrow> (None, s)
      | Some n \<Rightarrow> (case sys_write k n data s of (Inl e, s) \<Rightarrow> (None, s) | (Inr m, s) \<Rightarrow> (Some m, s)))"

definition fs_handle_seek :: "kernel \<Rightarrow> int \<Rightarrow> int \<Rightarrow> int \<Rightarrow> fsd \<Rightarrow> int \<times> fsd" where
  "fs_handle_seek k h off whence s =
     (case fs_handle s h of None \<Rightarrow> (-1, s)
      | Some n \<Rightarrow>
          if whence \<noteq> 0 \<and> whence \<noteq> 1 \<and> whence \<noteq> 2 then (-1, s)
          else (case sys_seek k n off whence s of (Inl e, s) \<Rightarrow> (-1, s) | (Inr p, s) \<Rightarrow> (p, s)))"

definition close_entry :: "nat \<Rightarrow> fsd \<Rightarrow> fsd" where
  "close_entry i s =
     (case g_fs_handles s ! i of None \<Rightarrow> s
      | Some n \<Rightarrow> (sys_close n s)\<lparr>g_fs_handles := (g_fs_handles s)[i := None]\<rparr>)"

definition fs_handle_close_all :: "fsd \<Rightarrow> fsd" where
  "fs_handle_close_all s = fold close_entry [1..<length (g_fs_handles s)] s"

subsection \<open>Directories\<close>

definition fs_find_open :: "kernel \<Rightarrow> string \<Rightarrow> string \<Rightarrow> fsd \<Rightarrow> int \<times> fsd" where
  "fs_find_open k path pat s =
     (case first_free (\<lambda>f. dir f = None) 1 (g_fs_finds s) of
        None \<Rightarrow> (FS_ERR_EMFILE_MAPPED, s)
      | Some i \<Rightarrow>
          (case sys_opendir k path s of
             (Inl e, s) \<Rightarrow> (if e = ENOENT then FS_ERR_ENOENT_MAPPED else FS_ERR_GENERIC_MAPPED, s)
           | (Inr names, s) \<Rightarrow>
               (int i, s\<lparr>g_fs_finds := (g_fs_finds s)[i :=
                  \<lparr>dir = Some names, pattern = take 63 (if pat = [] then ''*'' else pat), real_dir = take 511 path\<rparr>]\<rparr>)))"

definition fs_find :: "fsd \<Rightarrow> int \<Rightarrow> find_slot option" where
  "fs_find s h = (if h \<le> 0 \<or> h \<ge> int FS_FIND_MAX \<or> dir (g_fs_finds s ! nat h) = None then None else Some (g_fs_finds s ! nat h))"

definition fs_find_close :: "int \<Rightarrow> fsd \<Rightarrow> int \<times> fsd" where
  "fs_find_close h s =
     (case fs_find s h of None \<Rightarrow> (FS_PARAM_ERROR, s)
      | Some f \<Rightarrow> (FS_NO_ERROR, s\<lparr>g_fs_finds := (g_fs_finds s)[nat h := f\<lparr>dir := None, pattern := []\<rparr>]\<rparr>))"

definition fs_find_next :: "kernel \<Rightarrow> int \<Rightarrow> fsd \<Rightarrow> string option \<times> fsd" where
  "fs_find_next k h s =
     (case fs_find s h of None \<Rightarrow> (None, s)
      | Some f \<Rightarrow>
          (case dropWhile (\<lambda>n. special n \<or> \<not> k_fnmatch k (pattern f) n) (the (dir f)) of
             [] \<Rightarrow> (None, s\<lparr>g_fs_finds := (g_fs_finds s)[nat h := f\<lparr>dir := Some []\<rparr>]\<rparr>)
           | n # ns \<Rightarrow>
               let s = s\<lparr>g_fs_finds := (g_fs_finds s)[nat h := f\<lparr>dir := Some ns\<rparr>]\<rparr>; full = real_dir f @ ''/'' @ n
               in (Some (take 255 n), if length full < PATH_MAX then snd (sys_stat k (CStat full) s) else s)))"

text \<open>
  Recursion into directories: \<open>left\<close> is the number of levels left, nine at the top. The paths of the entries of a directory:
\<close>

definition children :: "string \<Rightarrow> string list \<Rightarrow> string list" where
  "children path names = filter (\<lambda>c. length c < PATH_MAX) (map (\<lambda>n. path @ ''/'' @ n) (filter (\<lambda>n. \<not> special n) names))"

definition FS_XDELETE_MAX_DEPTH :: nat where "FS_XDELETE_MAX_DEPTH = 8"

definition mapped :: "fs_errno option \<Rightarrow> int" where
  "mapped r = (if r = None then FS_NO_ERROR else FS_ERR_GENERIC_MAPPED)"

primrec fs_rm_recursive :: "kernel \<Rightarrow> nat \<Rightarrow> string \<Rightarrow> fsd \<Rightarrow> int \<times> fsd" where
  "fs_rm_recursive k 0 path s = (FS_ERR_GENERIC_MAPPED, s)"
| "fs_rm_recursive k (Suc left) path s =
     (case sys_stat k (CLstat path) s of
        (None, s) \<Rightarrow> (FS_ERR_ENOENT_MAPPED, s)
      | (Some st, s) \<Rightarrow>
          if \<not> st_isdir st then (case sys_do k (CUnlink path) s of (r, s) \<Rightarrow> (mapped r, s))
          else (case sys_opendir k path s of
                  (Inl e, s) \<Rightarrow> (FS_ERR_GENERIC_MAPPED, s)
                | (Inr names, s) \<Rightarrow>
                    (case sys_do k (CRmdir path) (fold (\<lambda>c s. snd (fs_rm_recursive k left c s)) (children path names) s) of
                       (r, s) \<Rightarrow> (mapped r, s))))"

primrec fs_folder_size :: "kernel \<Rightarrow> nat \<Rightarrow> string \<Rightarrow> fsd \<Rightarrow> int \<times> fsd" where
  "fs_folder_size k 0 path s = (0, s)"
| "fs_folder_size k (Suc left) path s =
     (case sys_opendir k path s of
        (Inl e, s) \<Rightarrow> (-1, s)
      | (Inr names, s) \<Rightarrow>
          fold (\<lambda>c (tot, s).
            case sys_stat k (CLstat c) s of
              (None, s) \<Rightarrow> (tot, s)
            | (Some st, s) \<Rightarrow>
                if st_isdir st then (case fs_folder_size k left c s of (sub, s) \<Rightarrow> (if sub > 0 then tot + sub else tot, s))
                else if st_isreg st then (tot + st_size st, s) else (tot, s)) (children path names) (0, s))"

definition fs_dir_count :: "kernel \<Rightarrow> string \<Rightarrow> fsd \<Rightarrow> int \<times> fsd" where
  "fs_dir_count k path s =
     (case sys_opendir k path s of (Inl e, s) \<Rightarrow> (-1, s) | (Inr names, s) \<Rightarrow> (int (length (filter (\<lambda>n. \<not> special n) names)), s))"

subsection \<open>Handles of the compound requests\<close>

definition errno_to_fs_result :: "fs_errno \<Rightarrow> int" where
  "errno_to_fs_result e =
     (case e of ENOENT \<Rightarrow> FS_ERR_ENOENT_MAPPED | EACCES \<Rightarrow> FS_ERR_EACCES_MAPPED | EMFILE \<Rightarrow> FS_ERR_EMFILE_MAPPED
      | _ \<Rightarrow> FS_ERR_GENERIC_MAPPED)"

definition handle_alloc :: "nat \<Rightarrow> string \<Rightarrow> fsd \<Rightarrow> int \<times> fsd" where
  "handle_alloc n path s =
     (case first_free (\<lambda>h. h = None) 0 (g_handles s) of None \<Rightarrow> (-1, s)
      | Some i \<Rightarrow> (int i + 1, s\<lparr>g_handles := (g_handles s)[i := Some (n, take (PATH_MAX - 1) path)]\<rparr>))"

definition handle_get_fd :: "int \<Rightarrow> fsd \<Rightarrow> nat option" where
  "handle_get_fd h s = (if h < 1 \<or> h > int MAX_OPEN_HANDLES then None else map_option fst (g_handles s ! nat (h - 1)))"

definition handle_free :: "int \<Rightarrow> fsd \<Rightarrow> fsd" where
  "handle_free h s = (if h < 1 \<or> h > int MAX_OPEN_HANDLES then s else s\<lparr>g_handles := (g_handles s)[nat (h - 1) := None]\<rparr>)"

end
