(* ===== verification/Fsd_Main.thy ===== *)
theory Fsd_Main
  imports Fsd_State
begin

text \<open>
  The requests of the modem's file service, \<^verbatim>\<open>src/modem/ccci-userspace/fsd/ccci_fsd.c\<close>: the compound requests, the
  operations selected by their number, and the loop that reads a message and writes its reply.
\<close>

subsection \<open>Compound requests\<close>

record cmpt_write_req =
  w_opid_map :: u32
  w_flag :: u32
  w_offset :: u32
  w_whence :: u32
  w_length :: u32
  w_file_handle :: u32

definition cmpt_write_size :: nat where "cmpt_write_size = 40"

definition cmpt_write_of :: "bytes \<Rightarrow> cmpt_write_req" where
  "cmpt_write_of p =
     \<lparr>w_opid_map = rd32 p 0, w_flag = rd32 p 0x0c, w_offset = rd32 p 0x10, w_whence = rd32 p 0x14, w_length = rd32 p 0x1c,
      w_file_handle = rd32 p 0x20\<rparr>"

record cmpt_read_req =
  r_opid_map :: u32
  r_flag :: u32
  r_offset :: u32
  r_whence :: u32
  r_length :: u32

definition cmpt_read_size :: nat where "cmpt_read_size = 36"

definition cmpt_read_of :: "bytes \<Rightarrow> cmpt_read_req" where
  "cmpt_read_of p =
     \<lparr>r_opid_map = rd32 p 0, r_flag = rd32 p 0x0c, r_offset = rd32 p 0x14, r_whence = rd32 p 0x18, r_length = rd32 p 0x20\<rparr>"

text \<open>Opening the file of a compound write, or finding the one that its handle names: the handle and the descriptor.\<close>

definition cmpt_open :: "kernel \<Rightarrow> cmpt_write_req \<Rightarrow> string \<Rightarrow> fsd \<Rightarrow> (int + int \<times> nat) \<times> fsd" where
  "cmpt_open k w real s =
     (if sint (w_file_handle w) \<ge> 0
      then (case handle_get_fd (sint (w_file_handle w)) s of None \<Rightarrow> Inl FS_PARAM_ERROR | Some n \<Rightarrow> Inr (sint (w_file_handle w), n), s)
      else if w_opid_map w AND 1 = 0 then (Inl FS_PARAM_ERROR, s)
      else if length real \<ge> PATH_MAX then (Inl FS_PARAM_ERROR, s)
      else case sys_open k real \<lparr>o_write = True, o_creat = (w_flag w AND 1 \<noteq> 0), o_trunc = (w_flag w AND 2 \<noteq> 0), o_nonblock = False\<rparr> s of
             (Inl e, s) \<Rightarrow> (Inl (errno_to_fs_result e), s)
           | (Inr n, s) \<Rightarrow>
               (case handle_alloc n real s of (h, s) \<Rightarrow>
                  if h < 0 then (Inl FS_MEM_OVERFLOW, sys_close n s) else (Inr (h, n), s)))"

definition cmpt_seek :: "kernel \<Rightarrow> u32 \<Rightarrow> nat \<Rightarrow> u32 \<Rightarrow> u32 \<Rightarrow> fsd \<Rightarrow> fs_errno option \<times> fsd" where
  "cmpt_seek k m n off whence s =
     (if m AND 4 = 0 then (None, s)
      else case sys_seek k n (uint off) (sint whence) s of (Inl e, s) \<Rightarrow> (Some e, s) | (Inr _, s) \<Rightarrow> (None, s))"

text \<open>The result and the handle that stays open, -1 for none.\<close>

definition handle_cmpt_write :: "kernel \<Rightarrow> cmpt_write_req \<Rightarrow> bytes \<Rightarrow> string \<Rightarrow> fsd \<Rightarrow> (int \<times> int) \<times> fsd" where
  "handle_cmpt_write k w data real s =
     (case cmpt_open k w real s of
        (Inl rc, s) \<Rightarrow> ((rc, -1), s)
      | (Inr (h, n), s) \<Rightarrow>
          (case cmpt_seek k (w_opid_map w) n (w_offset w) (w_whence w) s of
             (Some e, s) \<Rightarrow> ((errno_to_fs_result e, h), s)
           | (None, s) \<Rightarrow>
               let want = (if 0 < w_length w \<and> unat (w_length w) \<le> length data then unat (w_length w) else length data)
               in case (if w_opid_map w AND 0x20 = 0 then (Inr 0, s) else sys_write k n (take want data) s) of
                    (Inl e, s) \<Rightarrow> ((errno_to_fs_result e, h), s)
                  | (Inr _, s) \<Rightarrow>
                      if w_opid_map w AND 0x10 \<noteq> 0 then ((FS_NO_ERROR, -1), handle_free h (sys_close n s))
                      else ((FS_NO_ERROR, h), s)))"

definition handle_cmpt_read :: "kernel \<Rightarrow> cmpt_read_req \<Rightarrow> string \<Rightarrow> nat \<Rightarrow> fsd \<Rightarrow> (int \<times> bytes) \<times> fsd" where
  "handle_cmpt_read k r real cap s =
     (if r_opid_map r AND 1 = 0 then ((FS_PARAM_ERROR, []), s)
      else case sys_open k real \<lparr>o_write = True, o_creat = (r_flag r AND 1 \<noteq> 0), o_trunc = False, o_nonblock = False\<rparr> s of
             (Inl e, s) \<Rightarrow> ((errno_to_fs_result e, []), s)
           | (Inr n, s) \<Rightarrow>
               (case cmpt_seek k (r_opid_map r) n (r_offset r) (r_whence r) s of
                  (Some e, s) \<Rightarrow> ((errno_to_fs_result e, []), sys_close n s)
                | (None, s) \<Rightarrow>
                    let want = (if 0 < r_length r \<and> unat (r_length r) \<le> cap then unat (r_length r) else cap)
                    in case (if r_opid_map r AND 8 = 0 then (Inr [], s) else sys_read k n want s) of
                         (Inl e, s) \<Rightarrow> ((errno_to_fs_result e, []), sys_close n s)
                       | (Inr bs, s) \<Rightarrow> ((FS_NO_ERROR, bs), sys_close n s)))"

subsection \<open>Operations\<close>

text \<open>Each operation gives the segments of its reply; \<open>None\<close> stands for a request that is not served.\<close>

type_synonym answer = "bytes list option \<times> fsd"

definition result :: "int \<times> fsd \<Rightarrow> answer" where
  "result r = (Some (result_segs (fst r)), snd r)"

definition op_get_attributes :: "kernel \<Rightarrow> string \<Rightarrow> fsd \<Rightarrow> answer" where
  "op_get_attributes k real s =
     (case sys_stat k (CStat real) s of
        (None, s) \<Rightarrow> result (FS_ERR_ENOENT_MAPPED, s)
      | (Some st, s) \<Rightarrow>
          (case sys_do k (CAccess real) s of (r, s) \<Rightarrow>
             result ((if r = None then 0 else 1) + (if st_isdir st then 0x10 else 0), s)))"

definition open_flags_of :: "fs_req \<Rightarrow> u32" where
  "open_flags_of req = (if has_seg req 1 4 then seg32 req 1 else 0)"

definition op_open :: "kernel \<Rightarrow> fs_req \<Rightarrow> string \<Rightarrow> fsd \<Rightarrow> answer" where
  "op_open k req real s = result (fs_handle_open k real (open_flags_of req) s)"

definition op_open_ex :: "kernel \<Rightarrow> fs_req \<Rightarrow> string \<Rightarrow> fsd \<Rightarrow> answer" where
  "op_open_ex k req real s =
     (let echo = (if has_seg req 2 8 then take 8 (segs req ! 2) else replicate 8 0)
      in case fs_handle_open k real (open_flags_of req) s of (h, s) \<Rightarrow> (Some [i32 h, echo], s))"

definition op_close :: "fs_req \<Rightarrow> fsd \<Rightarrow> answer" where
  "op_close req s = (if has_seg req 0 4 then result (fs_handle_close (sint (seg32 req 0)) s) else (None, s))"

definition op_close_all :: "fsd \<Rightarrow> answer" where
  "op_close_all s = result (FS_NO_ERROR, fs_handle_close_all s)"

definition op_seek :: "kernel \<Rightarrow> fs_req \<Rightarrow> fsd \<Rightarrow> answer" where
  "op_seek k req s =
     (if \<not> (has_seg req 0 4 \<and> has_seg req 1 4 \<and> has_seg req 2 4) then (None, s)
      else case fs_handle_seek k (sint (seg32 req 0)) (sint (seg32 req 1)) (sint (seg32 req 2)) s of
             (pos, s) \<Rightarrow> result (if pos < 0 then FS_ERR_GENERIC_MAPPED else pos, s))"

definition op_read :: "kernel \<Rightarrow> fs_req \<Rightarrow> fsd \<Rightarrow> answer" where
  "op_read k req s =
     (if \<not> (has_seg req 0 4 \<and> has_seg req 1 4) then (None, s)
      else case fs_handle_read k (sint (seg32 req 0)) IO_BUF_SIZE (sint (seg32 req 1)) s of
             (None, s) \<Rightarrow> result (FS_ERR_GENERIC_MAPPED, s)
           | (Some bs, s) \<Rightarrow> (Some [i32 FS_NO_ERROR, i32 (int (length bs)), bs], s))"

definition op_write :: "kernel \<Rightarrow> fs_req \<Rightarrow> fsd \<Rightarrow> answer" where
  "op_write k req s =
     (if \<not> (has_seg req 0 4 \<and> has_seg req 1 0) then (None, s)
      else case fs_handle_write k (sint (seg32 req 0)) (segs req ! 1) s of
             (None, s) \<Rightarrow> (Some [i32 FS_ERR_GENERIC_MAPPED, i32 0], s)
           | (Some n, s) \<Rightarrow> (Some [i32 FS_NO_ERROR, i32 (int n)], s))"

text \<open>The result of a call that creates, removes or renames.\<close>

definition done_or :: "fs_errno option \<Rightarrow> int" where
  "done_or r = (case r of None \<Rightarrow> FS_NO_ERROR | Some ENOENT \<Rightarrow> FS_ERR_ENOENT_MAPPED | _ \<Rightarrow> FS_ERR_GENERIC_MAPPED)"

definition op_create_dir :: "kernel \<Rightarrow> string \<Rightarrow> fsd \<Rightarrow> answer" where
  "op_create_dir k real s =
     (case sys_do k (CMkdir real) s of (r, s) \<Rightarrow> result (if r = None \<or> r = Some EEXIST then FS_NO_ERROR else FS_ERR_GENERIC_MAPPED, s))"

definition op_remove_dir :: "kernel \<Rightarrow> string \<Rightarrow> fsd \<Rightarrow> answer" where
  "op_remove_dir k real s = (case sys_do k (CRmdir real) s of (r, s) \<Rightarrow> result (done_or r, s))"

definition op_delete :: "kernel \<Rightarrow> string \<Rightarrow> fsd \<Rightarrow> answer" where
  "op_delete k real s = (case sys_do k (CUnlink real) s of (r, s) \<Rightarrow> result (done_or r, s))"

definition op_xdelete :: "kernel \<Rightarrow> string \<Rightarrow> fsd \<Rightarrow> answer" where
  "op_xdelete k real s = result (fs_rm_recursive k (FS_XDELETE_MAX_DEPTH + 1) real s)"

definition op_rename :: "kernel \<Rightarrow> string \<Rightarrow> string \<Rightarrow> fsd \<Rightarrow> answer" where
  "op_rename k real real2 s = (case sys_do k (CRename real real2) s of (r, s) \<Rightarrow> result (done_or r, s))"

definition op_get_file_size :: "kernel \<Rightarrow> string \<Rightarrow> fsd \<Rightarrow> answer" where
  "op_get_file_size k real s =
     (case sys_stat k (CStat real) s of
        (None, s) \<Rightarrow> (Some [i32 FS_ERR_ENOENT_MAPPED, i32 0], s)
      | (Some st, s) \<Rightarrow> (Some [i32 FS_NO_ERROR, i32 (st_size st)], s))"

definition op_get_folder_size :: "kernel \<Rightarrow> string \<Rightarrow> fsd \<Rightarrow> answer" where
  "op_get_folder_size k real s =
     (case fs_folder_size k (FS_XDELETE_MAX_DEPTH + 1) real s of (tot, s) \<Rightarrow> result (if tot < 0 then FS_ERR_ENOENT_MAPPED else tot, s))"

definition op_count :: "kernel \<Rightarrow> string \<Rightarrow> fsd \<Rightarrow> answer" where
  "op_count k real s = (case fs_dir_count k real s of (n, s) \<Rightarrow> result (if n < 0 then FS_ERR_ENOENT_MAPPED else n, s))"

text \<open>The last component of a path is a pattern when it holds a wildcard.\<close>

definition split_pattern :: "string \<Rightarrow> string \<times> string" where
  "split_pattern real =
     (let last = rev (takeWhile (\<lambda>c. c \<noteq> CHR ''/'') (rev real))
      in if CHR ''/'' \<in> set real \<and> list_ex (\<lambda>c. c = CHR ''*'' \<or> c = CHR ''?'') last
         then (take (length real - length last - 1) real, take 63 last) else (real, ''*''))"

definition op_find_first :: "kernel \<Rightarrow> string \<Rightarrow> fsd \<Rightarrow> answer" where
  "op_find_first k real s = (case split_pattern real of (d, pat) \<Rightarrow> result (fs_find_open k d pat s))"

definition op_find_next :: "kernel \<Rightarrow> fs_req \<Rightarrow> fsd \<Rightarrow> answer" where
  "op_find_next k req s =
     (if \<not> has_seg req 0 4 then (None, s)
      else case fs_find_next k (sint (seg32 req 0)) s of
             (None, s) \<Rightarrow> result (FS_ERR_ENOENT_MAPPED, s)
           | (Some name, s) \<Rightarrow> (Some [i32 FS_NO_ERROR, i32 (int (length name)), map of_char name], s))"

definition op_find_close :: "fs_req \<Rightarrow> fsd \<Rightarrow> answer" where
  "op_find_close req s = (if has_seg req 0 4 then result (fs_find_close (sint (seg32 req 0)) s) else (None, s))"

definition op_get_drive :: "fs_req \<Rightarrow> fsd \<Rightarrow> answer" where
  "op_get_drive req s = result (if (if has_seg req 0 4 then seg32 req 0 else 0) = 4 then 90 else FS_PARAM_ERROR, s)"

definition sys_statfs :: "kernel \<Rightarrow> string \<Rightarrow> fsd \<Rightarrow> (nat \<times> nat) option \<times> fsd" where
  "sys_statfs k path s = (let s = call (CStatfs path) s in (k_statfs k (calls s), s))"

definition op_get_cluster_size :: "kernel \<Rightarrow> fs_req \<Rightarrow> fsd \<Rightarrow> answer" where
  "op_get_cluster_size k req s =
     (let drive = (if has_seg req 0 4 then seg32 req 0 else 0)
      in if drive < 81 \<or> drive > 90 then result (FS_ERR_GENERIC_MAPPED, s)
         else case sys_statfs k (fs_drive_dir [char_of (unat drive)]) s of
                (None, s) \<Rightarrow> result (FS_ERR_GENERIC_MAPPED, s)
              | (Some (bsize, _), s) \<Rightarrow> result (int bsize, s))"

definition op_get_file_detail :: "kernel \<Rightarrow> string \<Rightarrow> fsd \<Rightarrow> answer" where
  "op_get_file_detail k real s =
     (case sys_stat k (CStat real) s of
        (None, s) \<Rightarrow> (Some (data_segs FS_ERR_ENOENT_MAPPED (replicate 24 0)), s)
      | (Some st, s) \<Rightarrow>
          (case sys_do k (CAccess real) s of (r, s) \<Rightarrow>
             let attr = (if st_isdir st then 0x10 else 0) + (if r = None then 0 else 1)
             in (Some (data_segs FS_NO_ERROR (i32 (st_size st) @ i32 attr @ i32 (st_mtime st) @ replicate 12 0)), s)))"

definition op_get_disk_info :: "kernel \<Rightarrow> string \<Rightarrow> fsd \<Rightarrow> answer" where
  "op_get_disk_info k path s =
     (case sys_statfs k (fs_drive_dir path) s of
        (None, s) \<Rightarrow> (Some (data_segs FS_ERR_GENERIC_MAPPED (replicate 84 0)), s)
      | (Some (bsize, blocks), s) \<Rightarrow>
          (Some (data_segs FS_NO_ERROR (replicate 48 0 @ i32 512 @ i32 (int (bsize div 512)) @ i32 (int blocks) @ i32 0 @ i32 512 @
             replicate 16 0)), s))"

definition op_cmpt_read :: "kernel \<Rightarrow> fs_req \<Rightarrow> string \<Rightarrow> fsd \<Rightarrow> answer" where
  "op_cmpt_read k req real s =
     (if \<not> has_seg req 1 cmpt_read_size then (None, s)
      else case handle_cmpt_read k (cmpt_read_of (segs req ! 1)) real IO_BUF_SIZE s of
             ((rc, bs), s) \<Rightarrow> (Some (data_segs rc (if rc = FS_NO_ERROR then bs else [])), s))"

definition op_cmpt_write :: "kernel \<Rightarrow> fs_req \<Rightarrow> string \<Rightarrow> fsd \<Rightarrow> answer" where
  "op_cmpt_write k req real s =
     (if \<not> has_seg req 1 cmpt_write_size then (None, s)
      else case handle_cmpt_write k (cmpt_write_of (segs req ! 1)) (drop cmpt_write_size (segs req ! 1)) real s of
             ((rc, _), s) \<Rightarrow> result (rc, s))"

subsection \<open>Dispatch\<close>

definition path_ops :: "u32 list" where
  "path_ops = [FS_OP_OPEN, FS_OP_OPEN_EX, FS_OP_GET_ATTRIBUTES, FS_OP_GET_DISK_INFO, FS_OP_CREATE_DIR, FS_OP_REMOVE_DIR, FS_OP_DELETE,
     FS_OP_XDELETE, FS_OP_GET_FILE_SIZE, FS_OP_GET_FOLDER_SIZE, FS_OP_COUNT, FS_OP_FIND_FIRST, FS_OP_CMPT_READ, FS_OP_CMPT_WRITE,
     FS_OP_GET_FILE_DETAIL, FS_OP_RESTORE, FS_OP_RENAME, FS_OP_MOVE]"

text \<open>The first stage: the path of the request as sent and as resolved, and the second path of a rename.\<close>

datatype stage = NotServed | Refused int | Paths string string string

definition seg_path :: "fs_req \<Rightarrow> nat \<Rightarrow> string option" where
  "seg_path req i = (if i < length (segs req) then fs_wcs_to_str (segs req ! i) 260 else None)"

definition request_paths :: "fs_req \<Rightarrow> stage" where
  "request_paths req =
     (if op_id req \<notin> set path_ops then Paths [] [] []
      else case seg_path req 0 of
             None \<Rightarrow> NotServed
           | Some path \<Rightarrow>
               (case fs_resolve path 512 of
                  None \<Rightarrow> Refused FS_ERR_ENOENT_MAPPED
                | Some real \<Rightarrow>
                    if op_id req = FS_OP_RENAME \<or> op_id req = FS_OP_MOVE
                    then (case Option.bind (seg_path req 1) (\<lambda>p. fs_resolve p 512) of
                            None \<Rightarrow> Refused FS_PARAM_ERROR | Some real2 \<Rightarrow> Paths path real real2)
                    else Paths path real []))"

text \<open>The second stage.\<close>

definition serve :: "kernel \<Rightarrow> fs_req \<Rightarrow> string \<Rightarrow> string \<Rightarrow> string \<Rightarrow> fsd \<Rightarrow> answer" where
  "serve k req path real real2 s =
     (let op = op_id req in
      if op = FS_OP_GET_ATTRIBUTES then op_get_attributes k real s
      else if op = FS_OP_OPEN then op_open k req real s
      else if op = FS_OP_OPEN_EX then op_open_ex k req real s
      else if op = FS_OP_CLOSE then op_close req s
      else if op = FS_OP_CLOSE_ALL \<or> op = FS_OP_CLOSE_ALL2 then op_close_all s
      else if op = FS_OP_SEEK then op_seek k req s
      else if op = FS_OP_READ then op_read k req s
      else if op = FS_OP_WRITE then op_write k req s
      else if op = FS_OP_CREATE_DIR then op_create_dir k real s
      else if op = FS_OP_REMOVE_DIR then op_remove_dir k real s
      else if op = FS_OP_DELETE then op_delete k real s
      else if op = FS_OP_XDELETE then op_xdelete k real s
      else if op = FS_OP_RENAME \<or> op = FS_OP_MOVE then op_rename k real real2 s
      else if op = FS_OP_RESTORE then result (FS_ERR_ENOENT_MAPPED, s)
      else if op = FS_OP_GET_FILE_SIZE then op_get_file_size k real s
      else if op = FS_OP_GET_FOLDER_SIZE then op_get_folder_size k real s
      else if op = FS_OP_COUNT then op_count k real s
      else if op = FS_OP_FIND_FIRST then op_find_first k real s
      else if op = FS_OP_FIND_NEXT then op_find_next k req s
      else if op = FS_OP_FIND_CLOSE then op_find_close req s
      else if op = FS_OP_GET_DRIVE then op_get_drive req s
      else if op = FS_OP_GET_CLUSTER_SIZE then op_get_cluster_size k req s
      else if op = FS_OP_GET_FILE_DETAIL then op_get_file_detail k real s
      else if op = FS_OP_GET_DISK_INFO then op_get_disk_info k path s
      else if op = FS_OP_OTP_QUERY_LENGTH \<or> op = FS_OP_OTP_READ then result (FS_ERR_ENOENT_MAPPED, s)
      else if op = FS_OP_OTP_WRITE \<or> op = FS_OP_OTP_LOCK then result (FS_ERR_GENERIC_MAPPED, s)
      else if op = FS_OP_CMPT_READ then op_cmpt_read k req real s
      else if op = FS_OP_CMPT_WRITE then op_cmpt_write k req real s
      else if op = FS_OP_LF \<or> op = FS_OP_CDF \<or> op = FS_OP_SDF then result (0, s)
      else if op = FS_OP_UK then result (1, s)
      else if op = FS_OP_BIN_REGION then result (FS_PARAM_ERROR, s)
      else (None, s))"

definition dispatch :: "kernel \<Rightarrow> fs_req \<Rightarrow> fsd \<Rightarrow> answer" where
  "dispatch k req s =
     (case request_paths req of
        NotServed \<Rightarrow> (None, s)
      | Refused rc \<Rightarrow> result (rc, s)
      | Paths path real real2 \<Rightarrow> serve k req path real real2 s)"

text \<open>The file of the compound requests that are recognised by their layout.\<close>

definition legacy_path :: string where
  "legacy_path = (case path_resolve ''/nvcfg/unknown'' PATH_MAX of Inr p \<Rightarrow> p | Inl _ \<Rightarrow> ''/mnt/vendor/nvcfg/unknown'')"

definition legacy_write :: "kernel \<Rightarrow> bytes \<Rightarrow> fsd \<Rightarrow> answer" where
  "legacy_write k p s =
     (case handle_cmpt_write k (cmpt_write_of p) (drop cmpt_write_size p) legacy_path s of ((rc, _), s) \<Rightarrow> result (rc, s))"

definition legacy_read :: "kernel \<Rightarrow> bytes \<Rightarrow> fsd \<Rightarrow> answer" where
  "legacy_read k p s =
     (case handle_cmpt_read k (cmpt_read_of (drop 0x30 p)) legacy_path IO_BUF_SIZE s of
        ((rc, bs), s) \<Rightarrow> (Some (data_segs rc (if rc = FS_NO_ERROR then bs else [])), s))"

text \<open>A message of the modem: the reply, \<open>None\<close> when none is written.\<close>

definition handle_message :: "kernel \<Rightarrow> bytes \<Rightarrow> fsd \<Rightarrow> bytes option \<times> fsd" where
  "handle_message k m s =
     (if length m < 16 then (None, s)
      else let h = map (\<lambda>i. rd32 m (4 * i)) [0..<4]; p = drop 16 m; op = (if length m \<ge> 20 then rd32 p 0 else 0) in
        if (ucast (h ! 2) :: u16) \<noteq> CCCI_FS_CHANNEL_RX then (None, s)
        else if bit (h ! 0) 31 then (None, s)
        else case (if length m \<ge> 16 + cmpt_write_size \<and> rd32 p 0 AND 0x20 \<noteq> 0 then legacy_write k p s
                   else if length m \<ge> 16 + cmpt_read_size + 0x30 \<and> rd32 p 0x30 AND 8 \<noteq> 0 then legacy_read k p s
                   else case fs_parse_req p of None \<Rightarrow> (None, s) | Some req \<Rightarrow> dispatch k req s) of
               (ans, s) \<Rightarrow>
                 (Some (build_resp IO_BUF_SIZE h op (case ans of None \<Rightarrow> result_segs FS_ERR_ENOENT_MAPPED | Some ds \<Rightarrow> ds)), s))"

text \<open>The loop of \<open>main\<close>: a failed read ends it. The replies are those written.\<close>

fun fsd_loop :: "kernel \<Rightarrow> bytes option list \<Rightarrow> fsd \<Rightarrow> bytes list \<times> fsd" where
  "fsd_loop k [] s = ([], s)"
| "fsd_loop k (None # ms) s = ([], s)"
| "fsd_loop k (Some m # ms) s =
     (case handle_message k (take IO_BUF_SIZE m) s of (r, s) \<Rightarrow>
      case fsd_loop k ms s of (rs, s) \<Rightarrow> (case r of None \<Rightarrow> rs | Some b \<Rightarrow> b # rs, s))"

definition fsd_main :: "kernel \<Rightarrow> bytes option list \<Rightarrow> bytes list \<times> fsd" where
  "fsd_main k ms = fsd_loop k ms fsd_init"

end
