(* ===== verification/Fsd_Invariant.thy ===== *)
theory Fsd_Invariant
  imports Fsd_Main "HOL-Library.Multiset"
begin

text \<open>
  Invariants of the modem's file service. The locale \<open>fsd_invariant\<close> carries a property that the operations on handles and
  directories keep through the dispatcher and the message loop. It is interpreted for the paths given to the kernel and for the
  descriptors left open.
\<close>

subsection \<open>Paths\<close>

fun components :: "string \<Rightarrow> string list" where
  "components [] = [[]]"
| "components (c # cs) = (if c = CHR ''/'' then [] # components cs else (c # hd (components cs)) # tl (components cs))"

text \<open>A path below \<^verbatim>\<open>/mnt/vendor\<close> that never goes up.\<close>

definition confined :: "string \<Rightarrow> bool" where
  "confined p \<longleftrightarrow> take 3 (components p) = ['''', ''mnt'', ''vendor''] \<and> ''..'' \<notin> set (components p)"

lemma components_not_Nil [simp]: "components p \<noteq> []"
  by (cases p) auto

lemma components_slash: "components (a @ CHR ''/'' # b) = components a @ components b"
  by (induction a) auto

lemma components_name: "CHR ''/'' \<notin> set n \<Longrightarrow> components n = [n]"
  by (induction n) auto

lemma has_dotdot_append:
  "has_dotdot (a @ b) \<longleftrightarrow> has_dotdot a \<or> has_dotdot b \<or> a \<noteq> [] \<and> b \<noteq> [] \<and> last a = CHR ''.'' \<and> hd b = CHR ''.''"
proof (induction a)
  case (Cons x a)
  thus ?case by (cases a; cases b) auto
qed simp

lemma dotdot_component: "''..'' \<in> set (components p) \<Longrightarrow> has_dotdot p"
proof -
  have first: "hd (components p) = CHR ''.'' # r \<Longrightarrow> p \<noteq> [] \<and> hd p = CHR ''.''" for p r
    by (cases p) (auto split: if_splits)
  have two: "has_dotdot p" if "hd (components p) = ''..''" for p
  proof (cases p)
    case (Cons c cs)
    from that have "c = CHR ''.''" "hd (components cs) = ''.''" by (auto simp: Cons split: if_splits)
    thus ?thesis using first [of cs "[]"] by (cases cs) (auto simp: Cons)
  qed (use that in simp)
  have cons: "has_dotdot cs \<Longrightarrow> has_dotdot (c # cs)" for c cs by (cases cs) auto
  show "''..'' \<in> set (components p) \<Longrightarrow> has_dotdot p"
  proof (induction p)
    case (Cons c cs)
    show ?case
    proof (cases "''..'' \<in> set (components cs)")
      case True
      thus ?thesis using Cons.IH cons by blast
    next
      case False
      hence "hd (components (c # cs)) = ''..''"
        using Cons.prems by (auto split: if_splits dest: list.set_sel(2) [rotated])
      thus ?thesis by (rule two)
    qed
  qed simp
qed

text \<open>What \<open>fs_resolve\<close> returns.\<close>

lemma resolve_loop_result:
  "resolve_loop cap out cs = Some r \<Longrightarrow>
   r = out @ map (\<lambda>c. if c = CHR 0x5C then CHR ''/'' else c) cs \<and> \<not> has_dotdot cs \<and> (length out < cap \<longrightarrow> length r < cap)"
proof (induction cs arbitrary: out)
  case (Cons c cs)
  from Cons.prems have "\<not> (c = CHR ''.'' \<and> cs \<noteq> [] \<and> hd cs = CHR ''.'')" "length out + 1 < cap"
    and "resolve_loop cap (out @ [if c = CHR 0x5C then CHR ''/'' else c]) cs = Some r"
    by (auto split: if_splits)
  with Cons.IH [OF this(3)] show ?case by (cases cs) auto
qed simp

lemma dotdot_backslash: "has_dotdot (map (\<lambda>c. if c = CHR 0x5C then CHR ''/'' else c) cs) = has_dotdot cs"
  by (induction cs rule: has_dotdot.induct) auto

lemma components_vendor: "components (''/mnt/vendor/'' @ x) = ['''', ''mnt'', ''vendor''] @ components x"
  by simp

lemma vendor_confined:
  assumes "p = ''/mnt/vendor/'' @ x" "\<not> has_dotdot p"
  shows "confined p" "4 \<le> length (components p)"
proof -
  have "components p = ['''', ''mnt'', ''vendor''] @ components x" unfolding assms(1) by (rule components_vendor)
  moreover have "''..'' \<notin> set (components p)" using assms(2) dotdot_component by blast
  moreover have "1 \<le> length (components x)" by (simp add: Suc_le_eq)
  ultimately show "confined p" "4 \<le> length (components p)" by (simp_all add: confined_def)
qed

lemma drive_dir_facts:
  "\<exists>x. fs_drive_dir path = ''/mnt/vendor/'' @ x" "\<not> has_dotdot (fs_drive_dir path)"
  "last (fs_drive_dir path) \<noteq> CHR ''.''"
  by (simp_all add: fs_drive_dir_def)

lemma fs_resolve_confined:
  assumes "fs_resolve path cap = Some r"
  shows "confined r" "4 \<le> length (components r)" "length r < cap"
proof -
  define suf where "suf = map (\<lambda>c. if c = CHR 0x5C then CHR ''/'' else c) (drop 2 path)"
  have r: "r = fs_drive_dir path @ suf" "\<not> has_dotdot (drop 2 path)" "length r < cap"
    using assms resolve_loop_result [of cap "fs_drive_dir path" "drop 2 path" r]
    by (auto simp: fs_resolve_def Let_def suf_def split: if_splits)
  have "\<not> has_dotdot suf" using r(2) by (simp add: suf_def dotdot_backslash)
  hence n: "\<not> has_dotdot r" using drive_dir_facts(2,3) [of path] unfolding r(1) has_dotdot_append by blast
  obtain x where "fs_drive_dir path = ''/mnt/vendor/'' @ x" using drive_dir_facts(1) by blast
  hence "r = ''/mnt/vendor/'' @ (x @ suf)" unfolding r(1) by (simp only: append_assoc)
  from vendor_confined [OF this n] show "confined r" "4 \<le> length (components r)" .
  show "length r < cap" by (rule r(3))
qed

lemma confined_child: "confined p \<Longrightarrow> CHR ''/'' \<notin> set n \<Longrightarrow> n \<noteq> ''..'' \<Longrightarrow> confined (p @ ''/'' @ n)"
proof -
  assume p: "confined p" and n: "CHR ''/'' \<notin> set n" "n \<noteq> ''..''"
  have "components (p @ ''/'' @ n) = components p @ [n]" using n components_slash [of p n] by (simp add: components_name)
  moreover have "3 \<le> length (components p)"
    using p length_take [of 3 "components p"] by (simp add: confined_def)
  ultimately show ?thesis using p n by (simp add: confined_def)
qed

lemma confined_parent:
  assumes "confined p" "4 \<le> length (components p)" "split_pattern p = (d, pat)"
  shows "confined d \<and> length d \<le> length p"
proof -
  define l where "l = rev (takeWhile (\<lambda>c. c \<noteq> CHR ''/'') (rev p))"
  show ?thesis
  proof (cases "CHR ''/'' \<in> set p \<and> list_ex (\<lambda>c. c = CHR ''*'' \<or> c = CHR ''?'') l")
    case True
    have nl: "CHR ''/'' \<notin> set l" by (auto simp: l_def dest: set_takeWhileD)
    obtain q where q: "p = q @ CHR ''/'' # l"
    proof -
      have "rev p = rev l @ dropWhile (\<lambda>c. c \<noteq> CHR ''/'') (rev p)" by (simp add: l_def)
      moreover obtain ds where "dropWhile (\<lambda>c. c \<noteq> CHR ''/'') (rev p) = CHR ''/'' # ds"
        using True hd_dropWhile [of "\<lambda>c. c \<noteq> CHR ''/''" "rev p"]
        by (cases "dropWhile (\<lambda>c. c \<noteq> CHR ''/'') (rev p)") (auto simp: dropWhile_eq_Nil_conv)
      ultimately have "rev p = rev l @ CHR ''/'' # ds" by simp
      hence "p = rev ds @ CHR ''/'' # l" by (metis append.assoc append_Cons append_Nil rev_append rev_rev_ident rev.simps(2))
      thus ?thesis by (rule that)
    qed
    have "d = take (length p - length l - 1) p"
      using assms(3) True by (simp add: split_pattern_def Let_def l_def [symmetric])
    hence d: "d = q" by (simp add: q)
    have "components p = components q @ [l]" by (simp add: q components_slash components_name nl)
    thus ?thesis using assms(1,2) by (auto simp: confined_def d q)
  next
    case False
    hence "d = p" using assms(3) by (auto simp: split_pattern_def Let_def l_def [symmetric])
    thus ?thesis using assms(1) by simp
  qed
qed

lemma legacy_confined: "confined legacy_path"
proof -
  have e: "legacy_path = ''/mnt/vendor/nvcfg/unknown''"
    by (simp add: legacy_path_def path_resolve_def kRoots_def PATH_MAX_def)
  show ?thesis unfolding e by (rule vendor_confined(1) [of _ "''nvcfg/unknown''"]) simp_all
qed

text \<open>The paths of a call.\<close>

primrec call_paths :: "call \<Rightarrow> string list" where
  "call_paths (COpen p f) = [p]"
| "call_paths (CClose n) = []"
| "call_paths (CRead n w) = []"
| "call_paths (CWrite n bs) = []"
| "call_paths (CSeek n p w) = []"
| "call_paths (CUnlink p) = [p]"
| "call_paths (CMkdir p) = [p]"
| "call_paths (CRmdir p) = [p]"
| "call_paths (CRename p q) = [p, q]"
| "call_paths (CAccess p) = [p]"
| "call_paths (CStat p) = [p]"
| "call_paths (CLstat p) = [p]"
| "call_paths (CStatfs p) = [p]"
| "call_paths (COpendir p) = [p]"

lemma drive_dir_confined: "confined (fs_drive_dir path)"
  using drive_dir_facts(1,2) [of path] vendor_confined by blast


subsection \<open>An invariant of the operations is an invariant of the service\<close>

locale fsd_invariant =
  fixes k :: kernel and I :: "fsd \<Rightarrow> bool"
  assumes call_I: "I s \<Longrightarrow> list_all confined (call_paths c) \<Longrightarrow> I (call c s)"
    and open_I: "I s \<Longrightarrow> confined p \<Longrightarrow> I (snd (fs_handle_open k p m s))"
    and close_I: "I s \<Longrightarrow> I (snd (fs_handle_close h s))"
    and close_all_I: "I s \<Longrightarrow> I (fs_handle_close_all s)"
    and find_open_I: "I s \<Longrightarrow> confined p \<Longrightarrow> length p \<le> 511 \<Longrightarrow> I (snd (fs_find_open k p pat s))"
    and find_close_I: "I s \<Longrightarrow> I (snd (fs_find_close h s))"
    and find_next_I: "I s \<Longrightarrow> I (snd (fs_find_next k h s))"
    and rm_I: "I s \<Longrightarrow> confined p \<Longrightarrow> I (snd (fs_rm_recursive k l p s))"
    and folder_I: "I s \<Longrightarrow> confined p \<Longrightarrow> I (snd (fs_folder_size k l p s))"
    and cmpt_write_I: "I s \<Longrightarrow> confined p \<Longrightarrow> I (snd (handle_cmpt_write k w data p s))"
    and cmpt_read_I: "I s \<Longrightarrow> confined p \<Longrightarrow> I (snd (handle_cmpt_read k r p cap s))"
begin

lemma result_I: "I (snd r) \<Longrightarrow> I (snd (result r))"
  by (simp add: result_def)

lemma sys_I:
  "I s \<Longrightarrow> list_all confined (call_paths c) \<Longrightarrow> I (snd (sys_do k c s))"
  "I s \<Longrightarrow> list_all confined (call_paths c) \<Longrightarrow> I (snd (sys_stat k c s))"
  "I s \<Longrightarrow> confined p \<Longrightarrow> I (snd (sys_opendir k p s))" "I s \<Longrightarrow> confined p \<Longrightarrow> I (snd (sys_statfs k p s))"
  "I s \<Longrightarrow> I (snd (sys_read k n w s))" "I s \<Longrightarrow> I (snd (sys_write k n bs s))" "I s \<Longrightarrow> I (snd (sys_seek k n off wh s))"
  by (simp_all add: sys_do_def sys_stat_def sys_opendir_def sys_statfs_def sys_read_def sys_write_def sys_seek_def Let_def call_I)

lemma sys_I_eq:
  "sys_do k c s = (r, t) \<Longrightarrow> I s \<Longrightarrow> list_all confined (call_paths c) \<Longrightarrow> I t"
  "sys_stat k c s = (st, t) \<Longrightarrow> I s \<Longrightarrow> list_all confined (call_paths c) \<Longrightarrow> I t"
  "sys_opendir k p s = (ns, t) \<Longrightarrow> I s \<Longrightarrow> confined p \<Longrightarrow> I t" "sys_statfs k p s = (f, t) \<Longrightarrow> I s \<Longrightarrow> confined p \<Longrightarrow> I t"
  "sys_read k n w s = (b, t) \<Longrightarrow> I s \<Longrightarrow> I t" "sys_write k n bs s = (m, t) \<Longrightarrow> I s \<Longrightarrow> I t"
  "sys_seek k n off wh s = (x, t) \<Longrightarrow> I s \<Longrightarrow> I t"
  by (metis snd_conv sys_I)+

lemma handles_I:
  "I s \<Longrightarrow> I (snd (fs_handle_read k h cap want s))" "I s \<Longrightarrow> I (snd (fs_handle_write k h data s))"
  "I s \<Longrightarrow> I (snd (fs_handle_seek k h off wh s))"
  by (auto simp: fs_handle_read_def fs_handle_write_def fs_handle_seek_def split: option.split prod.split sum.split dest: sys_I_eq(5-7))

lemma simple_ops_I:
  "I s \<Longrightarrow> I (snd (op_close req s))" "I s \<Longrightarrow> I (snd (op_close_all s))" "I s \<Longrightarrow> I (snd (op_find_close req s))"
  "I s \<Longrightarrow> I (snd (op_get_drive req s))"
  by (simp_all add: op_close_def op_close_all_def op_find_close_def op_get_drive_def result_I close_I close_all_I find_close_I)

lemma handle_ops_I:
  assumes "I s"
  shows "I (snd (op_seek k req s))" "I (snd (op_read k req s))" "I (snd (op_write k req s))" "I (snd (op_find_next k req s))"
  using assms handles_I [OF assms] find_next_I [OF assms]
  by (auto simp: op_seek_def op_read_def op_write_def op_find_next_def result_def split: prod.split option.split) (metis snd_conv)+

lemma path_ops_I:
  assumes s: "I s" and p: "confined real"
  shows "I (snd (op_get_attributes k real s))" "I (snd (op_open k req real s))" "I (snd (op_open_ex k req real s))"
    "I (snd (op_create_dir k real s))" "I (snd (op_remove_dir k real s))" "I (snd (op_delete k real s))"
    "I (snd (op_xdelete k real s))" "I (snd (op_get_file_size k real s))" "I (snd (op_get_folder_size k real s))"
    "I (snd (op_count k real s))" "I (snd (op_get_file_detail k real s))"
proof -
  show "I (snd (op_get_attributes k real s))" "I (snd (op_get_file_detail k real s))" "I (snd (op_get_file_size k real s))"
    using s p by (auto simp: op_get_attributes_def op_get_file_detail_def op_get_file_size_def result_def Let_def
        split: prod.split option.split intro: sys_I_eq(2) sys_I_eq(1) [OF _ sys_I_eq(2)])
  show "I (snd (op_create_dir k real s))" "I (snd (op_remove_dir k real s))" "I (snd (op_delete k real s))"
    using s p by (auto simp: op_create_dir_def op_remove_dir_def op_delete_def result_def split: prod.split dest: sys_I_eq(1))
  show "I (snd (op_open k req real s))" "I (snd (op_open_ex k req real s))"
    using open_I [OF s p, of "open_flags_of req"] by (auto simp: op_open_def op_open_ex_def result_def Let_def split: prod.split)
  show "I (snd (op_xdelete k real s))" "I (snd (op_get_folder_size k real s))"
    using rm_I [OF s p, of "FS_XDELETE_MAX_DEPTH + 1"] folder_I [OF s p, of "FS_XDELETE_MAX_DEPTH + 1"]
    unfolding op_xdelete_def op_get_folder_size_def result_def by (simp_all add: case_prod_beta del: fs_rm_recursive.simps fs_folder_size.simps)
  show "I (snd (op_count k real s))"
    using s p by (auto simp: op_count_def fs_dir_count_def result_def split: prod.split sum.split dest: sys_I_eq(3))
qed

lemma other_ops_I:
  assumes s: "I s"
  shows "confined real \<Longrightarrow> confined real2 \<Longrightarrow> I (snd (op_rename k real real2 s))"
    "confined real \<Longrightarrow> 4 \<le> length (components real) \<Longrightarrow> length real \<le> 511 \<Longrightarrow> I (snd (op_find_first k real s))"
    "I (snd (op_get_cluster_size k req s))" "I (snd (op_get_disk_info k path s))"
    "confined real \<Longrightarrow> I (snd (op_cmpt_read k req real s))" "confined real \<Longrightarrow> I (snd (op_cmpt_write k req real s))"
    "I (snd (legacy_write k m s))" "I (snd (legacy_read k m s))"
proof -
  show "confined real \<Longrightarrow> confined real2 \<Longrightarrow> I (snd (op_rename k real real2 s))"
    using s by (auto simp: op_rename_def result_def split: prod.split dest: sys_I_eq(1))
  show "confined real \<Longrightarrow> 4 \<le> length (components real) \<Longrightarrow> length real \<le> 511 \<Longrightarrow> I (snd (op_find_first k real s))"
    using s confined_parent [of real]
    by (auto simp: op_find_first_def split: prod.split intro!: result_I find_open_I)
  show "I (snd (op_get_cluster_size k req s))" "I (snd (op_get_disk_info k path s))"
    using s drive_dir_confined
    by (auto simp: op_get_cluster_size_def op_get_disk_info_def result_def Let_def split: prod.split option.split dest: sys_I_eq(4))
  show "confined real \<Longrightarrow> I (snd (op_cmpt_read k req real s))" "confined real \<Longrightarrow> I (snd (op_cmpt_write k req real s))"
    using s cmpt_read_I [OF s, of real "cmpt_read_of (segs req ! 1)" IO_BUF_SIZE]
      cmpt_write_I [OF s, of real "cmpt_write_of (segs req ! 1)" "drop cmpt_write_size (segs req ! 1)"]
    by (auto simp: op_cmpt_read_def op_cmpt_write_def result_def split: prod.split)
  show "I (snd (legacy_write k m s))" "I (snd (legacy_read k m s))"
    using cmpt_read_I [OF s legacy_confined, of "cmpt_read_of (drop 0x30 m)" IO_BUF_SIZE]
      cmpt_write_I [OF s legacy_confined, of "cmpt_write_of m" "drop cmpt_write_size m"]
    by (auto simp: legacy_read_def legacy_write_def result_def split: prod.split)
qed

text \<open>The paths a request works on.\<close>

lemma request_paths_cases:
  assumes "request_paths req = Paths path real real2"
  shows "op_id req \<notin> set path_ops \<or> confined real \<and> 4 \<le> length (components real) \<and> length real \<le> 511 \<and>
     (op_id req = FS_OP_RENAME \<or> op_id req = FS_OP_MOVE \<longrightarrow> confined real2)"
  using assms
  by (auto simp: request_paths_def bind_eq_Some_conv split: if_splits option.splits dest: fs_resolve_confined)

lemma serve_I:
  assumes "I s" "request_paths req = Paths path real real2"
  shows "I (snd (serve k req path real real2 s))"
proof -
  have pr: "op_id req \<in> set path_ops \<Longrightarrow> confined real \<and> 4 \<le> length (components real) \<and> length real \<le> 511 \<and>
     (op_id req = FS_OP_RENAME \<or> op_id req = FS_OP_MOVE \<longrightarrow> confined real2)"
    using request_paths_cases [OF assms(2)] by blast
  have res: "I (snd (result (x, s)))" for x using assms(1) by (simp add: result_def)
  show ?thesis
    unfolding serve_def Let_def
    using assms(1) pr res by (simp add: path_ops_def simple_ops_I handle_ops_I path_ops_I other_ops_I)
qed

lemma dispatch_I: "I s \<Longrightarrow> I (snd (dispatch k req s))"
  by (auto simp: dispatch_def result_def split: stage.split intro: serve_I)

lemma message_I:
  assumes "I s" shows "I (snd (handle_message k m s))"
proof -
  define p where "p = drop 16 m"
  obtain ans t where t: "(if length m \<ge> 16 + cmpt_write_size \<and> rd32 p 0 AND 0x20 \<noteq> 0 then legacy_write k p s
     else if length m \<ge> 16 + cmpt_read_size + 0x30 \<and> rd32 p 0x30 AND 8 \<noteq> 0 then legacy_read k p s
     else case fs_parse_req p of None \<Rightarrow> (None, s) | Some req \<Rightarrow> dispatch k req s) = (ans, t)" by fastforce
  have "I (snd (if length m \<ge> 16 + cmpt_write_size \<and> rd32 p 0 AND 0x20 \<noteq> 0 then legacy_write k p s
     else if length m \<ge> 16 + cmpt_read_size + 0x30 \<and> rd32 p 0x30 AND 8 \<noteq> 0 then legacy_read k p s
     else case fs_parse_req p of None \<Rightarrow> (None, s) | Some req \<Rightarrow> dispatch k req s))"
    using assms by (auto simp: other_ops_I dispatch_I split: option.split)
  hence "I t" unfolding t by simp
  thus ?thesis using assms unfolding handle_message_def Let_def p_def [symmetric] t prod.case by simp
qed

lemma loop_I: "I s \<Longrightarrow> I (snd (fsd_loop k ms s))"
proof (induction ms arbitrary: s)
  case (Cons m ms)
  obtain r t where m: "m \<noteq> None \<Longrightarrow> handle_message k (take IO_BUF_SIZE (the m)) s = (r, t)" by fastforce
  have "m \<noteq> None \<Longrightarrow> I t" using m message_I [OF Cons.prems, of "take IO_BUF_SIZE (the m)"] by simp
  thus ?case using m Cons.IH [of t] Cons.prems by (cases m) (auto split: prod.split)
qed simp

end

end
