(* ===== verification/Fsd_Properties.thy ===== *)
theory Fsd_Properties
  imports Fsd_Invariant
begin

text \<open>
  The modem's file service touches files below \<^verbatim>\<open>/mnt/vendor\<close> only and accounts for every descriptor it opens.
\<close>

subsection \<open>Paths\<close>

text \<open>Names in a directory hold no slash.\<close>

definition plain_names :: "kernel \<Rightarrow> bool" where
  "plain_names k \<longleftrightarrow> (\<forall>cs ns. k_opendir k cs = Inr ns \<longrightarrow> list_all (\<lambda>n. CHR ''/'' \<notin> set n) ns)"

definition slot_ok :: "find_slot \<Rightarrow> bool" where
  "slot_ok f \<longleftrightarrow> (\<forall>ns. dir f = Some ns \<longrightarrow> confined (real_dir f) \<and> list_all (\<lambda>n. CHR ''/'' \<notin> set n) ns)"

definition safe :: "fsd \<Rightarrow> bool" where
  "safe s \<longleftrightarrow> list_all (\<lambda>c. list_all confined (call_paths c)) (calls s) \<and> list_all slot_ok (g_fs_finds s) \<and>
     length (g_fs_finds s) = FS_FIND_MAX"

lemma safe_call: "safe s \<Longrightarrow> list_all confined (call_paths c) \<Longrightarrow> safe (call c s)"
  by (simp add: safe_def call_def)

lemma safe_fields [simp]:
  "safe (s\<lparr>fds := f\<rparr>) = safe s" "safe (s\<lparr>g_fs_handles := g\<rparr>) = safe s" "safe (s\<lparr>g_handles := h\<rparr>) = safe s"
  by (simp_all add: safe_def)

lemma safe_finds: "safe s \<Longrightarrow> slot_ok f \<Longrightarrow> safe (s\<lparr>g_fs_finds := (g_fs_finds s)[i := f]\<rparr>)"
  by (auto simp: safe_def list_all_iff dest!: subsetD [OF set_update_subset_insert])

lemma safe_sys:
  "safe s \<Longrightarrow> list_all confined (call_paths c) \<Longrightarrow> safe (snd (sys_do k c s))"
  "safe s \<Longrightarrow> list_all confined (call_paths c) \<Longrightarrow> safe (snd (sys_stat k c s))"
  "safe s \<Longrightarrow> confined p \<Longrightarrow> safe (snd (sys_opendir k p s))"
  "safe s \<Longrightarrow> safe (snd (sys_read k n w s))" "safe s \<Longrightarrow> safe (snd (sys_write k n bs s))" "safe s \<Longrightarrow> safe (snd (sys_seek k n off wh s))"
  "safe s \<Longrightarrow> confined p \<Longrightarrow> safe (snd (sys_open k p fl s))" "safe s \<Longrightarrow> safe (sys_close n s)"
  by (simp_all add: sys_do_def sys_stat_def sys_opendir_def sys_read_def sys_write_def sys_seek_def sys_open_def sys_close_def Let_def
      safe_call split: sum.split)

lemma safe_sys_eq:
  "sys_do k c s = (r, t) \<Longrightarrow> safe s \<Longrightarrow> list_all confined (call_paths c) \<Longrightarrow> safe t"
  "sys_stat k c s = (st, t) \<Longrightarrow> safe s \<Longrightarrow> list_all confined (call_paths c) \<Longrightarrow> safe t"
  "sys_opendir k p s = (ns, t) \<Longrightarrow> safe s \<Longrightarrow> confined p \<Longrightarrow> safe t"
  "sys_read k n w s = (b, t) \<Longrightarrow> safe s \<Longrightarrow> safe t" "sys_write k n bs s = (m, t) \<Longrightarrow> safe s \<Longrightarrow> safe t"
  "sys_seek k n off wh s = (x, t) \<Longrightarrow> safe s \<Longrightarrow> safe t"
  "sys_open k p fl s = (f, t) \<Longrightarrow> safe s \<Longrightarrow> confined p \<Longrightarrow> safe t"
  by (metis snd_conv safe_sys)+

lemma opendir_plain: "plain_names k \<Longrightarrow> sys_opendir k p s = (Inr ns, t) \<Longrightarrow> list_all (\<lambda>n. CHR ''/'' \<notin> set n) ns"
  by (auto simp: plain_names_def sys_opendir_def Let_def)

lemma children_confined: "confined p \<Longrightarrow> list_all (\<lambda>n. CHR ''/'' \<notin> set n) ns \<Longrightarrow> list_all confined (children p ns)"
  by (auto simp: children_def list_all_iff special_def intro: confined_child [simplified])

lemma safe_handles:
  "safe s \<Longrightarrow> confined p \<Longrightarrow> safe (snd (fs_handle_open k p m s))" "safe s \<Longrightarrow> safe (snd (fs_handle_close h s))"
  by (auto simp: fs_handle_open_def fs_handle_close_def safe_sys split: option.split prod.split sum.split dest: safe_sys_eq(7))

lemma safe_close_all: "safe s \<Longrightarrow> safe (fs_handle_close_all s)"
proof -
  have "safe s \<Longrightarrow> safe (close_entry i s)" for i s by (auto simp: close_entry_def safe_sys split: option.split)
  hence "safe s \<Longrightarrow> safe (fold close_entry is s)" for "is" s by (induction "is" arbitrary: s) auto
  thus "safe s \<Longrightarrow> safe (fs_handle_close_all s)" by (simp add: fs_handle_close_all_def)
qed

lemma safe_find_open:
  assumes k: "plain_names k" and s: "safe s" and p: "confined p" "length p \<le> 511"
  shows "safe (snd (fs_find_open k p pat s))"
proof -
  obtain r t where o: "sys_opendir k p s = (r, t)" by fastforce
  have t: "safe t" by (rule safe_sys_eq(3) [OF o s p(1)])
  have "r = Inr ns \<Longrightarrow> slot_ok \<lparr>dir = Some ns, pattern = q, real_dir = take 511 p\<rparr>" for ns q
    using opendir_plain [OF k, of p s ns t] o p by (simp add: slot_ok_def)
  thus ?thesis using s t by (auto simp: fs_find_open_def o split: option.split sum.split intro: safe_finds)
qed

lemma find_slot:
  "fs_find s h = Some f \<Longrightarrow> safe s \<Longrightarrow> nat h < length (g_fs_finds s) \<and> slot_ok f \<and> (\<exists>ns. dir f = Some ns)"
  by (auto simp: fs_find_def safe_def list_all_length split: if_splits)

lemma safe_find_close: "safe s \<Longrightarrow> safe (snd (fs_find_close h s))"
  by (auto simp: fs_find_close_def split: option.split intro!: safe_finds) (simp add: slot_ok_def)

lemma safe_find_next:
  assumes s: "safe s" shows "safe (snd (fs_find_next k h s))"
proof (cases "fs_find s h")
  case (Some f)
  obtain ns where f: "slot_ok f" "dir f = Some ns" using find_slot [OF Some s] by blast
  let ?rest = "dropWhile (\<lambda>n. special n \<or> \<not> k_fnmatch k (pattern f) n) ns"
  show ?thesis
  proof (cases ?rest)
    case Nil
    have "slot_ok (f\<lparr>dir := Some []\<rparr>)" using f by (simp add: slot_ok_def)
    thus ?thesis using s by (simp add: fs_find_next_def Some f Nil safe_finds)
  next
    case (Cons n ms)
    have "set (n # ms) \<subseteq> set ns" using Cons set_dropWhileD [of _ _ ns] by (metis subsetI)
    moreover have "\<not> special n" using Cons hd_dropWhile [of "\<lambda>n. special n \<or> \<not> k_fnmatch k (pattern f) n" ns] by auto
    ultimately have "slot_ok (f\<lparr>dir := Some ms\<rparr>)" "confined (real_dir f @ ''/'' @ n)"
      using f by (auto simp: slot_ok_def list_all_iff special_def intro!: confined_child [simplified])
    thus ?thesis using s
      by (auto simp: fs_find_next_def Some f Cons Let_def intro!: safe_sys(2) safe_finds)
  qed
qed (use s in \<open>simp add: fs_find_next_def\<close>)

lemma fold_state: "list_all P xs \<Longrightarrow> (\<And>x s. P x \<Longrightarrow> Q s \<Longrightarrow> Q (f x s)) \<Longrightarrow> Q s \<Longrightarrow> Q (fold f xs s)"
  by (induction xs arbitrary: s) auto

lemma safe_rm: "plain_names k \<Longrightarrow> safe s \<Longrightarrow> confined p \<Longrightarrow> safe (snd (fs_rm_recursive k l p s))"
proof (induction l arbitrary: p s)
  case (Suc l)
  obtain st t where a: "sys_stat k (CLstat p) s = (st, t)" by fastforce
  obtain r u where o: "sys_opendir k p t = (r, u)" by fastforce
  have t: "safe t" using safe_sys_eq(2) [OF a] Suc.prems by simp
  have u: "safe u" by (rule safe_sys_eq(3) [OF o t Suc.prems(3)])
  have "safe (fold (\<lambda>c s. snd (fs_rm_recursive k l c s)) (children p ns) u)" if "r = Inr ns" for ns
    using children_confined [OF Suc.prems(3) opendir_plain [OF Suc.prems(1)]] o that u Suc.IH Suc.prems(1)
    by (intro fold_state [where P = confined and Q = safe]) auto
  with t u Suc.prems(3) show ?case
    by (auto simp: a o split: option.split sum.split prod.split intro: safe_sys_eq(1))
qed simp

lemma safe_folder: "plain_names k \<Longrightarrow> safe s \<Longrightarrow> confined p \<Longrightarrow> safe (snd (fs_folder_size k l p s))"
proof (induction l arbitrary: p s)
  case (Suc l)
  obtain r u where o: "sys_opendir k p s = (r, u)" by fastforce
  have u: "safe u" by (rule safe_sys_eq(3) [OF o Suc.prems(2,3)])
  have "safe (snd (fold (\<lambda>c (tot, s). case sys_stat k (CLstat c) s of (None, s) \<Rightarrow> (tot, s)
      | (Some st, s) \<Rightarrow> if st_isdir st then (case fs_folder_size k l c s of (sub, s) \<Rightarrow> (if sub > 0 then tot + sub else tot, s))
                else if st_isreg st then (tot + st_size st, s) else (tot, s)) (children p ns) (0, u)))" if "r = Inr ns" for ns
  proof (rule fold_state [where P = confined and Q = "\<lambda>x. safe (snd x)"])
    show "list_all confined (children p ns)"
      using children_confined [OF Suc.prems(3) opendir_plain [OF Suc.prems(1)]] o that by simp
    show "safe (snd (0 :: int, u))" using u by simp
    fix c :: string and x :: "int \<times> fsd" assume c: "confined c" and x: "safe (snd x)"
    obtain tot v st w sub y where v: "x = (tot, v)" "sys_stat k (CLstat c) v = (st, w)" "fs_folder_size k l c w = (sub, y)"
      by (metis surj_pair)
    have w: "safe w" using safe_sys_eq(2) [OF v(2)] c x v(1) by simp
    have "safe y" using Suc.IH [OF Suc.prems(1) w c] v(3) by simp
    with w show "safe (snd ((case x of (tot, s) \<Rightarrow> case sys_stat k (CLstat c) s of (None, s) \<Rightarrow> (tot, s)
      | (Some st, s) \<Rightarrow> if st_isdir st then (case fs_folder_size k l c s of (sub, s) \<Rightarrow> (if sub > 0 then tot + sub else tot, s))
                else if st_isreg st then (tot + st_size st, s) else (tot, s))))"
      by (auto simp: v split: option.split)
  qed
  with u show ?case by (auto simp: o split: sum.split)
qed simp

lemma safe_cmpt_read: "safe s \<Longrightarrow> confined p \<Longrightarrow> safe (snd (handle_cmpt_read k r p cap s))"
proof -
  assume s: "safe s" and p: "confined p"
  have seek: "cmpt_seek k m n off wh t = (e, u) \<Longrightarrow> safe t \<Longrightarrow> safe u" for m n off wh t e u
    by (auto simp: cmpt_seek_def split: if_splits prod.splits sum.splits dest: safe_sys_eq(6))
  show ?thesis
    using s p by (auto simp: handle_cmpt_read_def Let_def safe_sys split: prod.split sum.split option.split if_splits
        dest!: safe_sys_eq(4) safe_sys_eq(7) seek)
qed

lemma safe_cmpt_open: "cmpt_open k w p s = (r, t) \<Longrightarrow> safe s \<Longrightarrow> confined p \<Longrightarrow> safe t"
proof -
  have alloc: "handle_alloc n q u = (h, v) \<Longrightarrow> safe u \<Longrightarrow> safe v" for n q u h v
    by (auto simp: handle_alloc_def split: option.splits)
  assume "cmpt_open k w p s = (r, t)" "safe s" "confined p"
  thus ?thesis
    by (auto simp: cmpt_open_def safe_sys split: if_splits prod.splits sum.splits dest!: alloc safe_sys_eq(7))
qed

lemma safe_cmpt_write:
  assumes s: "safe s" and p: "confined p" shows "safe (snd (handle_cmpt_write k w data p s))"
proof -
  obtain r t where o: "cmpt_open k w p s = (r, t)" by fastforce
  have t: "safe t" by (rule safe_cmpt_open [OF o s p])
  have seek: "cmpt_seek k m n off wh t = (e, u) \<Longrightarrow> safe t \<Longrightarrow> safe u" for m n off wh t e u
    by (auto simp: cmpt_seek_def split: if_splits prod.splits sum.splits dest: safe_sys_eq(6))
  have free: "safe (handle_free h u) = safe u" for h u by (simp add: handle_free_def)
  show ?thesis
    using t by (auto simp: handle_cmpt_write_def o Let_def safe_sys free split: prod.split sum.split option.split if_splits
        dest!: safe_sys_eq(5) seek)
qed

interpretation conf: fsd_invariant k "\<lambda>s. plain_names k \<longrightarrow> safe s" for k
  by unfold_locales
    (auto intro: safe_call safe_handles safe_close_all safe_find_open safe_find_close safe_find_next safe_rm safe_folder
      safe_cmpt_write safe_cmpt_read)

subsection \<open>Descriptors\<close>

definition table_fds :: "fsd \<Rightarrow> nat multiset" where
  "table_fds s = mset (List.map_filter id (g_fs_handles s)) + mset (List.map_filter (map_option fst) (g_handles s))"

text \<open>All open descriptors but \<open>M\<close> are in the tables.\<close>

definition accounted :: "nat multiset \<Rightarrow> fsd \<Rightarrow> bool" where
  "accounted M s \<longleftrightarrow> mset (fds s) = table_fds s + M \<and> length (g_fs_handles s) = FS_HANDLE_MAX \<and> g_fs_handles s ! 0 = None \<and>
     length (g_handles s) = MAX_OPEN_HANDLES"

text \<open>Steps that only make calls.\<close>

definition same_tables :: "fsd \<Rightarrow> fsd \<Rightarrow> bool" where
  "same_tables s t \<longleftrightarrow> g_fs_handles t = g_fs_handles s \<and> g_handles t = g_handles s \<and> fds t = fds s"

lemma accounted_same: "accounted M s \<Longrightarrow> same_tables s t \<Longrightarrow> accounted M t"
  by (simp add: accounted_def same_tables_def table_fds_def)

lemma same_tables_refl [simp]: "same_tables s s"
  by (simp add: same_tables_def)

lemma same_tables_trans [trans]: "same_tables s t \<Longrightarrow> same_tables t u \<Longrightarrow> same_tables s u"
  by (simp add: same_tables_def)

lemma same_tables_sys:
  "same_tables s (call c s)" "same_tables s (snd (sys_do k c s))" "same_tables s (snd (sys_stat k c s))"
  "same_tables s (snd (sys_opendir k p s))" "same_tables s (snd (sys_read k n w s))" "same_tables s (snd (sys_write k n bs s))"
  "same_tables s (snd (sys_seek k n off wh s))" "same_tables s (s\<lparr>g_fs_finds := f\<rparr>)"
  by (simp_all add: same_tables_def call_def sys_do_def sys_stat_def sys_opendir_def sys_read_def sys_write_def sys_seek_def Let_def)

lemma same_tables_eq:
  "sys_do k c s = (r, t) \<Longrightarrow> same_tables s t" "sys_stat k c s = (st, t) \<Longrightarrow> same_tables s t"
  "sys_opendir k p s = (ns, t) \<Longrightarrow> same_tables s t" "sys_read k n w s = (b, t) \<Longrightarrow> same_tables s t"
  "sys_write k n bs s = (m, t) \<Longrightarrow> same_tables s t" "sys_seek k n off wh s = (x, t) \<Longrightarrow> same_tables s t"
  by (metis snd_conv same_tables_sys)+

lemma map_filter_upd:
  "i < length xs \<Longrightarrow> mset (List.map_filter f (xs[i := x])) + (case f (xs ! i) of None \<Rightarrow> {#} | Some a \<Rightarrow> {#a#}) =
     mset (List.map_filter f xs) + (case f x of None \<Rightarrow> {#} | Some a \<Rightarrow> {#a#})"
proof -
  assume i: "i < length xs"
  have app: "List.map_filter f (ys @ zs) = List.map_filter f ys @ List.map_filter f zs" for ys zs by (simp add: map_filter_def)
  have one: "List.map_filter f (y # zs) = (case f y of None \<Rightarrow> [] | Some a \<Rightarrow> [a]) @ List.map_filter f zs" for y zs
    by (simp add: map_filter_simps split: option.split)
  have "mset (List.map_filter f xs) = mset (List.map_filter f (take i xs @ xs ! i # drop (Suc i) xs))"
    by (simp only: id_take_nth_drop [OF i, symmetric])
  thus ?thesis using i by (simp add: upd_conv_take_nth_drop app one split: option.split)
qed

lemma first_free_Some: "first_free P i xs = Some j \<Longrightarrow> i \<le> j \<and> j < length xs \<and> P (xs ! j)"
  by (auto simp: first_free_def find_Some_iff)

lemma accounted_sys_open: "accounted M s \<Longrightarrow> sys_open k p fl s = (Inr n, t) \<Longrightarrow> accounted (add_mset n M) t"
  "accounted M s \<Longrightarrow> sys_open k p fl s = (Inl e, t) \<Longrightarrow> accounted M t"
  by (auto simp: sys_open_def Let_def call_def accounted_def table_fds_def split: sum.splits)

lemma accounted_sys_close: "accounted (add_mset n M) s \<Longrightarrow> accounted M (sys_close n s)"
  by (auto simp: sys_close_def call_def accounted_def table_fds_def)

text \<open>Putting a descriptor into the first table and taking one out.\<close>

lemma accounted_put:
  assumes s: "accounted (add_mset n M) s" and i: "0 < i" "i < FS_HANDLE_MAX" "g_fs_handles s ! i = None"
  shows "accounted M (s\<lparr>g_fs_handles := (g_fs_handles s)[i := Some n]\<rparr>)"
  using s i map_filter_upd [of i "g_fs_handles s" id "Some n"] by (auto simp: accounted_def table_fds_def)

lemma accounted_take:
  assumes s: "accounted M s" and i: "0 < i" "i < FS_HANDLE_MAX" "g_fs_handles s ! i = Some n"
  shows "accounted (add_mset n M) (s\<lparr>g_fs_handles := (g_fs_handles s)[i := None]\<rparr>)"
  using s i map_filter_upd [of i "g_fs_handles s" id None] by (auto simp: accounted_def table_fds_def)

lemma accounted_put2:
  assumes s: "accounted (add_mset n M) s" and i: "i < MAX_OPEN_HANDLES" "g_handles s ! i = None"
  shows "accounted M (s\<lparr>g_handles := (g_handles s)[i := Some (n, q)]\<rparr>)"
  using s i map_filter_upd [of i "g_handles s" "map_option fst" "Some (n, q)"] by (auto simp: accounted_def table_fds_def)

lemma accounted_take2:
  assumes s: "accounted M s" and i: "i < MAX_OPEN_HANDLES" "map_option fst (g_handles s ! i) = Some n"
  shows "accounted (add_mset n M) (s\<lparr>g_handles := (g_handles s)[i := None]\<rparr>)"
  using s i map_filter_upd [of i "g_handles s" "map_option fst" None] by (auto simp: accounted_def table_fds_def)

lemma sys_close_tables: "(sys_close n s)\<lparr>g_fs_handles := g\<rparr> = sys_close n (s\<lparr>g_fs_handles := g\<rparr>)"
  by (simp add: sys_close_def call_def)

lemma accounted_open: "accounted {#} s \<Longrightarrow> accounted {#} (snd (fs_handle_open k p m s))"
proof -
  assume s: "accounted {#} s"
  show ?thesis
  proof (cases "first_free (\<lambda>h. h = None) 1 (g_fs_handles s)")
    case (Some i)
    have i: "1 \<le> i" "i < FS_HANDLE_MAX" "g_fs_handles s ! i = None" using first_free_Some [OF Some] s by (auto simp: accounted_def)
    obtain r t where o: "sys_open k p (fs_open_flags m) s = (r, t)" by fastforce
    have g: "g_fs_handles t = g_fs_handles s" using o by (auto simp: sys_open_def call_def Let_def split: sum.splits)
    have 1: "r = Inl e \<Longrightarrow> accounted {#} t" for e using accounted_sys_open(2) [OF s] o by simp
    have 2: "r = Inr n \<Longrightarrow> accounted {#} (t\<lparr>g_fs_handles := (g_fs_handles t)[i := Some n]\<rparr>)" for n
      using accounted_sys_open(1) [OF s] o i by (intro accounted_put) (auto simp: g)
    show ?thesis unfolding fs_handle_open_def Some option.case o using 1 2 by (cases r) auto
  qed (use s in \<open>simp add: fs_handle_open_def\<close>)
qed

lemma accounted_close: "accounted {#} s \<Longrightarrow> accounted {#} (snd (fs_handle_close h s))"
proof (cases "fs_handle s h")
  case (Some n)
  assume s: "accounted {#} s"
  have "0 < nat h" "nat h < FS_HANDLE_MAX" "g_fs_handles s ! nat h = Some n" using Some by (auto simp: fs_handle_def split: if_splits)
  from accounted_take [OF s this] show ?thesis by (simp add: fs_handle_close_def Some sys_close_tables accounted_sys_close)
qed (simp add: fs_handle_close_def)

lemma accounted_close_all: "accounted {#} s \<Longrightarrow> accounted {#} (fs_handle_close_all s)"
proof -
  have step: "accounted {#} s \<Longrightarrow> 0 < i \<Longrightarrow> i < FS_HANDLE_MAX \<Longrightarrow> accounted {#} (close_entry i s)" for i s
    by (auto simp: close_entry_def sys_close_tables split: option.split intro!: accounted_sys_close accounted_take)
  assume s: "accounted {#} s"
  hence "list_all (\<lambda>i. 0 < i \<and> i < FS_HANDLE_MAX) [1..<length (g_fs_handles s)]" by (auto simp: accounted_def list_all_iff)
  thus ?thesis unfolding fs_handle_close_all_def
    by (rule fold_state) (use step s in auto)
qed

lemma same_tables_finds:
  "same_tables s (snd (fs_find_open k p pat s))" "same_tables s (snd (fs_find_close h s))" "same_tables s (snd (fs_find_next k h s))"
  by (auto simp: fs_find_open_def fs_find_close_def fs_find_next_def same_tables_def sys_opendir_def sys_stat_def call_def Let_def
      split: option.split list.split sum.split)

lemma fold_same: "(\<And>x s. same_tables s (f x s)) \<Longrightarrow> same_tables s (fold f xs s)"
  by (induction xs arbitrary: s) (auto intro: same_tables_trans)

lemma same_tables_rm: "same_tables s (snd (fs_rm_recursive k l p s))"
proof (induction l arbitrary: p s)
  case (Suc l)
  obtain st t where a: "sys_stat k (CLstat p) s = (st, t)" by fastforce
  obtain r u where o: "sys_opendir k p t = (r, u)" by fastforce
  obtain x v where v: "sys_do k (CUnlink p) t = (x, v)" by fastforce
  define w where "w ns = fold (\<lambda>c s. snd (fs_rm_recursive k l c s)) (children p ns) u" for ns
  have t: "same_tables s t" "same_tables s u" "same_tables s v"
    using same_tables_eq(2) [OF a] same_tables_eq(3) [OF o] same_tables_eq(1) [OF v] by (blast intro: same_tables_trans)+
  have "same_tables u (w ns)" for ns unfolding w_def by (rule fold_same) (rule Suc.IH)
  hence "same_tables s (snd (sys_do k (CRmdir p) (w ns)))" for ns
    using t(2) same_tables_sys(2) by (blast intro: same_tables_trans)
  with t show ?case by (auto simp: a o v w_def split: option.split sum.split prod.split) (metis snd_conv)
qed simp

lemma same_tables_folder: "same_tables s (snd (fs_folder_size k l p s))"
proof (induction l arbitrary: p s)
  case (Suc l)
  obtain r u where o: "sys_opendir k p s = (r, u)" by fastforce
  have u: "same_tables s u" by (rule same_tables_eq(3) [OF o])
  have "same_tables s (snd (fold (\<lambda>c (tot, s). case sys_stat k (CLstat c) s of (None, s) \<Rightarrow> (tot, s)
      | (Some st, s) \<Rightarrow> if st_isdir st then (case fs_folder_size k l c s of (sub, s) \<Rightarrow> (if sub > 0 then tot + sub else tot, s))
                else if st_isreg st then (tot + st_size st, s) else (tot, s)) (children p ns) (0, u)))" for ns
  proof (rule fold_state [where P = "\<lambda>_. True" and Q = "\<lambda>x. same_tables s (snd x)"])
    show "list_all (\<lambda>_. True) (children p ns)" by (simp add: list_all_iff)
    show "same_tables s (snd (0 :: int, u))" using u by simp
    fix c :: string and x :: "int \<times> fsd" assume x: "same_tables s (snd x)"
    obtain tot v st w sub y where v: "x = (tot, v)" "sys_stat k (CLstat c) v = (st, w)" "fs_folder_size k l c w = (sub, y)"
      by (metis surj_pair)
    have "same_tables s w" "same_tables w y"
      using same_tables_eq(2) [OF v(2)] x v(1) Suc.IH [of w c] v(3) by (auto intro: same_tables_trans)
    thus "same_tables s (snd ((case x of (tot, s) \<Rightarrow> case sys_stat k (CLstat c) s of (None, s) \<Rightarrow> (tot, s)
      | (Some st, s) \<Rightarrow> if st_isdir st then (case fs_folder_size k l c s of (sub, s) \<Rightarrow> (if sub > 0 then tot + sub else tot, s))
                else if st_isreg st then (tot + st_size st, s) else (tot, s))))"
      by (auto simp: v split: option.split intro: same_tables_trans)
  qed
  with u show ?case by (auto simp: o split: sum.split)
qed simp

lemma same_tables_seek: "cmpt_seek k m n off wh s = (e, t) \<Longrightarrow> same_tables s t"
  by (auto simp: cmpt_seek_def split: if_splits prod.splits sum.splits dest: same_tables_eq(6))

lemma accounted_cmpt_read:
  assumes s: "accounted M s" shows "accounted M (snd (handle_cmpt_read k r p cap s))"
proof -
  define fl where "fl = \<lparr>o_write = True, o_creat = (r_flag r AND 1 \<noteq> 0), o_trunc = False, o_nonblock = False\<rparr>"
  obtain f t where o: "sys_open k p fl s = (f, t)" by fastforce
  show ?thesis
  proof (cases f)
    case (Inl e)
    thus ?thesis using s accounted_sys_open(2) [OF s] o by (simp add: handle_cmpt_read_def fl_def [symmetric])
  next
    case (Inr n)
    have t: "accounted (add_mset n M) t" using accounted_sys_open(1) [OF s] o Inr by simp
    obtain e u where u: "cmpt_seek k (r_opid_map r) n (r_offset r) (r_whence r) t = (e, u)" by fastforce
    have au: "accounted (add_mset n M) u" by (rule accounted_same [OF t same_tables_seek [OF u]])
    have "accounted (add_mset n M) v" if "sys_read k n w u = (x, v)" for w x v by (rule accounted_same [OF au same_tables_eq(4) [OF that]])
    with au s show ?thesis
      by (auto simp: handle_cmpt_read_def fl_def [symmetric] o Inr u Let_def split: option.split sum.split prod.split
          intro!: accounted_sys_close)
  qed
qed

lemma cmpt_open_accounted:
  assumes s: "accounted {#} s" and o: "cmpt_open k w p s = (r, t)"
  shows "accounted {#} t" "r = Inr (h, n) \<Longrightarrow> handle_get_fd h t = Some n"
proof -
  define fl where "fl = \<lparr>o_write = True, o_creat = (w_flag w AND 1 \<noteq> 0), o_trunc = (w_flag w AND 2 \<noteq> 0), o_nonblock = False\<rparr>"
  obtain f u where f: "sys_open k p fl s = (f, u)" by fastforce
  obtain j v where j: "handle_alloc (projr f) p u = (j, v)" by fastforce
  have alloc: "(j = -1 \<and> v = u) \<or> (accounted {#} v \<and> 0 < j \<and> handle_get_fd j v = Some (projr f))" if "f = Inr m" for m
  proof (cases "first_free (\<lambda>h. h = None) 0 (g_handles u)")
    case (Some i)
    have u: "accounted (add_mset m {#}) u" using accounted_sys_open(1) [OF s] f that by simp
    have i: "i < MAX_OPEN_HANDLES" "g_handles u ! i = None" using first_free_Some [OF Some] u by (auto simp: accounted_def)
    have "accounted {#} v" using accounted_put2 [OF u i] j that by (auto simp: handle_alloc_def Some)
    thus ?thesis using j i u that by (auto simp: handle_alloc_def Some handle_get_fd_def accounted_def)
  qed (use j in \<open>simp add: handle_alloc_def\<close>)
  have "accounted {#} t \<and> (r = Inr (h, n) \<longrightarrow> handle_get_fd h t = Some n)"
  proof (cases f)
    case (Inl e)
    thus ?thesis using o s f accounted_sys_open(2) [OF s]
      by (auto simp: cmpt_open_def fl_def [symmetric] split: if_splits option.splits)
  next
    case (Inr m)
    have "accounted {#} (sys_close m u)" using accounted_sys_close accounted_sys_open(1) [OF s] f Inr by simp
    with alloc [OF Inr] show ?thesis using o s f j Inr
      by (auto simp: cmpt_open_def fl_def [symmetric] split: if_splits option.splits)
  qed
  thus "accounted {#} t" "r = Inr (h, n) \<Longrightarrow> handle_get_fd h t = Some n" by blast+
qed

lemma handle_free_close: "handle_free h (sys_close n s) = sys_close n (handle_free h s)"
  by (simp add: handle_free_def sys_close_def call_def)

lemma accounted_free:
  assumes s: "accounted {#} s" and h: "handle_get_fd h s = Some n"
  shows "accounted {#} (handle_free h (sys_close n s))"
proof -
  have "nat (h - 1) < MAX_OPEN_HANDLES" "map_option fst (g_handles s ! nat (h - 1)) = Some n" "\<not> (h < 1 \<or> h > int MAX_OPEN_HANDLES)"
    using h by (auto simp: handle_get_fd_def split: if_splits)
  thus ?thesis using accounted_take2 [OF s] unfolding handle_free_close by (simp add: handle_free_def accounted_sys_close)
qed

lemma get_fd_same: "same_tables s t \<Longrightarrow> handle_get_fd h t = handle_get_fd h s"
  by (simp add: handle_get_fd_def same_tables_def)

lemma accounted_cmpt_write:
  assumes s: "accounted {#} s" shows "accounted {#} (snd (handle_cmpt_write k w data p s))"
proof -
  obtain r t where o: "cmpt_open k w p s = (r, t)" by fastforce
  note t = cmpt_open_accounted [OF s o]
  show ?thesis
  proof (cases r)
    case (Inl e)
    thus ?thesis using t(1) by (simp add: handle_cmpt_write_def o)
  next
    case (Inr hn)
    obtain h n where hn: "hn = (h, n)" by fastforce
    obtain e u where u: "cmpt_seek k (w_opid_map w) n (w_offset w) (w_whence w) t = (e, u)" by fastforce
    have tu: "same_tables t u" by (rule same_tables_seek [OF u])
    have v: "same_tables t v" if "sys_write k n x u = (m, v)" for x m v using same_tables_trans [OF tu same_tables_eq(5) [OF that]] .
    have ok: "accounted {#} v \<and> accounted {#} (handle_free h (sys_close n v))" if "same_tables t v" for v
      using accounted_same [OF t(1) that] t(2) Inr hn get_fd_same [OF that] by (auto intro: accounted_free)
    show ?thesis
      using ok [OF tu] ok [OF v]
      by (auto simp: handle_cmpt_write_def o Inr hn u Let_def split: option.split sum.split prod.split)
  qed
qed

interpretation acct: fsd_invariant k "accounted {#}" for k
  by unfold_locales
    (blast intro: accounted_same same_tables_sys same_tables_finds same_tables_rm same_tables_folder accounted_open accounted_close
      accounted_close_all accounted_cmpt_write accounted_cmpt_read)+

end
