(* ===== verification/Fsd_Guarantees.thy ===== *)
theory Fsd_Guarantees
  imports Fsd_Properties
begin

text \<open>
  What the modem's file service guarantees, and where it does not do what its dispatcher means to: requests whose number or
  data happen to look like a compound request are taken for one.
\<close>

subsection \<open>Paths and descriptors\<close>

text \<open>A kernel in which every open succeeds and every directory holds one file, for the examples.\<close>

definition easy_kernel :: kernel where
  "easy_kernel =
     \<lparr>k_open = (\<lambda>cs. Inr (length cs)), k_status = (\<lambda>_. None), k_read = (\<lambda>_. Inr [1, 2, 3]), k_write = (\<lambda>_. Inr 1),
      k_seek = (\<lambda>_. Inr 0), k_stat = (\<lambda>_. Some \<lparr>st_size = 3, st_isdir = False, st_isreg = True, st_mtime = 0\<rparr>),
      k_statfs = (\<lambda>_. Some (4096, 100)), k_opendir = (\<lambda>_. Inr [''.'', ''..'', ''LD0B_001'']), k_fnmatch = (\<lambda>_ _. True)\<rparr>"

lemma easy_plain: "plain_names easy_kernel"
  by (auto simp: plain_names_def easy_kernel_def)

lemma safe_init: "safe fsd_init"
  by (simp add: safe_def fsd_init_def slot_ok_def list_all_iff)

lemma map_filter_free: "f None = None \<Longrightarrow> List.map_filter f (replicate n None) = []"
  by (induction n) (simp_all add: map_filter_simps)

lemma accounted_init: "accounted {#} fsd_init"
  by (simp add: accounted_def table_fds_def fsd_init_def FS_HANDLE_MAX_def MAX_OPEN_HANDLES_def map_filter_free)

text \<open>
  C18: Whatever the modem sends, every path the service gives to the kernel lies below \<^verbatim>\<open>/mnt/vendor\<close> and has no \<^verbatim>\<open>..\<close> component,
  recursive deletion and directory searches included.
\<close>

theorem fsd_confined:
  assumes "plain_names k"
  shows "list_all (\<lambda>c. list_all confined (call_paths c)) (calls (snd (fsd_main k ms)))"
  using conf.loop_I [of k fsd_init ms] safe_init assms by (simp add: fsd_main_def safe_def)

theorem fsd_confined_witness:
  "list_all (\<lambda>c. list_all confined (call_paths c)) (calls (snd (fsd_main easy_kernel [Some (replicate 40 0), None])))"
  by (rule fsd_confined [OF easy_plain])

lemma length_map_filter: "length (List.map_filter f xs) \<le> length xs"
  by (simp add: map_filter_def)


text \<open>
  A successful open gives out a handle that was free, and no other handle changes; closing it succeeds once.
\<close>

lemma open_then_close:
  assumes s: "accounted {#} s" and o: "fs_handle_open k p m s = (h, t)" and h: "0 < h"
  shows "h < int FS_HANDLE_MAX \<and> fs_handle s h = None \<and> fs_handle t h \<noteq> None \<and> (\<forall>g. g \<noteq> h \<longrightarrow> fs_handle t g = fs_handle s g) \<and>
    fst (fs_handle_close h t) = FS_NO_ERROR \<and> fst (fs_handle_close h (snd (fs_handle_close h t))) = FS_PARAM_ERROR"
proof -
  obtain i n u where i: "first_free (\<lambda>h. h = None) 1 (g_fs_handles s) = Some i" "sys_open k p (fs_open_flags m) s = (Inr n, u)"
    "h = int i" "t = u\<lparr>g_fs_handles := (g_fs_handles u)[i := Some n]\<rparr>"
    using o h unfolding fs_handle_open_def by (auto split: option.splits prod.splits sum.splits if_splits)
  have "g_fs_handles u = g_fs_handles s" using i(2) by (auto simp: sys_open_def call_def Let_def split: sum.splits)
  thus ?thesis using first_free_Some [OF i(1)] s
    by (auto simp: i(3,4) fs_handle_def accounted_def fs_handle_close_def sys_close_def)
qed

subsection \<open>Messages\<close>

lemma unat_u32: "n < 2 ^ 32 \<Longrightarrow> unat (of_nat n :: u32) = n"
  by (simp add: unat_of_nat)

lemma and_not_3: "(x :: u32) AND NOT 3 = push_bit 2 (drop_bit 2 x)"
proof (rule bit_word_eqI)
  fix n assume "n < LENGTH(32)"
  have "bit (3 :: u32) n \<longleftrightarrow> n < 2"
    using bit_mask_iff [of 2 n, where 'a = u32] \<open>n < LENGTH(32)\<close> by (auto simp: mask_eq_exp_minus_1)
  thus "bit (x AND NOT 3) n = bit (push_bit 2 (drop_bit 2 x)) n"
    using \<open>n < LENGTH(32)\<close> by (cases "n < 2") (auto simp: bit_simps not_less dest!: le_Suc_ex)
qed

lemma pad4_small: "n \<le> 4096 \<Longrightarrow> pad4 (of_nat n) = (n + 3) div 4 * 4"
proof -
  assume n: "n \<le> 4096"
  have "(of_nat n + 3 :: u32) = of_nat (n + 3)" by simp
  moreover have "push_bit 2 (drop_bit 2 (of_nat (n + 3) :: u32)) = of_nat ((n + 3) div 4 * 4)"
  proof -
    have "unat (of_nat (n + 3) :: u32) = n + 3" using n by (intro unat_u32) simp
    hence "drop_bit 2 (of_nat (n + 3) :: u32) = of_nat ((n + 3) div 4)"
      by (simp add: drop_bit_eq_div word_arith_nat_div del: of_nat_add)
    thus ?thesis by (simp add: push_bit_eq_mult)
  qed
  moreover have "unat (of_nat ((n + 3) div 4 * 4) :: u32) = (n + 3) div 4 * 4" using n by (intro unat_u32) simp
  ultimately show ?thesis unfolding pad4_def and_not_3 by (simp only:)
qed

lemma parse_built:
  "build_segs cap off ds = Some body \<Longrightarrow> cap \<le> 4096 \<Longrightarrow> parse_segs (length ds) (pre @ body) (length pre) = Some ds"
proof (induction ds arbitrary: off body pre)
  case (Cons d ds)
  define w where "w = (length d + 3) div 4 * 4"
  obtain rest where fits: "off + 4 + w \<le> cap" and rest: "build_segs cap (off + 4 + w) ds = Some rest"
    and body: "body = le32 (of_nat (length d)) @ d @ replicate (w - length d) 0 @ rest"
    using Cons.prems(1) by (auto simp: Let_def w_def [symmetric] split: if_splits)
  have d: "length d \<le> w" "length d \<le> 4096" using fits Cons.prems(2) by (auto simp: w_def)
  have len: "unat (of_nat (length d) :: u32) = length d" using d by (intro unat_u32) simp
  have "rd32 (pre @ body) (length pre) = of_nat (length d)" unfolding body by (rule rd32_le32)
  moreover have "parse_segs (length ds) (pre @ body) (length pre + 4 + w) = Some ds"
    using Cons.IH [OF rest Cons.prems(2), of "pre @ le32 (of_nat (length d)) @ d @ replicate (w - length d) 0"] d
    by (simp add: body add.assoc)
  ultimately show ?case
    using d by (simp add: Let_def len pad4_small w_def [symmetric] body)
qed simp

text \<open>
  C20: A reply that is written can be taken apart again: its length is in its header, it carries the operation's number with
  the upper half set, and the segments are found exactly as they were put in.
\<close>

theorem reply_roundtrip:
  assumes "build_resp cap h op ds \<noteq> []" "cap \<le> IO_BUF_SIZE" "length ds \<le> FS_MAX_SEGS"
  shows "fs_parse_req (drop 16 (build_resp cap h op ds)) = Some \<lparr>op_id = op OR 0xFFFF0000, segs = ds\<rparr> \<and>
    unat (rd32 (build_resp cap h op ds) 4) = length (build_resp cap h op ds)"
proof -
  obtain body where b: "build_segs cap 24 ds = Some body" and cap: "24 \<le> cap"
    using assms(1) by (auto simp: build_resp_def split: if_splits option.splits)
  have len: "24 + length body \<le> cap"
  proof -
    have "build_segs cap off ds = Some body \<Longrightarrow> off \<le> cap \<Longrightarrow> off + length body \<le> cap" for off
    proof (induction ds arbitrary: off body)
      case (Cons d ds)
      thus ?case by (fastforce simp: Let_def split: if_splits)
    qed simp
    thus ?thesis using b cap by blast
  qed
  let ?w = "[h ! 0 AND NOT 0x80000000, of_nat (24 + length body), h ! 2 + 1, h ! 3]"
  let ?r = "build_resp cap h op ds"
  have r: "?r = concat (map le32 ?w) @ le32 (op OR 0xFFFF0000) @ le32 (of_nat (length ds)) @ body"
    using b cap by (simp add: build_resp_def)
  have p: "drop 16 ?r = le32 (op OR 0xFFFF0000) @ le32 (of_nat (length ds)) @ body" by (simp add: r)
  have ops: "rd32 (drop 16 ?r) 0 = op OR 0xFFFF0000" "rd32 (drop 16 ?r) 4 = of_nat (length ds)"
    using rd32_le32 [of "[]" "op OR 0xFFFF0000"] rd32_le32 [of "le32 (op OR 0xFFFF0000)" "of_nat (length ds)" body] by (simp_all add: p)
  have n: "unat (of_nat (length ds) :: u32) = length ds" using assms(3) by (intro unat_u32) (simp add: FS_MAX_SEGS_def)
  have "parse_segs (length ds) (drop 16 ?r) 8 = Some ds"
    using parse_built [OF b, of "le32 (op OR 0xFFFF0000) @ le32 (of_nat (length ds))"] assms(2) by (simp add: p IO_BUF_SIZE_def)
  hence "fs_parse_req (drop 16 ?r) = Some \<lparr>op_id = op OR 0xFFFF0000, segs = ds\<rparr>"
    using assms(3) by (simp add: fs_parse_req_def Let_def ops n) (simp add: r)
  moreover have "rd32 ?r 4 = of_nat (24 + length body)"
    using rd32_le32 [of "le32 (h ! 0 AND NOT 0x80000000)" "of_nat (24 + length body)"] by (simp add: r del: of_nat_add)
  moreover have "unat (of_nat (24 + length body) :: u32) = 24 + length body"
    using len assms(2) by (intro unat_u32) (simp add: IO_BUF_SIZE_def)
  moreover have "length ?r = 24 + length body" by (simp add: r)
  ultimately show ?thesis by (simp only:)
qed

theorem reply_roundtrip_witness:
  "fs_parse_req (drop 16 (build_resp 4096 [0, 0, 14, 0] FS_OP_READ [i32 0, i32 3, [7, 8, 9]])) =
     Some \<lparr>op_id = 0xFFFF1003, segs = [i32 0, i32 3, [7, 8, 9]]\<rparr>"
proof -
  have "build_resp 4096 [0, 0, 14, 0] FS_OP_READ [i32 0, i32 3, [7, 8, 9]] \<noteq> []"
    by (simp add: build_resp_def i32_def Let_def le32_def)
  from reply_roundtrip [OF this] show ?thesis by (simp add: IO_BUF_SIZE_def FS_MAX_SEGS_def)
qed

text \<open>A read of more than 4052 bytes gets no reply, since the reply does not fit the buffer; a chunk of the modem always fits.\<close>

lemma read_reply_fits: "build_resp IO_BUF_SIZE h op [i32 a, i32 b, bs] \<noteq> [] \<longleftrightarrow> length bs \<le> 4052"
  by (auto simp: build_resp_def IO_BUF_SIZE_def i32_def Let_def le32_def)


subsection \<open>Requests taken for compound requests\<close>

text \<open>The calls a step makes.\<close>

definition adds :: "(call \<Rightarrow> bool) \<Rightarrow> fsd \<Rightarrow> fsd \<Rightarrow> bool" where
  "adds P s t \<longleftrightarrow> (\<exists>cs. calls t = calls s @ cs \<and> list_all P cs)"

lemma adds_refl: "adds P s s"
  by (simp add: adds_def)

lemma parse_segs_room:
  "parse_segs n p off = Some ss \<Longrightarrow> i < length ss \<Longrightarrow> off + 4 * Suc i + length (ss ! i) \<le> length p"
proof (induction n arbitrary: off ss i)
  case (Suc n)
  from Suc.prems(1) obtain rest where ss: "ss = take (unat (rd32 p off)) (drop (off + 4) p) # rest"
    and len: "off + 4 \<le> length p" "unat (rd32 p off) \<le> length p - (off + 4)"
    and rest: "parse_segs n p (off + 4 + pad4 (rd32 p off)) = Some rest"
    by (auto simp: Let_def split: if_splits)
  show ?case
  proof (cases i)
    case 0
    thus ?thesis using ss len by simp
  next
    case (Suc j)
    thus ?thesis using Suc.IH [OF rest, of j] Suc.prems(2) ss by simp
  qed
qed simp

lemma parsed_op: "fs_parse_req p = Some req \<Longrightarrow> rd32 p 0 = op_id req"
  by (auto simp: fs_parse_req_def Let_def split: if_splits)

lemma parsed_room: "fs_parse_req p = Some req \<Longrightarrow> has_seg req i n \<Longrightarrow> 12 + 4 * i + n \<le> length p"
  by (auto simp: fs_parse_req_def has_seg_def Let_def split: if_splits dest: parse_segs_room [of _ p 8 _ i])

text \<open>A compound write without the open bit names no file and reads nothing.\<close>

definition quiet :: "call \<Rightarrow> bool" where
  "quiet c \<longleftrightarrow> call_paths c = [] \<and> (\<forall>n w. c \<noteq> CRead n w)"

lemma write_without_open:
  assumes "w_opid_map w AND 1 = 0"
  shows "adds quiet s (snd (handle_cmpt_write k w d real s))"
proof -
  have q: "quiet (CSeek a b c)" "quiet (CWrite a d)" "quiet (CClose a)" for a b c d
    by (simp_all add: quiet_def)
  show ?thesis using assms q
    by (auto simp: handle_cmpt_write_def cmpt_open_def cmpt_seek_def sys_seek_def sys_write_def sys_close_def handle_free_def call_def
        adds_def Let_def split: option.splits sum.splits prod.splits if_splits)
qed

text \<open>
  C21: A compound request, read or write, that names its file as the dispatcher expects is never served: the bits of its number
  make it a compound write without an open, so the file it names is not touched and nothing is read.
\<close>

theorem cmpt_requests_never_served:
  assumes req: "fs_parse_req (drop 16 m) = Some req" "op_id req = FS_OP_CMPT_READ \<or> op_id req = FS_OP_CMPT_WRITE"
    "has_seg req 1 cmpt_read_size"
  shows "\<exists>cs. calls (snd (handle_message k m s)) = calls s @ cs \<and> list_all (\<lambda>c. call_paths c = [] \<and> (\<forall>n w. c \<noteq> CRead n w)) cs"
proof -
  have op: "rd32 (drop 16 m) 0 AND 0x20 \<noteq> 0" "rd32 (drop 16 m) 0 AND 1 = 0"
    using req(2) parsed_op [OF req(1)] by auto
  have "56 \<le> length m" using parsed_room [OF req(1,3)] by (simp add: cmpt_read_size_def)
  hence "adds quiet s (snd (handle_message k m s))"
    using op(1) write_without_open [of "cmpt_write_of (drop 16 m)" s k "drop cmpt_write_size (drop 16 m)" legacy_path] op(2)
    by (auto simp: handle_message_def legacy_write_def result_def cmpt_write_of_def cmpt_write_size_def Let_def adds_refl split: prod.splits)
  thus ?thesis by (auto simp: adds_def quiet_def list_all_iff)
qed

lemma read_no_write: "adds (\<lambda>c. \<forall>n bs. c \<noteq> CWrite n bs) s (snd (handle_cmpt_read k r real cap s))"
  by (auto simp: handle_cmpt_read_def sys_open_def cmpt_seek_def sys_seek_def sys_read_def sys_close_def call_def
      adds_def Let_def split: option.splits sum.splits prod.splits if_splits)



text \<open>A compound read of \<^verbatim>\<open>Z:a\<close>, and a write of 64 bytes to the handle 1.\<close>

definition cmpt_read_message :: bytes where
  "cmpt_read_message =
     concat (map le32 [0, 0, 14, 0, FS_OP_CMPT_READ, 2, 6]) @ [90, 0, 58, 0, 97, 0, 0, 0] @ le32 36 @ le32 0x19 @ replicate 32 0"

definition write_message :: bytes where
  "write_message = concat (map le32 [0, 0, 14, 0, FS_OP_WRITE, 2, 4, 1, 64]) @ replicate 64 8"

theorem cmpt_requests_never_served_witness:
  "\<exists>cs. calls (snd (handle_message easy_kernel cmpt_read_message fsd_init)) = cs \<and>
     list_all (\<lambda>c. call_paths c = [] \<and> (\<forall>n w. c \<noteq> CRead n w)) cs"
proof -
  have "fs_parse_req (drop 16 cmpt_read_message) =
      Some \<lparr>op_id = FS_OP_CMPT_READ, segs = [[90, 0, 58, 0, 97, 0], le32 0x19 @ replicate 32 0]\<rparr>"
    by code_simp
  from cmpt_requests_never_served [OF this, of easy_kernel fsd_init] show ?thesis
    by (simp add: has_seg_def cmpt_read_size_def fsd_init_def)
qed


end
