(* ===== verification/Modem_Init.thy ===== *)
theory Modem_Init
  imports Prelude "HOL-Library.Signed_Division"
begin

text \<open>
  The program that starts the modem and watches over it, \<^verbatim>\<open>src/modem/ccci-userspace/mdinit/ccci_mdinit.c\<close>, with the binding of the
  vendor libraries in \<^verbatim>\<open>common/nvram_shim.c\<close>. The system is a parameter: each of its answers may depend on all calls made so
  far. What arrives at the monitor device is a list of turns.
\<close>

subsection \<open>Vendor libraries\<close>

text \<open>
  The symbols of the two libraries, \<open>None\<close> when a library lacks one. A file descriptor comes with a token and a size; the
  table number is asked for again and again, so its answer depends on how often it was asked.
\<close>

record nvram_syms =
  get_lid_by_name :: "(string \<Rightarrow> int) option"
  get_file_desc :: "(int \<Rightarrow> int \<times> int \<times> int) option"
  close_file_desc :: "(int \<Rightarrow> int \<Rightarrow> bool) option"
  restore_from_bin_region_one_file :: "(int \<Rightarrow> string \<Rightarrow> int) option"
  sar_table_id_get :: "(nat \<Rightarrow> int \<times> int) option"

text \<open>The libraries as \<open>dlopen\<close> finds them: whether each can be opened, and what it would define.\<close>

record vendor_libs =
  nvram_opens :: bool
  sysenv_opens :: bool
  symbols :: nvram_syms

definition bind_one :: "bool \<Rightarrow> 'a option \<Rightarrow> 'a option" where
  "bind_one opened p = (if opened then p else None)"

definition nvram_shim_init :: "vendor_libs \<Rightarrow> nvram_syms" where
  "nvram_shim_init l =
     \<lparr>get_lid_by_name = bind_one (nvram_opens l) (get_lid_by_name (symbols l)),
      get_file_desc = bind_one (nvram_opens l) (get_file_desc (symbols l)),
      close_file_desc = bind_one (nvram_opens l) (close_file_desc (symbols l)),
      restore_from_bin_region_one_file = bind_one (nvram_opens l) (restore_from_bin_region_one_file (symbols l)),
      sar_table_id_get = bind_one (sysenv_opens l) (sar_table_id_get (symbols l))\<rparr>"

definition NVM_GetLIDByName :: "nvram_syms \<Rightarrow> string \<Rightarrow> int" where
  "NVM_GetLIDByName g name = (case get_lid_by_name g of None \<Rightarrow> -1 | Some f \<Rightarrow> f name)"

definition NVM_GetFileDesc :: "nvram_syms \<Rightarrow> int \<Rightarrow> int \<times> int \<times> int" where
  "NVM_GetFileDesc g lid = (case get_file_desc g of None \<Rightarrow> (-1, 0, 0) | Some f \<Rightarrow> f lid)"

definition NVM_CloseFileDesc :: "nvram_syms \<Rightarrow> int \<Rightarrow> int \<Rightarrow> bool" where
  "NVM_CloseFileDesc g fd token = (case close_file_desc g of None \<Rightarrow> False | Some f \<Rightarrow> f fd token)"

definition NVM_RestoreFromBinRegion_OneFile :: "nvram_syms \<Rightarrow> int \<Rightarrow> string \<Rightarrow> int" where
  "NVM_RestoreFromBinRegion_OneFile g variant path =
     (case restore_from_bin_region_one_file g of None \<Rightarrow> -1 | Some f \<Rightarrow> f variant path)"

text \<open>The value and the status of the \<open>n\<close>-th question.\<close>

definition mtk_sar_table_id_get :: "nvram_syms \<Rightarrow> nat \<Rightarrow> int \<times> int" where
  "mtk_sar_table_id_get g n = (case sar_table_id_get g of None \<Rightarrow> (0, -1) | Some f \<Rightarrow> f n)"

subsection \<open>Calls and state\<close>

abbreviation CCCI_DEV_MONITOR :: string where "CCCI_DEV_MONITOR \<equiv> ''/dev/ccci_monitor''"
abbreviation CCCI_DEV_IOCTL0 :: string where "CCCI_DEV_IOCTL0 \<equiv> ''/dev/ccci_ioctl0''"
abbreviation CCCI_DEV_CCB_CTRL :: string where "CCCI_DEV_CCB_CTRL \<equiv> ''/dev/ccci_ccb_ctrl''"
abbreviation CCCI_DEV_IPC_5 :: string where "CCCI_DEV_IPC_5 \<equiv> ''/dev/ccci_ipc_5''"

abbreviation CCCI_MD_MSG_FORCE_STOP_REQUEST :: u32 where "CCCI_MD_MSG_FORCE_STOP_REQUEST \<equiv> 0xFAF50001"
abbreviation CCCI_MD_MSG_FLIGHT_STOP_REQUEST :: u32 where "CCCI_MD_MSG_FLIGHT_STOP_REQUEST \<equiv> 0xFAF50002"
abbreviation CCCI_MD_MSG_FORCE_START_REQUEST :: u32 where "CCCI_MD_MSG_FORCE_START_REQUEST \<equiv> 0xFAF50003"
abbreviation CCCI_MD_MSG_FLIGHT_START_REQUEST :: u32 where "CCCI_MD_MSG_FLIGHT_START_REQUEST \<equiv> 0xFAF50004"
abbreviation CCCI_MD_MSG_RESET_REQUEST :: u32 where "CCCI_MD_MSG_RESET_REQUEST \<equiv> 0xFAF50005"
abbreviation CCCI_MD_MSG_EXCEPTION :: u32 where "CCCI_MD_MSG_EXCEPTION \<equiv> 0xFAF50006"
abbreviation CCCI_MD_MSG_SEND_BATTERY_INFO :: u32 where "CCCI_MD_MSG_SEND_BATTERY_INFO \<equiv> 0xFAF50007"
abbreviation CCCI_MAGIC_NUM :: u32 where "CCCI_MAGIC_NUM \<equiv> 0xFFFFFFFF"

datatype ioc =
    GET_MD_STATE | GET_MD_INFO | GET_MD_EX_TYPE | DO_STOP_MD u32 | DO_START_MD | SEND_BATTERY_INFO
  | SET_MD_IMG_EXIST u32 | GET_MD_TYPE | STORE_MD_TYPE u32 | SET_BOOT_DATA "u32 list" | GET_MD_BOOT_MODE
  | IPC_UPDATE_TIME int | IPC_UPDATE_TIMEZONE int

datatype md_call =
    MOpen string | MClose nat | MIoctl nat ioc | MAccess string | MGet string | MSet string string | MSleep nat
  | MNvOpen int | MNvRead int nat | MNvClose int int

text \<open>The answers to a sequence of calls, the last of which is the one answered; an \<open>ioctl\<close> that reads gives a word.\<close>

record md_env =
  e_libs :: vendor_libs
  e_open :: "md_call list \<Rightarrow> nat option"
  e_ioctl :: "md_call list \<Rightarrow> u32 option"
  e_access :: "md_call list \<Rightarrow> bool"
  e_property :: "md_call list \<Rightarrow> string"
  e_read :: "md_call list \<Rightarrow> bytes"
  e_boottime :: "md_call list \<Rightarrow> int"
  e_sys_tz :: "md_call list \<Rightarrow> int option"
  e_gmtoff :: "md_call list \<Rightarrow> int option"
  e_pthread :: bool

record md =
  g_md_id :: int
  g_monitor_fd :: "nat option"
  g_ioctl_fd :: nat
  g_ccb_ctrl_fd :: "nat option"
  g_ipc5_fd :: "nat option"
  g_ipc_fd :: "nat option"
  g_flight_mode :: bool
  g_consecutive_failures :: nat
  g_terminate :: bool
  time_thread :: bool
  done_calls :: "md_call list"

definition md_start :: "int \<Rightarrow> md" where
  "md_start i =
     \<lparr>g_md_id = i, g_monitor_fd = None, g_ioctl_fd = 0, g_ccb_ctrl_fd = None, g_ipc5_fd = None, g_ipc_fd = None,
      g_flight_mode = False, g_consecutive_failures = 0, g_terminate = False, time_thread = False, done_calls = []\<rparr>"

definition md_do :: "md_call \<Rightarrow> md \<Rightarrow> md" where
  "md_do c s = s\<lparr>done_calls := done_calls s @ [c]\<rparr>"

definition md_open :: "md_env \<Rightarrow> string \<Rightarrow> md \<Rightarrow> nat option \<times> md" where
  "md_open e path s = (let s = md_do (MOpen path) s in (e_open e (done_calls s), s))"

definition md_ioctl :: "md_env \<Rightarrow> ioc \<Rightarrow> md \<Rightarrow> u32 option \<times> md" where
  "md_ioctl e req s = (let s = md_do (MIoctl (g_ioctl_fd s) req) s in (e_ioctl e (done_calls s), s))"

text \<open>\<open>property_get\<close> with a default, which a property that is not set or empty gives.\<close>

definition md_property :: "md_env \<Rightarrow> string \<Rightarrow> string \<Rightarrow> md \<Rightarrow> string \<times> md" where
  "md_property e key def s =
     (let s = md_do (MGet key) s; v = e_property e (done_calls s) in (if v = [] then def else v, s))"

subsection \<open>Properties and devices\<close>

definition md_key :: "md \<Rightarrow> string \<Rightarrow> string" where
  "md_key s suffix = ''vendor.mtk.md'' @ dec_int (g_md_id s + 1) @ suffix"

definition set_md_status_prop :: "string \<Rightarrow> md \<Rightarrow> md" where
  "set_md_status_prop v s = md_do (MSet (md_key s ''.status'') v) s"

definition set_md_starttime_prop :: "md_env \<Rightarrow> md \<Rightarrow> md" where
  "set_md_starttime_prop e s = md_do (MSet (md_key s ''.starttime'') (dec_int (e_boottime e (done_calls s)))) s"

text \<open>The suffixes of the modem images, in the order of the bits they stand for.\<close>

definition kImgSuffix :: "string list" where
  "kImgSuffix = [''2g'', ''3g'', ''wg'', ''tg'', ''lwg'', ''ltg'']"

definition probe_image :: "md_env \<Rightarrow> nat \<times> string \<Rightarrow> u32 \<times> md \<Rightarrow> u32 \<times> md" where
  "probe_image e i_suf r =
     (case i_suf of (i, suf) \<Rightarrow> case r of (bitmap, s) \<Rightarrow>
        let s = md_do (MAccess (''/vendor/firmware/modem_'' @ dec_int (g_md_id s + 1) @ ''_'' @ suf @ ''_n.img'')) s
        in (if e_access e (done_calls s) then bitmap OR push_bit i 1 else bitmap, s))"

definition probe_and_report_img_exist :: "md_env \<Rightarrow> md \<Rightarrow> u32 \<times> md" where
  "probe_and_report_img_exist e s =
     (case fold (probe_image e) (zip [0..<length kImgSuffix] kImgSuffix) (0, s) of
        (bitmap, s) \<Rightarrow> (bitmap, snd (md_ioctl e (SET_MD_IMG_EXIST bitmap) s)))"

definition log_md_boot_mode :: "md_env \<Rightarrow> md \<Rightarrow> md" where
  "log_md_boot_mode e s = snd (md_ioctl e GET_MD_BOOT_MODE s)"

definition log_md_info :: "md_env \<Rightarrow> md \<Rightarrow> md" where
  "log_md_info e s = snd (md_ioctl e GET_MD_INFO s)"

subsection \<open>NVRAM\<close>

definition NVRAM_READY_POLL_MS :: nat where "NVRAM_READY_POLL_MS = 200"
definition NVRAM_READY_MAX_RETRY :: nat where "NVRAM_READY_MAX_RETRY = 50"

primrec nvram_ready_loop :: "md_env \<Rightarrow> nat \<Rightarrow> md \<Rightarrow> bool \<times> md" where
  "nvram_ready_loop e 0 s = (False, s)"
| "nvram_ready_loop e (Suc n) s =
     (case md_property e ''vendor.service.nvram_restore'' [] s of (v, s) \<Rightarrow>
        if v \<noteq> [] \<and> v \<noteq> ''0'' then (True, s) else nvram_ready_loop e n (md_do (MSleep NVRAM_READY_POLL_MS) s))"

definition wait_nvram_ready :: "md_env \<Rightarrow> md \<Rightarrow> bool \<times> md" where
  "wait_nvram_ready e s = nvram_ready_loop e NVRAM_READY_MAX_RETRY s"

definition read_md_sbp :: "md_env \<Rightarrow> md \<Rightarrow> nat \<times> md" where
  "read_md_sbp e s =
     (let g = nvram_shim_init (e_libs e);
          lid = NVM_GetLIDByName g ''/mnt/vendor/nvdata/APCFG/APRDCL/MD_SBP''
      in if lid < 0 then (0, s)
         else case NVM_GetFileDesc g lid of (fd, token, sz) \<Rightarrow>
           let s = md_do (MNvOpen lid) s
           in if fd < 0 then (0, s)
              else let sz = (if sz \<le> 0 \<or> sz > 4 then 4 else nat sz);
                       s = md_do (MNvRead fd sz) s;
                       bs = take sz (e_read e (done_calls s))
                   in (if length bs = sz then unat (hd bs) else 0, md_do (MNvClose fd token) s))"

definition nvram_sync_step :: "md_env \<Rightarrow> md \<Rightarrow> nat \<times> md" where
  "nvram_sync_step e s =
     (case wait_nvram_ready e s of (ready, s) \<Rightarrow> if ready then read_md_sbp e s else (0, s))"


subsection \<open>Boot data\<close>

abbreviation MD_DBG_DUMP_ALL :: u32 where "MD_DBG_DUMP_ALL \<equiv> 0x7FFFFFFF"
abbreviation MD_DBG_DUMP_INVALID :: u32 where "MD_DBG_DUMP_INVALID \<equiv> -1"
definition MD_CFG_RAT_STR_BYTES :: nat where "MD_CFG_RAT_STR_BYTES = 24"

text \<open>The string of the radio technologies: cut to 23 characters, filled with zeros.\<close>

definition rat_bytes :: "string \<Rightarrow> bytes" where
  "rat_bytes v =
     (let cut = take (MD_CFG_RAT_STR_BYTES - 1) v in map of_char cut @ replicate (MD_CFG_RAT_STR_BYTES - length cut) 0)"

definition boot_data :: "nat \<Rightarrow> int \<Rightarrow> int \<Rightarrow> string \<Rightarrow> u32 \<Rightarrow> u32 list" where
  "boot_data sbp dbg_dump rat_chk rat md_type =
     [0, of_nat sbp, if dbg_dump \<noteq> 0 then MD_DBG_DUMP_ALL else MD_DBG_DUMP_INVALID, 0, word_of_int rat_chk] @
     map (\<lambda>i. ucast (get_bytes (rat_bytes rat) (4 * i) 4)) [0..<6] @ [md_type, 0, 0, 0, 0]"

definition set_boot_data :: "md_env \<Rightarrow> nat \<Rightarrow> u32 \<Rightarrow> md \<Rightarrow> bool \<times> md" where
  "set_boot_data e sbp md_type s =
     (case md_property e ''persist.vendor.ccci.md1.dbg_dump'' ''0'' s of (dump, s) \<Rightarrow>
      case md_property e ''persist.vendor.md_c2k_cap_dep_check'' ''0'' s of (chk, s) \<Rightarrow>
      case md_property e ''ro.vendor.mtk_protocol1_rat_config'' [] s of (rat, s) \<Rightarrow>
      case md_ioctl e (SET_BOOT_DATA (boot_data sbp (atoi dump) (atoi chk) rat md_type)) s of (r, s) \<Rightarrow> (r \<noteq> None, s))"

definition store_md_type :: "md_env \<Rightarrow> md \<Rightarrow> u32 \<times> md" where
  "store_md_type e s =
     (case md_ioctl e GET_MD_TYPE s of
        (None, s) \<Rightarrow> (0, s)
      | (Some t, s) \<Rightarrow> (t, snd (md_ioctl e (STORE_MD_TYPE t) s)))"

definition send_battery_info :: "md_env \<Rightarrow> md \<Rightarrow> md" where
  "send_battery_info e s = snd (md_ioctl e SEND_BATTERY_INFO s)"

subsection \<open>The time service\<close>

text \<open>Minutes west of Greenwich: the kernel's zone unless it is zero, else the C library's offset in seconds east.\<close>

definition current_tz_minuteswest :: "md_env \<Rightarrow> md \<Rightarrow> int" where
  "current_tz_minuteswest e s =
     (case e_sys_tz e (done_calls s) of
        Some m \<Rightarrow> if m \<noteq> 0 then m else (case e_gmtoff e (done_calls s) of Some g \<Rightarrow> (- g) sdiv 60 | None \<Rightarrow> 0)
      | None \<Rightarrow> (case e_gmtoff e (done_calls s) of Some g \<Rightarrow> (- g) sdiv 60 | None \<Rightarrow> 0))"

definition ipc_ioctl :: "md_env \<Rightarrow> nat \<Rightarrow> ioc \<Rightarrow> md \<Rightarrow> u32 option \<times> md" where
  "ipc_ioctl e fd req s = (let s = md_do (MIoctl fd req) s in (e_ioctl e (done_calls s), s))"

text \<open>What a turn of the thread meets: the timer cannot be set, or the result of the read.\<close>

datatype timer_turn = SetFails | TimerRead nat | TimerEintr | TimerCanceled | TimerFails

fun time_update_thread :: "md_env \<Rightarrow> timer_turn list \<Rightarrow> md \<Rightarrow> md" where
  "time_update_thread e [] s = s"
| "time_update_thread e (t # ts) s =
     (if t = SetFails \<or> t = TimerFails then s
      else if t = TimerRead 8 \<or> t = TimerEintr then time_update_thread e ts s
      else case g_ipc_fd s of
             None \<Rightarrow> time_update_thread e ts s
           | Some fd \<Rightarrow> time_update_thread e ts (snd (ipc_ioctl e fd (IPC_UPDATE_TIME (current_tz_minuteswest e s)) s)))"

definition time_srv_init :: "md_env \<Rightarrow> md \<Rightarrow> md" where
  "time_srv_init e s =
     (case md_open e CCCI_DEV_IPC_5 s of
        (None, s) \<Rightarrow> s\<lparr>g_ipc_fd := None\<rparr>
      | (Some fd, s) \<Rightarrow>
          (case ipc_ioctl e fd (IPC_UPDATE_TIMEZONE (current_tz_minuteswest e s)) (s\<lparr>g_ipc_fd := Some fd\<rparr>) of
             (None, s) \<Rightarrow> s
           | (Some _, s) \<Rightarrow> s\<lparr>time_thread := e_pthread e\<rparr>))"

subsection \<open>Starting, stopping and restarting\<close>

definition do_start_md :: "md_env \<Rightarrow> md \<Rightarrow> bool \<times> md" where
  "do_start_md e s =
     (case md_ioctl e DO_START_MD s of
        (None, s) \<Rightarrow> (False, s)
      | (Some _, s) \<Rightarrow> (True, set_md_starttime_prop e (send_battery_info e s)))"

definition do_stop_md :: "md_env \<Rightarrow> u32 \<Rightarrow> md \<Rightarrow> bool \<times> md" where
  "do_stop_md e flight s = (case md_ioctl e (DO_STOP_MD flight) s of (r, s) \<Rightarrow> (r \<noteq> None, s))"

definition RESTART_BACKOFF_BASE_MS :: nat where "RESTART_BACKOFF_BASE_MS = 1000"
definition RESTART_BACKOFF_MAX_MS :: nat where "RESTART_BACKOFF_MAX_MS = 30000"
definition RESTART_GIVEUP_COUNT :: nat where "RESTART_GIVEUP_COUNT = 5"

primrec backoff_loop :: "nat \<Rightarrow> nat \<Rightarrow> nat" where
  "backoff_loop 0 ms = ms"
| "backoff_loop (Suc n) ms = (if ms < RESTART_BACKOFF_MAX_MS then backoff_loop n (ms * 2) else ms)"

definition backoff_ms :: "nat \<Rightarrow> nat" where
  "backoff_ms failures = min (backoff_loop failures RESTART_BACKOFF_BASE_MS) RESTART_BACKOFF_MAX_MS"

definition log_exception_type :: "md_env \<Rightarrow> md \<Rightarrow> md" where
  "log_exception_type e s = snd (md_ioctl e GET_MD_EX_TYPE s)"

definition restart_md_with_backoff :: "md_env \<Rightarrow> md \<Rightarrow> md" where
  "restart_md_with_backoff e s =
     (let s = set_md_status_prop ''reset'' s
      in if g_consecutive_failures s \<ge> RESTART_GIVEUP_COUNT then s
         else let ms = backoff_ms (g_consecutive_failures s);
                  s = md_do (MSleep ms) (snd (do_stop_md e (if g_flight_mode s then 1 else 0) s))
              in if g_flight_mode s then s
                 else case do_start_md e s of
                        (True, s) \<Rightarrow> set_md_status_prop ''invalid'' (s\<lparr>g_consecutive_failures := 0\<rparr>)
                      | (False, s) \<Rightarrow> s\<lparr>g_consecutive_failures := Suc (g_consecutive_failures s)\<rparr>)"

text \<open>A start on request.\<close>

definition start_requested :: "md_env \<Rightarrow> md \<Rightarrow> md" where
  "start_requested e s = (case do_start_md e s of (ok, s) \<Rightarrow> if ok then set_md_status_prop ''invalid'' s else s)"

definition handle_monitor_message :: "md_env \<Rightarrow> u32 \<Rightarrow> md \<Rightarrow> md" where
  "handle_monitor_message e msg s =
     (if msg = CCCI_MD_MSG_RESET_REQUEST then restart_md_with_backoff e (log_exception_type e s)
      else if msg = CCCI_MD_MSG_EXCEPTION then restart_md_with_backoff e (log_exception_type e (set_md_status_prop ''exception'' s))
      else if msg = CCCI_MD_MSG_FORCE_STOP_REQUEST then set_md_status_prop ''reset'' (snd (do_stop_md e 0 s))
      else if msg = CCCI_MD_MSG_FORCE_START_REQUEST then start_requested e s
      else if msg = CCCI_MD_MSG_FLIGHT_STOP_REQUEST
        then set_md_status_prop ''reset'' (snd (do_stop_md e 1 (s\<lparr>g_flight_mode := True\<rparr>)))
      else if msg = CCCI_MD_MSG_FLIGHT_START_REQUEST then start_requested e (s\<lparr>g_flight_mode := False\<rparr>)
      else if msg = CCCI_MD_MSG_SEND_BATTERY_INFO then send_battery_info e s
      else s)"

text \<open>Waiting for the modem after the first start; \<open>waited\<close> grows by 200 milliseconds each turn.\<close>

function ready_loop :: "md_env \<Rightarrow> nat \<Rightarrow> nat \<Rightarrow> md \<Rightarrow> bool \<times> md" where
  "ready_loop e timeout waited s =
     (if waited \<ge> timeout then (False, s)
      else case md_ioctl e GET_MD_STATE s of (r, s) \<Rightarrow>
        if r = Some 2 then (True, set_md_status_prop ''ready'' s)
        else if r = Some 3 then (False, set_md_status_prop ''exception'' s)
        else ready_loop e timeout (waited + 200) (md_do (MSleep 200) s))"
  by pat_completeness auto
termination
  by (relation "measure (\<lambda>(e, timeout, waited, s). timeout - waited)") auto

declare ready_loop.simps [simp del]

definition poll_md_state_until_ready :: "md_env \<Rightarrow> nat \<Rightarrow> md \<Rightarrow> bool \<times> md" where
  "poll_md_state_until_ready e timeout s = ready_loop e timeout 0 s"

subsection \<open>The loop and \<open>main\<close>\<close>

text \<open>
  A turn of the loop: what \<open>poll\<close> and \<open>read\<close> give, and whether a signal to end has arrived by then.
\<close>

datatype mon_result = PollEintr | PollFails | PollNothing | ReadEintr | ReadFails | ReadBytes bytes

type_synonym mon_turn = "bool \<times> mon_result"

definition mon_message :: "md_env \<Rightarrow> bytes \<Rightarrow> md \<Rightarrow> md" where
  "mon_message e bs s =
     (if length bs < 16 then s
      else if (ucast (get_bytes bs 0 4) :: u32) \<noteq> CCCI_MAGIC_NUM then s
      else handle_monitor_message e (ucast (get_bytes bs 4 4)) s)"

fun exception_loop :: "md_env \<Rightarrow> mon_turn list \<Rightarrow> md \<Rightarrow> md" where
  "exception_loop e [] s = s"
| "exception_loop e ((term, r) # ts) s =
     (if g_terminate s then s
      else let s = s\<lparr>g_terminate := g_terminate s \<or> term\<rparr>
           in case r of
                PollEintr \<Rightarrow> exception_loop e ts s
              | PollFails \<Rightarrow> s
              | PollNothing \<Rightarrow> exception_loop e ts s
              | ReadEintr \<Rightarrow> exception_loop e ts s
              | ReadFails \<Rightarrow> s
              | ReadBytes bs \<Rightarrow> exception_loop e ts (mon_message e (take 16 bs) s))"

definition md_boot :: "md_env \<Rightarrow> md \<Rightarrow> md" where
  "md_boot e s =
     (let s = snd (probe_and_report_img_exist e s); s = log_md_boot_mode e s
      in case nvram_sync_step e s of (sbp, s) \<Rightarrow>
         case store_md_type e s of (md_type, s) \<Rightarrow>
         let s = time_srv_init e (log_md_info e s); s = snd (set_boot_data e sbp md_type s)
         in case do_start_md e s of (ok, s) \<Rightarrow> if ok then snd (poll_md_state_until_ready e 35000 s) else s)"

text \<open>The devices that stay open; the descriptor of the monitor when all that are needed could be opened.\<close>

definition open_devices :: "md_env \<Rightarrow> md \<Rightarrow> nat option \<times> md" where
  "open_devices e s =
     (case md_open e CCCI_DEV_CCB_CTRL s of (ccb, s) \<Rightarrow>
      case md_open e CCCI_DEV_IPC_5 (s\<lparr>g_ccb_ctrl_fd := ccb\<rparr>) of (ipc, s) \<Rightarrow>
      case md_open e CCCI_DEV_MONITOR (s\<lparr>g_ipc5_fd := ipc\<rparr>) of
        (None, s) \<Rightarrow> (None, s)
      | (Some mon, s) \<Rightarrow>
          (case md_open e CCCI_DEV_IOCTL0 (s\<lparr>g_monitor_fd := Some mon\<rparr>) of
             (None, s) \<Rightarrow> (None, md_do (MClose mon) s)
           | (Some io, s) \<Rightarrow> (Some mon, s\<lparr>g_ioctl_fd := io\<rparr>)))"

text \<open>
  The exit code and the state at the end; \<open>arg\<close> is the first argument, \<open>early\<close> tells of a signal before the loop. The thread of
  the time service, which shares nothing with the rest but its own descriptor, is run by itself.
\<close>

definition mdinit_main :: "md_env \<Rightarrow> string option \<Rightarrow> bool \<Rightarrow> mon_turn list \<Rightarrow> int \<times> md" where
  "mdinit_main e arg early ts =
     (case open_devices e (set_md_status_prop ''invalid'' (md_start (case arg of None \<Rightarrow> 0 | Some a \<Rightarrow> atoi a))) of
        (None, s) \<Rightarrow> (1, s)
      | (Some mon, s) \<Rightarrow>
          let s = exception_loop e ts ((md_boot e s)\<lparr>g_terminate := early\<rparr>)
          in (0, md_do (MClose mon) (md_do (MClose (g_ioctl_fd s)) s)))"

end
