(* ===== verification/Modem_Supervision.thy ===== *)
theory Modem_Supervision
  imports Modem_Init
begin

text \<open>
  What the supervisor of the modem does and does not do. The locales carry a property of single calls through the operations:
  one for everything but starting, extended by starts and then by the first boot.
\<close>

subsection \<open>Calls an operation makes\<close>

definition md_adds :: "(md_call \<Rightarrow> bool) \<Rightarrow> md \<Rightarrow> md \<Rightarrow> bool" where
  "md_adds P s t \<longleftrightarrow>
     g_monitor_fd t = g_monitor_fd s \<and> g_ioctl_fd t = g_ioctl_fd s \<and> (\<exists>cs. done_calls t = done_calls s @ cs \<and> list_all P cs)"

lemma md_adds_refl [intro, simp]: "md_adds P s s"
  by (simp add: md_adds_def)

lemma md_adds_do [intro]: "P c \<Longrightarrow> md_adds P s (md_do c s)"
  by (simp add: md_adds_def md_do_def)

lemma md_adds_trans [trans]: "md_adds P s t \<Longrightarrow> md_adds P t u \<Longrightarrow> md_adds P s u"
  by (auto simp: md_adds_def)

lemma md_adds_snd: "md_adds P s (snd x) \<Longrightarrow> x = (r, t) \<Longrightarrow> md_adds P s t"
  by auto

lemma md_adds_cong:
  "done_calls t = done_calls t' \<Longrightarrow> done_calls s = done_calls s' \<Longrightarrow> g_monitor_fd t = g_monitor_fd t' \<Longrightarrow>
   g_monitor_fd s = g_monitor_fd s' \<Longrightarrow> g_ioctl_fd t = g_ioctl_fd t' \<Longrightarrow> g_ioctl_fd s = g_ioctl_fd s' \<Longrightarrow>
   md_adds P s t = md_adds P s' t'"
  by (simp add: md_adds_def)

fun is_start :: "md_call \<Rightarrow> bool" where
  "is_start (MIoctl n DO_START_MD) = True"
| "is_start _ = False"

fun is_close :: "md_call \<Rightarrow> bool" where
  "is_close (MClose n) = True"
| "is_close _ = False"

fun is_ready :: "md_call \<Rightarrow> bool" where
  "is_ready (MSet k v) \<longleftrightarrow> v = ''ready''"
| "is_ready _ = False"

lemma dec_int_not_ready [simp]: "dec_int i \<noteq> ''ready''"
proof
  assume "dec_int i = ''ready''"
  hence "dec_nat (nat i) = ''ready''" by (auto simp: dec_int_def split: if_splits)
  thus False using dec_nat_digits [of "nat i"] by (simp add: is_digit_def)
qed

text \<open>A reflexive and transitive relation that every message keeps is kept by the loop.\<close>

lemma exception_loop_rule:
  assumes "\<And>s. R s s" and tr: "\<And>s t u. R s t \<Longrightarrow> R t u \<Longrightarrow> R s u" and tm: "\<And>s b. R s (s\<lparr>g_terminate := b\<rparr>)"
    and "\<And>tm bs s. (tm, ReadBytes bs) \<in> set ts \<Longrightarrow> R s (mon_message e (take 16 bs) s)"
  shows "R s (exception_loop e ts s)"
  using assms(4)
proof (induction ts arbitrary: s)
  case (Cons t ts)
  obtain b r where t: "t = (b, r)" by (cases t)
  let ?u = "s\<lparr>g_terminate := b\<rparr>"
  have IH: "R v (exception_loop e ts v)" for v using Cons.IH [of v] Cons.prems by (meson list.set_intros(2))
  have msg: "R ?u (exception_loop e ts (mon_message e (take 16 bs) ?u))" if "r = ReadBytes bs" for bs
    by (rule tr [OF Cons.prems [of b bs] IH]) (simp add: t that)
  show ?case
  proof (cases "g_terminate s")
    case False
    thus ?thesis using tr [OF tm IH] tr [OF tm msg] tm by (auto simp: t Let_def split: mon_result.splits)
  qed (simp add: t assms(1))
qed (simp add: assms(1))

locale md_trace =
  fixes e :: md_env and P :: "md_call \<Rightarrow> bool"
  assumes benign: "\<not> is_start c \<Longrightarrow> \<not> is_close c \<Longrightarrow> \<not> is_ready c \<Longrightarrow> P c"
begin

lemma ioctl_P: "req \<noteq> DO_START_MD \<Longrightarrow> md_adds P s (snd (md_ioctl e req s))"
  unfolding md_ioctl_def Let_def snd_conv by (rule md_adds_do, rule benign) (cases req; simp)+

lemma status_P: "v \<noteq> ''ready'' \<Longrightarrow> md_adds P s (set_md_status_prop v s)"
  unfolding set_md_status_prop_def by (rule md_adds_do, rule benign) simp_all

lemma stop_P: "md_adds P s (snd (do_stop_md e fl s))"
  using ioctl_P [of "DO_STOP_MD fl" s] by (auto simp: do_stop_md_def split: prod.splits)

lemma log_P: "md_adds P s (log_exception_type e s)"
  unfolding log_exception_type_def by (rule ioctl_P) simp

lemma battery_P: "md_adds P s (send_battery_info e s)"
  unfolding send_battery_info_def by (rule ioctl_P) simp

text \<open>A restart that starts nothing: it was given up, or the modem is in flight mode.\<close>

lemma no_restart_P:
  assumes "g_consecutive_failures s \<ge> RESTART_GIVEUP_COUNT \<or> g_flight_mode s"
  shows "md_adds P s (restart_md_with_backoff e s)"
proof -
  let ?r = "set_md_status_prop ''reset'' s"
  let ?t = "snd (do_stop_md e (if g_flight_mode ?r then 1 else 0) ?r)"
  have r: "md_adds P s ?r" by (rule status_P) simp
  also have "md_adds P ?r ?t" by (rule stop_P)
  also have "md_adds P ?t (md_do (MSleep n) ?t)" for n by (rule md_adds_do, rule benign) simp_all
  finally show ?thesis using r assms
    by (auto simp: restart_md_with_backoff_def Let_def set_md_status_prop_def do_stop_md_def md_ioctl_def md_do_def split: prod.splits)
qed

end

locale md_trace_starts = md_trace +
  assumes starts: "is_start c \<Longrightarrow> P c"
begin

lemma start_P: "md_adds P s (snd (do_start_md e s))"
proof -
  have *: "md_adds P s (snd (md_ioctl e DO_START_MD s))"
    unfolding md_ioctl_def Let_def snd_conv by (rule md_adds_do, rule starts) simp
  moreover have "md_adds P t (set_md_starttime_prop e (send_battery_info e t))" for t
  proof (rule md_adds_trans [OF battery_P])
    show "md_adds P (send_battery_info e t) (set_md_starttime_prop e (send_battery_info e t))"
      unfolding set_md_starttime_prop_def by (rule md_adds_do, rule benign) simp_all
  qed
  ultimately show ?thesis by (auto simp: do_start_md_def split: prod.splits option.splits intro: md_adds_trans)
qed

lemma start_requested_P: "md_adds P s (start_requested e s)"
  using start_P [of s] status_P [of "''invalid''" "snd (do_start_md e s)"]
  by (auto simp: start_requested_def split: prod.splits intro: md_adds_trans)

lemma restart_P: "md_adds P s (restart_md_with_backoff e s)"
proof (cases "g_consecutive_failures s \<ge> RESTART_GIVEUP_COUNT \<or> g_flight_mode s")
  case False
  let ?r = "set_md_status_prop ''reset'' s"
  let ?t = "md_do (MSleep (backoff_ms (g_consecutive_failures s))) (snd (do_stop_md e 0 ?r))"
  have f: "g_consecutive_failures ?r = g_consecutive_failures s" "g_flight_mode ?r = False" "g_flight_mode ?t = False"
    using False by (simp_all add: set_md_status_prop_def md_do_def do_stop_md_def md_ioctl_def)
  have "md_adds P s ?r" by (rule status_P) simp
  also have "md_adds P ?r (snd (do_stop_md e 0 ?r))" by (rule stop_P)
  also have "md_adds P (snd (do_stop_md e 0 ?r)) ?t" by (rule md_adds_do, rule benign) simp_all
  also have "md_adds P ?t (snd (do_start_md e ?t))" by (rule start_P)
  finally have st: "md_adds P s (snd (do_start_md e ?t))" .
  have iv: "md_adds P u (set_md_status_prop ''invalid'' (u\<lparr>g_consecutive_failures := 0\<rparr>))" for u
    using status_P [of "''invalid''" "u\<lparr>g_consecutive_failures := 0\<rparr>"] by (simp add: md_adds_def)
  have up: "md_adds P s (u\<lparr>g_consecutive_failures := n\<rparr>) = md_adds P s u" for u n by (rule md_adds_cong) simp_all
  show ?thesis using st False
    by (auto simp: restart_md_with_backoff_def Let_def f up split: prod.splits bool.splits intro: md_adds_trans [OF _ iv])
qed (rule no_restart_P)

lemma message_P: "md_adds P s (handle_monitor_message e m s)"
proof -
  have fl: "md_adds P s t = md_adds P (s\<lparr>g_flight_mode := b\<rparr>) t" for t b by (rule md_adds_cong) simp_all
  have ex: "md_adds P s (restart_md_with_backoff e (log_exception_type e (set_md_status_prop ''exception'' s)))"
    by (rule md_adds_trans [OF md_adds_trans [OF status_P log_P] restart_P]) simp
  have st: "md_adds P s (set_md_status_prop ''reset'' (snd (do_stop_md e n s)))" for n s
    by (rule md_adds_trans [OF stop_P status_P]) simp
  have "md_adds P s (set_md_status_prop ''reset'' (snd (do_stop_md e 1 (s\<lparr>g_flight_mode := True\<rparr>))))"
    "md_adds P s (start_requested e (s\<lparr>g_flight_mode := False\<rparr>))"
    using st [of "s\<lparr>g_flight_mode := True\<rparr>" 1] start_requested_P [of "s\<lparr>g_flight_mode := False\<rparr>"] by (simp_all add: fl [symmetric])
  thus ?thesis using ex st md_adds_trans [OF log_P restart_P] start_requested_P battery_P by (auto simp: handle_monitor_message_def)
qed

lemma mon_message_P: "md_adds P s (mon_message e bs s)"
  using message_P by (simp add: mon_message_def)

lemma loop_P: "md_adds P s (exception_loop e ts s)"
proof (rule exception_loop_rule [where R = "md_adds P"])
  show "md_adds P t (t\<lparr>g_terminate := b\<rparr>)" for t b by (simp add: md_adds_def)
qed (auto intro: mon_message_P md_adds_trans)

end

text \<open>The first boot makes no other calls than these, and tells when the modem is ready.\<close>

locale md_trace_boot = md_trace_starts +
  assumes ready: "is_ready c \<Longrightarrow> P c"
begin

lemma open_P: "md_adds P s (snd (md_open e path s))"
  unfolding md_open_def Let_def snd_conv by (rule md_adds_do, rule benign) simp_all

lemma property_P: "md_adds P s (snd (md_property e key d s))"
  unfolding md_property_def Let_def snd_conv by (rule md_adds_do, rule benign) simp_all

lemma any_status_P: "md_adds P s (set_md_status_prop v s)"
  unfolding set_md_status_prop_def by (rule md_adds_do, cases "v = ''ready''") (auto intro: ready benign)

lemma sleep_P: "md_adds P s (md_do (MSleep n) s)"
  by (rule md_adds_do, rule benign) simp_all

lemma probe_P: "md_adds P s (snd (probe_and_report_img_exist e s))"
proof -
  have "md_adds P t (snd (probe_image e x (b, t)))" for x b t
    unfolding probe_image_def by (cases x) (auto simp: Let_def intro!: md_adds_do benign)
  hence "md_adds P (snd r) (snd (probe_image e x r))" for x r by (cases r) simp
  hence "md_adds P (snd r) (snd (fold (probe_image e) xs r))" for xs r
  proof (induction xs arbitrary: r)
    case (Cons x xs)
    show ?case using md_adds_trans [OF Cons.prems Cons.IH [OF Cons.prems]] by simp
  qed simp
  note all = this
  obtain b t where t: "fold (probe_image e) (zip [0..<length kImgSuffix] kImgSuffix) (0, s) = (b, t)" by force
  have "md_adds P s t" using all [of "(0, s)" "zip [0..<length kImgSuffix] kImgSuffix"] by (simp add: t)
  also have "md_adds P t (snd (md_ioctl e (SET_MD_IMG_EXIST b) t))" by (rule ioctl_P) simp
  finally show ?thesis by (simp add: probe_and_report_img_exist_def t)
qed

lemma nvram_loop_P: "md_adds P s (snd (nvram_ready_loop e n s))"
proof (induction n arbitrary: s)
  case (Suc n)
  have "md_adds P t (snd (nvram_ready_loop e n (md_do (MSleep NVRAM_READY_POLL_MS) t)))" for t
    by (rule md_adds_trans [OF sleep_P Suc.IH])
  thus ?case using property_P [of s "''vendor.service.nvram_restore''" "[]"] by (auto split: prod.splits intro: md_adds_trans)
qed simp

lemma sbp_P: "md_adds P s (snd (read_md_sbp e s))"
proof -
  have nv: "md_adds P t (md_do (MNvOpen a) t)" "md_adds P t (md_do (MNvClose a b) (md_do (MNvRead a n) t))" for a b n t
    by (auto intro!: md_adds_trans [OF md_adds_do md_adds_do] md_adds_do benign)
  show ?thesis by (auto simp: read_md_sbp_def Let_def split: prod.splits intro: nv md_adds_trans [OF nv(1) nv(2)])
qed

lemma sync_P: "md_adds P s (snd (nvram_sync_step e s))"
  using nvram_loop_P [of s NVRAM_READY_MAX_RETRY]
  by (auto simp: nvram_sync_step_def wait_nvram_ready_def split: prod.splits intro: md_adds_trans [OF _ sbp_P])

lemma type_P: "md_adds P s (snd (store_md_type e s))"
  using ioctl_P [of GET_MD_TYPE s]
  by (auto simp: store_md_type_def split: prod.splits option.splits intro: md_adds_trans [OF _ ioctl_P])

lemma ipc_P: "req \<noteq> DO_START_MD \<Longrightarrow> md_adds P s (snd (ipc_ioctl e fd req s))"
  unfolding ipc_ioctl_def Let_def snd_conv by (rule md_adds_do, rule benign) (cases req; simp)+

lemma time_P: "md_adds P s (time_srv_init e s)"
proof -
  have ipc: "md_adds P t (snd (ipc_ioctl e fd (IPC_UPDATE_TIMEZONE z) (t\<lparr>g_ipc_fd := f\<rparr>)))" for t fd z f
    using ipc_P [of "IPC_UPDATE_TIMEZONE z" "t\<lparr>g_ipc_fd := f\<rparr>" fd] by (simp add: md_adds_def)
  have up: "md_adds P s (t\<lparr>g_ipc_fd := x\<rparr>) = md_adds P s t" "md_adds P s (t\<lparr>time_thread := y\<rparr>) = md_adds P s t" for t x y
    by (auto simp: md_adds_def)
  show ?thesis using open_P [of s CCCI_DEV_IPC_5]
    by (auto simp: time_srv_init_def up split: prod.splits option.splits dest: md_adds_snd [OF ipc] intro: md_adds_trans)
qed

lemma data_P: "md_adds P s (snd (set_boot_data e sbp ty s))"
proof -
  have io: "md_adds P t (snd (md_ioctl e (SET_BOOT_DATA d) t))" for t d by (rule ioctl_P) simp
  show ?thesis
    by (auto simp: set_boot_data_def split: prod.splits dest!: md_adds_snd [OF property_P] md_adds_snd [OF io] intro: md_adds_trans)
qed

lemma ready_P: "md_adds P s (snd (ready_loop e timeout waited s))"
proof (induction "timeout - waited" arbitrary: waited s rule: less_induct)
  case less
  show ?case
  proof (cases "waited < timeout")
    case True
    obtain r t where t: "md_ioctl e GET_MD_STATE s = (r, t)" by force
    have "md_adds P s (snd (md_ioctl e GET_MD_STATE s))" by (rule ioctl_P) simp
    hence st: "md_adds P s t" by (simp add: t)
    have "md_adds P t (snd (ready_loop e timeout (waited + 200) (md_do (MSleep 200) t)))"
      by (rule md_adds_trans [OF sleep_P less.hyps]) (use True in simp)
    from md_adds_trans [OF st this] md_adds_trans [OF st any_status_P] show ?thesis
      using True by (simp add: ready_loop.simps [of e timeout waited] t)
  qed (simp add: ready_loop.simps)
qed

lemma boot_P: "md_adds P s (md_boot e s)"
proof -
  define t where "t = log_md_boot_mode e (snd (probe_and_report_img_exist e s))"
  obtain sbp u where u: "nvram_sync_step e t = (sbp, u)" by force
  obtain ty v where v: "store_md_type e u = (ty, v)" by force
  define w where "w = snd (set_boot_data e sbp ty (time_srv_init e (log_md_info e v)))"
  obtain ok x where x: "do_start_md e w = (ok, x)" by force
  have "md_adds P s t" unfolding t_def log_md_boot_mode_def by (rule md_adds_trans [OF probe_P ioctl_P]) simp
  also have "md_adds P t u" using sync_P [of t] by (simp add: u)
  also have "md_adds P u v" using type_P [of u] by (simp add: v)
  also have "md_adds P v (log_md_info e v)" unfolding log_md_info_def by (rule ioctl_P) simp
  also have "md_adds P (log_md_info e v) w" unfolding w_def by (rule md_adds_trans [OF time_P data_P])
  also have "md_adds P w x" using start_P [of w] by (simp add: x)
  finally have sx: "md_adds P s x" .
  from sx md_adds_trans [OF sx ready_P] show ?thesis
    by (simp add: md_boot_def poll_md_state_until_ready_def t_def [symmetric] u v w_def [symmetric] x)
qed

end

subsection \<open>What is and is not called\<close>

interpretation still: md_trace e "\<lambda>c. \<not> is_start c" for e
  by unfold_locales simp

interpretation unready: md_trace_starts e "\<lambda>c. \<not> is_ready c" for e
  by unfold_locales (auto elim: is_start.elims)

interpretation held: md_trace_boot e "\<lambda>c. \<not> is_close c" for e
  by unfold_locales (auto elim: is_start.elims is_ready.elims)

lemma devices_opened:
  "open_devices e s = (Some mon, u) \<Longrightarrow>
   g_monitor_fd u = Some mon \<and> done_calls u = done_calls s @ map MOpen [CCCI_DEV_CCB_CTRL, CCCI_DEV_IPC_5, CCCI_DEV_MONITOR, CCCI_DEV_IOCTL0]"
  by (auto simp: open_devices_def md_open_def md_do_def Let_def split: option.splits)



text \<open>A system in which everything works and the modem is ready at once.\<close>

definition easy_env :: md_env where
  "easy_env =
     \<lparr>e_libs = \<lparr>nvram_opens = False, sysenv_opens = False, symbols = \<lparr>get_lid_by_name = None, get_file_desc = None,
        close_file_desc = None, restore_from_bin_region_one_file = None, sar_table_id_get = None\<rparr>\<rparr>,
      e_open = (\<lambda>cs. Some (length cs)), e_ioctl = (\<lambda>_. Some 2), e_access = (\<lambda>_. True), e_property = (\<lambda>_. ''1''), e_read = (\<lambda>_. []),
      e_boottime = (\<lambda>_. 7), e_sys_tz = (\<lambda>_. None), e_gmtoff = (\<lambda>_. Some 3600), e_pthread = True\<rparr>"


subsection \<open>When the modem stays off\<close>

lemmas md_steps = set_md_status_prop_def do_stop_md_def do_start_md_def start_requested_def send_battery_info_def
  set_md_starttime_prop_def log_exception_type_def md_ioctl_def md_do_def Let_def

text \<open>The supervisor keeps the modem off in flight mode and after too many failed restarts.\<close>

definition kept_off :: "md \<Rightarrow> bool" where
  "kept_off s \<longleftrightarrow> g_flight_mode s \<or> RESTART_GIVEUP_COUNT \<le> g_consecutive_failures s"

definition turn_message :: "mon_turn \<Rightarrow> u32" where
  "turn_message t = (case snd t of ReadBytes bs \<Rightarrow> ucast (get_bytes (take 16 bs) 4 4) | _ \<Rightarrow> 0)"

definition asks_start :: "mon_turn \<Rightarrow> bool" where
  "asks_start t \<longleftrightarrow> turn_message t = CCCI_MD_MSG_FORCE_START_REQUEST \<or> turn_message t = CCCI_MD_MSG_FLIGHT_START_REQUEST"

lemma restart_kept_off: "kept_off s \<Longrightarrow> kept_off (restart_md_with_backoff e s)"
  by (auto simp: kept_off_def restart_md_with_backoff_def md_steps)

lemma kept_off_steps [simp]:
  "kept_off (set_md_status_prop v s) = kept_off s" "kept_off (log_exception_type e s) = kept_off s"
  "kept_off (snd (do_stop_md e n s)) = kept_off s" "kept_off (send_battery_info e s) = kept_off s"
  by (simp_all add: kept_off_def md_steps)

lemma message_kept_off:
  assumes "kept_off s" "m \<noteq> CCCI_MD_MSG_FORCE_START_REQUEST" "m \<noteq> CCCI_MD_MSG_FLIGHT_START_REQUEST"
  shows "kept_off (handle_monitor_message e m s) \<and> md_adds (\<lambda>c. \<not> is_start c) s (handle_monitor_message e m s)"
proof -
  let ?a = "md_adds (\<lambda>c. \<not> is_start c)"
  have fl: "?a s (set_md_status_prop ''reset'' (snd (do_stop_md e 1 (s\<lparr>g_flight_mode := True\<rparr>))))"
    by (simp add: md_adds_def md_steps)
  have rs: "?a t (restart_md_with_backoff e t)" if "kept_off t" for t
    using that still.no_restart_P [of t e] by (auto simp: kept_off_def)
  have "?a s (restart_md_with_backoff e (log_exception_type e s))"
    by (rule md_adds_trans [OF still.log_P rs]) (simp add: assms(1))
  moreover have "?a s (restart_md_with_backoff e (log_exception_type e (set_md_status_prop ''exception'' s)))"
    by (rule md_adds_trans [OF md_adds_trans [OF still.status_P still.log_P] rs]) (simp_all add: assms(1))
  moreover have "?a s (set_md_status_prop ''reset'' (snd (do_stop_md e 0 s)))"
    by (rule md_adds_trans [OF still.stop_P still.status_P]) simp
  moreover have "kept_off (s\<lparr>g_flight_mode := True\<rparr>)" by (simp add: kept_off_def)
  ultimately show ?thesis
    using assms fl restart_kept_off still.battery_P by (simp add: handle_monitor_message_def)
qed

text \<open>
  C24: In flight mode, and after five failed restarts, no message starts the modem but a request to start it: not a crash of the modem, and not a
  reset.
\<close>

theorem modem_stays_off:
  assumes "kept_off s" "list_all (\<lambda>t. \<not> asks_start t) ts"
  shows "kept_off (exception_loop e ts s) \<and>
    (\<exists>cs. done_calls (exception_loop e ts s) = done_calls s @ cs \<and> list_all (\<lambda>c. \<not> is_start c) cs)"
proof -
  let ?R = "\<lambda>s t. kept_off s \<longrightarrow> kept_off t \<and> md_adds (\<lambda>c. \<not> is_start c) s t"
  have "?R s (exception_loop e ts s)"
  proof (rule exception_loop_rule [where R = ?R])
    show "?R t (mon_message e (take 16 bs) t)" if "(tm, ReadBytes bs) \<in> set ts" for tm bs t
    proof -
      have "\<not> asks_start (tm, ReadBytes bs)" using assms(2) that by (auto simp: list_all_iff)
      thus ?thesis using message_kept_off [of t "ucast (get_bytes (take 16 bs) 4 4)" e]
        by (simp add: mon_message_def asks_start_def turn_message_def)
    qed
    show "?R t (t\<lparr>g_terminate := b\<rparr>)" for t b by (simp add: kept_off_def md_adds_def)
  qed (auto intro: md_adds_trans)
  thus ?thesis using assms(1) by (simp add: md_adds_def)
qed

definition sample_state :: "bool \<Rightarrow> nat \<Rightarrow> md" where
  "sample_state fl n = (md_start 0)\<lparr>g_flight_mode := fl, g_consecutive_failures := n\<rparr>"

definition message_turn :: "u32 \<Rightarrow> mon_turn" where
  "message_turn m = (False, ReadBytes (replicate 4 0xFF @ map (le_byte (ucast m)) [0..<4] @ replicate 8 0))"

theorem modem_stays_off_witness:
  "kept_off (exception_loop easy_env [message_turn CCCI_MD_MSG_EXCEPTION, message_turn CCCI_MD_MSG_RESET_REQUEST] (sample_state True 0)) \<and>
   (\<exists>cs. done_calls (exception_loop easy_env [message_turn CCCI_MD_MSG_EXCEPTION, message_turn CCCI_MD_MSG_RESET_REQUEST] (sample_state True 0)) = cs \<and>
     list_all (\<lambda>c. \<not> is_start c) cs)"
proof -
  have "kept_off (sample_state True 0)" by (simp add: kept_off_def sample_state_def)
  moreover have "list_all (\<lambda>t. \<not> asks_start t) [message_turn CCCI_MD_MSG_EXCEPTION, message_turn CCCI_MD_MSG_RESET_REQUEST]"
    by code_simp
  ultimately show ?thesis using modem_stays_off [of "sample_state True 0" _ easy_env] by (force simp: sample_state_def md_start_def)
qed

lemma start_requested_failures [simp]: "g_consecutive_failures (start_requested e s) = g_consecutive_failures s"
  by (simp add: md_steps split: option.split)

lemma failures_stay:
  "RESTART_GIVEUP_COUNT \<le> g_consecutive_failures s \<Longrightarrow> RESTART_GIVEUP_COUNT \<le> g_consecutive_failures (handle_monitor_message e m s)"
  by (auto simp: handle_monitor_message_def restart_md_with_backoff_def set_md_status_prop_def do_stop_md_def send_battery_info_def
      log_exception_type_def md_ioctl_def md_do_def Let_def)

text \<open>
  C25: Giving up is final: once five restarts in a row have failed, no crash and no reset restarts the modem again, whatever came in between,
  even when the modem was started on request meanwhile and ran.
\<close>

theorem giving_up_is_final:
  assumes "RESTART_GIVEUP_COUNT \<le> g_consecutive_failures s" "m = CCCI_MD_MSG_EXCEPTION \<or> m = CCCI_MD_MSG_RESET_REQUEST"
    and t: "t = exception_loop e ts s"
  shows "\<exists>cs. done_calls (handle_monitor_message e m t) = done_calls t @ cs \<and> list_all (\<lambda>c. \<not> is_start c) cs"
proof -
  let ?R = "\<lambda>s t. RESTART_GIVEUP_COUNT \<le> g_consecutive_failures s \<longrightarrow> RESTART_GIVEUP_COUNT \<le> g_consecutive_failures t"
  have "?R s t" unfolding t
    by (rule exception_loop_rule [where R = ?R]) (auto simp: mon_message_def intro: failures_stay)
  hence "kept_off t" using assms(1) by (simp add: kept_off_def)
  moreover have "m \<noteq> CCCI_MD_MSG_FORCE_START_REQUEST" "m \<noteq> CCCI_MD_MSG_FLIGHT_START_REQUEST" using assms(2) by auto
  ultimately show ?thesis using message_kept_off [of t m e] by (simp add: md_adds_def)
qed

theorem giving_up_is_final_witness:
  "\<exists>t cs. t = exception_loop easy_env [message_turn CCCI_MD_MSG_FORCE_START_REQUEST] (sample_state False 5) \<and>
     MIoctl 0 DO_START_MD \<in> set (done_calls t) \<and>
     done_calls (handle_monitor_message easy_env CCCI_MD_MSG_EXCEPTION t) = done_calls t @ cs \<and> list_all (\<lambda>c. \<not> is_start c) cs"
proof -
  let ?t = "exception_loop easy_env [message_turn CCCI_MD_MSG_FORCE_START_REQUEST] (sample_state False 5)"
  have "RESTART_GIVEUP_COUNT \<le> g_consecutive_failures (sample_state False 5)" by (simp add: sample_state_def RESTART_GIVEUP_COUNT_def)
  from giving_up_is_final [OF this _ refl, of CCCI_MD_MSG_EXCEPTION easy_env "[message_turn CCCI_MD_MSG_FORCE_START_REQUEST]"]
  have "\<exists>cs. done_calls (handle_monitor_message easy_env CCCI_MD_MSG_EXCEPTION ?t) = done_calls ?t @ cs \<and> list_all (\<lambda>c. \<not> is_start c) cs"
    by simp
  moreover have "MIoctl 0 DO_START_MD \<in> set (done_calls ?t)" by code_simp
  ultimately show ?thesis by blast
qed

text \<open>The calls of a restart up to the start.\<close>

definition restart_calls :: "md \<Rightarrow> md_call list" where
  "restart_calls s =
     done_calls s @ [MSet (md_key s ''.status'') ''reset'', MIoctl (g_ioctl_fd s) (DO_STOP_MD 0),
       MSleep (1000 * 2 ^ g_consecutive_failures s), MIoctl (g_ioctl_fd s) DO_START_MD]"

lemma backoff_loop_doubles: "ms * 2 ^ n \<le> RESTART_BACKOFF_MAX_MS \<Longrightarrow> backoff_loop n ms = ms * 2 ^ n"
proof (induction n arbitrary: ms)
  case (Suc n)
  have "ms * 2 * 1 \<le> ms * 2 * 2 ^ n" by (rule mult_le_mono2) simp
  hence "ms < RESTART_BACKOFF_MAX_MS" using Suc.prems by (cases ms) (auto simp: RESTART_BACKOFF_MAX_MS_def)
  thus ?case using Suc by (simp add: mult.assoc)
qed simp

lemma backoff_doubles:
  assumes "n < RESTART_GIVEUP_COUNT"
  shows "backoff_ms n = 1000 * 2 ^ n"
proof -
  have "(2 :: nat) ^ n \<le> 2 ^ 4" using assms by (intro power_increasing) (simp_all add: RESTART_GIVEUP_COUNT_def)
  hence "1000 * 2 ^ n \<le> RESTART_BACKOFF_MAX_MS" by (simp add: RESTART_BACKOFF_MAX_MS_def)
  thus ?thesis by (simp add: backoff_ms_def RESTART_BACKOFF_BASE_MS_def backoff_loop_doubles)
qed

text \<open>
  A restart after fewer than five failures, out of flight mode: the status is set, the modem is stopped, the wait of a second doubled for each
  failure passes, and the modem is started; a success resets the count of failures, a failure adds to it.
\<close>

lemma restart_in_order:
  assumes "g_consecutive_failures s < RESTART_GIVEUP_COUNT" "\<not> g_flight_mode s"
  shows "case e_ioctl e (restart_calls s) of
      None \<Rightarrow> done_calls (restart_md_with_backoff e s) = restart_calls s \<and>
        g_consecutive_failures (restart_md_with_backoff e s) = Suc (g_consecutive_failures s)
    | Some _ \<Rightarrow> g_consecutive_failures (restart_md_with_backoff e s) = 0 \<and>
        (\<exists>time. done_calls (restart_md_with_backoff e s) = restart_calls s @ [MIoctl (g_ioctl_fd s) SEND_BATTERY_INFO,
          MSet (md_key s ''.starttime'') time, MSet (md_key s ''.status'') ''invalid''])"
proof -
  have k: "md_key (s\<lparr>done_calls := x, g_consecutive_failures := y\<rparr>) = md_key s" "md_key (s\<lparr>done_calls := x\<rparr>) = md_key s"
    "md_key (s\<lparr>g_consecutive_failures := y, done_calls := x\<rparr>) = md_key s" for x y
    by (simp_all add: md_key_def fun_eq_iff)
  show ?thesis using assms
    by (auto simp: restart_md_with_backoff_def md_steps backoff_doubles restart_calls_def k split: option.split)
qed

lemma restart_in_order_example:
  "\<exists>time. done_calls (restart_md_with_backoff easy_env (sample_state False 4)) =
     [MSet ''vendor.mtk.md1.status'' ''reset'', MIoctl 0 (DO_STOP_MD 0), MSleep 16000, MIoctl 0 DO_START_MD,
      MIoctl 0 SEND_BATTERY_INFO, MSet ''vendor.mtk.md1.starttime'' time, MSet ''vendor.mtk.md1.status'' ''invalid'']"
proof -
  have k: "md_key (sample_state False 4) suf = ''vendor.mtk.md1'' @ suf" for suf
  proof -
    have "dec_int 1 = ''1''" by code_simp
    thus ?thesis by (simp add: md_key_def sample_state_def md_start_def)
  qed
  have "g_consecutive_failures (sample_state False 4) < RESTART_GIVEUP_COUNT" "\<not> g_flight_mode (sample_state False 4)"
    by (simp_all add: sample_state_def RESTART_GIVEUP_COUNT_def)
  from restart_in_order [OF this, of easy_env] show ?thesis
    by (simp add: k restart_calls_def easy_env_def) (simp add: sample_state_def md_start_def)
qed

text \<open>The program says that the modem is ready after the first boot only: a restarted modem keeps the status of one that boots.\<close>

lemma never_ready_again: "\<exists>cs. done_calls (exception_loop e ts s) = done_calls s @ cs \<and> list_all (\<lambda>c. \<not> is_ready c) cs"
  using unready.loop_P [of s e ts] by (simp add: md_adds_def)

text \<open>The boot data are 16 words, and the six words of the radio technologies hold the string's bytes, the last of which is zero.\<close>

lemma le_byte_low: "j < 4 \<Longrightarrow> le_byte (ucast (ucast x :: u32)) j = le_byte x j"
  by (rule bit_eqI) (auto simp: le_byte_def bit_simps)

lemma length_rat_bytes: "length (rat_bytes rat) = 24"
  by (simp add: rat_bytes_def MD_CFG_RAT_STR_BYTES_def)

lemma boot_data_layout:
  "length (boot_data sbp d c rat ty) = 16" "rat_bytes rat ! 23 = 0" "boot_data sbp d c rat ty ! 11 = ty"
  "concat (map (\<lambda>w. map (le_byte (ucast w)) [0..<4]) (take 6 (drop 5 (boot_data sbp d c rat ty)))) = rat_bytes rat"
proof -
  let ?r = "rat_bytes rat"
  have "take 6 (drop 5 (boot_data sbp d c rat ty)) = map (\<lambda>i. ucast (get_bytes ?r (4 * i) 4)) [0..<6]"
    by (simp add: boot_data_def)
  moreover have "map (le_byte (ucast (ucast (get_bytes ?r (4 * i) 4) :: u32))) [0..<4] = map (\<lambda>j. ?r ! (4 * i + j)) [0..<4]" for i
    by (simp add: le_byte_low le_byte_get_bytes)
  ultimately have "concat (map (\<lambda>w. map (le_byte (ucast w)) [0..<4]) (take 6 (drop 5 (boot_data sbp d c rat ty)))) =
      concat (map (\<lambda>i. map (\<lambda>j. ?r ! (4 * i + j)) [0..<4]) [0..<6])"
    by (simp only: map_map comp_def)
  also have "\<dots> = map ((!) ?r) [0..<length ?r]" unfolding length_rat_bytes by (simp add: numeral_eq_Suc)
  finally show "concat (map (\<lambda>w. map (le_byte (ucast w)) [0..<4]) (take 6 (drop 5 (boot_data sbp d c rat ty)))) = ?r"
    by (simp only: map_nth)
  show "?r ! 23 = 0" by (simp add: rat_bytes_def MD_CFG_RAT_STR_BYTES_def nth_append)
qed (simp_all add: boot_data_def nth_append)

end
