(* ===== verification/Modem_Rpc.thy ===== *)
theory Modem_Rpc
  imports Modem_Init Fsd_Wire
begin

text \<open>
  The program that answers the questions of the modem that the kernel leaves to it, \<^verbatim>\<open>src/modem/ccci-userspace/rpcd/ccci_rpcd.c\<close>
  with \<^verbatim>\<open>common/ccci_rpc_route.c\<close>. Properties and the vendor library are parameters.
\<close>

abbreviation IPC_RPC_QUERY_AP_SYS_PROPERTY :: u32 where "IPC_RPC_QUERY_AP_SYS_PROPERTY \<equiv> 0x400F"
abbreviation IPC_RPC_SAR_TABLE_IDX_QUERY_OP :: u32 where "IPC_RPC_SAR_TABLE_IDX_QUERY_OP \<equiv> 0x4010"
abbreviation IPC_RPC_AMMS_DRDI_CONTROL :: u32 where "IPC_RPC_AMMS_DRDI_CONTROL \<equiv> 0x4014"
abbreviation IPC_RPC_SAVE_MD_CAPID :: u32 where "IPC_RPC_SAVE_MD_CAPID \<equiv> 0x4015"
abbreviation RPC_API_RESP_ID :: u32 where "RPC_API_RESP_ID \<equiv> 0xFFFF0000"
abbreviation FS_NO_OP :: int where "FS_NO_OP \<equiv> -1"
abbreviation FS_NO_FEATURE :: int where "FS_NO_FEATURE \<equiv> -3"

definition RPC_MAX_BUF_SIZE :: nat where "RPC_MAX_BUF_SIZE = 2048"
definition PROPERTY_KEY_MAX :: nat where "PROPERTY_KEY_MAX = 32"
definition PROPERTY_VALUE_MAX :: nat where "PROPERTY_VALUE_MAX = 92"

text \<open>A packet: 16 bytes of header, the operation, the number of parameters, the parameters.\<close>

record rpc_buffer =
  rpc_op :: u32
  para_num :: u32
  rpc_data :: bytes

definition rpc_size :: nat where "rpc_size = 24"

definition rpc_of :: "bytes \<Rightarrow> rpc_buffer" where
  "rpc_of bs = \<lparr>rpc_op = rd32 bs 16, para_num = rd32 bs 20, rpc_data = drop rpc_size bs\<rparr>"

text \<open>The value of a property and the vendor library's answer may change from one packet to the next.\<close>

record rpc_env =
  rpc_property :: "nat \<Rightarrow> string \<Rightarrow> string"
  rpc_libs :: vendor_libs

text \<open>The bytes written for a response; none when they do not fit.\<close>

definition rpc_send_response :: "u32 \<Rightarrow> u32 \<Rightarrow> bytes \<Rightarrow> bytes option" where
  "rpc_send_response op paras payload =
     (if rpc_size + length payload > RPC_MAX_BUF_SIZE then None
      else Some (replicate 16 0 @ le32 (op OR RPC_API_RESP_ID) @ le32 paras @ payload))"

text \<open>A key is cut to fit its buffer, and is a C string.\<close>

definition property_key :: "bytes \<Rightarrow> string" where
  "property_key bs =
     (let keylen = (if length bs < PROPERTY_KEY_MAX then length bs else PROPERTY_KEY_MAX - 1)
      in map (\<lambda>b. char_of (unat b)) (takeWhile (\<lambda>b. b \<noteq> 0) (take keylen bs)))"

definition handle_query_ap_sys_property :: "rpc_env \<Rightarrow> nat \<Rightarrow> rpc_buffer \<Rightarrow> bytes option" where
  "handle_query_ap_sys_property e n req =
     (let v = take (PROPERTY_VALUE_MAX - 1) (rpc_property e n (property_key (rpc_data req)))
      in rpc_send_response (rpc_op req) 1 (map of_char v @ [0]))"

definition handle_sar_table_idx_query :: "rpc_env \<Rightarrow> nat \<Rightarrow> rpc_buffer \<Rightarrow> bytes option" where
  "handle_sar_table_idx_query e n req =
     (case mtk_sar_table_id_get (nvram_shim_init (rpc_libs e)) n of
        (v, ret) \<Rightarrow> rpc_send_response (rpc_op req) 1 (i32 v))"

definition handle_save_md_capid :: "rpc_env \<Rightarrow> nat \<Rightarrow> rpc_buffer \<Rightarrow> bytes option" where
  "handle_save_md_capid e n req = rpc_send_response (rpc_op req) 0 []"

definition handle_amms_drdi_control :: "rpc_env \<Rightarrow> nat \<Rightarrow> rpc_buffer \<Rightarrow> bytes option" where
  "handle_amms_drdi_control e n req = rpc_send_response (rpc_op req) 1 (i32 FS_NO_FEATURE)"

definition ccci_rpc_is_userspace_op :: "u32 \<Rightarrow> bool" where
  "ccci_rpc_is_userspace_op op \<longleftrightarrow>
     op = IPC_RPC_QUERY_AP_SYS_PROPERTY \<or> op = IPC_RPC_SAR_TABLE_IDX_QUERY_OP \<or> op = IPC_RPC_AMMS_DRDI_CONTROL \<or> op = IPC_RPC_SAVE_MD_CAPID"

definition rpc_handlers :: "(u32 \<times> (rpc_env \<Rightarrow> nat \<Rightarrow> rpc_buffer \<Rightarrow> bytes option)) list" where
  "rpc_handlers =
     [(IPC_RPC_QUERY_AP_SYS_PROPERTY, handle_query_ap_sys_property), (IPC_RPC_SAR_TABLE_IDX_QUERY_OP, handle_sar_table_idx_query),
      (IPC_RPC_AMMS_DRDI_CONTROL, handle_amms_drdi_control), (IPC_RPC_SAVE_MD_CAPID, handle_save_md_capid)]"

definition unknown_op :: "rpc_buffer \<Rightarrow> bytes option" where
  "unknown_op req = rpc_send_response (rpc_op req) 1 (i32 FS_NO_OP)"

definition rpc_dispatch :: "rpc_env \<Rightarrow> nat \<Rightarrow> rpc_buffer \<Rightarrow> bytes option" where
  "rpc_dispatch e n req =
     (if \<not> ccci_rpc_is_userspace_op (rpc_op req) then unknown_op req
      else case map_of rpc_handlers (rpc_op req) of Some h \<Rightarrow> h e n req | None \<Rightarrow> unknown_op req)"

text \<open>The loop of \<open>main\<close>: a failed read ends it; \<open>n\<close> counts the packets. The responses are those written.\<close>

fun rpcd_loop :: "rpc_env \<Rightarrow> nat \<Rightarrow> bytes option list \<Rightarrow> bytes list" where
  "rpcd_loop e n [] = []"
| "rpcd_loop e n (None # ms) = []"
| "rpcd_loop e n (Some m # ms) =
     (let m = take RPC_MAX_BUF_SIZE m
      in if length m < rpc_size then rpcd_loop e n ms
         else (case rpc_dispatch e n (rpc_of m) of None \<Rightarrow> [] | Some r \<Rightarrow> [r]) @ rpcd_loop e (Suc n) ms)"

definition rpcd_main :: "rpc_env \<Rightarrow> bytes option list \<Rightarrow> bytes list" where
  "rpcd_main e ms = rpcd_loop e 0 ms"

subsection \<open>Every question is answered\<close>

text \<open>The table of the handlers has an entry for exactly the operations that the router gives to this program.\<close>

lemma handlers_match_route: "ccci_rpc_is_userspace_op op \<longleftrightarrow> map_of rpc_handlers op \<noteq> None"
  by (auto simp: ccci_rpc_is_userspace_op_def rpc_handlers_def)

definition answers :: "bytes \<Rightarrow> bytes \<Rightarrow> bool" where
  "answers m r \<longleftrightarrow> length r \<le> RPC_MAX_BUF_SIZE \<and> rpc_op (rpc_of r) = rpc_op (rpc_of m) OR RPC_API_RESP_ID"

lemma response_of:
  assumes "rpc_send_response op p d = Some r"
  shows "length r \<le> RPC_MAX_BUF_SIZE \<and> rpc_of r = \<lparr>rpc_op = op OR RPC_API_RESP_ID, para_num = p, rpc_data = d\<rparr>"
proof -
  have r: "r = replicate 16 0 @ le32 (op OR RPC_API_RESP_ID) @ le32 p @ d" "length r \<le> RPC_MAX_BUF_SIZE"
    using assms by (auto simp: rpc_send_response_def rpc_size_def split: if_splits)
  have "rd32 r 16 = op OR RPC_API_RESP_ID" unfolding r
    using rd32_le32 [of "replicate 16 0" "op OR RPC_API_RESP_ID" "le32 p @ d"] by simp
  moreover have "rd32 r 20 = p" unfolding r
    using rd32_le32 [of "replicate 16 0 @ le32 (op OR RPC_API_RESP_ID)" p d] by simp
  ultimately show ?thesis using r by (simp add: rpc_of_def rpc_size_def)
qed

lemma small_response: "length d \<le> 100 \<Longrightarrow> \<exists>r. rpc_send_response op p d = Some r"
  by (simp add: rpc_send_response_def rpc_size_def RPC_MAX_BUF_SIZE_def)

lemma dispatch_small: "\<exists>p d. length d \<le> 100 \<and> rpc_dispatch e n req = rpc_send_response (rpc_op req) p d"
proof -
  define ok where "ok x \<longleftrightarrow> (\<exists>p d. length d \<le> 100 \<and> x = rpc_send_response (rpc_op req) p d)" for x
  have ok: "length d \<le> 100 \<Longrightarrow> ok (rpc_send_response (rpc_op req) p d)" for p d by (auto simp: ok_def)
  have "ok (handle_query_ap_sys_property e n req)" "ok (handle_save_md_capid e n req)" "ok (handle_amms_drdi_control e n req)"
    "ok (handle_sar_table_idx_query e n req)" "ok (unknown_op req)"
    by (auto simp: handle_query_ap_sys_property_def handle_save_md_capid_def handle_amms_drdi_control_def handle_sar_table_idx_query_def
        unknown_op_def Let_def PROPERTY_VALUE_MAX_def i32_def intro!: ok split: prod.splits)
  moreover have "rpc_dispatch e n req \<in> {handle_query_ap_sys_property e n req, handle_sar_table_idx_query e n req,
      handle_amms_drdi_control e n req, handle_save_md_capid e n req, unknown_op req}"
    by (auto simp: rpc_dispatch_def rpc_handlers_def)
  ultimately have "ok (rpc_dispatch e n req)" by auto
  thus ?thesis by (simp add: ok_def)
qed

lemma dispatch_answers: "\<exists>r. rpc_dispatch e n (rpc_of m) = Some r \<and> answers m r"
proof -
  obtain p d where "length d \<le> 100" "rpc_dispatch e n (rpc_of m) = rpc_send_response (rpc_op (rpc_of m)) p d"
    using dispatch_small by blast
  thus ?thesis using small_response [of d] response_of by (metis answers_def rpc_buffer.select_convs(1))
qed

text \<open>
  C26: Every packet that is long enough to be one gets exactly one answer, in the order of the packets; the answer fits the buffer and carries the
  operation of its question, whether the operation is known or not.
\<close>

theorem rpc_answers_every_question:
  "list_all2 answers (filter (\<lambda>m. rpc_size \<le> length m) (map (take RPC_MAX_BUF_SIZE) ms)) (rpcd_main e (map Some ms))"
proof -
  have "list_all2 answers (filter (\<lambda>m. rpc_size \<le> length m) (map (take RPC_MAX_BUF_SIZE) ms)) (rpcd_loop e n (map Some ms))" for n
  proof (induction ms arbitrary: n)
    case (Cons m ms)
    obtain r where "rpc_dispatch e n (rpc_of (take RPC_MAX_BUF_SIZE m)) = Some r" "answers (take RPC_MAX_BUF_SIZE m) r"
      using dispatch_answers by blast
    thus ?case using Cons.IH by (simp add: Let_def not_less del: length_take)
  qed simp
  thus ?thesis by (simp add: rpcd_main_def)
qed

text \<open>The answer to a question for a property is its value, up to 91 characters, with its terminating zero.\<close>

lemma property_answer:
  assumes "rpc_op req = IPC_RPC_QUERY_AP_SYS_PROPERTY"
  shows "\<exists>r. rpc_dispatch e n req = Some r \<and>
    rpc_data (rpc_of r) = map of_char (take 91 (rpc_property e n (property_key (rpc_data req)))) @ [0]"
proof -
  let ?d = "map of_char (take 91 (rpc_property e n (property_key (rpc_data req)))) @ [0]"
  have "rpc_dispatch e n req = rpc_send_response (rpc_op req) 1 ?d"
    using assms by (simp add: rpc_dispatch_def ccci_rpc_is_userspace_op_def rpc_handlers_def handle_query_ap_sys_property_def PROPERTY_VALUE_MAX_def)
  moreover have "length ?d \<le> 100" by simp
  then obtain r where "rpc_send_response (rpc_op req) 1 ?d = Some r" using small_response by blast
  ultimately show ?thesis using response_of by fastforce
qed

end
